(* ===== verification/Prelude.thy ===== *)
theory Prelude
  imports Complex_Main
begin

text \<open>
  Shared vocabulary of the development: results of fallible operations, the list operations
  the TypeScript sources use (\<^verbatim>\<open>slice(-n)\<close>, \<^verbatim>\<open>findIndex\<close>, a backward scan, a write
  at an index), and two interfaces that several components share: a trail that keeps only its
  newest entries, and a loop that is bounded by a budget.
\<close>

section \<open>Results\<close>

named_theorems result_simps "unfolding results of fallible operations"

definition bind_result :: "'e + 'a \<Rightarrow> ('a \<Rightarrow> 'e + 'b) \<Rightarrow> 'e + 'b" where
  "bind_result r f = (case r of Inl e \<Rightarrow> Inl e | Inr a \<Rightarrow> f a)"

lemma bind_result_simps [simp, result_simps]:
  "bind_result (Inl e) f = Inl e"
  "bind_result (Inr a) f = f a"
  by (simp_all add: bind_result_def)

lemma bind_result_eq_Inr [result_simps]:
  "bind_result r f = Inr b \<longleftrightarrow> (\<exists>a. r = Inr a \<and> f a = Inr b)"
  by (cases r) auto

lemma bind_result_eq_Inl [result_simps]:
  "bind_result r f = Inl e \<longleftrightarrow> r = Inl e \<or> (\<exists>a. r = Inr a \<and> f a = Inl e)"
  by (cases r) auto

text \<open>A loop whose body may throw: the first error ends it.\<close>

fun fold_result :: "('s \<Rightarrow> 'a \<Rightarrow> 'e + 's) \<Rightarrow> 's \<Rightarrow> 'a list \<Rightarrow> 'e + 's" where
  "fold_result f s [] = Inr s"
| "fold_result f s (x # xs) = (case f s x of Inl e \<Rightarrow> Inl e | Inr s' \<Rightarrow> fold_result f s' xs)"

lemma fold_result_append:
  "fold_result f s (xs @ ys) = bind_result (fold_result f s xs) (\<lambda>s'. fold_result f s' ys)"
  by (induction xs arbitrary: s) (auto split: sum.splits)

lemma fold_result_invariant:
  assumes "fold_result f s xs = Inr s'" and "I s"
    and "\<And>a x b. x \<in> set xs \<Longrightarrow> I a \<Longrightarrow> f a x = Inr b \<Longrightarrow> I b"
  shows "I s'"
  using assms
proof (induction xs arbitrary: s)
  case Nil
  then show ?case by simp
next
  case (Cons x xs)
  from Cons.prems(1) obtain s1 where s1: "f s x = Inr s1" "fold_result f s1 xs = Inr s'"
    by (auto split: sum.splits)
  moreover have "I s1" using Cons.prems(2,3) s1(1) by auto
  ultimately show ?case using Cons.IH Cons.prems(3) by (meson list.set_intros(2))
qed

text \<open>A check run on every element, in order.\<close>

definition check_all :: "('a \<Rightarrow> 'e option) \<Rightarrow> 'a list \<Rightarrow> 'e option" where
  "check_all f xs = (case List.find (\<lambda>x. f x \<noteq> None) xs of None \<Rightarrow> None | Some x \<Rightarrow> f x)"

lemma check_all_None: "check_all f xs = None \<longleftrightarrow> (\<forall>x \<in> set xs. f x = None)"
proof (cases "\<forall>x \<in> set xs. f x = None")
  case True
  then have "List.find (\<lambda>x. f x \<noteq> None) xs = None" by (simp add: find_None_iff)
  with True show ?thesis unfolding check_all_def by simp
next
  case False
  then have "List.find (\<lambda>x. f x \<noteq> None) xs \<noteq> None" by (auto simp: find_None_iff)
  then obtain x where x: "List.find (\<lambda>x. f x \<noteq> None) xs = Some x" by blast
  then have "f x \<noteq> None" by (simp add: find_Some_iff) blast
  with x False show ?thesis unfolding check_all_def by auto
qed

section \<open>Actions\<close>

text \<open>
  An operation that reads and changes a world and may throw: what was changed before the throw
  stays changed, as with the writes of an asynchronous method.
\<close>

type_synonym ('w, 'e, 'a) action = "'w \<Rightarrow> ('e + 'a) \<times> 'w"

definition act_return :: "'a \<Rightarrow> ('w, 'e, 'a) action" where
  "act_return a w = (Inr a, w)"

definition act_throw :: "'e \<Rightarrow> ('w, 'e, 'a) action" where
  "act_throw e w = (Inl e, w)"

definition act_bind :: "('w, 'e, 'a) action \<Rightarrow> ('a \<Rightarrow> ('w, 'e, 'b) action) \<Rightarrow> ('w, 'e, 'b) action" where
  "act_bind m f w = (case m w of (Inl e, w1) \<Rightarrow> (Inl e, w1) | (Inr a, w1) \<Rightarrow> f a w1)"

definition act_then :: "('w, 'e, 'a) action \<Rightarrow> ('w, 'e, 'b) action \<Rightarrow> ('w, 'e, 'b) action" where
  "act_then m n = act_bind m (\<lambda>_. n)"

definition act_when :: "bool \<Rightarrow> ('w, 'e, unit) action \<Rightarrow> ('w, 'e, unit) action" where
  "act_when b m = (if b then m else act_return ())"

named_theorems act_simps "the operations of the world"

lemmas act_core [act_simps] = act_return_def act_throw_def act_bind_def act_then_def act_when_def

lemma act_bind_Inr:
  "act_bind m f w = (Inr b, w') \<longleftrightarrow> (\<exists>a w1. m w = (Inr a, w1) \<and> f a w1 = (Inr b, w'))"
  by (auto simp: act_bind_def split: prod.splits sum.splits)

lemma act_bind_Inl:
  "act_bind m f w = (Inl e, w') \<longleftrightarrow>
     m w = (Inl e, w') \<or> (\<exists>a w1. m w = (Inr a, w1) \<and> f a w1 = (Inl e, w'))"
  by (auto simp: act_bind_def split: prod.splits sum.splits)

section \<open>Lists\<close>

text \<open>\<^verbatim>\<open>xs.slice(-n)\<close> for a positive \<open>n\<close>.\<close>

definition slice_last :: "nat \<Rightarrow> 'a list \<Rightarrow> 'a list" where
  "slice_last n xs = drop (length xs - n) xs"

lemma length_slice_last [simp]: "length (slice_last n xs) = min n (length xs)"
  by (simp add: slice_last_def)

lemma slice_last_all: "length xs \<le> n \<Longrightarrow> slice_last n xs = xs"
  by (simp add: slice_last_def)

lemma slice_last_slice_last_append:
  "slice_last n (slice_last n xs @ ys) = slice_last n (xs @ ys)"
proof (cases "length xs \<le> n")
  case True
  then show ?thesis by (simp add: slice_last_all)
next
  case False
  then show ?thesis
    by (cases "length ys \<le> n") (auto simp: slice_last_def add.commute drop_all)
qed

lemma set_slice_last: "set (slice_last n xs) \<subseteq> set xs"
  by (simp add: slice_last_def set_drop_subset)

text \<open>\<^verbatim>\<open>xs.findIndex(p)\<close>, with \<open>None\<close> for the source's \<open>-1\<close>.\<close>

fun find_index :: "('a \<Rightarrow> bool) \<Rightarrow> 'a list \<Rightarrow> nat option" where
  "find_index p [] = None"
| "find_index p (x # xs) = (if p x then Some 0 else map_option Suc (find_index p xs))"

lemma find_index_None: "find_index p xs = None \<longleftrightarrow> (\<forall>x \<in> set xs. \<not> p x)"
  by (induction xs) auto

lemma find_index_Some:
  "find_index p xs = Some i \<longleftrightarrow> i < length xs \<and> p (xs ! i) \<and> (\<forall>j < i. \<not> p (xs ! j))"
proof (induction xs arbitrary: i)
  case Nil
  then show ?case by simp
next
  case (Cons x xs)
  show ?case
  proof (cases i)
    case 0
    then show ?thesis by auto
  next
    case (Suc k)
    then show ?thesis by (auto simp: Cons.IH All_less_Suc2)
  qed
qed

text \<open>The backward scan \<^verbatim>\<open>for (let i = n - 1; i >= 0; i--) if (p(i)) return i\<close>.\<close>

fun scan_back :: "(nat \<Rightarrow> bool) \<Rightarrow> nat \<Rightarrow> nat option" where
  "scan_back p 0 = None"
| "scan_back p (Suc i) = (if p i then Some i else scan_back p i)"

lemma scan_back_Some:
  "scan_back p n = Some i \<longleftrightarrow> i < n \<and> p i \<and> (\<forall>j. i < j \<and> j < n \<longrightarrow> \<not> p j)"
  by (induction n) (auto simp: less_Suc_eq)

lemma scan_back_None: "scan_back p n = None \<longleftrightarrow> (\<forall>j < n. \<not> p j)"
  by (induction n) (auto simp: less_Suc_eq)

lemma scan_back_less: "scan_back p n = Some i \<Longrightarrow> i < n"
  by (simp add: scan_back_Some)

text \<open>
  Assignment through a reference to an element: \<^verbatim>\<open>f(xs[i])\<close> mutates in place. Out of range
  the source would dereference \<open>undefined\<close>; callers guard the index, and the model leaves the
  list unchanged there.
\<close>

definition update_at :: "nat \<Rightarrow> ('a \<Rightarrow> 'a) \<Rightarrow> 'a list \<Rightarrow> 'a list" where
  "update_at i f xs = (if i < length xs then xs[i := f (xs ! i)] else xs)"

lemma length_update_at [simp]: "length (update_at i f xs) = length xs"
  by (simp add: update_at_def)

lemma nth_update_at: "j < length xs \<Longrightarrow> update_at i f xs ! j = (if i = j then f (xs ! j) else xs ! j)"
  by (simp add: update_at_def)

text \<open>The counted loop \<^verbatim>\<open>for (let i = lo; i <= hi; i++) f(xs[i])\<close>.\<close>

definition update_range :: "nat \<Rightarrow> nat \<Rightarrow> ('a \<Rightarrow> 'a) \<Rightarrow> 'a list \<Rightarrow> 'a list" where
  "update_range lo hi f xs =
     map (\<lambda>(i, x). if lo \<le> i \<and> i \<le> hi then f x else x) (enumerate 0 xs)"

lemma length_update_range [simp]: "length (update_range lo hi f xs) = length xs"
  by (simp add: update_range_def)

lemma nth_update_range:
  "j < length xs \<Longrightarrow>
     update_range lo hi f xs ! j = (if lo \<le> j \<and> j \<le> hi then f (xs ! j) else xs ! j)"
  by (simp add: update_range_def nth_enumerate_eq)

section \<open>Strings\<close>

text \<open>
  A string is a list of characters; the white space \<^verbatim>\<open>trim()\<close> removes is the part of
  JavaScript's white space below code point 256.
\<close>

definition is_space :: "char \<Rightarrow> bool" where
  "is_space c \<longleftrightarrow> of_char c \<in> {9, 10, 11, 12, 13, 32, 160 :: nat}"

definition js_trim :: "string \<Rightarrow> string" where
  "js_trim s = rev (dropWhile is_space (rev (dropWhile is_space s)))"

definition blank :: "string \<Rightarrow> bool" where
  "blank s \<longleftrightarrow> js_trim s = []"

lemma js_trim_Nil [simp]: "js_trim [] = []"
  by (simp add: js_trim_def)

lemma blank_Nil [simp]: "blank []"
  by (simp add: blank_def)

text \<open>\<^verbatim>\<open>toLowerCase()\<close> on the code points below 256.\<close>

definition lower :: "char \<Rightarrow> char" where
  "lower c = (let n = of_char c :: nat
     in if 65 \<le> n \<and> n \<le> 90 \<or> 192 \<le> n \<and> n \<le> 222 \<and> n \<noteq> 215 then char_of (n + 32) else c)"

text \<open>An absent or empty string is falsy; \<^verbatim>\<open>x?.trim() || null\<close> is \<open>None\<close> for both.\<close>

definition nonempty :: "string option \<Rightarrow> string option" where
  "nonempty s = (case s of None \<Rightarrow> None | Some t \<Rightarrow> if t = [] then None else Some t)"

lemma nonempty_Some: "nonempty s = Some t \<longleftrightarrow> s = Some t \<and> t \<noteq> []"
  by (cases s) (auto simp: nonempty_def)

text \<open>The decimal text of a number, as a template literal prints it.\<close>

fun digits :: "nat \<Rightarrow> string" where
  "digits n = (if n < 10 then [char_of (48 + n)] else digits (n div 10) @ [char_of (48 + n mod 10)])"

declare digits.simps [simp del]

definition digits_value :: "string \<Rightarrow> nat" where
  "digits_value s = foldl (\<lambda>v c. 10 * v + (of_char c - 48)) 0 s"

lemma digits_value_digits: "digits_value (digits n) = n"
proof (induction n rule: digits.induct)
  case (1 n)
  have c: "of_char (char_of (48 + m) :: char) = 48 + m" if "m < 10" for m :: nat
    using that by simp
  show ?case
  proof (cases "n < 10")
    case True
    then show ?thesis using c [of n] by (simp add: digits.simps [of n] digits_value_def)
  next
    case False
    have "digits_value (digits n) = 10 * digits_value (digits (n div 10)) + n mod 10"
      using False c [of "n mod 10"] by (simp add: digits.simps [of n] digits_value_def)
    with 1 [OF False] show ?thesis by simp
  qed
qed

lemma digits_inject [simp]: "digits m = digits n \<longleftrightarrow> m = n"
  by (metis digits_value_digits)

text \<open>\<^verbatim>\<open>x ?? d\<close> and \<^verbatim>\<open>xs ?? []\<close>.\<close>

definition or_else :: "'a option \<Rightarrow> 'a \<Rightarrow> 'a" where
  "or_else x d = (case x of None \<Rightarrow> d | Some y \<Rightarrow> y)"

lemma or_else_simps [simp]: "or_else None d = d" "or_else (Some y) d = y"
  by (simp_all add: or_else_def)

definition list_of :: "'a list option \<Rightarrow> 'a list" where
  "list_of x = (case x of None \<Rightarrow> [] | Some xs \<Rightarrow> xs)"

lemma list_of_simps [simp]: "list_of None = []" "list_of (Some xs) = xs"
  by (simp_all add: list_of_def)

section \<open>A trail that keeps its newest entries\<close>

text \<open>
  The run's failure trail, its output trail and the attempt logs of the remediation loops ride
  in a record that is re-serialised on every write, so each keeps only its newest \<open>cap\<close>
  entries. The interface is the append operation and its one law.
\<close>

locale capped_trail =
  fixes cap :: nat
    and append_trail :: "'a list \<Rightarrow> 'a list \<Rightarrow> 'a list"
  assumes append_trail: "append_trail tr new = slice_last cap (tr @ new)"
begin

lemma trail_bounded: "length (append_trail tr new) \<le> cap"
  by (simp add: append_trail)

lemma trail_keeps_all: "length tr + length new \<le> cap \<Longrightarrow> append_trail tr new = tr @ new"
  by (simp add: append_trail slice_last_all)

lemma trail_newest:
  assumes "length new \<le> cap"
  shows "\<exists>old. append_trail tr new = old @ new"
  using assms by (auto simp: append_trail slice_last_def)

lemma trail_suffix: "\<exists>dropped. tr @ new = dropped @ append_trail tr new"
  unfolding append_trail slice_last_def by (metis append_take_drop_id)

lemma trail_compose: "append_trail (append_trail tr xs) ys = append_trail tr (xs @ ys)"
  by (simp add: append_trail slice_last_slice_last_append)

lemma trail_origin: "set (append_trail tr new) \<subseteq> set tr \<union> set new"
  using set_slice_last [of cap "tr @ new"] by (auto simp: append_trail)

end

section \<open>A loop bounded by a budget\<close>

text \<open>
  A companion's rework rounds, a judge's bounces, a ralph step's iterations and a gate's helper
  dispatches are one shape: a decision that may ask for another round, and a charge that every
  round pays. \<open>rounds\<close> is how many rounds the loop runs on a list of verdicts.
\<close>

fun rounds :: "('s \<Rightarrow> 'v \<Rightarrow> bool) \<Rightarrow> ('s \<Rightarrow> 's) \<Rightarrow> 's \<Rightarrow> 'v list \<Rightarrow> nat" where
  "rounds again charge s [] = 0"
| "rounds again charge s (v # vs) =
     (if again s v then Suc (rounds again charge (charge s) vs) else 0)"

locale budgeted_loop =
  fixes spent :: "'s \<Rightarrow> nat"
    and budget :: "'s \<Rightarrow> nat"
    and again :: "'s \<Rightarrow> 'v \<Rightarrow> bool"
    and charge :: "'s \<Rightarrow> 's"
  assumes again_in_budget: "again s v \<Longrightarrow> spent s < budget s"
    and charge_spent: "spent (charge s) = Suc (spent s)"
    and charge_budget: "budget (charge s) = budget s"
begin

lemma rounds_bounded: "rounds again charge s vs \<le> budget s - spent s"
proof (induction vs arbitrary: s)
  case Nil
  then show ?case by simp
next
  case (Cons v vs)
  have "rounds again charge (charge s) vs \<le> budget s - Suc (spent s)"
    using Cons.IH [of "charge s"] by (simp add: charge_spent charge_budget)
  then show ?case using again_in_budget [of s v] by (auto simp: Suc_diff_Suc)
qed

lemma exhausted_stops: "budget s \<le> spent s \<Longrightarrow> \<not> again s v"
  using again_in_budget by fastforce

lemma within_budget: "spent s \<le> budget s \<Longrightarrow> spent s + rounds again charge s vs \<le> budget s"
  using rounds_bounded [of s vs] by simp

end

end
