(* ===== verification/Verdicts.thy ===== *)
theory Verdicts
  imports Prelude
begin

text \<open>
  The pure verdict rules of the delivery engine: the CI gate's reduction of check runs
  (\<^verbatim>\<open>kernel/src/domain/gate-logic.ts\<close>), the judge's disposition
  (\<^verbatim>\<open>judge-logic.ts\<close>), the companion's disposition (\<^verbatim>\<open>companion-logic.ts\<close>) and the severity
  predicates the companion reads (\<^verbatim>\<open>contracts/src/step-decisions.ts\<close>). Scores and thresholds
  are JavaScript numbers between 0 and 1; they are compared and never computed with, so they
  are exact rationals here.
\<close>

section \<open>CI verdicts\<close>

record ci_check =
  cc_name :: string
  cc_status :: string
  cc_conclusion :: "string option"
  cc_url :: "string option"

record repo_ci_status =
  rc_repo :: string
  rc_headSha :: "string option"
  rc_checks :: "ci_check list"

datatype ci_verdict = CiNone | CiPending | CiSuccess | CiFailure

definition NON_FAILING_CONCLUSIONS :: "string set" where
  "NON_FAILING_CONCLUSIONS = {''success'', ''neutral'', ''skipped'', ''stale''}"

text \<open>\<^verbatim>\<open>check.conclusion ?? ''\<close> is the empty string for a missing conclusion.\<close>

definition conclusion_of :: "ci_check \<Rightarrow> string" where
  "conclusion_of c = (case cc_conclusion c of None \<Rightarrow> [] | Some s \<Rightarrow> s)"

definition completed :: "ci_check \<Rightarrow> bool" where
  "completed c \<longleftrightarrow> cc_status c = ''completed''"

definition failing :: "ci_check \<Rightarrow> bool" where
  "failing c \<longleftrightarrow> completed c \<and> conclusion_of c \<notin> NON_FAILING_CONCLUSIONS"

text \<open>The loop of \<^verbatim>\<open>aggregateCi\<close>: the flag \<open>pending\<close> and the early return on a failure.\<close>

fun aggregateCi_loop :: "bool \<Rightarrow> ci_check list \<Rightarrow> ci_verdict" where
  "aggregateCi_loop pending [] = (if pending then CiPending else CiSuccess)"
| "aggregateCi_loop pending (c # cs) =
     (if \<not> completed c then aggregateCi_loop True cs
      else if conclusion_of c \<notin> NON_FAILING_CONCLUSIONS then CiFailure
      else aggregateCi_loop pending cs)"

definition aggregateCi :: "ci_check list \<Rightarrow> ci_verdict" where
  "aggregateCi checks = (if checks = [] then CiNone else aggregateCi_loop False checks)"

definition isCiGreen :: "ci_verdict \<Rightarrow> bool" where
  "isCiGreen v \<longleftrightarrow> v = CiSuccess \<or> v = CiNone"

record failing_check =
  fc_name :: string
  fc_conclusion :: "string option"
  fc_url :: "string option"

definition listFailingChecks :: "ci_check list \<Rightarrow> failing_check list" where
  "listFailingChecks checks =
     map (\<lambda>c. \<lparr>fc_name = cc_name c, fc_conclusion = cc_conclusion c, fc_url = cc_url c\<rparr>)
       (filter failing checks)"

definition aggregateRepoCi :: "repo_ci_status list \<Rightarrow> ci_verdict" where
  "aggregateRepoCi repos = aggregateCi (concat (map rc_checks repos))"

definition listFailingChecksAcrossRepos :: "repo_ci_status list \<Rightarrow> (failing_check \<times> string) list" where
  "listFailingChecksAcrossRepos repos =
     concat (map (\<lambda>r. map (\<lambda>c. (c, rc_repo r)) (listFailingChecks (rc_checks r))) repos)"

text \<open>
  \<^verbatim>\<open>headFields\<close>: the scalar head sha of the first entry, and the per-repository map for a
  multi-repository block only. A head sha that is \<open>null\<close> or empty is falsy and left out;
  \<^verbatim>\<open>Object.fromEntries\<close> lets a later entry overwrite an earlier one of the same name.
\<close>

definition headFields ::
  "(string \<times> string option) list \<Rightarrow> string option \<times> (string \<rightharpoonup> string) option" where
  "headFields repos =
     (let headSha = (case repos of [] \<Rightarrow> None | r # _ \<Rightarrow> snd r)
      in if length repos \<le> 1 then (headSha, None)
         else (headSha,
           Some (fold (\<lambda>(repo, sha) m. case sha of None \<Rightarrow> m
                         | Some s \<Rightarrow> if s = [] then m else m(repo \<mapsto> s)) repos Map.empty)))"

subsection \<open>Laws of the reduction\<close>

lemma aggregateCi_loop_spec:
  "aggregateCi_loop pending cs =
     (if \<exists>c \<in> set cs. failing c then CiFailure
      else if pending \<or> (\<exists>c \<in> set cs. \<not> completed c) then CiPending
      else CiSuccess)"
  by (induction cs arbitrary: pending) (auto simp: failing_def)

lemma aggregateCi_spec:
  "aggregateCi cs =
     (if cs = [] then CiNone
      else if \<exists>c \<in> set cs. failing c then CiFailure
      else if \<exists>c \<in> set cs. \<not> completed c then CiPending
      else CiSuccess)"
  by (simp add: aggregateCi_def aggregateCi_loop_spec)

lemma set_listFailingChecks_Nil: "listFailingChecks cs = [] \<longleftrightarrow> \<not> (\<exists>c \<in> set cs. failing c)"
  by (auto simp: listFailingChecks_def filter_empty_conv)

lemma aggregateCi_failure: "aggregateCi cs = CiFailure \<longleftrightarrow> listFailingChecks cs \<noteq> []"
  unfolding set_listFailingChecks_Nil aggregateCi_spec by auto

lemma aggregateCi_failure_iff: "aggregateCi cs = CiFailure \<longleftrightarrow> (\<exists>c \<in> set cs. failing c)"
  unfolding aggregateCi_spec by auto

lemma aggregateCi_green_iff:
  "isCiGreen (aggregateCi cs) \<longleftrightarrow> (\<forall>c \<in> set cs. completed c \<and> \<not> failing c)"
  unfolding aggregateCi_spec isCiGreen_def by auto

lemma aggregateRepoCi_failure:
  "aggregateRepoCi rs = CiFailure \<longleftrightarrow> (\<exists>r \<in> set rs. aggregateCi (rc_checks r) = CiFailure)"
  by (simp add: aggregateRepoCi_def aggregateCi_failure_iff)

lemma aggregateRepoCi_green:
  "isCiGreen (aggregateRepoCi rs) \<longleftrightarrow> (\<forall>r \<in> set rs. isCiGreen (aggregateCi (rc_checks r)))"
  by (simp add: aggregateRepoCi_def aggregateCi_green_iff)

lemma listFailingChecksAcrossRepos_Nil:
  "listFailingChecksAcrossRepos rs = [] \<longleftrightarrow> aggregateRepoCi rs \<noteq> CiFailure"
  unfolding aggregateRepoCi_failure aggregateCi_failure
  by (auto simp: listFailingChecksAcrossRepos_def)

section \<open>Release health\<close>

datatype release_status = Healthy | ReleasePending | Regressed
datatype release_gate_verdict = ReleasePass | ReleaseKeepWatching | ReleaseFail

definition classifyReleaseHealth :: "release_status \<Rightarrow> bool \<Rightarrow> release_gate_verdict" where
  "classifyReleaseHealth status windowElapsed =
     (if status = Regressed then ReleaseFail
      else if windowElapsed then ReleasePass else ReleaseKeepWatching)"

section \<open>The judge\<close>

datatype on_fail = OnFailPark | OnFailBounce | OnFailFail
datatype judge_disposition = JudgePass | JudgeBounce | JudgePark | JudgeFail
datatype judge_park_reason = JBudgetSpent | JNoBounceTarget | JRegistration

text \<open>The note recorded on the step is prose over two numbers; the constructors keep them.\<close>

datatype judge_note = NoTargetNote | BudgetSpentNote nat nat

record judge_input =
  ji_score :: rat
  ji_threshold :: rat
  ji_onFail :: on_fail
  ji_bounces :: nat
  ji_maxBounces :: nat
  ji_hasBounceTarget :: bool

record judge_result =
  jr_disposition :: judge_disposition
  jr_note :: "judge_note option"
  jr_parkReason :: "judge_park_reason option"

definition disposeJudgeVerdict :: "judge_input \<Rightarrow> judge_result" where
  "disposeJudgeVerdict i =
     (if ji_score i \<ge> ji_threshold i
      then \<lparr>jr_disposition = JudgePass, jr_note = None, jr_parkReason = None\<rparr>
      else if ji_onFail i = OnFailFail
      then \<lparr>jr_disposition = JudgeFail, jr_note = None, jr_parkReason = None\<rparr>
      else if ji_onFail i = OnFailBounce
      then (if \<not> ji_hasBounceTarget i
            then \<lparr>jr_disposition = JudgePark, jr_note = Some NoTargetNote,
                  jr_parkReason = Some JNoBounceTarget\<rparr>
            else if ji_bounces i \<ge> ji_maxBounces i
            then \<lparr>jr_disposition = JudgePark,
                  jr_note = Some (BudgetSpentNote (ji_bounces i) (ji_maxBounces i)),
                  jr_parkReason = Some JBudgetSpent\<rparr>
            else \<lparr>jr_disposition = JudgeBounce, jr_note = None, jr_parkReason = None\<rparr>)
      else \<lparr>jr_disposition = JudgePark, jr_note = None, jr_parkReason = Some JRegistration\<rparr>)"

lemma judge_pass_iff:
  "jr_disposition (disposeJudgeVerdict i) = JudgePass \<longleftrightarrow> ji_threshold i \<le> ji_score i"
  by (auto simp: disposeJudgeVerdict_def)

lemma judge_bounce_iff:
  "jr_disposition (disposeJudgeVerdict i) = JudgeBounce \<longleftrightarrow>
     ji_score i < ji_threshold i \<and> ji_onFail i = OnFailBounce \<and> ji_hasBounceTarget i \<and>
     ji_bounces i < ji_maxBounces i"
  by (auto simp: disposeJudgeVerdict_def)

lemma judge_park_reason_iff:
  "jr_parkReason (disposeJudgeVerdict i) \<noteq> None \<longleftrightarrow>
     jr_disposition (disposeJudgeVerdict i) = JudgePark"
  by (auto simp: disposeJudgeVerdict_def)

lemma judge_budget_spent:
  "jr_parkReason (disposeJudgeVerdict i) = Some JBudgetSpent \<longleftrightarrow>
     ji_score i < ji_threshold i \<and> ji_onFail i = OnFailBounce \<and> ji_hasBounceTarget i \<and>
     ji_maxBounces i \<le> ji_bounces i"
  by (auto simp: disposeJudgeVerdict_def)

text \<open>The bounce loop: each bounce is charged to the counter before the producer re-runs.\<close>

definition judge_again :: "judge_input \<Rightarrow> rat \<Rightarrow> bool" where
  "judge_again i score \<longleftrightarrow>
     jr_disposition (disposeJudgeVerdict (i\<lparr>ji_score := score\<rparr>)) = JudgeBounce"

definition judge_charge :: "judge_input \<Rightarrow> judge_input" where
  "judge_charge i = i\<lparr>ji_bounces := Suc (ji_bounces i)\<rparr>"

interpretation judge_loop: budgeted_loop ji_bounces ji_maxBounces judge_again judge_charge
  by unfold_locales (auto simp: judge_again_def judge_bounce_iff judge_charge_def)

section \<open>The companion\<close>

text \<open>
  A stored comment may carry a severity this build has retired; it reaches the predicates
  unparsed, so the type keeps it.
\<close>

datatype severity = Blocker | Major | Minor | RetiredSeverity string

record review_comment =
  rv_anchorId :: "string option"
  rv_severity :: "severity option"
  rv_body :: string

definition comments_of :: "review_comment list option \<Rightarrow> review_comment list" where
  "comments_of cs = (case cs of None \<Rightarrow> [] | Some l \<Rightarrow> l)"

definition blockingReviewComments :: "review_comment list option \<Rightarrow> review_comment list" where
  "blockingReviewComments cs = filter (\<lambda>c. rv_severity c = Some Blocker) (comments_of cs)"

definition hasBlockingReviewComments :: "review_comment list option \<Rightarrow> bool" where
  "hasBlockingReviewComments cs \<longleftrightarrow> list_ex (\<lambda>c. rv_severity c = Some Blocker) (comments_of cs)"

definition hasReviewCommentsBeyondNits :: "review_comment list option \<Rightarrow> bool" where
  "hasReviewCommentsBeyondNits cs \<longleftrightarrow> list_ex (\<lambda>c. rv_severity c \<noteq> Some Minor) (comments_of cs)"

definition reviewCommentsBeyondNits :: "review_comment list option \<Rightarrow> review_comment list" where
  "reviewCommentsBeyondNits cs = filter (\<lambda>c. rv_severity c \<noteq> Some Minor) (comments_of cs)"

lemma hasBlocking_iff: "hasBlockingReviewComments cs \<longleftrightarrow> blockingReviewComments cs \<noteq> []"
  by (auto simp: hasBlockingReviewComments_def blockingReviewComments_def filter_empty_conv
      list_ex_iff)

lemma hasBeyondNits_iff: "hasReviewCommentsBeyondNits cs \<longleftrightarrow> reviewCommentsBeyondNits cs \<noteq> []"
  by (auto simp: hasReviewCommentsBeyondNits_def reviewCommentsBeyondNits_def filter_empty_conv
      list_ex_iff)

datatype companion_park_reason = CBudgetSpent | CBlockingFindings
datatype disposition = CPass | CRework | CPark

definition companionParkReasonFor :: "review_comment list option \<Rightarrow> companion_park_reason" where
  "companionParkReasonFor cs =
     (if hasBlockingReviewComments cs then CBlockingFindings else CBudgetSpent)"

record companion_input =
  ci_rating :: rat
  ci_threshold :: rat
  ci_comments :: "review_comment list option"
  ci_attempts :: nat
  ci_maxAttempts :: nat
  ci_hasProducer :: bool

record companion_result =
  cr_disposition :: disposition
  cr_parkReason :: "companion_park_reason option"

definition disposeCompanionVerdict :: "companion_input \<Rightarrow> companion_result" where
  "disposeCompanionVerdict i =
     (if \<not> ci_hasProducer i then \<lparr>cr_disposition = CPass, cr_parkReason = None\<rparr>
      else let hasBudget = (ci_attempts i < ci_maxAttempts i) in
      if hasBlockingReviewComments (ci_comments i)
      then (if hasBudget then \<lparr>cr_disposition = CRework, cr_parkReason = None\<rparr>
            else \<lparr>cr_disposition = CPark,
                  cr_parkReason = Some (companionParkReasonFor (ci_comments i))\<rparr>)
      else if ci_attempts i = 0 \<and> hasBudget \<and> hasReviewCommentsBeyondNits (ci_comments i)
      then \<lparr>cr_disposition = CRework, cr_parkReason = None\<rparr>
      else if ci_rating i \<ge> ci_threshold i
      then \<lparr>cr_disposition = CPass, cr_parkReason = None\<rparr>
      else if hasBudget then \<lparr>cr_disposition = CRework, cr_parkReason = None\<rparr>
      else \<lparr>cr_disposition = CPark,
            cr_parkReason = Some (companionParkReasonFor (ci_comments i))\<rparr>)"

lemma companion_pass_iff:
  "cr_disposition (disposeCompanionVerdict i) = CPass \<longleftrightarrow>
     \<not> ci_hasProducer i \<or>
     \<not> hasBlockingReviewComments (ci_comments i) \<and> ci_threshold i \<le> ci_rating i \<and>
     \<not> (ci_attempts i = 0 \<and> 0 < ci_maxAttempts i \<and> hasReviewCommentsBeyondNits (ci_comments i))"
  by (auto simp: disposeCompanionVerdict_def Let_def)

lemma companion_rework_in_budget:
  "cr_disposition (disposeCompanionVerdict i) = CRework \<Longrightarrow>
     ci_hasProducer i \<and> ci_attempts i < ci_maxAttempts i"
  by (auto simp: disposeCompanionVerdict_def Let_def split: if_splits)

lemma companion_park_iff:
  "cr_disposition (disposeCompanionVerdict i) = CPark \<longleftrightarrow>
     ci_hasProducer i \<and> ci_maxAttempts i \<le> ci_attempts i \<and>
     (hasBlockingReviewComments (ci_comments i) \<or> ci_rating i < ci_threshold i)"
  by (auto simp: disposeCompanionVerdict_def Let_def)

lemma companion_park_reason:
  "cr_parkReason (disposeCompanionVerdict i) =
     (if cr_disposition (disposeCompanionVerdict i) = CPark
      then Some (companionParkReasonFor (ci_comments i)) else None)"
  by (auto simp: disposeCompanionVerdict_def Let_def)

section \<open>Properties\<close>

text \<open>
  The CI gate over several repositories is green exactly when every check of every one of them
  has completed and did not fail; it is red exactly when some repository's aggregate is red, which
  is when the list of failing checks handed to the fixer is not empty; it is pending exactly when
  nothing failed but some check is still running.
\<close>

theorem ci_gate_exact:
  "(isCiGreen (aggregateRepoCi rs) \<longleftrightarrow>
      (\<forall>r \<in> set rs. \<forall>c \<in> set (rc_checks r). completed c \<and> \<not> failing c))
   \<and> (aggregateRepoCi rs = CiFailure \<longleftrightarrow> listFailingChecksAcrossRepos rs \<noteq> [])
   \<and> (aggregateRepoCi rs = CiPending \<longleftrightarrow> listFailingChecksAcrossRepos rs = []
        \<and> (\<exists>r \<in> set rs. \<exists>c \<in> set (rc_checks r). \<not> completed c))"
proof (intro conjI)
  show "isCiGreen (aggregateRepoCi rs) \<longleftrightarrow>
      (\<forall>r \<in> set rs. \<forall>c \<in> set (rc_checks r). completed c \<and> \<not> failing c)"
    by (simp add: aggregateRepoCi_green aggregateCi_green_iff)
  show fail: "aggregateRepoCi rs = CiFailure \<longleftrightarrow> listFailingChecksAcrossRepos rs \<noteq> []"
    by (simp add: listFailingChecksAcrossRepos_Nil)
  show "aggregateRepoCi rs = CiPending \<longleftrightarrow> listFailingChecksAcrossRepos rs = []
        \<and> (\<exists>r \<in> set rs. \<exists>c \<in> set (rc_checks r). \<not> completed c)"
    unfolding listFailingChecksAcrossRepos_Nil by (auto simp: aggregateRepoCi_def aggregateCi_spec)
qed

theorem ci_gate_exact_witness:
  "isCiGreen (aggregateRepoCi
     [\<lparr>rc_repo = ''web'', rc_headSha = None, rc_checks =
        [\<lparr>cc_name = ''build'', cc_status = ''completed'', cc_conclusion = Some ''success'',
          cc_url = None\<rparr>]\<rparr>,
      \<lparr>rc_repo = ''api'', rc_headSha = None, rc_checks = []\<rparr>])"
  by (rule ci_gate_exact [THEN conjunct1, THEN iffD2])
     (simp add: completed_def failing_def conclusion_of_def NON_FAILING_CONCLUSIONS_def)

text \<open>
  A companion's verdict lets the producer's work through only when no review comment is a
  blocker and the rating reaches the threshold; it parks the run for a human only when the rework
  budget is spent, and then says whether blockers or the rating are the reason; and it sends the
  producer back only while budget is left.
\<close>

theorem companion_verdict_sound:
  assumes "ci_hasProducer i"
  shows "case cr_disposition (disposeCompanionVerdict i) of
      CPass \<Rightarrow> blockingReviewComments (ci_comments i) = [] \<and> ci_threshold i \<le> ci_rating i
    | CRework \<Rightarrow> ci_attempts i < ci_maxAttempts i
        \<and> (blockingReviewComments (ci_comments i) \<noteq> [] \<or> ci_rating i < ci_threshold i
           \<or> ci_attempts i = 0 \<and> reviewCommentsBeyondNits (ci_comments i) \<noteq> [])
    | CPark \<Rightarrow> ci_maxAttempts i \<le> ci_attempts i
        \<and> cr_parkReason (disposeCompanionVerdict i) =
            Some (if blockingReviewComments (ci_comments i) = [] then CBudgetSpent
                  else CBlockingFindings)
        \<and> (blockingReviewComments (ci_comments i) \<noteq> [] \<or> ci_rating i < ci_threshold i)"
  using assms
  by (auto simp: disposeCompanionVerdict_def Let_def companionParkReasonFor_def hasBlocking_iff
      hasBeyondNits_iff)

theorem companion_verdict_sound_witness:
  "ci_maxAttempts \<lparr>ci_rating = 1/2, ci_threshold = 4/5, ci_comments =
      Some [\<lparr>rv_anchorId = None, rv_severity = Some Blocker, rv_body = ''unsafe''\<rparr>],
      ci_attempts = 3, ci_maxAttempts = 3, ci_hasProducer = True\<rparr> \<le> 3"
  using companion_verdict_sound [of "\<lparr>ci_rating = 1/2, ci_threshold = 4/5, ci_comments =
      Some [\<lparr>rv_anchorId = None, rv_severity = Some Blocker, rv_body = ''unsafe''\<rparr>],
      ci_attempts = 3, ci_maxAttempts = 3, ci_hasProducer = True\<rparr>"]
  by (simp add: disposeCompanionVerdict_def hasBlockingReviewComments_def comments_of_def)

text \<open>
  A judge sends the producer back at most as many times as its budget allows, whatever scores
  it gives; and a score under the threshold that finds the budget spent parks the run with that
  reason instead of passing it.
\<close>

theorem judge_bounces_bounded:
  "rounds judge_again judge_charge i scores \<le> ji_maxBounces i - ji_bounces i
   \<and> (ji_score i < ji_threshold i \<and> ji_onFail i = OnFailBounce \<and> ji_hasBounceTarget i
        \<and> ji_maxBounces i \<le> ji_bounces i
      \<longleftrightarrow> jr_parkReason (disposeJudgeVerdict i) = Some JBudgetSpent)"
  using judge_loop.rounds_bounded [of i scores] by (auto simp: judge_budget_spent)

end
