(* ===== verification/Ralph.thy ===== *)
theory Ralph
  imports Prelude
begin

text \<open>
  The ralph loop: a coding step that repeats until a validation command passes
  (\<^verbatim>\<open>orchestration/src/modules/execution/ralph.logic.ts\<close>). The loop state rides on the step; a
  verdict is what the container reported for the iteration that just finished.
\<close>

section \<open>State\<close>

datatype ralph_phase = Iterating

record ralph_attempt =
  ra_attempt :: nat
  ra_at :: int
  ra_validationPassed :: bool
  ra_exitCode :: "int option"
  ra_outputTail :: "string option"
  ra_summary :: "string option"
  ra_headSha :: "string option"

record ralph_state =
  rs_phase :: ralph_phase
  rs_attempts :: nat
  rs_maxIterations :: nat
  rs_validationCommand :: string
  rs_progressPath :: "string option"
  rs_lastExitCode :: "int option"
  rs_lastValidationTail :: "string option"
  rs_noProgressStreak :: "nat option"
  rs_attemptLog :: "ralph_attempt list option"
  rs_droppedAttempts :: "nat option"

record ralph_verdict =
  vd_validationPassed :: bool
  vd_exitCode :: int
  vd_validationOutputTail :: "string option"
  vd_headSha :: "string option"

definition RALPH_PROGRESS_PATH :: string where
  "RALPH_PROGRESS_PATH = ''.cat-factory/ralph-progress.md''"

definition MAX_RALPH_ITERATIONS_CAP :: nat where
  "MAX_RALPH_ITERATIONS_CAP = 50"

definition RALPH_NO_PROGRESS_LIMIT :: nat where
  "RALPH_NO_PROGRESS_LIMIT = 2"

definition MAX_RALPH_ATTEMPT_LOG :: nat where
  "MAX_RALPH_ATTEMPT_LOG = 20"

definition RALPH_DEFAULT_MAX_ITERATIONS :: nat where
  "RALPH_DEFAULT_MAX_ITERATIONS = 10"

section \<open>Operations\<close>

record ralph_config =
  rk_validationCommand :: string
  rk_maxIterations :: nat

text \<open>
  The two configured values: the command, and the number \<^verbatim>\<open>Number(...)\<close> reads off the
  configured budget (\<open>None\<close> where that is \<^verbatim>\<open>NaN\<close> or infinite).
\<close>

definition resolveRalphConfig :: "string option \<Rightarrow> rat option \<Rightarrow> ralph_config" where
  "resolveRalphConfig command raw =
     \<lparr>rk_validationCommand = js_trim (case command of None \<Rightarrow> [] | Some c \<Rightarrow> c),
      rk_maxIterations =
        (case raw of None \<Rightarrow> RALPH_DEFAULT_MAX_ITERATIONS
         | Some r \<Rightarrow> if 1 \<le> r then min (nat \<lfloor>r\<rfloor>) MAX_RALPH_ITERATIONS_CAP
                     else RALPH_DEFAULT_MAX_ITERATIONS)\<rparr>"

definition seedRalphState :: "ralph_config \<Rightarrow> ralph_state" where
  "seedRalphState config =
     \<lparr>rs_phase = Iterating, rs_attempts = 0, rs_maxIterations = rk_maxIterations config,
      rs_validationCommand = rk_validationCommand config,
      rs_progressPath = Some RALPH_PROGRESS_PATH, rs_lastExitCode = None,
      rs_lastValidationTail = None, rs_noProgressStreak = None, rs_attemptLog = Some [],
      rs_droppedAttempts = None\<rparr>"

definition restartRalphState :: "ralph_state option \<Rightarrow> ralph_state option" where
  "restartRalphState ralph = map_option (\<lambda>r.
     \<lparr>rs_phase = Iterating, rs_attempts = 0, rs_maxIterations = rs_maxIterations r,
      rs_validationCommand = rs_validationCommand r,
      rs_progressPath = Some (case rs_progressPath r of None \<Rightarrow> RALPH_PROGRESS_PATH | Some p \<Rightarrow> p),
      rs_lastExitCode = None, rs_lastValidationTail = None, rs_noProgressStreak = None,
      rs_attemptLog = Some [], rs_droppedAttempts = None\<rparr>) ralph"

record ralph_validation =
  rw_command :: string
  rw_progressPath :: string
  rw_iteration :: nat

definition buildRalphValidation :: "ralph_state option \<Rightarrow> ralph_validation option" where
  "buildRalphValidation ralph =
     (case ralph of None \<Rightarrow> None
      | Some r \<Rightarrow> if blank (rs_validationCommand r) then None
          else Some \<lparr>rw_command = rs_validationCommand r,
            rw_progressPath =
              (case rs_progressPath r of None \<Rightarrow> RALPH_PROGRESS_PATH | Some p \<Rightarrow> p),
            rw_iteration = rs_attempts r + 1\<rparr>)"

definition streak_of :: "ralph_state \<Rightarrow> nat" where
  "streak_of r = (case rs_noProgressStreak r of None \<Rightarrow> 0 | Some n \<Rightarrow> n)"

definition passed :: "ralph_verdict option \<Rightarrow> bool" where
  "passed v = (case v of None \<Rightarrow> False | Some w \<Rightarrow> vd_validationPassed w)"

text \<open>The trimmed head of a verdict, when it reports a non-empty one.\<close>

definition verdict_head :: "ralph_verdict option \<Rightarrow> string option" where
  "verdict_head v = nonempty (Option.bind v (\<lambda>w. map_option js_trim (vd_headSha w)))"

definition nextNoProgressStreak ::
  "ralph_state \<Rightarrow> ralph_verdict option \<Rightarrow> string option \<Rightarrow> nat" where
  "nextNoProgressStreak ralph verdict previousHeadSha =
     (if passed verdict then 0
      else case (verdict_head verdict, nonempty previousHeadSha) of
        (Some head, Some prev) \<Rightarrow> if head = prev then streak_of ralph + 1 else 0
      | _ \<Rightarrow> 0)"

definition lastRecordedHeadSha :: "ralph_state \<Rightarrow> string option" where
  "lastRecordedHeadSha ralph =
     (case rs_attemptLog ralph of None \<Rightarrow> None
      | Some lg \<Rightarrow> if lg = [] then None
          else nonempty (map_option js_trim (ra_headSha (last lg))))"

datatype ralph_decision = RalphDone | RalphRetry | RalphExhausted | RalphStalled

definition decideRalphNext :: "ralph_state \<Rightarrow> ralph_verdict option \<Rightarrow> ralph_decision" where
  "decideRalphNext ralph verdict =
     (if passed verdict then RalphDone
      else if RALPH_NO_PROGRESS_LIMIT \<le> streak_of ralph then RalphStalled
      else if rs_attempts ralph < rs_maxIterations ralph then RalphRetry else RalphExhausted)"

text \<open>
  The capped append shared by the three remediation logs
  (\<^verbatim>\<open>appendRalphAttempt\<close>; \<^verbatim>\<open>appendAttemptLog\<close> of \<^verbatim>\<open>deployer.logic.ts\<close> has the cap as a
  parameter): the new lg and the total number of entries dropped so far.
\<close>

definition appendAttemptLog ::
  "'a list option \<Rightarrow> 'a \<Rightarrow> nat \<Rightarrow> nat option \<Rightarrow> 'a list \<times> nat" where
  "appendAttemptLog lg entry cap dropped =
     (let appended = (case lg of None \<Rightarrow> [] | Some l \<Rightarrow> l) @ [entry];
          overflow = length appended - cap
      in (if 0 < overflow then drop overflow appended else appended,
          (case dropped of None \<Rightarrow> 0 | Some d \<Rightarrow> d) + overflow))"

definition appendRalphAttempt :: "ralph_state \<Rightarrow> ralph_attempt \<Rightarrow> ralph_attempt list \<times> nat" where
  "appendRalphAttempt ralph entry =
     (let appended = (case rs_attemptLog ralph of None \<Rightarrow> [] | Some l \<Rightarrow> l) @ [entry];
          overflow = length appended - MAX_RALPH_ATTEMPT_LOG
      in (if 0 < overflow then drop overflow appended else appended,
          (case rs_droppedAttempts ralph of None \<Rightarrow> 0 | Some d \<Rightarrow> d) + overflow))"

section \<open>The controller\<close>

text \<open>
  \<^verbatim>\<open>RalphController.recordAttempt\<close>: the finished iteration joins the history, with the fields
  the verdict has (an empty tail, summary or head is left out).
\<close>

definition recordAttempt ::
  "int \<Rightarrow> ralph_verdict option \<Rightarrow> string option \<Rightarrow> ralph_state \<Rightarrow> ralph_state" where
  "recordAttempt now verdict summary r =
     (let entry = \<lparr>ra_attempt = rs_attempts r, ra_at = now, ra_validationPassed = passed verdict,
            ra_exitCode = map_option vd_exitCode verdict,
            ra_outputTail = nonempty (Option.bind verdict vd_validationOutputTail),
            ra_summary = nonempty summary,
            ra_headSha = nonempty (Option.bind verdict vd_headSha)\<rparr>;
          (lg, dropped) = appendRalphAttempt r entry;
          r' = r\<lparr>rs_attemptLog := Some lg\<rparr>
      in if 0 < dropped then r'\<lparr>rs_droppedAttempts := Some dropped\<rparr> else r')"

text \<open>
  The step's part of \<^verbatim>\<open>resolveRalphResult\<close>: a missing state is re-seeded with a budget of
  one, the streak is folded before the log is appended, then the iteration is counted and
  recorded.
\<close>

definition minimal_ralph :: ralph_state where
  "minimal_ralph =
     \<lparr>rs_phase = Iterating, rs_attempts = 0, rs_maxIterations = 1, rs_validationCommand = [],
      rs_progressPath = None, rs_lastExitCode = None, rs_lastValidationTail = None,
      rs_noProgressStreak = None, rs_attemptLog = Some [], rs_droppedAttempts = None\<rparr>"

definition foldRalphVerdict ::
  "int \<Rightarrow> ralph_verdict option \<Rightarrow> string option \<Rightarrow> ralph_state option \<Rightarrow> ralph_state" where
  "foldRalphVerdict now verdict summary ralph =
     (let r0 = (case ralph of None \<Rightarrow> minimal_ralph | Some r \<Rightarrow> r);
          r1 = r0\<lparr>rs_noProgressStreak :=
                 Some (nextNoProgressStreak r0 verdict (lastRecordedHeadSha r0))\<rparr>;
          r2 = r1\<lparr>rs_attempts := rs_attempts r1 + 1, rs_phase := Iterating\<rparr>;
          r3 = (case verdict of None \<Rightarrow> r2
                | Some v \<Rightarrow> r2\<lparr>rs_lastExitCode := Some (vd_exitCode v),
                              rs_lastValidationTail := vd_validationOutputTail v\<rparr>)
      in recordAttempt now verdict summary r3)"

datatype ralph_outcome =
    RalphComplete
  | RalphRedispatch
  | RalphGiveUp bool

text \<open>
  \<open>asyncExecutor\<close> is \<^verbatim>\<open>isAsyncAgentExecutor\<close> and \<open>hasBlock\<close> that the block was found; a
  retry that can be dispatched to nothing gives up, as does a spent budget or a stall.
\<close>

definition resolveRalphResult ::
  "bool \<Rightarrow> bool \<Rightarrow> int \<Rightarrow> ralph_verdict option \<Rightarrow> string option \<Rightarrow> ralph_state option \<Rightarrow>
     ralph_state \<times> ralph_outcome" where
  "resolveRalphResult asyncExecutor hasBlock now verdict summary ralph =
     (let r = foldRalphVerdict now verdict summary ralph; decision = decideRalphNext r verdict
      in (r, if decision = RalphDone then RalphComplete
             else if decision = RalphRetry \<and> asyncExecutor \<and> hasBlock then RalphRedispatch
             else RalphGiveUp (decision = RalphStalled)))"

section \<open>Laws\<close>

lemma appendRalphAttempt_eq:
  "appendRalphAttempt r e =
     appendAttemptLog (rs_attemptLog r) e MAX_RALPH_ATTEMPT_LOG (rs_droppedAttempts r)"
  by (simp add: appendRalphAttempt_def appendAttemptLog_def)

text \<open>One entry at a time: the lg after appending a list of entries.\<close>

fun append_attempts :: "nat \<Rightarrow> 'a list \<times> nat \<Rightarrow> 'a list \<Rightarrow> 'a list \<times> nat" where
  "append_attempts cap (lg, dropped) [] = (lg, dropped)"
| "append_attempts cap (lg, dropped) (e # es) =
     append_attempts cap (appendAttemptLog (Some lg) e cap (Some dropped)) es"

lemma appendAttemptLog_slice:
  "fst (appendAttemptLog (Some lg) e cap d) = slice_last cap (lg @ [e])"
  by (simp add: appendAttemptLog_def slice_last_def Let_def)

lemma append_attempts_log:
  assumes "length lg \<le> cap"
  shows "fst (append_attempts cap (lg, d) es) = slice_last cap (lg @ es)"
  using assms
proof (induction es arbitrary: lg d)
  case Nil
  then show ?case by (simp add: slice_last_all)
next
  case (Cons e es)
  obtain lg' d' where s: "appendAttemptLog (Some lg) e cap (Some d) = (lg', d')"
    by (metis surj_pair)
  then have lg': "lg' = slice_last cap (lg @ [e])"
    using appendAttemptLog_slice by (metis fst_conv)
  then have "length lg' \<le> cap" by simp
  from Cons.IH [OF this, of d'] show ?case
    by (simp add: s lg' slice_last_slice_last_append)
qed

lemma append_attempts_count:
  "length (fst (append_attempts cap (lg, d) es)) + snd (append_attempts cap (lg, d) es) =
     length lg + d + length es"
proof (induction es arbitrary: lg d)
  case Nil
  then show ?case by simp
next
  case (Cons e es)
  obtain lg' d' where s: "appendAttemptLog (Some lg) e cap (Some d) = (lg', d')"
    by (metis surj_pair)
  then have "length lg' + d' = length lg + d + 1"
    by (auto simp: appendAttemptLog_def Let_def split: if_splits)
  with Cons.IH [of lg' d'] show ?case by (simp add: s)
qed

interpretation ralph_trail: capped_trail MAX_RALPH_ATTEMPT_LOG
  "\<lambda>lg new. fst (append_attempts MAX_RALPH_ATTEMPT_LOG (slice_last MAX_RALPH_ATTEMPT_LOG lg, 0) new)"
  by unfold_locales (simp add: append_attempts_log slice_last_slice_last_append)

lemma recordAttempt_frame [simp]:
  "rs_attempts (recordAttempt now v sm r) = rs_attempts r"
  "rs_maxIterations (recordAttempt now v sm r) = rs_maxIterations r"
  "rs_noProgressStreak (recordAttempt now v sm r) = rs_noProgressStreak r"
  "rs_validationCommand (recordAttempt now v sm r) = rs_validationCommand r"
  by (simp_all add: recordAttempt_def Let_def split: prod.split)

lemma lastRecorded_recordAttempt:
  "lastRecordedHeadSha (recordAttempt now v sm r) =
     nonempty (map_option js_trim (nonempty (Option.bind v vd_headSha)))"
proof -
  let ?e = "\<lparr>ra_attempt = rs_attempts r, ra_at = now, ra_validationPassed = passed v,
    ra_exitCode = map_option vd_exitCode v,
    ra_outputTail = nonempty (Option.bind v vd_validationOutputTail),
    ra_summary = nonempty sm, ra_headSha = nonempty (Option.bind v vd_headSha)\<rparr>"
  have "rs_attemptLog (recordAttempt now v sm r) = Some (fst (appendRalphAttempt r ?e))"
    by (simp add: recordAttempt_def Let_def split: prod.split)
  moreover have "fst (appendRalphAttempt r e) \<noteq> [] \<and> last (fst (appendRalphAttempt r e)) = e" for e
    by (auto simp: appendRalphAttempt_def Let_def MAX_RALPH_ATTEMPT_LOG_def last_drop)
  ultimately show ?thesis by (simp add: lastRecordedHeadSha_def)
qed

lemma foldRalphVerdict_attempts [simp]:
  "rs_attempts (foldRalphVerdict now v sm (Some r)) = rs_attempts r + 1"
  "rs_maxIterations (foldRalphVerdict now v sm (Some r)) = rs_maxIterations r"
  by (simp_all add: foldRalphVerdict_def Let_def split: option.split)

lemma foldRalphVerdict_streak:
  "streak_of (foldRalphVerdict now v sm (Some r)) =
     nextNoProgressStreak r v (lastRecordedHeadSha r)"
  by (simp add: foldRalphVerdict_def Let_def streak_of_def split: option.split)

lemma foldRalphVerdict_head:
  "lastRecordedHeadSha (foldRalphVerdict now v sm r) =
     nonempty (map_option js_trim (nonempty (Option.bind v vd_headSha)))"
  by (simp add: foldRalphVerdict_def Let_def lastRecorded_recordAttempt)

text \<open>A run of the loop on the verdicts of successive iterations; it ends at the first outcome
  that is not another dispatch.\<close>

fun ralph_run :: "int \<Rightarrow> ralph_state \<Rightarrow> ralph_verdict option list \<Rightarrow> ralph_state \<times> ralph_outcome" where
  "ralph_run now r [] = (r, RalphRedispatch)"
| "ralph_run now r (v # vs) =
     (case resolveRalphResult True True now v None (Some r) of
        (r', RalphRedispatch) \<Rightarrow> ralph_run now r' vs
      | (r', out) \<Rightarrow> (r', out))"

lemma ralph_run_budget:
  assumes "rs_attempts r \<le> rs_maxIterations r" and "rs_maxIterations r \<le> rs_attempts r + length vs"
    and "vs \<noteq> []"
  shows "snd (ralph_run now r vs) \<noteq> RalphRedispatch \<and>
    rs_attempts (fst (ralph_run now r vs)) \<le> max (rs_maxIterations r) (rs_attempts r + 1)"
  using assms
proof (induction vs arbitrary: r)
  case Nil
  then show ?case by simp
next
  case (Cons v vs)
  let ?r' = "foldRalphVerdict now v None (Some r)"
  show ?case
  proof (cases "decideRalphNext ?r' v = RalphRetry")
    case True
    then have lt: "rs_attempts r + 1 < rs_maxIterations r"
      by (auto simp: decideRalphNext_def split: if_splits)
    then have "vs \<noteq> []" using Cons.prems by auto
    with Cons.IH [of ?r'] Cons.prems lt show ?thesis
      by (auto simp: True resolveRalphResult_def Let_def)
  next
    case False
    then show ?thesis by (auto simp: resolveRalphResult_def Let_def)
  qed
qed

text \<open>Failing iterations that keep reporting one head: the second repetition is a stall.\<close>

lemma fold_same_head:
  assumes "\<not> passed v" and "verdict_head v = Some h" and "lastRecordedHeadSha r = Some h"
  shows "streak_of (foldRalphVerdict now v sm (Some r)) = streak_of r + 1"
  using assms by (auto simp: foldRalphVerdict_streak nextNoProgressStreak_def nonempty_def
      lastRecordedHeadSha_def split: option.splits if_splits)

lemma fold_records_head:
  assumes "verdict_head v = Some h"
  shows "lastRecordedHeadSha (foldRalphVerdict now v sm r) = Some h"
proof -
  from assms obtain w t where "v = Some w" "vd_headSha w = Some t" "js_trim t = h" "h \<noteq> []"
    by (cases v) (auto simp: verdict_head_def nonempty_Some)
  then show ?thesis by (auto simp: foldRalphVerdict_head nonempty_def)
qed

lemma decide_retry_iff:
  "decideRalphNext r v = RalphRetry \<longleftrightarrow>
     \<not> passed v \<and> streak_of r < RALPH_NO_PROGRESS_LIMIT \<and> rs_attempts r < rs_maxIterations r"
  by (auto simp: decideRalphNext_def)

text \<open>The loop: an iteration is counted when it has finished.\<close>

definition ralph_again :: "ralph_state \<Rightarrow> ralph_verdict option \<Rightarrow> bool" where
  "ralph_again r v \<longleftrightarrow> decideRalphNext r v = RalphRetry"

definition ralph_charge :: "ralph_state \<Rightarrow> ralph_state" where
  "ralph_charge r = r\<lparr>rs_attempts := rs_attempts r + 1\<rparr>"

interpretation ralph_loop: budgeted_loop rs_attempts rs_maxIterations ralph_again ralph_charge
  by unfold_locales (auto simp: ralph_again_def ralph_charge_def decide_retry_iff)

lemma restart_preserves_config:
  "restartRalphState (Some r) = Some r' \<Longrightarrow>
     rs_maxIterations r' = rs_maxIterations r \<and> rs_validationCommand r' = rs_validationCommand r \<and>
     rs_attempts r' = 0 \<and> streak_of r' = 0 \<and> rs_attemptLog r' = Some []"
  by (auto simp: restartRalphState_def streak_of_def)

lemma restart_dispatches:
  assumes "buildRalphValidation (Some r) = Some v"
  shows "\<exists>r' v'. restartRalphState (Some r) = Some r' \<and> buildRalphValidation (Some r') = Some v' \<and>
    rw_command v' = rw_command v \<and> rw_progressPath v' = rw_progressPath v \<and> rw_iteration v' = 1"
  using assms by (auto simp: restartRalphState_def buildRalphValidation_def split: if_splits option.splits)

lemma restart_idempotent: "restartRalphState (restartRalphState r) = restartRalphState r"
  by (cases r) (simp_all add: restartRalphState_def)

lemma resolve_bounds:
  "1 \<le> rk_maxIterations (resolveRalphConfig c raw) \<and>
   rk_maxIterations (resolveRalphConfig c raw) \<le> MAX_RALPH_ITERATIONS_CAP"
proof (cases raw)
  case None
  then show ?thesis
    by (simp add: resolveRalphConfig_def RALPH_DEFAULT_MAX_ITERATIONS_def MAX_RALPH_ITERATIONS_CAP_def)
next
  case (Some r)
  have "1 \<le> r \<Longrightarrow> 1 \<le> nat \<lfloor>r\<rfloor>" by (simp add: le_nat_iff le_floor_iff)
  with Some show ?thesis
    by (auto simp: resolveRalphConfig_def RALPH_DEFAULT_MAX_ITERATIONS_def
        MAX_RALPH_ITERATIONS_CAP_def)
qed

section \<open>Properties\<close>

text \<open>
  A ralph loop ends within its iteration budget: fed one verdict per iteration, it has stopped
  asking for another dispatch by the time the budget is used, and it never counts more iterations
  than the budget allows (or the one it was on, when the budget was already spent).
\<close>

theorem ralph_loop_ends_in_budget:
  assumes "rs_attempts r \<le> rs_maxIterations r" and "vs \<noteq> []"
    and "rs_maxIterations r \<le> rs_attempts r + length vs"
  shows "snd (ralph_run now r vs) \<noteq> RalphRedispatch
    \<and> rs_attempts (fst (ralph_run now r vs)) \<le> max (rs_maxIterations r) (rs_attempts r + 1)"
  using assms ralph_run_budget by blast

theorem ralph_loop_ends_in_budget_witness:
  "snd (ralph_run 0 (minimal_ralph\<lparr>rs_maxIterations := 2\<rparr>)
     [None, Some \<lparr>vd_validationPassed = False, vd_exitCode = 1, vd_validationOutputTail = None,
                  vd_headSha = None\<rparr>]) \<noteq> RalphRedispatch"
  by (rule ralph_loop_ends_in_budget [THEN conjunct1]) (simp_all add: minimal_ralph_def)

text \<open>
  The loop notices that it makes no progress: after two failed iterations in a row that report
  the head the loop had already recorded, the decision is to stop as stalled, whatever budget is
  left; and the loop reports success exactly when the validation passed.
\<close>

theorem ralph_stall_is_noticed:
  assumes "\<not> passed v" and "\<not> passed v'" and "verdict_head v = Some h" and "verdict_head v' = Some h"
    and "lastRecordedHeadSha r = Some h"
  shows "decideRalphNext (foldRalphVerdict now' v' sm' (Some (foldRalphVerdict now v sm (Some r)))) v'
    = RalphStalled
    \<and> (passed w \<longleftrightarrow> decideRalphNext (foldRalphVerdict now w sm (Some r)) w = RalphDone)"
proof -
  let ?r1 = "foldRalphVerdict now v sm (Some r)"
  have "streak_of (foldRalphVerdict now' v' sm' (Some ?r1)) = streak_of r + 2"
    using fold_same_head [OF assms(2,4) fold_records_head [OF assms(3)]]
      fold_same_head [OF assms(1,3,5)] by simp
  then show ?thesis using assms(2)
    by (auto simp: decideRalphNext_def RALPH_NO_PROGRESS_LIMIT_def)
qed

theorem ralph_stall_is_noticed_witness:
  "(let v = Some \<lparr>vd_validationPassed = False, vd_exitCode = 1, vd_validationOutputTail = None,
                  vd_headSha = Some ''a1b2''\<rparr>;
        r = foldRalphVerdict 0 v None (Some (minimal_ralph\<lparr>rs_maxIterations := 9\<rparr>))
    in decideRalphNext (foldRalphVerdict 2 v None (Some (foldRalphVerdict 1 v None (Some r)))) v
       = RalphStalled)"
  unfolding Let_def
  by (rule ralph_stall_is_noticed [where h = "''a1b2''", THEN conjunct1])
     (simp_all add: passed_def verdict_head_def js_trim_def is_space_def nonempty_def
        foldRalphVerdict_head)

end
