(* ===== verification/FormFields.thy ===== *)
theory FormFields
  imports Prelude
begin

text \<open>
  Descriptor forms (\<^verbatim>\<open>contracts/src/form-fields.ts\<close>): a list of declared flds and a bag of filled
  values, which the parameters of a gate and of a preset are. Visibility, defaults, validation and
  the sanitised bag that is frozen on a run. A bag is an association list in insertion order; the
  problems are constructors instead of sentences. Numbers are rationals: a default is read as the
  exact value of its numeral. The lemmas show that what validation lets through is well typed.
\<close>

section \<open>Fields and values\<close>

datatype field_value = TextValue string | BoolValue bool | NumberValue rat | ListValue "string list"

type_synonym field_values = "(string \<times> field_value) list"

datatype field_type =
    TextField | PasswordField | SelectField | NumberField | CheckboxField | TextareaField
  | CheckboxGroupField | PathField

record show_when =
  sw_key :: string
  sw_equals :: "field_value option"
  sw_includes :: "string option"

record descriptor_field =
  fd_key :: string
  fd_type :: "field_type option"
  fd_section :: "string option"
  fd_required :: "bool option"
  fd_options :: "string list option"
  fd_default :: "string option"
  fd_defaultValues :: "string list option"
  fd_showWhen :: "show_when option"
  fd_maxLength :: "nat option"
  fd_min :: "rat option"
  fd_max :: "rat option"
  fd_integer :: "bool option"

text \<open>\<open>fd_options\<close> keeps the values of the choices; their labels are for display.\<close>

definition bare_field :: "string \<Rightarrow> field_type option \<Rightarrow> descriptor_field" where
  "bare_field key ty =
     \<lparr>fd_key = key, fd_type = ty, fd_section = None, fd_required = None, fd_options = None,
      fd_default = None, fd_defaultValues = None, fd_showWhen = None, fd_maxLength = None,
      fd_min = None, fd_max = None, fd_integer = None\<rparr>"

datatype field_problem =
    UnknownField string | RequiredField string | WrongType string | OutsideOptions string
  | OutsideChoices string string | UnsafePath string | TooLong string | NotWhole string
  | BelowMinimum string | AboveMaximum string

section \<open>Reading a numeral\<close>

definition is_digit :: "char \<Rightarrow> bool" where
  "is_digit c \<longleftrightarrow> (let n = of_char c :: nat in 48 \<le> n \<and> n \<le> 57)"

definition digit_of :: "char \<Rightarrow> nat" where
  "digit_of c = of_char c - 48"

definition read_nat :: "string \<Rightarrow> nat" where
  "read_nat ds = foldl (\<lambda>n c. 10 * n + digit_of c) 0 ds"

definition read_sign :: "string \<Rightarrow> rat \<times> string" where
  "read_sign s = (case s of
      c # cs \<Rightarrow> if c = CHR ''-'' then (-1, cs) else if c = CHR ''+'' then (1, cs) else (1, s)
    | [] \<Rightarrow> (1, s))"

text \<open>The exponent part, absent or \<^verbatim>\<open>e\<close> with a sign and at least one digit.\<close>

definition read_exponent :: "string \<Rightarrow> rat option" where
  "read_exponent s = (case s of
      [] \<Rightarrow> Some 1
    | c # cs \<Rightarrow>
        (let (sgn, ds) = read_sign cs
         in if (c = CHR ''e'' \<or> c = CHR ''E'') \<and> ds \<noteq> [] \<and> list_all is_digit ds
            then Some (if sgn = 1 then 10 ^ read_nat ds else inverse (10 ^ read_nat ds))
            else None))"

text \<open>
  \<^verbatim>\<open>Number(text)\<close> where it is finite, for decimal numerals: a sign, digits with an optional fraction,
  an optional exponent; blank text is zero. The prefixed forms (\<^verbatim>\<open>0x\<close>, \<^verbatim>\<open>0o\<close>, \<^verbatim>\<open>0b\<close>) are not read.
\<close>

definition js_number :: "string \<Rightarrow> rat option" where
  "js_number text =
     (let t = js_trim text; (sgn, s) = read_sign t;
          ints = takeWhile is_digit s; rest = dropWhile is_digit s;
          (frac, tail) = (case rest of
             c # cs \<Rightarrow> if c = CHR ''.'' then (takeWhile is_digit cs, dropWhile is_digit cs) else ([], rest)
           | [] \<Rightarrow> ([], rest))
      in if t = [] then Some 0
         else if ints = [] \<and> frac = [] then None
         else map_option (\<lambda>e. sgn * (of_nat (read_nat (ints @ frac)) / 10 ^ length frac) * e)
                (read_exponent tail))"

section \<open>Visibility and defaults\<close>

definition matchesDescriptorCondition :: "show_when \<Rightarrow> field_values \<Rightarrow> bool" where
  "matchesDescriptorCondition c values =
     (let value = map_of values (sw_key c)
      in case sw_equals c of
           Some e \<Rightarrow>
             (case value of
                None \<Rightarrow> e = BoolValue False
              | Some v \<Rightarrow> v = e)
         | None \<Rightarrow>
             (case sw_includes c of
                Some x \<Rightarrow> (case value of Some (ListValue xs) \<Rightarrow> x \<in> set xs | _ \<Rightarrow> False)
              | None \<Rightarrow> True))"

definition isDescriptorFieldVisible :: "descriptor_field \<Rightarrow> field_values \<Rightarrow> bool" where
  "isDescriptorFieldVisible f values = (case fd_showWhen f of
      None \<Rightarrow> True | Some c \<Rightarrow> matchesDescriptorCondition c values)"

definition field_default :: "descriptor_field \<Rightarrow> field_value option" where
  "field_default f =
     (if fd_type f = Some CheckboxGroupField then
        (case fd_defaultValues f of
           None \<Rightarrow> None | Some xs \<Rightarrow> if xs = [] then None else Some (ListValue xs))
      else if fd_type f = Some CheckboxField then
        (if fd_default f = Some ''true'' then Some (BoolValue True) else None)
      else if fd_type f = Some NumberField then
        (case nonempty (fd_default f) of
           None \<Rightarrow> None | Some d \<Rightarrow> map_option NumberValue (js_number d))
      else map_option TextValue (nonempty (fd_default f)))"

text \<open>\<^verbatim>\<open>values[key] = v\<close>: a key that is there keeps its place.\<close>

fun put_value :: "string \<Rightarrow> field_value \<Rightarrow> field_values \<Rightarrow> field_values" where
  "put_value k v [] = [(k, v)]"
| "put_value k v ((j, u) # vs) = (if j = k then (k, v) # vs else (j, u) # put_value k v vs)"

definition descriptorFieldDefaults :: "descriptor_field list \<Rightarrow> field_values" where
  "descriptorFieldDefaults flds =
     fold (\<lambda>f vs. case field_default f of None \<Rightarrow> vs | Some v \<Rightarrow> put_value (fd_key f) v vs) flds []"

definition withDescriptorFieldDefaults :: "descriptor_field list \<Rightarrow> field_values \<Rightarrow> field_values" where
  "withDescriptorFieldDefaults flds values =
     values @ filter (\<lambda>(k, v). map_of values k = None) (descriptorFieldDefaults flds)"

section \<open>Validation\<close>

definition valueMatchesFieldType :: "descriptor_field \<Rightarrow> field_value \<Rightarrow> bool" where
  "valueMatchesFieldType f value = (case fd_type f of
      Some CheckboxGroupField \<Rightarrow> (case value of ListValue xs \<Rightarrow> True | _ \<Rightarrow> False)
    | Some CheckboxField \<Rightarrow> (case value of BoolValue b \<Rightarrow> True | _ \<Rightarrow> False)
    | Some NumberField \<Rightarrow> (case value of NumberValue n \<Rightarrow> True | _ \<Rightarrow> False)
    | _ \<Rightarrow> (case value of TextValue s \<Rightarrow> True | _ \<Rightarrow> False))"

definition isFilled :: "field_value option \<Rightarrow> bool" where
  "isFilled value = (case value of
      None \<Rightarrow> False
    | Some (BoolValue b) \<Rightarrow> b
    | Some (TextValue s) \<Rightarrow> js_trim s \<noteq> []
    | Some (ListValue xs) \<Rightarrow> xs \<noteq> []
    | Some (NumberValue n) \<Rightarrow> True)"

definition isExplicitOptOut :: "descriptor_field \<Rightarrow> field_value \<Rightarrow> bool" where
  "isExplicitOptOut f value \<longleftrightarrow> fd_type f = Some CheckboxField \<and> value = BoolValue False"

definition isDescriptorFieldAnswer :: "descriptor_field \<Rightarrow> field_value option \<Rightarrow> bool" where
  "isDescriptorFieldAnswer f value = (case value of
      None \<Rightarrow> False | Some v \<Rightarrow> isFilled (Some v) \<or> isExplicitOptOut f v)"

fun split_on :: "char \<Rightarrow> string \<Rightarrow> string list" where
  "split_on d [] = [[]]"
| "split_on d (c # cs) = (if c = d then [] # split_on d cs
     else (case split_on d cs of [] \<Rightarrow> [[c]] | p # ps \<Rightarrow> (c # p) # ps))"

definition is_letter :: "char \<Rightarrow> bool" where
  "is_letter c \<longleftrightarrow> (let n = of_char c :: nat in 97 \<le> n \<and> n \<le> 122 \<or> 65 \<le> n \<and> n \<le> 90)"

definition isSafeRepoDirPath :: "string \<Rightarrow> bool" where
  "isSafeRepoDirPath path =
     (let p = js_trim path
      in p \<noteq> [] \<and> length p \<le> 300 \<and> hd p \<noteq> CHR ''/''
         \<and> \<not> (case p of a # b # r \<Rightarrow> is_letter a \<and> b = CHR '':'' | _ \<Rightarrow> False)
         \<and> char_of (92 :: nat) \<notin> set p \<and> char_of (0 :: nat) \<notin> set p
         \<and> ''..'' \<notin> set (split_on (CHR ''/'') p))"

definition whole :: "rat \<Rightarrow> bool" where
  "whole n \<longleftrightarrow> of_int \<lfloor>n\<rfloor> = n"

definition number_problems :: "descriptor_field \<Rightarrow> rat \<Rightarrow> field_problem list" where
  "number_problems f n =
     (if fd_integer f = Some True \<and> \<not> whole n then [NotWhole (fd_key f)] else [])
     @ (case fd_min f of Some m \<Rightarrow> if n < m then [BelowMinimum (fd_key f)] else [] | None \<Rightarrow> [])
     @ (case fd_max f of Some m \<Rightarrow> if n > m then [AboveMaximum (fd_key f)] else [] | None \<Rightarrow> [])"

definition text_problems :: "descriptor_field \<Rightarrow> string \<Rightarrow> field_problem list" where
  "text_problems f s =
     (case fd_maxLength f of Some m \<Rightarrow> if length s > m then [TooLong (fd_key f)] else [] | None \<Rightarrow> [])"

definition semanticProblems :: "descriptor_field \<Rightarrow> field_value \<Rightarrow> field_problem list" where
  "semanticProblems f value =
     (let opts = list_of (fd_options f)
      in (case value of
            TextValue s \<Rightarrow>
              (if fd_type f = Some SelectField \<and> opts \<noteq> [] \<and> s \<notin> set opts
               then [OutsideOptions (fd_key f)] else [])
              @ (if fd_type f = Some PathField \<and> \<not> isSafeRepoDirPath s then [UnsafePath (fd_key f)] else [])
              @ text_problems f s
          | ListValue xs \<Rightarrow>
              (if fd_type f = Some CheckboxGroupField \<and> opts \<noteq> []
               then map (OutsideChoices (fd_key f)) (filter (\<lambda>x. x \<notin> set opts) xs) else [])
          | NumberValue n \<Rightarrow> number_problems f n
          | BoolValue b \<Rightarrow> []))"

definition field_problems ::
  "string list option \<Rightarrow> field_values \<Rightarrow> descriptor_field \<Rightarrow> field_problem list" where
  "field_problems named values f =
     (if \<not> isDescriptorFieldVisible f values then []
      else case map_of values (fd_key f) of
        None \<Rightarrow> if fd_required f = Some True then [RequiredField (fd_key f)] else []
      | Some v \<Rightarrow>
          if \<not> isFilled (Some v)
          then (if fd_required f = Some True then [RequiredField (fd_key f)] else [])
          else if (case named of Some ks \<Rightarrow> fd_key f \<notin> set ks | None \<Rightarrow> False) then []
          else if \<not> valueMatchesFieldType f v then [WrongType (fd_key f)]
          else semanticProblems f v)"

definition descriptorProblems ::
  "descriptor_field list \<Rightarrow> field_values \<Rightarrow> string list option \<Rightarrow> field_problem list" where
  "descriptorProblems flds values named =
     map UnknownField (filter (\<lambda>k. k \<notin> fd_key ` set flds)
        (case named of Some ks \<Rightarrow> ks | None \<Rightarrow> map fst values))
     @ concat (map (field_problems named values) flds)"

definition validateDescriptorFields :: "descriptor_field list \<Rightarrow> field_values \<Rightarrow> field_problem list" where
  "validateDescriptorFields flds values = descriptorProblems flds values None"

definition validatePatchedDescriptorFields ::
  "descriptor_field list \<Rightarrow> field_values \<Rightarrow> string list \<Rightarrow> field_problem list" where
  "validatePatchedDescriptorFields flds values named = descriptorProblems flds values (Some named)"

definition unfilledRequiredDescriptorFields ::
  "descriptor_field list \<Rightarrow> field_values \<Rightarrow> descriptor_field list" where
  "unfilledRequiredDescriptorFields flds values =
     filter (\<lambda>f. fd_required f = Some True \<and> isDescriptorFieldVisible f values
        \<and> \<not> isFilled (map_of values (fd_key f))) flds"

definition sanitizeDescriptorFields :: "descriptor_field list \<Rightarrow> field_values \<Rightarrow> field_values" where
  "sanitizeDescriptorFields flds values =
     fold (\<lambda>f acc. case map_of values (fd_key f) of
         None \<Rightarrow> acc
       | Some v \<Rightarrow> if isDescriptorFieldVisible f values \<and> isDescriptorFieldAnswer f (Some v)
                   then put_value (fd_key f) v acc else acc) flds []"

section \<open>The parameters of a gate\<close>

text \<open>The last declaration of a key wins, as in the \<^verbatim>\<open>Map\<close> the code builds.\<close>

definition field_by_key :: "descriptor_field list \<Rightarrow> string \<Rightarrow> descriptor_field option" where
  "field_by_key flds k = List.find (\<lambda>f. fd_key f = k) (rev flds)"

definition effectiveGateConfigFields :: "descriptor_field list \<Rightarrow> field_values option \<Rightarrow> field_values" where
  "effectiveGateConfigFields declared flds =
     withDescriptorFieldDefaults declared
       (filter (\<lambda>(k, v). case field_by_key declared k of
            None \<Rightarrow> True | Some f \<Rightarrow> isDescriptorFieldAnswer f (Some v)) (list_of flds))"

section \<open>Sections\<close>

text \<open>\<^verbatim>\<open>replace(/\s+/g, ' ')\<close>\<close>

fun one_space :: "bool \<Rightarrow> string \<Rightarrow> string" where
  "one_space in_run [] = []"
| "one_space in_run (c # cs) =
     (if is_space c then (if in_run then one_space True cs else CHR '' '' # one_space True cs)
      else c # one_space False cs)"

definition sectionOf :: "descriptor_field \<Rightarrow> (string \<times> string) option" where
  "sectionOf f =
     (let caption = js_trim (case fd_section f of None \<Rightarrow> [] | Some s \<Rightarrow> s)
      in if caption = [] then None else Some (one_space False (map lower caption), caption))"

text \<open>
  The open key is the one of the last section, kept beside the sections in reverse order; a section
  is its caption and its fields.
\<close>

fun add_to_sections ::
  "string option \<Rightarrow> (string option \<times> descriptor_field list) list \<Rightarrow> descriptor_field list
    \<Rightarrow> (string option \<times> descriptor_field list) list" where
  "add_to_sections openKey secs [] = rev secs"
| "add_to_sections openKey secs (f # fs) =
     (let declared = sectionOf f; key = map_option fst declared
      in case secs of
           (cap, xs) # rest \<Rightarrow>
             if key = openKey then add_to_sections openKey ((cap, xs @ [f]) # rest) fs
             else add_to_sections key ((map_option snd declared, [f]) # secs) fs
         | [] \<Rightarrow> add_to_sections key [(map_option snd declared, [f])] fs)"

definition descriptorFieldSections ::
  "descriptor_field list \<Rightarrow> field_values \<Rightarrow> (string option \<times> descriptor_field list) list" where
  "descriptorFieldSections flds values =
     add_to_sections None [] (filter (\<lambda>f. isDescriptorFieldVisible f values) flds)"

section \<open>What is let through\<close>

text \<open>A value that fits its declaration.\<close>

definition value_typed :: "descriptor_field \<Rightarrow> field_value \<Rightarrow> bool" where
  "value_typed f v \<longleftrightarrow> (case v of
      TextValue s \<Rightarrow> fd_type f \<notin> {Some CheckboxGroupField, Some CheckboxField, Some NumberField}
        \<and> (fd_type f = Some SelectField \<longrightarrow> list_of (fd_options f) = [] \<or> s \<in> set (list_of (fd_options f)))
        \<and> (fd_type f = Some PathField \<longrightarrow> isSafeRepoDirPath s)
        \<and> (\<forall>m. fd_maxLength f = Some m \<longrightarrow> length s \<le> m)
    | BoolValue b \<Rightarrow> fd_type f = Some CheckboxField
    | NumberValue n \<Rightarrow> fd_type f = Some NumberField \<and> (fd_integer f = Some True \<longrightarrow> whole n)
        \<and> (\<forall>m. fd_min f = Some m \<longrightarrow> m \<le> n) \<and> (\<forall>m. fd_max f = Some m \<longrightarrow> n \<le> m)
    | ListValue xs \<Rightarrow> fd_type f = Some CheckboxGroupField
        \<and> (list_of (fd_options f) = [] \<or> set xs \<subseteq> set (list_of (fd_options f))))"

lemma set_put_value:
  "(\<And>u. (k, u) \<in> set vs \<Longrightarrow> u = v) \<Longrightarrow> set (put_value k v vs) = insert (k, v) (set vs)"
  by (induction k v vs rule: put_value.induct) auto

lemma set_sanitize:
  "set (sanitizeDescriptorFields flds values) = {(fd_key f, v) | f v. f \<in> set flds
     \<and> map_of values (fd_key f) = Some v \<and> isDescriptorFieldVisible f values
     \<and> isDescriptorFieldAnswer f (Some v)}"
proof -
  let ?g = "\<lambda>f acc. case map_of values (fd_key f) of None \<Rightarrow> acc
       | Some v \<Rightarrow> if isDescriptorFieldVisible f values \<and> isDescriptorFieldAnswer f (Some v)
                   then put_value (fd_key f) v acc else acc"
  let ?ok = "\<lambda>fs. {(fd_key f, v) | f v. f \<in> set fs \<and> map_of values (fd_key f) = Some v
     \<and> isDescriptorFieldVisible f values \<and> isDescriptorFieldAnswer f (Some v)}"
  have "set (fold ?g fs acc) = ?ok fs \<union> set acc"
    if "\<And>k v. (k, v) \<in> set acc \<Longrightarrow> map_of values k = Some v" for fs acc
    using that
  proof (induction fs arbitrary: acc)
    case (Cons f fs)
    have set_g: "set (?g f acc) = ?ok [f] \<union> set acc"
    proof (cases "map_of values (fd_key f)")
      case (Some v)
      with Cons.prems have "\<And>u. (fd_key f, u) \<in> set acc \<Longrightarrow> u = v" by fastforce
      from set_put_value [OF this] Some show ?thesis by auto
    qed simp
    then have sound: "map_of values k = Some v" if "(k, v) \<in> set (?g f acc)" for k v
      using that Cons.prems by auto
    have "set (fold ?g fs (?g f acc)) = ?ok fs \<union> set (?g f acc)"
      by (rule Cons.IH) (rule sound)
    also have "\<dots> = ?ok fs \<union> (?ok [f] \<union> set acc)" unfolding set_g ..
    also have "\<dots> = ?ok (f # fs) \<union> set acc" by auto
    finally show ?case by simp
  qed simp
  from this [of "[]" flds] show ?thesis by (simp add: sanitizeDescriptorFields_def)
qed

lemma semantic_ok:
  assumes "semanticProblems f v = []" and "valueMatchesFieldType f v"
  shows "value_typed f v"
proof (cases v)
  case (TextValue s)
  with assms(2) have "fd_type f \<notin> {Some CheckboxGroupField, Some CheckboxField, Some NumberField}"
    by (simp add: valueMatchesFieldType_def split: option.splits field_type.splits)
  with assms(1) TextValue show ?thesis
    by (auto simp: semanticProblems_def value_typed_def Let_def text_problems_def split: if_splits option.splits)
next
  case (BoolValue b)
  with assms(2) show ?thesis
    by (simp add: valueMatchesFieldType_def value_typed_def split: option.splits field_type.splits)
next
  case (NumberValue n)
  with assms(2) have "fd_type f = Some NumberField"
    by (simp add: valueMatchesFieldType_def split: option.splits field_type.splits)
  with assms(1) NumberValue show ?thesis
    by (auto simp: semanticProblems_def value_typed_def number_problems_def split: if_splits option.splits)
next
  case (ListValue xs)
  with assms(2) have "fd_type f = Some CheckboxGroupField"
    by (simp add: valueMatchesFieldType_def split: option.splits field_type.splits)
  with assms(1) ListValue show ?thesis
    by (auto simp: semanticProblems_def value_typed_def Let_def filter_empty_conv split: if_splits)
qed

lemma validated_field:
  assumes "validateDescriptorFields flds values = []" and "f \<in> set flds"
    and "isDescriptorFieldVisible f values"
  shows "fd_required f = Some True \<Longrightarrow> isFilled (map_of values (fd_key f))"
    and "map_of values (fd_key f) = Some v \<Longrightarrow> isFilled (Some v) \<Longrightarrow> value_typed f v"
proof -
  have p: "field_problems None values f = []"
    using assms(1,2) by (auto simp: validateDescriptorFields_def descriptorProblems_def)
  show "isFilled (map_of values (fd_key f))" if "fd_required f = Some True"
    using p that assms(3) by (cases "map_of values (fd_key f)") (auto simp: field_problems_def split: if_splits)
  show "value_typed f v" if "map_of values (fd_key f) = Some v" "isFilled (Some v)"
    using p that assms(3) by (intro semantic_ok) (auto simp: field_problems_def split: if_splits)
qed

section \<open>Properties\<close>

text \<open>
  C37. The parameters frozen on a run are well typed: when the effective values of a step pass the
  validation, every value the gate receives belongs to a declared, visible field, has the type of
  the field and keeps its bounds and choices, and no visible required field is missing.
\<close>

theorem frozen_parameters_are_typed:
  assumes "validateDescriptorFields declared (effectiveGateConfigFields declared vals) = []"
  shows "(\<forall>(k, v) \<in> set (sanitizeDescriptorFields declared (effectiveGateConfigFields declared vals)).
       \<exists>f \<in> set declared. fd_key f = k \<and> value_typed f v
         \<and> isDescriptorFieldVisible f (effectiveGateConfigFields declared vals))
    \<and> (\<forall>f \<in> set declared. fd_required f = Some True
         \<and> isDescriptorFieldVisible f (effectiveGateConfigFields declared vals)
       \<longrightarrow> (\<exists>v. (fd_key f, v) \<in> set (sanitizeDescriptorFields declared (effectiveGateConfigFields declared vals))))"
proof -
  let ?e = "effectiveGateConfigFields declared vals"
  have typed: "value_typed f v" if "f \<in> set declared" "isDescriptorFieldVisible f ?e"
    "map_of ?e (fd_key f) = Some v" "isDescriptorFieldAnswer f (Some v)" for f v
    using that validated_field(2) [OF assms that(1,2,3)]
    by (auto simp: isDescriptorFieldAnswer_def isExplicitOptOut_def value_typed_def)
  have "\<exists>v. (fd_key f, v) \<in> set (sanitizeDescriptorFields declared ?e)"
    if f: "f \<in> set declared" "fd_required f = Some True" "isDescriptorFieldVisible f ?e" for f
  proof -
    have "isFilled (map_of ?e (fd_key f))" using validated_field(1) [OF assms f(1,3,2)] .
    then obtain v where "map_of ?e (fd_key f) = Some v" "isDescriptorFieldAnswer f (Some v)"
      by (cases "map_of ?e (fd_key f)") (auto simp: isFilled_def isDescriptorFieldAnswer_def)
    with f show ?thesis unfolding set_sanitize by blast
  qed
  with typed show ?thesis unfolding set_sanitize by fast
qed

definition example_gate :: "descriptor_field list" where
  "example_gate = [(bare_field ''attempts'' (Some NumberField))\<lparr>fd_required := Some True,
       fd_default := Some ''3'', fd_min := Some 1, fd_max := Some 10, fd_integer := Some True\<rparr>,
     (bare_field ''dir'' (Some PathField))]"

theorem frozen_parameters_are_typed_witness:
  "sanitizeDescriptorFields example_gate (effectiveGateConfigFields example_gate (Some [(''dir'', TextValue ''docs/api'')]))
     = [(''attempts'', NumberValue 3), (''dir'', TextValue ''docs/api'')]
   \<and> (\<exists>f \<in> set example_gate. fd_key f = ''dir'' \<and> value_typed f (TextValue ''docs/api''))"
proof -
  let ?e = "effectiveGateConfigFields example_gate (Some [(''dir'', TextValue ''docs/api'')])"
  have v: "validateDescriptorFields example_gate ?e = []" by code_simp
  have s: "sanitizeDescriptorFields example_gate ?e
      = [(''attempts'', NumberValue 3), (''dir'', TextValue ''docs/api'')]" by code_simp
  from frozen_parameters_are_typed [OF v] s show ?thesis by auto
qed

text \<open>
  The sections of a form are its visible ones: put together again they give exactly these, in the
  order they are declared.
\<close>

lemma sections_concat:
  "concat (map snd (add_to_sections k secs fs)) = concat (map snd (rev secs)) @ fs"
  by (induction k secs fs rule: add_to_sections.induct) (auto simp: Let_def split: list.split)

lemma sections_keep_the_order:
  "concat (map snd (descriptorFieldSections flds values)) = filter (\<lambda>f. isDescriptorFieldVisible f values) flds"
  by (simp add: descriptorFieldSections_def sections_concat)

end
