(* ===== verification/AgentKinds.thy ===== *)
theory AgentKinds
  imports Prelude
begin

text \<open>
  The agent-kind registry (\<^verbatim>\<open>agents/kinds/registry.ts\<close>) with the lookups that the validation and the
  run preamble ask of it: companions (\<^verbatim>\<open>companions.ts\<close>), gatability (\<^verbatim>\<open>gatable.ts\<close>,
  \<^verbatim>\<open>contracts/agent-gating.ts\<close>), traits (\<^verbatim>\<open>traits.ts\<close>), variants and the checkout a kind asks for.
  The registry's \<^verbatim>\<open>Map\<close>s are maps; prompts, skills, tool servers and presentation are left out.
  The built-in traits of a kind (\<^verbatim>\<open>STANDARD_AGENT_TRAITS\<close>) are data the registry does not own and are
  a parameter here.
\<close>

section \<open>What a kind is registered with\<close>

datatype clone_branch = CloneBase | ClonePr | CloneWork | ClonePrOrWork

datatype pr_head_source = TaskHead | RunHead

record agent_clone =
  cl_branch :: clone_branch
  cl_prHead :: "bool option"
  cl_prHeadSource :: "pr_head_source option"
  cl_requirePr :: "bool option"

datatype agent_surface = InlineSurface | ContainerExplore | ContainerCoding

record agent_step =
  as_surface :: agent_surface
  as_clone :: "agent_clone option"
  as_opensPr :: "bool option"

record agent_kind_def =
  ak_kind :: string
  ak_gatable :: "bool option"
  ak_traits :: "string list option"
  ak_agent :: "agent_step option"

record companion_def =
  co_kind :: string
  co_targets :: "string list"
  co_defaultThreshold :: rat
  co_surface :: "agent_surface option"

record variant_def =
  vd_id :: string
  vd_baseKind :: string

record kind_registry =
  kr_registry :: "string \<rightharpoonup> agent_kind_def"
  kr_assignedTraits :: "string \<rightharpoonup> string list"
  kr_variants :: "string \<rightharpoonup> variant_def"
  kr_companions :: "string \<rightharpoonup> companion_def"

section \<open>The built-in companions\<close>

definition DEFAULT_COMPANION_THRESHOLD :: rat where
  "DEFAULT_COMPANION_THRESHOLD = 4 / 5"

definition builtin_companion :: "string \<Rightarrow> string \<Rightarrow> agent_surface option \<Rightarrow> companion_def" where
  "builtin_companion kind target surface = \<lparr>co_kind = kind, co_targets = [target],
     co_defaultThreshold = DEFAULT_COMPANION_THRESHOLD, co_surface = surface\<rparr>"

definition COMPANIONS :: "companion_def list" where
  "COMPANIONS =
     [builtin_companion ''architect-companion'' ''architect'' None,
      builtin_companion ''spec-companion'' ''spec-writer'' None,
      builtin_companion ''reviewer'' ''coder'' (Some ContainerExplore),
      builtin_companion ''doc-reviewer'' ''doc-writer'' (Some ContainerExplore)]"

definition BUILTIN_BY_KIND :: "string \<rightharpoonup> companion_def" where
  "BUILTIN_BY_KIND = map_of (map (\<lambda>c. (co_kind c, c)) COMPANIONS)"

section \<open>Registration\<close>

definition empty_registry :: kind_registry where
  "empty_registry = \<lparr>kr_registry = Map.empty, kr_assignedTraits = Map.empty, kr_variants = Map.empty,
     kr_companions = fold (\<lambda>c m. m(co_kind c \<mapsto> c)) COMPANIONS Map.empty\<rparr>"

definition register_kind :: "agent_kind_def \<Rightarrow> kind_registry \<Rightarrow> kind_registry" where
  "register_kind d r = r\<lparr>kr_registry := (kr_registry r)(ak_kind d \<mapsto> d)\<rparr>"

definition registerAll :: "agent_kind_def list \<Rightarrow> kind_registry \<Rightarrow> kind_registry" where
  "registerAll ds r = fold register_kind ds r"

definition registerCompanion :: "companion_def \<Rightarrow> kind_registry \<Rightarrow> kind_registry" where
  "registerCompanion c r = r\<lparr>kr_companions := (kr_companions r)(co_kind c \<mapsto> c)\<rparr>"

definition registerVariant :: "variant_def \<Rightarrow> kind_registry \<Rightarrow> kind_registry" where
  "registerVariant v r = r\<lparr>kr_variants := (kr_variants r)(vd_id v \<mapsto> v)\<rparr>"

definition assignTraits :: "string \<Rightarrow> string list \<Rightarrow> kind_registry \<Rightarrow> kind_registry" where
  "assignTraits kind ts r =
     r\<lparr>kr_assignedTraits := (kr_assignedTraits r)(kind \<mapsto>
       fold (\<lambda>t xs. if t \<in> set xs then xs else xs @ [t]) ts (list_of (kr_assignedTraits r kind)))\<rparr>"

section \<open>Lookups of the registry\<close>

definition gatable :: "kind_registry \<Rightarrow> string \<Rightarrow> bool option" where
  "gatable r kind = Option.bind (kr_registry r kind) ak_gatable"

definition agentStep :: "kind_registry \<Rightarrow> string \<Rightarrow> agent_step option" where
  "agentStep r kind = Option.bind (kr_registry r kind) ak_agent"

definition assignedTraitsFor :: "kind_registry \<Rightarrow> string \<Rightarrow> string list" where
  "assignedTraitsFor r kind = list_of (kr_assignedTraits r kind)"

definition variant :: "kind_registry \<Rightarrow> string \<Rightarrow> variant_def option" where
  "variant r vid = kr_variants r vid"

section \<open>Lookups that may lack a registry\<close>

definition companionFor :: "kind_registry option \<Rightarrow> string \<Rightarrow> companion_def option" where
  "companionFor reg kind = (case Option.bind reg (\<lambda>r. kr_companions r kind) of
      Some c \<Rightarrow> Some c | None \<Rightarrow> BUILTIN_BY_KIND kind)"

definition isCompanionKind :: "kind_registry option \<Rightarrow> string \<Rightarrow> bool" where
  "isCompanionKind reg kind \<longleftrightarrow> companionFor reg kind \<noteq> None"

definition companionTargets :: "kind_registry option \<Rightarrow> string \<Rightarrow> string list" where
  "companionTargets reg kind = (case companionFor reg kind of None \<Rightarrow> [] | Some c \<Rightarrow> co_targets c)"

definition isContainerBackedCompanion :: "kind_registry option \<Rightarrow> string \<Rightarrow> bool" where
  "isContainerBackedCompanion reg kind \<longleftrightarrow>
     Option.bind (companionFor reg kind) co_surface = Some ContainerExplore"

definition BUILTIN_GATABLE_KINDS :: "string list" where
  "BUILTIN_GATABLE_KINDS =
     [''reviewer'', ''architect-companion'', ''spec-companion'', ''doc-reviewer'', ''architect'',
      ''researcher'', ''spec-writer'', ''mocker'', ''blueprints'', ''code-commenter'', ''tester-api'',
      ''tester-ui'', ''playwright'', ''repro-test'', ''integration-test'', ''documenter'',
      ''business-documenter'', ''task-reassessor'', ''requirements-review'', ''human-review'',
      ''human-test'', ''visual-confirmation'']"

definition isBuiltinGatableKind :: "string \<Rightarrow> bool" where
  "isBuiltinGatableKind kind \<longleftrightarrow> kind \<in> set BUILTIN_GATABLE_KINDS"

definition isGatableKind :: "kind_registry option \<Rightarrow> string \<Rightarrow> bool" where
  "isGatableKind reg kind = (case Option.bind reg (\<lambda>r. gatable r kind) of
      Some b \<Rightarrow> b | None \<Rightarrow> kind \<in> set BUILTIN_GATABLE_KINDS)"

definition ESTIMATE_PRODUCING_KINDS :: "string list" where
  "ESTIMATE_PRODUCING_KINDS = [''task-estimator'', ''task-reassessor'']"

definition producesTaskEstimate :: "string \<Rightarrow> bool" where
  "producesTaskEstimate kind \<longleftrightarrow> kind \<in> set ESTIMATE_PRODUCING_KINDS"

text \<open>\<open>standard\<close> is the table of built-in traits.\<close>

definition traitsFor :: "(string \<Rightarrow> string list) \<Rightarrow> kind_registry \<Rightarrow> string \<Rightarrow> string set" where
  "traitsFor standard r kind =
     set (standard kind)
     \<union> set (list_of (Option.bind (kr_registry r kind) ak_traits))
     \<union> set (assignedTraitsFor r kind)"

definition hasTrait :: "(string \<Rightarrow> string list) \<Rightarrow> string \<Rightarrow> string \<Rightarrow> kind_registry \<Rightarrow> bool" where
  "hasTrait standard kind t r \<longleftrightarrow> t \<in> traitsFor standard r kind"

definition opensPullRequest :: "kind_registry \<Rightarrow> string \<Rightarrow> bool" where
  "opensPullRequest r kind = (case agentStep r kind of
      None \<Rightarrow> False
    | Some s \<Rightarrow> as_surface s = ContainerCoding
        \<and> map_option cl_branch (as_clone s) \<in> {Some CloneWork, Some ClonePrOrWork}
        \<and> as_opensPr s \<noteq> Some False)"

definition readsRequiredPullRequest :: "kind_registry \<Rightarrow> string \<Rightarrow> bool" where
  "readsRequiredPullRequest r kind = (case Option.bind (agentStep r kind) as_clone of
      None \<Rightarrow> False | Some c \<Rightarrow> cl_prHead c = Some True \<and> cl_requirePr c = Some True)"

section \<open>Registration is authoritative\<close>

lemma companions_preloaded: "kr_companions empty_registry = BUILTIN_BY_KIND"
  by (rule ext) (simp add: empty_registry_def BUILTIN_BY_KIND_def COMPANIONS_def builtin_companion_def)

lemma companionFor_empty: "companionFor (Some empty_registry) kind = companionFor None kind"
  by (simp add: companionFor_def companions_preloaded split: option.splits)

lemma companionFor_register:
  "companionFor (Some (registerCompanion c r)) kind
     = (if kind = co_kind c then Some c else companionFor (Some r) kind)"
  by (simp add: companionFor_def registerCompanion_def)

lemma isGatableKind_register:
  "isGatableKind (Some (register_kind d r)) kind
     = (if kind = ak_kind d then (case ak_gatable d of Some b \<Rightarrow> b | None \<Rightarrow> isBuiltinGatableKind kind)
        else isGatableKind (Some r) kind)"
  by (simp add: isGatableKind_def gatable_def register_kind_def isBuiltinGatableKind_def split: option.splits)

lemma fold_add_set: "set (fold (\<lambda>t xs. if t \<in> set xs then xs else xs @ [t]) ts xs) = set xs \<union> set ts"
  by (induction ts arbitrary: xs) auto

lemma hasTrait_assign:
  "hasTrait standard kind t (assignTraits k ts r) \<longleftrightarrow> hasTrait standard kind t r \<or> kind = k \<and> t \<in> set ts"
  by (auto simp: hasTrait_def traitsFor_def assignTraits_def assignedTraitsFor_def fold_add_set
      split: if_splits)

text \<open>No built-in companion reviews a companion.\<close>

lemma builtin_companions_review_producers:
  assumes "companionFor None kind = Some c" and "t \<in> set (co_targets c)"
  shows "companionFor None t = None"
proof -
  have all: "\<forall>c \<in> set COMPANIONS. \<forall>t \<in> set (co_targets c). companionFor None t = None" by code_simp
  have "c \<in> set COMPANIONS"
    using assms(1) map_of_SomeD [of "map (\<lambda>c. (co_kind c, c)) COMPANIONS" kind c]
    by (auto simp: companionFor_def BUILTIN_BY_KIND_def)
  with all assms(2) show ?thesis by blast
qed

end
