(* ===== verification/RunModel.thy ===== *)
theory RunModel
  imports Prelude Verdicts Ralph FormFields
begin

text \<open>
  The data of a run (\<^verbatim>\<open>contracts/src/execution.ts\<close> and the state schemas it imports): a
  pipeline step, the execution instance that carries the steps, and the failure record. A field
  that is \<^verbatim>\<open>optional\<close> or \<^verbatim>\<open>nullable\<close> is an \<open>option\<close>; the code reads both absences alike
  (\<^verbatim>\<open>== null\<close>, \<^verbatim>\<open>??\<close>). Sub-objects that the modelled code only stores, carries or clears are
  opaque serialised values (\<open>json\<close>). The fields of a step that no modelled operation reads or
  writes are left out: its metrics and reports, and the sub-states of the gates that are not
  modelled (tester, human test, visual confirmation, fork, PR review, bug fishing, consensus).
\<close>

type_synonym json = string

section \<open>Step state\<close>

datatype step_state = Pending | Working | WaitingDecision | StepDone

datatype approval_status = ApprovalPending | Approved | ChangesRequested | Rejected

datatype workspace_role = AdminRole | MemberRole | ViewerRole

record approver_policy =
  gp_roles :: "workspace_role list option"
  gp_userIds :: "string list option"

record approval_record =
  ar_actorId :: string
  ar_actorLabel :: "string option"
  ar_at :: int

record approval =
  ap_id :: string
  ap_status :: approval_status
  ap_proposal :: string
  ap_feedback :: "string option"
  ap_comments :: "review_comment list option"
  ap_requiredApprovals :: "int option"
  ap_approverPolicy :: "approver_policy option"
  ap_approvals :: "approval_record list option"

text \<open>A question the agent raised.\<close>

record step_decision =
  dc_id :: string
  dc_question :: string
  dc_options :: "string list"
  dc_chosen :: "string option"

text \<open>A gate as it is raised without a policy.\<close>

definition pending_approval :: "string \<Rightarrow> string \<Rightarrow> approval" where
  "pending_approval aid proposal =
     \<lparr>ap_id = aid, ap_status = ApprovalPending, ap_proposal = proposal, ap_feedback = None,
      ap_comments = None, ap_requiredApprovals = None, ap_approverPolicy = None, ap_approvals = None\<rparr>"

record companion_verdict =
  cv_rating :: rat
  cv_threshold :: rat
  cv_passed :: bool
  cv_feedback :: string
  cv_comments :: "review_comment list option"

record companion_state =
  cs_threshold :: rat
  cs_maxAttempts :: nat
  cs_attempts :: nat
  cs_verdicts :: "companion_verdict list"
  cs_exceeded :: "bool option"
  cs_capSettledByPolicy :: "bool option"
  cs_stalled :: "bool option"

datatype requester = RequestedByHuman | RequestedByReviewer

record rework =
  re_previousProposal :: string
  re_feedback :: string
  re_comments :: "review_comment list option"
  re_requestedBy :: requester

datatype container_phase = ContainerStarting | ContainerUp | ContainerErrored

record container =
  ct_status :: container_phase
  ct_phase :: "string option"
  ct_id :: "string option"
  ct_url :: "string option"

datatype delegation_status = DStarting | DRunning | DDone | DFailed | DCancelled

record delegation_attempt =
  da_startedAt :: int
  da_externalId :: "string option"
  da_url :: "string option"
  da_outcome :: "string option"
  da_usageReported :: "bool option"

record delegation =
  dl_executor :: string
  dl_status :: delegation_status
  dl_correlationKey :: string
  dl_poll :: "(int \<times> int) option"
  dl_externalId :: "string option"
  dl_url :: "string option"
  dl_phase :: "string option"
  dl_branches :: "json option"
  dl_repo :: "json option"
  dl_branch :: "string option"
  dl_attempts :: "delegation_attempt list"
  dl_note :: "string option"

datatype gate_phase = GateChecking | GateWorking
datatype probe_status = ProbePass | ProbePending | ProbeFail

record gate_state =
  gs_phase :: gate_phase
  gs_attempts :: nat
  gs_maxAttempts :: nat
  gs_headSha :: "string option"
  gs_headShas :: "json option"
  gs_conflictTarget :: "json option"
  gs_lastVerdict :: "probe_status option"
  gs_config :: "json option"
  gs_lastFailureSummary :: "string option"
  gs_failingChecks :: "json option"
  gs_lastDispatchedInstructions :: "string option"
  gs_watchSince :: "int option"
  gs_watchWindowMinutes :: "int option"
  gs_humanReviewGraceMinutes :: "int option"
  gs_pendingFix :: "string option"

datatype deploy_fix_phase = Fixing | Retrying

record deploy_fix_state =
  df_phase :: deploy_fix_phase
  df_attempts :: nat
  df_maxAttempts :: nat
  df_frameId :: string
  df_lastError :: string
  df_cycle :: "nat option"
  df_attemptLog :: "json list option"
  df_droppedAttempts :: "nat option"

record environment_investigation =
  ei_attempts :: nat
  ei_maxAttempts :: nat
  ei_frameId :: string
  ei_environmentId :: "string option"
  ei_waitExtensions :: "nat option"
  ei_cycle :: "nat option"
  ei_attemptLog :: "json list option"
  ei_droppedAttempts :: "nat option"

datatype missing_estimate = MissingRun | MissingSkip

record step_gating =
  sg_enabled :: bool
  sg_minComplexity :: "rat option"
  sg_minRisk :: "rat option"
  sg_minImpact :: "rat option"
  sg_onMissingEstimate :: "missing_estimate option"

section \<open>The options of a step\<close>

text \<open>
  \<open>gc_minApprovals\<close> is an integer by the schema. The options no modelled operation reads (automatic
  recommendations, output limits, the configuration of the deployer's helpers) are \<open>so_rest\<close>.
\<close>

record step_gate_config =
  gc_approvers :: "approver_policy option"
  gc_minApprovals :: "int option"
  gc_fields :: "field_values option"

datatype service_scope = FrontendScope | BackendScope

record binary_output =
  bo_storageServiceId :: "string option"
  bo_generatorIds :: "string list option"
  bo_comparison :: "nat option option"
  bo_outputSize :: "(nat \<times> nat) option"
  bo_aspectRatio :: "string option"
  bo_upscale :: "nat option"

record step_options =
  so_skillId :: "string option"
  so_agentVariantId :: "string option"
  so_binaryOutput :: "binary_output option"
  so_retainEnvironment :: "bool option"
  so_gateConfig :: "step_gate_config option"
  so_condition :: "service_scope option"
  so_rest :: "json option"

definition no_options :: step_options where
  "no_options = \<lparr>so_skillId = None, so_agentVariantId = None, so_binaryOutput = None,
     so_retainEnvironment = None, so_gateConfig = None, so_condition = None, so_rest = None\<rparr>"

datatype skip_reason =
    SkipGated | SkipCondition | SkipProducer | SkipRunComplete | SkipNoPullRequest

section \<open>A pipeline step\<close>

record step =
  st_runId :: "string option"
  st_agentKind :: string
  st_state :: step_state
  st_progress :: rat
  st_gate :: "gate_state option"
  st_subtasks :: "json option"
  st_container :: "container option"
  st_delegated :: "delegation option"
  st_decision :: "step_decision option"
  st_requiresApproval :: "bool option"
  st_approval :: "approval option"
  st_companion :: "companion_state option"
  st_ralph :: "ralph_state option"
  st_rework :: "rework option"
  st_pendingInterview :: "json option"
  st_gating :: "step_gating option"
  st_testerQuality :: "json option"
  st_stepOptions :: "step_options option"
  st_skipped :: "bool option"
  st_skipReason :: "skip_reason option"
  st_output :: "string option"
  st_outputIsRendered :: "bool option"
  st_custom :: "json option"
  st_reproduction :: "json option"
  st_toolServers :: "(json \<times> string) option"
  st_dispatches :: "(string \<times> nat) list option"
  st_model :: "string option"
  st_subscriptionTokenId :: "string option"
  st_initiatedByUserId :: "string option"
  st_selectedFragmentIds :: "string list option"
  st_jobId :: "string option"
  st_startedAt :: "int option"
  st_finishedAt :: "int option"
  st_firstStartedAt :: "int option"
  st_attempts :: "nat option"
  st_lastActivityAt :: "int option"
  st_pausedAt :: "int option"
  st_evictionRecoveries :: "nat option"
  st_transientEvictionRecoveries :: "nat option"
  st_branchContentionRecoveries :: "nat option"
  st_delegatedRetries :: "nat option"
  st_firstEvictionDetail :: "string option"
  st_deployProvisioning :: "json option"
  st_deployEnvs :: "json option"
  st_deployFrameId :: "string option"
  st_deployPrimaryFrameId :: "string option"
  st_deployWait :: "json option"
  st_deployFix :: "deploy_fix_state option"
  st_environmentInvestigation :: "environment_investigation option"

text \<open>A step with a kind and a state and nothing else.\<close>

definition bare_step :: "string \<Rightarrow> step_state \<Rightarrow> step" where
  "bare_step kind state =
     \<lparr>st_runId = None, st_agentKind = kind, st_state = state, st_progress = 0, st_gate = None,
      st_subtasks = None, st_container = None, st_delegated = None, st_decision = None,
      st_requiresApproval = None, st_approval = None, st_companion = None, st_ralph = None,
      st_rework = None, st_pendingInterview = None, st_gating = None, st_testerQuality = None,
      st_stepOptions = None, st_skipped = None, st_skipReason = None, st_output = None, st_outputIsRendered = None, st_custom = None,
      st_reproduction = None, st_toolServers = None, st_dispatches = None, st_model = None,
      st_subscriptionTokenId = None, st_initiatedByUserId = None,
      st_selectedFragmentIds = None, st_jobId = None, st_startedAt = None, st_finishedAt = None,
      st_firstStartedAt = None, st_attempts = None, st_lastActivityAt = None, st_pausedAt = None,
      st_evictionRecoveries = None, st_transientEvictionRecoveries = None, st_branchContentionRecoveries = None,
      st_delegatedRetries = None, st_firstEvictionDetail = None, st_deployProvisioning = None, st_deployEnvs = None,
      st_deployFrameId = None, st_deployPrimaryFrameId = None, st_deployWait = None,
      st_deployFix = None, st_environmentInvestigation = None\<rparr>"

section \<open>Failures\<close>

datatype failure_kind =
    Preflight | Dispatch | Environment | Evicted | HarnessShutdown | Timeout | AgentFailed
  | JobFailed | DelegatedFailed | RejectedByHuman | CompanionRejected | Stalled
  | StateUnreadable | Cancelled | UnknownFailure

record agent_failure =
  af_kind :: failure_kind
  af_message :: string
  af_detail :: "string option"
  af_reason :: "string option"
  af_occurredAt :: int
  af_lastSubtasks :: "json option"
  af_stepIndex :: "nat option"

record prior_output =
  po_stepIndex :: nat
  po_occurredAt :: int
  po_output :: string
  po_truncated :: bool

section \<open>An execution instance\<close>

datatype execution_status = Running | Blocked | RunDone | Paused | Failed

datatype run_mode = Live | DryRun
datatype intake_origin = UiIntake | OtherIntake string

text \<open>The verdict of the input check (\<^verbatim>\<open>contracts/src/input-gate.ts\<close>); a finding names a field by its key.\<close>

datatype input_gate_code =
    DescriptionMissing | DescriptionPlaceholder | DescriptionThin | ReproductionMissing
  | ReviewTargetMissing | SuccessCriteriaMissing | RequiredFieldMissing

datatype input_gate_severity = BlockingInput | AdvisoryInput

datatype input_gate_mode = GateStandard | GateAdvisory | GateOff

datatype input_gate_status = GateWasOff | GateNotApplicable | GatePassed | GateBlocked | GateOverridden

record input_gate_issue =
  ii_code :: input_gate_code
  ii_severity :: input_gate_severity
  ii_field :: "string option"

record run_input_gate =
  ig_status :: input_gate_status
  ig_mode :: input_gate_mode
  ig_issues :: "input_gate_issue list"
  ig_checkedAt :: int
  ig_overriddenBy :: "string option option"
  ig_overriddenAt :: "int option"

record instance_rec =
  in_id :: string
  in_blockId :: string
  in_pipelineId :: string
  in_pipelineName :: string
  in_steps :: "step list"
  in_currentStep :: nat
  in_status :: execution_status
  in_failure :: "agent_failure option"
  in_failureHistory :: "agent_failure list option"
  in_outputHistory :: "prior_output list option"
  in_initiatedBy :: "string option"
  in_initiatedByRole :: "workspace_role option"
  in_initiatedByExternalIdentity :: "string option"
  in_mode :: "run_mode option"
  in_intakeOrigin :: "intake_origin option"
  in_notes :: "string list option"
  in_frontendBindings :: "json list option"
  in_diagnostics :: "json option"
  in_inputGate :: "run_input_gate option"
  in_createdAt :: "int option"
  in_rev :: nat

text \<open>A running run of a block with the given steps, at its first step.\<close>

definition bare_run :: "string \<Rightarrow> string \<Rightarrow> step list \<Rightarrow> instance_rec" where
  "bare_run rid block steps =
     \<lparr>in_id = rid, in_blockId = block, in_pipelineId = ''pl'', in_pipelineName = ''pl'',
      in_steps = steps, in_currentStep = 0, in_status = Running, in_failure = None,
      in_failureHistory = None, in_outputHistory = None, in_initiatedBy = None,
      in_initiatedByRole = None, in_initiatedByExternalIdentity = None, in_mode = None,
      in_intakeOrigin = None, in_notes = None, in_frontendBindings = None, in_diagnostics = None,
      in_inputGate = None, in_createdAt = None, in_rev = 0\<rparr>"

definition live_status :: "execution_status \<Rightarrow> bool" where
  "live_status s \<longleftrightarrow> s \<in> {Running, Blocked, Paused}"

definition terminal_status :: "execution_status \<Rightarrow> bool" where
  "terminal_status s \<longleftrightarrow> s = RunDone \<or> s = Failed"

lemma live_iff_not_terminal: "live_status s \<longleftrightarrow> \<not> terminal_status s"
  by (cases s) (auto simp: live_status_def terminal_status_def)

text \<open>The cursor is inside the step list of a run that still runs.\<close>

definition cursor_ok :: "instance_rec \<Rightarrow> bool" where
  "cursor_ok i \<longleftrightarrow> in_currentStep i < length (in_steps i)"

end
