(* ===== verification/GateApproval.thy ===== *)
theory GateApproval
  imports RunModel
begin

text \<open>
  The human approval gate of a step (\<^verbatim>\<open>contracts/gate-approval.ts\<close>, \<^verbatim>\<open>execution/stepApproval.ts\<close>): who may
  resolve it, how many must, how an approval is recorded; and the approval half of a pipeline's gate
  configuration (\<^verbatim>\<open>contracts/pipeline-approvals.ts\<close>): the identity of a step across two versions of a
  chain, the checkpoints a built-in locks, and the normalisation of a step's gate configuration.
\<close>

section \<open>Who may resolve a gate\<close>

datatype actor_kind = UserActor | ApiKeyActor | UnattributedActor

record gate_actor =
  act_id :: string
  act_kind :: actor_kind
  act_role :: "workspace_role option"
  act_label :: "string option"

definition UNATTRIBUTED_GATE_ACTOR :: string where
  "UNATTRIBUTED_GATE_ACTOR = ''unattributed''"

datatype gate_refusal = NotAGateApprover | IdentityRequired

definition policy_roles :: "approver_policy option \<Rightarrow> workspace_role list" where
  "policy_roles policy = list_of (Option.bind policy gp_roles)"

definition policy_users :: "approver_policy option \<Rightarrow> string list" where
  "policy_users policy = list_of (Option.bind policy gp_userIds)"

definition hasApproverPolicy :: "approver_policy option \<Rightarrow> bool" where
  "hasApproverPolicy policy \<longleftrightarrow> policy_roles policy \<noteq> [] \<or> policy_users policy \<noteq> []"

definition refuseGateResolution :: "approver_policy option \<Rightarrow> gate_actor \<Rightarrow> gate_refusal option" where
  "refuseGateResolution policy a =
     (if \<not> hasApproverPolicy policy then None
      else if act_kind a \<noteq> UserActor then Some IdentityRequired
      else if act_role a = Some AdminRole then None
      else if (case act_role a of Some r \<Rightarrow> r \<in> set (policy_roles policy) | None \<Rightarrow> False) then None
      else if act_id a \<in> set (policy_users policy) then None
      else Some NotAGateApprover)"

definition requiredGateApprovals :: "step_gate_config option \<Rightarrow> int" where
  "requiredGateApprovals config = (case Option.bind config gc_minApprovals of
      Some m \<Rightarrow> if m > 1 then m else 1 | None \<Rightarrow> 1)"

text \<open>The recorded approvals with the actor's own, and whether the quorum is met.\<close>

definition foldGateApproval ::
  "approval \<Rightarrow> gate_actor \<Rightarrow> int \<Rightarrow> approval_record list \<times> bool" where
  "foldGateApproval ap a t =
     (let approvals = filter (\<lambda>r. ar_actorId r \<noteq> act_id a) (list_of (ap_approvals ap))
            @ [\<lparr>ar_actorId = act_id a, ar_actorLabel = nonempty (act_label a), ar_at = t\<rparr>]
      in (approvals, int (length approvals) \<ge> (case ap_requiredApprovals ap of None \<Rightarrow> 1 | Some n \<Rightarrow> n)))"

definition buildStepApproval :: "step \<Rightarrow> string \<Rightarrow> string \<Rightarrow> approval" where
  "buildStepApproval s aid proposal =
     (let config = Option.bind (st_stepOptions s) so_gateConfig;
          required = requiredGateApprovals config;
          approvers = Option.bind config gc_approvers
      in (pending_approval aid proposal)\<lparr>
           ap_requiredApprovals := (if required > 1 then Some required else None),
           ap_approverPolicy := (if hasApproverPolicy approvers then approvers else None)\<rparr>)"

section \<open>The identity of a step across versions of a chain\<close>

definition occurrence_key :: "string \<Rightarrow> nat \<Rightarrow> string" where
  "occurrence_key kind n = kind @ ''#'' @ digits n"

fun keys_after :: "string list \<Rightarrow> string list \<Rightarrow> string list" where
  "keys_after earlier [] = []"
| "keys_after earlier (k # ks) =
     occurrence_key k (length (filter ((=) k) earlier)) # keys_after (earlier @ [k]) ks"

definition stepOccurrenceKeys :: "string list \<Rightarrow> string list" where
  "stepOccurrenceKeys agentKinds = keys_after [] agentKinds"

text \<open>\<^verbatim>\<open>xs?.[i]\<close>\<close>

definition entry :: "'a list option \<Rightarrow> nat \<Rightarrow> 'a option" where
  "entry xs i = (case xs of None \<Rightarrow> None | Some ys \<Rightarrow> if i < length ys then Some (ys ! i) else None)"

record catalog_approvals =
  ca_agentKinds :: "string list"
  ca_gates :: "bool list"

definition catalogGatedSteps :: "string list \<Rightarrow> catalog_approvals option \<Rightarrow> bool list" where
  "catalogGatedSteps agentKinds catalog = (case catalog of
      None \<Rightarrow> map (\<lambda>k. False) agentKinds
    | Some c \<Rightarrow>
        (let shipped = map snd (filter (\<lambda>(i, k). entry (Some (ca_gates c)) i = Some True)
               (enumerate 0 (stepOccurrenceKeys (ca_agentKinds c))))
         in map (\<lambda>key. key \<in> set shipped) (stepOccurrenceKeys agentKinds)))"

definition lockedCheckpoints ::
  "string list \<Rightarrow> bool list option \<Rightarrow> catalog_approvals option \<Rightarrow> bool list" where
  "lockedCheckpoints agentKinds gates catalog =
     map (\<lambda>(i, shipped). shipped \<and> entry gates i = Some True)
       (enumerate 0 (catalogGatedSteps agentKinds catalog))"

section \<open>The approval half of a gate configuration\<close>

record approval_policy =
  pol_approvers :: "approver_policy option"
  pol_minApprovals :: "int option"

definition approvalPolicyOf :: "step_options option \<Rightarrow> approval_policy option" where
  "approvalPolicyOf options = (case Option.bind options so_gateConfig of
      None \<Rightarrow> None
    | Some config \<Rightarrow>
        (let policy = \<lparr>pol_approvers = gc_approvers config, pol_minApprovals = gc_minApprovals config\<rparr>
         in if pol_approvers policy = None \<and> pol_minApprovals policy = None then None else Some policy))"

text \<open>
  A patch names the keys it writes: \<open>None\<close> leaves a key, \<open>Some None\<close> writes \<^verbatim>\<open>undefined\<close>.
\<close>

record gate_patch =
  gpa_approvers :: "approver_policy option option"
  gpa_minApprovals :: "int option option"
  gpa_fields :: "field_values option option"

definition patch_key :: "'a option option \<Rightarrow> 'a option \<Rightarrow> 'a option" where
  "patch_key p old = (case p of None \<Rightarrow> old | Some new \<Rightarrow> new)"

definition no_gate_config :: step_gate_config where
  "no_gate_config = \<lparr>gc_approvers = None, gc_minApprovals = None, gc_fields = None\<rparr>"

definition normal_gate_config :: "step_gate_config \<Rightarrow> step_gate_config" where
  "normal_gate_config c =
     \<lparr>gc_approvers = (if hasApproverPolicy (gc_approvers c) then gc_approvers c else None),
      gc_minApprovals = (case gc_minApprovals c of
         Some m \<Rightarrow> if m \<le> 1 then None else Some m | None \<Rightarrow> None),
      gc_fields = (case gc_fields c of Some fs \<Rightarrow> if fs = [] then None else Some fs | None \<Rightarrow> None)\<rparr>"

definition patchedGateConfig :: "step_options option \<Rightarrow> gate_patch \<Rightarrow> step_options option" where
  "patchedGateConfig options patch =
     (let current = (case Option.bind options so_gateConfig of None \<Rightarrow> no_gate_config | Some c \<Rightarrow> c);
          gateConfig = normal_gate_config
            \<lparr>gc_approvers = patch_key (gpa_approvers patch) (gc_approvers current),
             gc_minApprovals = patch_key (gpa_minApprovals patch) (gc_minApprovals current),
             gc_fields = patch_key (gpa_fields patch) (gc_fields current)\<rparr>;
          new = (case options of None \<Rightarrow> no_options | Some os \<Rightarrow> os)
            \<lparr>so_gateConfig := (if gateConfig = no_gate_config then None else Some gateConfig)\<rparr>
      in if new = no_options then None else Some new)"

section \<open>Facts\<close>

lemma enumerate_nth_filter:
  "x \<in> set (map snd (filter (\<lambda>(i, k). P i) (enumerate 0 xs))) \<longleftrightarrow> (\<exists>i < length xs. xs ! i = x \<and> P i)"
  by (auto simp: in_set_enumerate_eq image_iff)

lemma length_keys_after [simp]: "length (keys_after earlier ks) = length ks"
  by (induction ks arbitrary: earlier) auto

lemma length_stepOccurrenceKeys [simp]: "length (stepOccurrenceKeys ks) = length ks"
  by (simp add: stepOccurrenceKeys_def)

lemma digit_no_hash: "m < 10 \<Longrightarrow> char_of (48 + m :: nat) \<noteq> CHR ''#''"
proof
  assume "m < 10" and "char_of (48 + m) = CHR ''#''"
  then have "of_char (char_of (48 + m) :: char) = (of_char (CHR ''#'') :: nat)" by simp
  with \<open>m < 10\<close> show False by (simp add: of_char_of)
qed

lemma digits_no_hash: "CHR ''#'' \<notin> set (digits n)"
proof (induction n rule: digits.induct)
  case (1 n)
  show ?case
  proof (cases "n < 10")
    case True
    from digit_no_hash [OF this] True show ?thesis by (subst digits.simps) (simp del: char_of_nat)
  next
    case False
    moreover have "char_of (48 + n mod 10 :: nat) \<noteq> CHR ''#''" by (rule digit_no_hash) simp
    ultimately show ?thesis using 1 by (subst digits.simps) (simp del: char_of_nat)
  qed
qed

lemma occurrence_key_inject: "occurrence_key k n = occurrence_key l m \<longleftrightarrow> k = l \<and> n = m"
proof
  assume eq: "occurrence_key k n = occurrence_key l m"
  let ?p = "\<lambda>c. c \<noteq> CHR ''#''"
  have no: "x \<in> set (rev (digits n)) \<Longrightarrow> ?p x" for x n
    using digits_no_hash [of n] by auto
  have r: "rev (occurrence_key k n) = rev (digits n) @ CHR ''#'' # rev k" for k n
    by (simp add: occurrence_key_def)
  have d: "dropWhile ?p (rev (occurrence_key k n)) = CHR ''#'' # rev k" for k n
    unfolding r by (subst dropWhile_append2) (use no in auto)
  have t: "takeWhile ?p (rev (occurrence_key k n)) = rev (digits n)" for k n
    unfolding r by (subst takeWhile_append2) (use no in auto)
  from eq d [of k n] d [of l m] t [of k n] t [of l m] show "k = l \<and> n = m" by simp
qed simp

lemma nth_keys_after:
  "i < length ks \<Longrightarrow> keys_after earlier ks ! i
     = occurrence_key (ks ! i) (length (filter ((=) (ks ! i)) (earlier @ take i ks)))"
  by (induction ks arbitrary: i earlier) (auto simp: nth_Cons split: nat.split)

lemma nth_stepOccurrenceKeys:
  "i < length ks \<Longrightarrow> stepOccurrenceKeys ks ! i
     = occurrence_key (ks ! i) (length (filter ((=) (ks ! i)) (take i ks)))"
  by (simp add: stepOccurrenceKeys_def nth_keys_after)

lemma distinct_keys_after: "distinct (keys_after earlier ks)"
proof (induction ks arbitrary: earlier)
  case (Cons k ks)
  have "occurrence_key k (length (filter ((=) k) earlier)) \<notin> set (keys_after (earlier @ [k]) ks)"
    by (auto simp: in_set_conv_nth nth_keys_after occurrence_key_inject)
  with Cons show ?case by simp
qed simp

lemma distinct_stepOccurrenceKeys: "distinct (stepOccurrenceKeys ks)"
  by (simp add: stepOccurrenceKeys_def distinct_keys_after)

section \<open>The quorum\<close>

text \<open>An approval that does not complete the quorum, as \<^verbatim>\<open>approveStep\<close> records it.\<close>

definition record_approval :: "gate_actor \<times> int \<Rightarrow> approval \<Rightarrow> approval" where
  "record_approval v ap = ap\<lparr>ap_approvals := Some (fst (foldGateApproval ap (fst v) (snd v)))\<rparr>"

definition approvers_of :: "approval \<Rightarrow> string list" where
  "approvers_of ap = map ar_actorId (list_of (ap_approvals ap))"

lemma approvers_record:
  "approvers_of (record_approval v ap) = filter (\<lambda>x. x \<noteq> act_id (fst v)) (approvers_of ap) @ [act_id (fst v)]"
  by (simp add: approvers_of_def record_approval_def foldGateApproval_def Let_def filter_map comp_def)

lemma approvers_fold:
  assumes "distinct (approvers_of ap)"
  shows "distinct (approvers_of (fold record_approval vs ap))"
    and "set (approvers_of (fold record_approval vs ap)) = set (approvers_of ap) \<union> act_id ` fst ` set vs"
proof -
  have "distinct (approvers_of (fold record_approval vs ap))
      \<and> set (approvers_of (fold record_approval vs ap)) = set (approvers_of ap) \<union> act_id ` fst ` set vs"
    using assms
  proof (induction vs arbitrary: ap)
    case (Cons v vs)
    have "distinct (approvers_of (record_approval v ap))"
      using Cons.prems by (auto simp: approvers_record)
    from Cons.IH [OF this] show ?case by (auto simp: approvers_record)
  qed simp
  then show "distinct (approvers_of (fold record_approval vs ap))"
    and "set (approvers_of (fold record_approval vs ap)) = set (approvers_of ap) \<union> act_id ` fst ` set vs"
    by simp_all
qed

lemma required_record [simp]: "ap_requiredApprovals (fold record_approval vs ap) = ap_requiredApprovals ap"
  by (induction vs arbitrary: ap) (simp_all add: record_approval_def)

lemma foldGateApproval_satisfied:
  "snd (foldGateApproval ap a t) \<longleftrightarrow>
     (case ap_requiredApprovals ap of None \<Rightarrow> 1 | Some n \<Rightarrow> n) \<le> int (length (approvers_of (record_approval (a, t) ap)))"
  by (simp add: foldGateApproval_def Let_def record_approval_def approvers_of_def)

lemma build_required:
  "(case ap_requiredApprovals (buildStepApproval s aid proposal) of None \<Rightarrow> 1 | Some n \<Rightarrow> n)
     = requiredGateApprovals (Option.bind (st_stepOptions s) so_gateConfig)"
  by (simp add: buildStepApproval_def Let_def pending_approval_def requiredGateApprovals_def split: option.splits)

text \<open>
  A quorum counts people: after any sequence of approvals of a freshly raised gate, each identity
  is recorded once, and the next approval completes the quorum exactly when the distinct identities
  reach the number the step is configured with, however often somebody has approved.
\<close>

theorem quorum_counts_people:
  "distinct (approvers_of (fold record_approval votes (buildStepApproval s aid proposal)))
   \<and> set (approvers_of (fold record_approval votes (buildStepApproval s aid proposal))) = act_id ` fst ` set votes
   \<and> (snd (foldGateApproval (fold record_approval votes (buildStepApproval s aid proposal)) a t)
      \<longleftrightarrow> requiredGateApprovals (Option.bind (st_stepOptions s) so_gateConfig)
            \<le> int (card (insert (act_id a) (act_id ` fst ` set votes))))"
proof -
  let ?ap = "buildStepApproval s aid proposal"
  have empty: "approvers_of ?ap = []"
    by (simp add: approvers_of_def buildStepApproval_def Let_def pending_approval_def)
  then have fresh: "distinct (approvers_of ?ap)" by simp
  note before = approvers_fold [OF fresh, of votes]
  note after = approvers_fold [OF before(1), of "[(a, t)]"]
  have "length (approvers_of (record_approval (a, t) (fold record_approval votes ?ap)))
      = card (insert (act_id a) (act_id ` fst ` set votes))"
    using after before(2) distinct_card [OF after(1)] by (simp add: empty)
  then show ?thesis
    using before by (simp add: empty foldGateApproval_satisfied build_required)
qed

section \<open>The locked checkpoints\<close>

definition occurrence :: "string list \<Rightarrow> nat \<Rightarrow> nat" where
  "occurrence ks i = length (filter ((=) (ks ! i)) (take i ks))"

lemma stepOccurrenceKeys_inject:
  assumes "i < length ks" and "j < length ls"
  shows "stepOccurrenceKeys ks ! i = stepOccurrenceKeys ls ! j \<longleftrightarrow> ks ! i = ls ! j \<and> occurrence ks i = occurrence ls j"
  using assms by (simp add: nth_stepOccurrenceKeys occurrence_key_inject occurrence_def)

lemma length_catalogGatedSteps [simp]: "length (catalogGatedSteps ks c) = length ks"
  by (simp add: catalogGatedSteps_def Let_def split: option.splits)

lemma catalogGatedSteps_nth:
  assumes "i < length ks"
  shows "catalogGatedSteps ks (Some c) ! i \<longleftrightarrow> (\<exists>j < length (ca_agentKinds c).
     ca_agentKinds c ! j = ks ! i \<and> occurrence (ca_agentKinds c) j = occurrence ks i
     \<and> entry (Some (ca_gates c)) j = Some True)"
proof -
  have "catalogGatedSteps ks (Some c) ! i \<longleftrightarrow> stepOccurrenceKeys ks ! i \<in> set (map snd
      (filter (\<lambda>(i, k). entry (Some (ca_gates c)) i = Some True) (enumerate 0 (stepOccurrenceKeys (ca_agentKinds c)))))"
    using assms by (simp add: catalogGatedSteps_def Let_def del: set_map set_filter)
  then show ?thesis
    unfolding enumerate_nth_filter using assms by (auto simp: stepOccurrenceKeys_inject)
qed

lemma lockedCheckpoints_nth:
  "i < length ks \<Longrightarrow> lockedCheckpoints ks gates c ! i \<longleftrightarrow> catalogGatedSteps ks c ! i \<and> entry gates i = Some True"
  by (simp add: lockedCheckpoints_def nth_enumerate_eq)

section \<open>Normalisation\<close>

definition clear_policy_patch :: "approval_policy option \<Rightarrow> gate_patch" where
  "clear_policy_patch policy = \<lparr>gpa_approvers = Some (Option.bind policy pol_approvers),
     gpa_minApprovals = Some (Option.bind policy pol_minApprovals), gpa_fields = None\<rparr>"

definition normal_policy :: "approval_policy option \<Rightarrow> approval_policy option" where
  "normal_policy policy =
     (let c = normal_gate_config \<lparr>gc_approvers = Option.bind policy pol_approvers,
          gc_minApprovals = Option.bind policy pol_minApprovals, gc_fields = None\<rparr>
      in if gc_approvers c = None \<and> gc_minApprovals c = None then None
         else Some \<lparr>pol_approvers = gc_approvers c, pol_minApprovals = gc_minApprovals c\<rparr>)"

lemma bind_unless_default:
  "f no_options = None \<Longrightarrow> Option.bind (if n = no_options then None else Some n) f = f n"
  by simp

lemma patched_gateConfig:
  "Option.bind (patchedGateConfig options patch) so_gateConfig =
     (let current = (case Option.bind options so_gateConfig of None \<Rightarrow> no_gate_config | Some c \<Rightarrow> c);
          c = normal_gate_config
            \<lparr>gc_approvers = patch_key (gpa_approvers patch) (gc_approvers current),
             gc_minApprovals = patch_key (gpa_minApprovals patch) (gc_minApprovals current),
             gc_fields = patch_key (gpa_fields patch) (gc_fields current)\<rparr>
      in if c = no_gate_config then None else Some c)"
  unfolding patchedGateConfig_def Let_def
  by (subst bind_unless_default) (simp_all add: no_options_def)

lemma patchedGateConfig_other_options:
  assumes "f no_options = None" and "\<And>os c. f (os\<lparr>so_gateConfig := c\<rparr>) = f os"
  shows "Option.bind (patchedGateConfig options patch) f = Option.bind options f"
  unfolding patchedGateConfig_def Let_def
  by (subst bind_unless_default) (use assms in \<open>simp_all split: option.splits\<close>)

lemma approvalPolicy_patched:
  "approvalPolicyOf (patchedGateConfig options (clear_policy_patch policy)) = normal_policy policy"
  unfolding approvalPolicyOf_def patched_gateConfig
  by (simp add: clear_policy_patch_def normal_policy_def normal_gate_config_def no_gate_config_def
      patch_key_def Let_def)

lemma normal_gate_config_idem [simp]: "normal_gate_config (normal_gate_config c) = normal_gate_config c"
  by (cases c) (auto simp: normal_gate_config_def hasApproverPolicy_def policy_roles_def policy_users_def
      split: option.splits)

end
