(* ===== verification/PipelineShape.thy ===== *)
theory PipelineShape
  imports AgentKinds GateApproval
begin

text \<open>
  The structural validation of a pipeline (\<^verbatim>\<open>pipelines/pipelineShape.ts\<close>), which the builder runs on a
  save and the engine on a start: where companions, estimate gates, run conditions and human
  checkpoints may stand, and the options a step must or must not carry. The parallel arrays are
  kept as the code has them: optional, and read past their end as absent.
\<close>

section \<open>A pipeline\<close>

record tester_quality =
  tq_enabled :: bool
  tq_gating :: "step_gating option"

record pipeline_chain =
  pc_agentKinds :: "string list"
  pc_enabled :: "bool list option"
  pc_gates :: "bool list option"
  pc_gating :: "step_gating option list option"
  pc_testerQuality :: "tester_quality option list option"
  pc_stepOptions :: "step_options option list option"

datatype pipeline_availability = OneOff | Recurring | BothWays

record pipeline = pipeline_chain +
  pl_id :: string
  pl_name :: string
  pl_builtin :: "bool option"
  pl_availability :: "pipeline_availability option"
  pl_thresholds :: "rat option list option"
  pl_rest :: "json option"

text \<open>What a caller has registered; the table of built-in traits comes with it.\<close>

type_synonym gate_fields = "string \<rightharpoonup> descriptor_field list option"

record registries =
  rs_kinds :: "kind_registry option"
  rs_gates :: "gate_fields option"
  rs_standard :: "string \<Rightarrow> string list"

definition no_registries :: registries where
  "no_registries = \<lparr>rs_kinds = None, rs_gates = None, rs_standard = (\<lambda>k. [])\<rparr>"

definition step_enabled :: "'a pipeline_chain_scheme \<Rightarrow> nat \<Rightarrow> bool" where
  "step_enabled p i \<longleftrightarrow> entry (pc_enabled p) i \<noteq> Some False"

definition gated_at :: "'a pipeline_chain_scheme \<Rightarrow> nat \<Rightarrow> bool" where
  "gated_at p i \<longleftrightarrow> entry (pc_gates p) i = Some True"

definition gating_at :: "'a pipeline_chain_scheme \<Rightarrow> nat \<Rightarrow> step_gating option" where
  "gating_at p i = Option.bind (entry (pc_gating p) i) (\<lambda>g. g)"

definition estimate_gated :: "'a pipeline_chain_scheme \<Rightarrow> nat \<Rightarrow> bool" where
  "estimate_gated p i \<longleftrightarrow> (case gating_at p i of Some g \<Rightarrow> sg_enabled g | None \<Rightarrow> False)"

definition options_at :: "'a pipeline_chain_scheme \<Rightarrow> nat \<Rightarrow> step_options option" where
  "options_at p i = Option.bind (entry (pc_stepOptions p) i) (\<lambda>os. os)"

definition condition_at :: "'a pipeline_chain_scheme \<Rightarrow> nat \<Rightarrow> service_scope option" where
  "condition_at p i = Option.bind (options_at p i) so_condition"

definition gate_config_at :: "'a pipeline_chain_scheme \<Rightarrow> nat \<Rightarrow> step_gate_config option" where
  "gate_config_at p i = Option.bind (options_at p i) so_gateConfig"

text \<open>The steps a check visits: the enabled ones, in order.\<close>

definition enabled_steps :: "'a pipeline_chain_scheme \<Rightarrow> nat list" where
  "enabled_steps p = filter (step_enabled p) [0..<length (pc_agentKinds p)]"

section \<open>Which skip would cancel a checkpoint\<close>

definition stepMaySkip :: "'a pipeline_chain_scheme \<Rightarrow> nat \<Rightarrow> bool" where
  "stepMaySkip p i \<longleftrightarrow> estimate_gated p i \<or> condition_at p i \<noteq> None"

text \<open>The nearest preceding enabled step.\<close>

definition producer_index :: "'a pipeline_chain_scheme \<Rightarrow> nat \<Rightarrow> nat option" where
  "producer_index p i = scan_back (step_enabled p) i"

definition checkpointSkippedBy ::
  "'a pipeline_chain_scheme \<Rightarrow> nat \<Rightarrow> (string \<Rightarrow> bool) \<Rightarrow> nat option" where
  "checkpointSkippedBy p i isCompanion =
     (if stepMaySkip p i then Some i
      else if length (pc_agentKinds p) \<le> i \<or> \<not> isCompanion (pc_agentKinds p ! i) then None
      else case producer_index p i of
          Some j \<Rightarrow> if stepMaySkip p j then Some j else None
        | None \<Rightarrow> None)"

section \<open>Refusals\<close>

datatype shape_refusal =
    CompanionMisplaced string "string list"
  | NotGatable string | CheckpointOnEstimateGated string | NoThreshold string | NoEstimateProducer string
  | NotConditional string | CheckpointOnConditional string | CheckpointUnreachable string string
  | QualityNoThreshold string | QualityNoProducer string
  | SkillMissing
  | UnknownVariant string string | ForeignVariant string string | InlineVariant string string
  | NoStorage string | OneCandidate string | AmbiguousSize string "string list"
  | ApprovalWithoutGate string | UnsatisfiableQuorum string int nat
  | NoGateForParameters string | InvalidGateParameters string "field_problem list"
  | PullRequestReaderFirst string string

definition no_threshold :: "step_gating \<Rightarrow> bool" where
  "no_threshold g \<longleftrightarrow> sg_minComplexity g = None \<and> sg_minRisk g = None \<and> sg_minImpact g = None"

definition hasEstimateProducerBefore :: "'a pipeline_chain_scheme \<Rightarrow> nat \<Rightarrow> bool" where
  "hasEstimateProducerBefore p i \<longleftrightarrow>
     list_ex (\<lambda>j. producesTaskEstimate (pc_agentKinds p ! j) \<and> step_enabled p j) [0..<i]"

section \<open>The checks\<close>

text \<open>Each check is given as what it says of one enabled step; a step it does not concern passes.\<close>

definition companion_placement_at :: "registries \<Rightarrow> 'a pipeline_chain_scheme \<Rightarrow> nat \<Rightarrow> shape_refusal option" where
  "companion_placement_at rs p i =
     (let kind = pc_agentKinds p ! i; targets = companionTargets (rs_kinds rs) kind
      in if \<not> isCompanionKind (rs_kinds rs) kind then None
         else case producer_index p i of
             Some j \<Rightarrow> if pc_agentKinds p ! j \<in> set targets then None else Some (CompanionMisplaced kind targets)
           | None \<Rightarrow> Some (CompanionMisplaced kind targets))"

definition assertValidCompanionPlacement :: "registries \<Rightarrow> 'a pipeline_chain_scheme \<Rightarrow> shape_refusal option" where
  "assertValidCompanionPlacement rs p = check_all (companion_placement_at rs p) (enabled_steps p)"

definition gating_check_at :: "registries \<Rightarrow> 'a pipeline_chain_scheme \<Rightarrow> nat \<Rightarrow> shape_refusal option" where
  "gating_check_at rs p i = (case gating_at p i of
      None \<Rightarrow> None
    | Some g \<Rightarrow>
        (let kind = pc_agentKinds p ! i
         in if \<not> sg_enabled g then None
            else if \<not> isGatableKind (rs_kinds rs) kind then Some (NotGatable kind)
            else if gated_at p i then Some (CheckpointOnEstimateGated kind)
            else if no_threshold g then Some (NoThreshold kind)
            else if \<not> hasEstimateProducerBefore p i then Some (NoEstimateProducer kind)
            else None))"

definition assertValidGating :: "registries \<Rightarrow> 'a pipeline_chain_scheme \<Rightarrow> shape_refusal option" where
  "assertValidGating rs p = check_all (gating_check_at rs p) (enabled_steps p)"

definition condition_check_at :: "registries \<Rightarrow> 'a pipeline_chain_scheme \<Rightarrow> nat \<Rightarrow> shape_refusal option" where
  "condition_check_at rs p i =
     (let kind = pc_agentKinds p ! i
      in if condition_at p i = None then None
         else if \<not> isGatableKind (rs_kinds rs) kind then Some (NotConditional kind)
         else if gated_at p i then Some (CheckpointOnConditional kind)
         else None)"

definition assertValidRunConditions :: "registries \<Rightarrow> 'a pipeline_chain_scheme \<Rightarrow> shape_refusal option" where
  "assertValidRunConditions rs p = check_all (condition_check_at rs p) (enabled_steps p)"

definition reachable_check_at :: "registries \<Rightarrow> 'a pipeline_chain_scheme \<Rightarrow> nat \<Rightarrow> shape_refusal option" where
  "reachable_check_at rs p i =
     (let kind = pc_agentKinds p ! i
      in if \<not> gated_at p i \<or> \<not> isCompanionKind (rs_kinds rs) kind then None
         else case checkpointSkippedBy p i (isCompanionKind (rs_kinds rs)) of
             None \<Rightarrow> None
           | Some j \<Rightarrow> if j = i then None else Some (CheckpointUnreachable kind (pc_agentKinds p ! j)))"

definition assertCompanionCheckpointsReachable :: "registries \<Rightarrow> 'a pipeline_chain_scheme \<Rightarrow> shape_refusal option" where
  "assertCompanionCheckpointsReachable rs p = check_all (reachable_check_at rs p) (enabled_steps p)"

definition isTesterKind :: "string \<Rightarrow> bool" where
  "isTesterKind kind \<longleftrightarrow> kind = ''tester-api'' \<or> kind = ''tester-ui''"

definition quality_check_at :: "'a pipeline_chain_scheme \<Rightarrow> nat \<Rightarrow> shape_refusal option" where
  "quality_check_at p i =
     (let kind = pc_agentKinds p ! i
      in case Option.bind (Option.bind (entry (pc_testerQuality p) i) (\<lambda>q. q)) tq_gating of
           None \<Rightarrow> None
         | Some g \<Rightarrow>
             if \<not> sg_enabled g \<or> \<not> isTesterKind kind then None
             else if no_threshold g then Some (QualityNoThreshold kind)
             else if \<not> hasEstimateProducerBefore p i then Some (QualityNoProducer kind)
             else None)"

definition assertValidTesterQualityGating :: "'a pipeline_chain_scheme \<Rightarrow> shape_refusal option" where
  "assertValidTesterQualityGating p = check_all (quality_check_at p) (enabled_steps p)"

definition SKILL_AGENT_KIND :: string where
  "SKILL_AGENT_KIND = ''skill''"

definition unset :: "string option \<Rightarrow> bool" where
  "unset t \<longleftrightarrow> (case t of None \<Rightarrow> True | Some s \<Rightarrow> blank s)"

definition skill_check_at :: "'a pipeline_chain_scheme \<Rightarrow> nat \<Rightarrow> shape_refusal option" where
  "skill_check_at p i =
     (if pc_agentKinds p ! i = SKILL_AGENT_KIND \<and> unset (Option.bind (options_at p i) so_skillId)
      then Some SkillMissing else None)"

definition assertValidSkillSteps :: "'a pipeline_chain_scheme \<Rightarrow> shape_refusal option" where
  "assertValidSkillSteps p = check_all (skill_check_at p) (enabled_steps p)"

definition INLINE_ENGINE_KINDS :: "string list" where
  "INLINE_ENGINE_KINDS =
     [''requirements-review'', ''requirements-rework'', ''requirements-writer'', ''clarity-review'',
      ''clarity-rework'', ''requirements-brainstorm'', ''requirements-brainstorm-rework'',
      ''architecture-brainstorm'', ''architecture-brainstorm-rework'', ''environment-investigator'']"

definition variant_check_at :: "kind_registry \<Rightarrow> 'a pipeline_chain_scheme \<Rightarrow> nat \<Rightarrow> shape_refusal option" where
  "variant_check_at r p i =
     (let kind = pc_agentKinds p ! i
      in case nonempty (Option.bind (options_at p i) so_agentVariantId) of
           None \<Rightarrow> None
         | Some vid \<Rightarrow>
             (case variant r vid of
                None \<Rightarrow> Some (UnknownVariant kind vid)
              | Some v \<Rightarrow>
                  if vd_baseKind v \<noteq> kind then Some (ForeignVariant kind vid)
                  else if kind \<in> set INLINE_ENGINE_KINDS then Some (InlineVariant kind vid)
                  else None))"

definition assertValidAgentVariants :: "registries \<Rightarrow> 'a pipeline_chain_scheme \<Rightarrow> shape_refusal option" where
  "assertValidAgentVariants rs p = (case rs_kinds rs of
      None \<Rightarrow> None | Some r \<Rightarrow> check_all (variant_check_at r p) (enabled_steps p))"

definition BINARY_OUTPUT_TRAIT :: string where
  "BINARY_OUTPUT_TRAIT = ''binary-output''"

definition conflictingOutputSizeOptions :: "binary_output \<Rightarrow> string list" where
  "conflictingOutputSizeOptions b =
     (if bo_outputSize b = None then []
      else (if nonempty (bo_aspectRatio b) \<noteq> None then [''aspectRatio''] else [])
           @ (if bo_upscale b \<noteq> None then [''upscale''] else []))"

text \<open>\<open>bo_comparison\<close> is the comparison, with its count of candidates per generator.\<close>

definition comparable :: "binary_output \<Rightarrow> bool" where
  "comparable b \<longleftrightarrow> (case bo_comparison b of
      None \<Rightarrow> True
    | Some per \<Rightarrow> (case per of None \<Rightarrow> 1 | Some n \<Rightarrow> n) > 1 \<or> length (list_of (bo_generatorIds b)) \<ge> 2)"

definition binary_check_at :: "registries \<Rightarrow> kind_registry \<Rightarrow> 'a pipeline_chain_scheme \<Rightarrow> nat \<Rightarrow> shape_refusal option" where
  "binary_check_at rs r p i =
     (let kind = pc_agentKinds p ! i
      in if \<not> hasTrait (rs_standard rs) kind BINARY_OUTPUT_TRAIT r then None
         else case Option.bind (options_at p i) so_binaryOutput of
             None \<Rightarrow> Some (NoStorage kind)
           | Some b \<Rightarrow>
               if unset (bo_storageServiceId b) then Some (NoStorage kind)
               else if \<not> comparable b then Some (OneCandidate kind)
               else if conflictingOutputSizeOptions b \<noteq> []
               then Some (AmbiguousSize kind (conflictingOutputSizeOptions b))
               else None)"

definition assertValidBinaryOutputSteps :: "registries \<Rightarrow> 'a pipeline_chain_scheme \<Rightarrow> shape_refusal option" where
  "assertValidBinaryOutputSteps rs p = (case rs_kinds rs of
      None \<Rightarrow> None | Some r \<Rightarrow> check_all (binary_check_at rs r p) (enabled_steps p))"

definition assertSatisfiableQuorum :: "string \<Rightarrow> step_gate_config \<Rightarrow> shape_refusal option" where
  "assertSatisfiableQuorum kind config =
     (let required = requiredGateApprovals (Some config);
          named = length (policy_users (gc_approvers config))
      in if required \<le> 1 then None
         else if policy_roles (gc_approvers config) \<noteq> [] \<or> named = 0 then None
         else if int named < required then Some (UnsatisfiableQuorum kind required named)
         else None)"

definition approval_policy_check_at :: "'a pipeline_chain_scheme \<Rightarrow> nat \<Rightarrow> shape_refusal option" where
  "approval_policy_check_at p i = (case gate_config_at p i of
      None \<Rightarrow> None
    | Some config \<Rightarrow>
        (let kind = pc_agentKinds p ! i
         in if (hasApproverPolicy (gc_approvers config) \<or> gc_minApprovals config \<noteq> None) \<and> \<not> gated_at p i
            then Some (ApprovalWithoutGate kind)
            else assertSatisfiableQuorum kind config))"

definition assertValidApprovalPolicies :: "'a pipeline_chain_scheme \<Rightarrow> shape_refusal option" where
  "assertValidApprovalPolicies p = check_all (approval_policy_check_at p) (enabled_steps p)"

definition gate_fields_check_at :: "gate_fields \<Rightarrow> 'a pipeline_chain_scheme \<Rightarrow> nat \<Rightarrow> shape_refusal option" where
  "gate_fields_check_at gs p i =
     (let kind = pc_agentKinds p ! i; supplied = list_of (Option.bind (gate_config_at p i) gc_fields)
      in case gs kind of
           None \<Rightarrow> if supplied = [] then None else Some (NoGateForParameters kind)
         | Some configFields \<Rightarrow>
             (let declared = list_of configFields;
                  problems = validateDescriptorFields declared (effectiveGateConfigFields declared (Some supplied))
              in if problems \<noteq> [] then Some (InvalidGateParameters kind problems) else None))"

definition assertValidGateConfig :: "registries \<Rightarrow> 'a pipeline_chain_scheme \<Rightarrow> shape_refusal option" where
  "assertValidGateConfig rs p = (case assertValidApprovalPolicies p of
      Some e \<Rightarrow> Some e
    | None \<Rightarrow> (case rs_gates rs of
        None \<Rightarrow> None | Some gs \<Rightarrow> check_all (gate_fields_check_at gs p) (enabled_steps p)))"

definition assertValidPullRequestReaders :: "registries \<Rightarrow> 'a pipeline_chain_scheme \<Rightarrow> shape_refusal option" where
  "assertValidPullRequestReaders rs p = (case rs_kinds rs of
      None \<Rightarrow> None
    | Some r \<Rightarrow>
        (case List.find (\<lambda>i. opensPullRequest r (pc_agentKinds p ! i)) (enabled_steps p) of
           None \<Rightarrow> None
         | Some opensAt \<Rightarrow>
             check_all (\<lambda>i. if pc_agentKinds p ! i \<noteq> [] \<and> step_enabled p i
                   \<and> readsRequiredPullRequest r (pc_agentKinds p ! i)
                 then Some (PullRequestReaderFirst (pc_agentKinds p ! i) (pc_agentKinds p ! opensAt))
                 else None) [0..<opensAt]))"

section \<open>The validations\<close>

definition validatePipelineShape :: "registries \<Rightarrow> 'a pipeline_chain_scheme \<Rightarrow> shape_refusal option" where
  "validatePipelineShape rs p = check_all (\<lambda>r. r)
     [assertValidCompanionPlacement rs p, assertValidGating rs p, assertValidRunConditions rs p,
      assertCompanionCheckpointsReachable rs p, assertValidTesterQualityGating p,
      assertValidSkillSteps p, assertValidAgentVariants rs p, assertValidBinaryOutputSteps rs p,
      assertValidGateConfig rs p, assertValidPullRequestReaders rs p]"

definition skippable_check_at :: "'a pipeline_chain_scheme \<Rightarrow> nat \<Rightarrow> shape_refusal option" where
  "skippable_check_at p i =
     (if \<not> gated_at p i then None
      else if estimate_gated p i then Some (CheckpointOnEstimateGated (pc_agentKinds p ! i))
      else if condition_at p i \<noteq> None then Some (CheckpointOnConditional (pc_agentKinds p ! i))
      else None)"

definition assertCheckpointsNotOnSkippableSteps :: "'a pipeline_chain_scheme \<Rightarrow> shape_refusal option" where
  "assertCheckpointsNotOnSkippableSteps p = check_all (skippable_check_at p) (enabled_steps p)"

definition validateCheckpointShape :: "registries \<Rightarrow> 'a pipeline_chain_scheme \<Rightarrow> shape_refusal option" where
  "validateCheckpointShape rs p = check_all (\<lambda>r. r)
     [assertCheckpointsNotOnSkippableSteps p, assertCompanionCheckpointsReachable rs p,
      assertValidApprovalPolicies p]"

section \<open>Launch constraints\<close>

datatype run_origin = ManualOrigin | RecurringOrigin

datatype launch_refusal = IntakeNeedsSchedule | RecurringOnly | OneOffOnly

definition BUG_INTAKE_AGENT_KIND :: string where
  "BUG_INTAKE_AGENT_KIND = ''bug-intake''"

definition pipelineHasEnabledBugIntake :: "string list \<Rightarrow> bool list option \<Rightarrow> bool" where
  "pipelineHasEnabledBugIntake agentKinds enabled \<longleftrightarrow>
     list_ex (\<lambda>i. agentKinds ! i = BUG_INTAKE_AGENT_KIND \<and> entry enabled i \<noteq> Some False) [0..<length agentKinds]"

definition assertPipelineLaunchable ::
  "string list \<Rightarrow> pipeline_availability option \<Rightarrow> run_origin option \<Rightarrow> bool list option \<Rightarrow> launch_refusal option" where
  "assertPipelineLaunchable agentKinds availability origin enabled =
     (let effective = (case availability of None \<Rightarrow> BothWays | Some a \<Rightarrow> a)
      in if pipelineHasEnabledBugIntake agentKinds enabled \<and> effective \<noteq> Recurring then Some IntakeNeedsSchedule
         else if origin = Some ManualOrigin \<and> effective = Recurring then Some RecurringOnly
         else if origin = Some RecurringOrigin \<and> effective = OneOff then Some OneOffOnly
         else None)"

section \<open>What an accepted shape gives\<close>

lemma enabled_steps_iff: "i \<in> set (enabled_steps p) \<longleftrightarrow> i < length (pc_agentKinds p) \<and> step_enabled p i"
  by (simp add: enabled_steps_def)

lemma accepted_checks:
  assumes "validatePipelineShape rs p = None" and "i < length (pc_agentKinds p)" and "step_enabled p i"
  shows "companion_placement_at rs p i = None" and "gating_check_at rs p i = None"
    and "condition_check_at rs p i = None" and "reachable_check_at rs p i = None"
    and "approval_policy_check_at p i = None"
  using assms
  by (auto simp: validatePipelineShape_def check_all_None assertValidCompanionPlacement_def
      assertValidGating_def assertValidRunConditions_def assertCompanionCheckpointsReachable_def
      assertValidGateConfig_def assertValidApprovalPolicies_def enabled_steps_iff split: option.splits)

end
