(* ===== verification/PipelineApprovals.thy ===== *)
theory PipelineApprovals
  imports PipelineShape
begin

text \<open>
  The human checkpoints of a pipeline as their own write (\<^verbatim>\<open>pipelines/pipelineApprovals.ts\<close>): a request
  that replaces them, which a built-in takes as long as it keeps the checkpoints of its catalog
  definition, and the carrying of a workspace's checkpoints onto a new catalog definition when a
  built-in is reseeded.
\<close>

section \<open>Setting the checkpoints\<close>

record set_approvals =
  sa_agentKinds :: "string list"
  sa_gates :: "bool list"
  sa_policies :: "approval_policy option list option"

datatype approvals_refusal = ChainStale | LengthMismatch nat nat | CheckpointLocked "string list"

definition catalogApprovalsOf :: "pipeline option \<Rightarrow> catalog_approvals option" where
  "catalogApprovalsOf seed = map_option (\<lambda>p.
     \<lparr>ca_agentKinds = pc_agentKinds p, ca_gates = list_of (pc_gates p)\<rparr>) seed"

definition withApprovalPolicy ::
  "step_options option \<Rightarrow> approval_policy option \<Rightarrow> step_options option" where
  "withApprovalPolicy options policy = patchedGateConfig options (clear_policy_patch policy)"

definition mismatched_length :: "nat \<Rightarrow> set_approvals \<Rightarrow> nat option" where
  "mismatched_length steps req =
     (if length (sa_gates req) \<noteq> steps then Some (length (sa_gates req))
      else case sa_policies req of
          Some ps \<Rightarrow> if length ps \<noteq> steps then Some (length ps) else None
        | None \<Rightarrow> None)"

definition removed_checkpoints ::
  "pipeline \<Rightarrow> set_approvals \<Rightarrow> catalog_approvals option \<Rightarrow> string list" where
  "removed_checkpoints existing req catalog =
     (let locked = lockedCheckpoints (pc_agentKinds existing) (pc_gates existing) catalog
      in map ((!) (pc_agentKinds existing))
           (filter (\<lambda>i. locked ! i \<and> \<not> sa_gates req ! i) [0..<length (pc_agentKinds existing)]))"

definition applied_options :: "pipeline \<Rightarrow> set_approvals \<Rightarrow> nat \<Rightarrow> step_options option" where
  "applied_options existing req i =
     (let current = options_at existing i
      in if \<not> sa_gates req ! i then withApprovalPolicy current None
         else case sa_policies req of
             Some ps \<Rightarrow> withApprovalPolicy current (ps ! i)
           | None \<Rightarrow> current)"

definition approvalsApplied ::
  "pipeline \<Rightarrow> set_approvals \<Rightarrow> catalog_approvals option \<Rightarrow>
     approvals_refusal + (bool list option \<times> step_options option list option)" where
  "approvalsApplied existing req catalog =
     (let steps = length (pc_agentKinds existing)
      in if sa_agentKinds req \<noteq> pc_agentKinds existing then Inl ChainStale
         else case mismatched_length steps req of
             Some n \<Rightarrow> Inl (LengthMismatch n steps)
           | None \<Rightarrow>
               (let removed = removed_checkpoints existing req catalog
                in if pl_builtin existing = Some True \<and> removed \<noteq> [] then Inl (CheckpointLocked removed)
                   else let stepOptions = map (applied_options existing req) [0..<steps]
                        in Inr (if list_ex (\<lambda>g. g) (sa_gates req) then Some (sa_gates req) else None,
                                if list_ex (\<lambda>os. os \<noteq> None) stepOptions then Some stepOptions else None)))"

definition with_approvals ::
  "pipeline \<Rightarrow> bool list option \<times> step_options option list option \<Rightarrow> pipeline" where
  "with_approvals p ch = p\<lparr>pc_gates := fst ch, pc_stepOptions := snd ch\<rparr>"

section \<open>Carrying the checkpoints over a reseed\<close>

record carried =
  cr_pipeline :: pipeline
  cr_dropped :: "string list"
  cr_droppedPolicies :: "string list"

definition stored_checkpoints :: "pipeline \<Rightarrow> string \<rightharpoonup> approval_policy option" where
  "stored_checkpoints existing =
     fold (\<lambda>(i, key) m. if gated_at existing i then m(key \<mapsto> approvalPolicyOf (options_at existing i)) else m)
       (enumerate 0 (stepOccurrenceKeys (pc_agentKinds existing))) Map.empty"

definition withCheckpoint ::
  "pipeline \<Rightarrow> nat \<Rightarrow> approval_policy option \<Rightarrow> approvals_refusal + pipeline" where
  "withCheckpoint p i policy =
     (let js = [0..<length (pc_agentKinds p)]
      in bind_result
           (approvalsApplied (p\<lparr>pl_builtin := Some False\<rparr>)
              \<lparr>sa_agentKinds = pc_agentKinds p, sa_gates = map (\<lambda>j. j = i \<or> gated_at p j) js,
               sa_policies = Some (map (\<lambda>j. if j = i then policy else approvalPolicyOf (options_at p j)) js)\<rparr>
              None)
           (\<lambda>ch. Inr (with_approvals p ch)))"

definition carry_checkpoint ::
  "pipeline \<Rightarrow> (string \<rightharpoonup> approval_policy option) \<Rightarrow> (pipeline \<Rightarrow> bool) \<Rightarrow> carried \<Rightarrow> nat \<times> string
    \<Rightarrow> approvals_refusal + carried" where
  "carry_checkpoint seed stored admits c ik =
     (let i = fst ik; kind = pc_agentKinds seed ! i
      in case stored (snd ik) of
           None \<Rightarrow> Inr c
         | Some own \<Rightarrow>
             (let policy = (case own of Some q \<Rightarrow> Some q | None \<Rightarrow> approvalPolicyOf (options_at seed i))
              in bind_result (withCheckpoint (cr_pipeline c) i policy) (\<lambda>candidate.
                   if admits candidate then Inr (c\<lparr>cr_pipeline := candidate\<rparr>)
                   else if policy = None then Inr (c\<lparr>cr_dropped := cr_dropped c @ [kind]\<rparr>)
                   else bind_result (withCheckpoint (cr_pipeline c) i None) (\<lambda>bare.
                     if admits bare
                     then Inr (c\<lparr>cr_pipeline := bare, cr_droppedPolicies := cr_droppedPolicies c @ [kind]\<rparr>)
                     else Inr (c\<lparr>cr_dropped := cr_dropped c @ [kind]\<rparr>)))))"

definition carriedApprovals ::
  "pipeline \<Rightarrow> pipeline \<Rightarrow> (pipeline \<Rightarrow> bool) \<Rightarrow> approvals_refusal + carried" where
  "carriedApprovals seed existing admits =
     (let stored = stored_checkpoints existing; seedKeys = stepOccurrenceKeys (pc_agentKinds seed)
      in bind_result
           (fold_result (carry_checkpoint seed stored admits)
              \<lparr>cr_pipeline = seed, cr_dropped = [], cr_droppedPolicies = []\<rparr> (enumerate 0 seedKeys))
           (\<lambda>c. Inr (c\<lparr>cr_dropped := cr_dropped c @
              map (\<lambda>(i, key). pc_agentKinds existing ! i)
                (filter (\<lambda>(i, key). stored key \<noteq> None \<and> key \<notin> set seedKeys)
                   (enumerate 0 (stepOccurrenceKeys (pc_agentKinds existing))))\<rparr>)))"

section \<open>What a request leaves\<close>

lemma options_entry: "Option.bind (entry (Some xs) i) (\<lambda>x. x) = (if i < length xs then xs ! i else None)"
  by (simp add: entry_def)

lemma approvalsApplied_eq_Inr:
  "approvalsApplied p req catalog = Inr ch \<longleftrightarrow>
     sa_agentKinds req = pc_agentKinds p \<and> mismatched_length (length (pc_agentKinds p)) req = None
     \<and> (pl_builtin p = Some True \<longrightarrow> removed_checkpoints p req catalog = [])
     \<and> (let os = map (applied_options p req) [0..<length (pc_agentKinds p)]
        in ch = (if list_ex (\<lambda>g. g) (sa_gates req) then Some (sa_gates req) else None,
                 if list_ex (\<lambda>os. os \<noteq> None) os then Some os else None))"
proof (cases "mismatched_length (length (pc_agentKinds p)) req")
  case None
  have split: "(if b then Inl e else Inr x) = Inr ch \<longleftrightarrow> \<not> b \<and> ch = x" for b and e :: approvals_refusal and x ch
    by auto
  from None show ?thesis
    by (cases "sa_agentKinds req = pc_agentKinds p") (simp_all only: approvalsApplied_def Let_def split option.case
        simp_thms if_False if_True sum.distinct de_Morgan_conj not_not imp_conv_disj)
next
  case (Some n)
  then show ?thesis by (simp add: approvalsApplied_def Let_def)
qed

lemma mismatched_length_None:
  "mismatched_length n req = None \<longleftrightarrow> length (sa_gates req) = n \<and> (\<forall>ps. sa_policies req = Some ps \<longrightarrow> length ps = n)"
  by (simp add: mismatched_length_def split: option.splits)

lemma approvalsApplied_Inr:
  assumes "approvalsApplied p req catalog = Inr ch" and i: "i < length (pc_agentKinds p)"
  shows "gated_at (with_approvals p ch) i \<longleftrightarrow> sa_gates req ! i"
    and "options_at (with_approvals p ch) i = applied_options p req i"
    and "pl_builtin p = Some True \<Longrightarrow> lockedCheckpoints (pc_agentKinds p) (pc_gates p) catalog ! i \<Longrightarrow> sa_gates req ! i"
proof -
  let ?os = "map (applied_options p req) [0..<length (pc_agentKinds p)]"
  from assms(1) have len: "length (sa_gates req) = length (pc_agentKinds p)"
    and locked: "pl_builtin p = Some True \<longrightarrow> removed_checkpoints p req catalog = []"
    and ch: "fst ch = (if list_ex (\<lambda>g. g) (sa_gates req) then Some (sa_gates req) else None)"
      "snd ch = (if list_ex (\<lambda>os. os \<noteq> None) ?os then Some ?os else None)"
    unfolding approvalsApplied_eq_Inr mismatched_length_None Let_def by simp_all
  show "gated_at (with_approvals p ch) i \<longleftrightarrow> sa_gates req ! i"
    using i len unfolding gated_at_def with_approvals_def
    by (auto simp: ch(1) entry_def list_ex_iff in_set_conv_nth)
  show "options_at (with_approvals p ch) i = applied_options p req i"
  proof (cases "list_ex (\<lambda>os. os \<noteq> None) ?os")
    case True
    with i show ?thesis by (simp add: options_at_def with_approvals_def ch(2) entry_def)
  next
    case False
    then have "applied_options p req i = None" using i by (auto simp: list_ex_iff)
    with False show ?thesis by (simp add: options_at_def with_approvals_def ch(2) entry_def)
  qed
  show "sa_gates req ! i" if "pl_builtin p = Some True"
    "lockedCheckpoints (pc_agentKinds p) (pc_gates p) catalog ! i"
    using locked that i by (auto simp: removed_checkpoints_def Let_def filter_empty_conv)
qed

lemma condition_patched:
  "Option.bind (withApprovalPolicy os policy) so_condition = Option.bind os so_condition"
  unfolding withApprovalPolicy_def by (rule patchedGateConfig_other_options) (simp_all add: no_options_def)

lemma condition_applied: "Option.bind (applied_options p req i) so_condition = condition_at p i"
  by (simp add: applied_options_def Let_def condition_patched condition_at_def split: option.splits)

lemma normal_policy_None [simp]: "normal_policy None = None"
  by (simp add: normal_policy_def normal_gate_config_def hasApproverPolicy_def policy_roles_def policy_users_def)

lemma policy_applied:
  "approvalPolicyOf (applied_options p req i) =
     (if \<not> sa_gates req ! i then None
      else case sa_policies req of
          Some ps \<Rightarrow> normal_policy (ps ! i) | None \<Rightarrow> approvalPolicyOf (options_at p i))"
  by (simp add: applied_options_def Let_def withApprovalPolicy_def approvalPolicy_patched split: option.splits)

text \<open>
  What a workspace sets is what the pipeline then carries: after an accepted request every step's
  checkpoint is the requested one, its approver policy is the requested one in normal form (and gone
  where the checkpoint is off), its run condition is untouched, and a built-in still has every
  checkpoint that its catalog definition ships and its row carried.
\<close>

theorem set_approvals_reads_back:
  assumes "approvalsApplied p req catalog = Inr ch" and "i < length (pc_agentKinds p)"
  shows "(gated_at (with_approvals p ch) i \<longleftrightarrow> sa_gates req ! i)
    \<and> approvalPolicyOf (options_at (with_approvals p ch) i) =
        (if \<not> sa_gates req ! i then None
         else case sa_policies req of
             Some ps \<Rightarrow> normal_policy (ps ! i) | None \<Rightarrow> approvalPolicyOf (options_at p i))
    \<and> condition_at (with_approvals p ch) i = condition_at p i
    \<and> (pl_builtin p = Some True \<and> lockedCheckpoints (pc_agentKinds p) (pc_gates p) catalog ! i
       \<longrightarrow> gated_at (with_approvals p ch) i)"
  using approvalsApplied_Inr [OF assms] policy_applied [of p req i] condition_applied [of p req i]
  by (simp add: condition_at_def)

section \<open>What a reseed keeps\<close>

lemma withCheckpoint_Inr:
  assumes "i < length (pc_agentKinds p)"
  obtains q where "withCheckpoint p i policy = Inr q" and "pc_agentKinds q = pc_agentKinds p"
    and "\<And>j. j < length (pc_agentKinds p) \<Longrightarrow> gated_at q j \<longleftrightarrow> j = i \<or> gated_at p j"
proof -
  let ?js = "[0..<length (pc_agentKinds p)]" and ?p = "p\<lparr>pl_builtin := Some False\<rparr>"
  let ?req = "\<lparr>sa_agentKinds = pc_agentKinds p, sa_gates = map (\<lambda>j. j = i \<or> gated_at p j) ?js,
     sa_policies = Some (map (\<lambda>j. if j = i then policy else approvalPolicyOf (options_at p j)) ?js)\<rparr>"
  obtain ch where ch: "approvalsApplied ?p ?req None = Inr ch"
    by (simp add: approvalsApplied_eq_Inr mismatched_length_None Let_def)
  have "gated_at (with_approvals p ch) j \<longleftrightarrow> j = i \<or> gated_at p j" if "j < length (pc_agentKinds p)" for j
    using approvalsApplied_Inr(1) [OF ch, of j] that by (simp add: with_approvals_def gated_at_def)
  then show thesis
    using ch by (intro that [of "with_approvals p ch"]) (simp_all add: withCheckpoint_def Let_def with_approvals_def)
qed

text \<open>One step of the carrying.\<close>

definition carry_ok :: "pipeline \<Rightarrow> (string \<rightharpoonup> approval_policy option) \<Rightarrow> (pipeline \<Rightarrow> bool) \<Rightarrow> carried \<Rightarrow> carried \<Rightarrow> (nat \<times> string) list \<Rightarrow> bool" where
  "carry_ok seed stored admits c c' ks \<longleftrightarrow>
     pc_agentKinds (cr_pipeline c') = pc_agentKinds seed
     \<and> (\<forall>j < length (pc_agentKinds seed). gated_at (cr_pipeline c) j \<longrightarrow> gated_at (cr_pipeline c') j)
     \<and> (\<forall>j < length (pc_agentKinds seed). gated_at (cr_pipeline c') j \<longrightarrow>
          gated_at (cr_pipeline c) j \<or> (\<exists>key. (j, key) \<in> set ks \<and> stored key \<noteq> None))
     \<and> set (cr_dropped c) \<subseteq> set (cr_dropped c')
     \<and> (\<forall>(i, key) \<in> set ks. stored key \<noteq> None \<longrightarrow>
          gated_at (cr_pipeline c') i \<or> pc_agentKinds seed ! i \<in> set (cr_dropped c'))
     \<and> (cr_pipeline c' = cr_pipeline c \<or> admits (cr_pipeline c'))"

lemma carry_checkpoint_ok:
  assumes "fst ik < length (pc_agentKinds seed)" and "pc_agentKinds (cr_pipeline c) = pc_agentKinds seed"
  shows "\<exists>c'. carry_checkpoint seed stored admits c ik = Inr c' \<and> carry_ok seed stored admits c c' [ik]"
proof (cases "stored (snd ik)")
  case None
  with assms show ?thesis by (auto simp: carry_checkpoint_def Let_def carry_ok_def)
next
  case (Some own)
  obtain i key where ik: "ik = (i, key)" by force
  let ?policy = "case own of Some q \<Rightarrow> Some q | None \<Rightarrow> approvalPolicyOf (options_at seed i)"
  have i: "i < length (pc_agentKinds (cr_pipeline c))" using assms ik by simp
  from withCheckpoint_Inr [OF i, of ?policy] obtain q where q: "withCheckpoint (cr_pipeline c) i ?policy = Inr q"
    "pc_agentKinds q = pc_agentKinds (cr_pipeline c)"
    "\<And>j. j < length (pc_agentKinds (cr_pipeline c)) \<Longrightarrow> gated_at q j \<longleftrightarrow> j = i \<or> gated_at (cr_pipeline c) j"
    by blast
  from withCheckpoint_Inr [OF i, of None] obtain b where b: "withCheckpoint (cr_pipeline c) i None = Inr b"
    "pc_agentKinds b = pc_agentKinds (cr_pipeline c)"
    "\<And>j. j < length (pc_agentKinds (cr_pipeline c)) \<Longrightarrow> gated_at b j \<longleftrightarrow> j = i \<or> gated_at (cr_pipeline c) j"
    by blast
  have kept: "carry_ok seed stored admits c (c\<lparr>cr_pipeline := r, cr_droppedPolicies := ds\<rparr>) [ik]"
    if "admits r" "pc_agentKinds r = pc_agentKinds (cr_pipeline c)"
      "\<And>j. j < length (pc_agentKinds (cr_pipeline c)) \<Longrightarrow> gated_at r j \<longleftrightarrow> j = i \<or> gated_at (cr_pipeline c) j" for r ds
    using that assms i Some by (auto simp: carry_ok_def ik)
  have dropped: "carry_ok seed stored admits c (c\<lparr>cr_dropped := cr_dropped c @ [pc_agentKinds seed ! i]\<rparr>) [ik]"
    using assms by (auto simp: carry_ok_def ik)
  show ?thesis
    using kept [OF _ q(2,3), of "cr_droppedPolicies c"] kept [OF _ b(2,3)] dropped q(1) b(1) Some
    by (simp add: carry_checkpoint_def Let_def ik)
qed

lemma carry_ok_trans:
  assumes "carry_ok seed stored admits c c1 [ik]" and "carry_ok seed stored admits c1 c2 ks"
    and "pc_agentKinds (cr_pipeline c) = pc_agentKinds seed" and "fst ik < length (pc_agentKinds seed)"
  shows "carry_ok seed stored admits c c2 (ik # ks)"
proof -
  obtain i key where ik: "ik = (i, key)" by force
  note a = assms(1)[unfolded carry_ok_def ik] and b = assms(2)[unfolded carry_ok_def]
  have i: "i < length (pc_agentKinds seed)" using assms(4) by (simp add: ik)
  show ?thesis
    unfolding carry_ok_def ik
  proof (intro conjI allI impI ballI)
    show "pc_agentKinds (cr_pipeline c2) = pc_agentKinds seed" using b by blast
    show "gated_at (cr_pipeline c2) j"
      if "j < length (pc_agentKinds seed)" "gated_at (cr_pipeline c) j" for j
      using a b that by blast
    show "gated_at (cr_pipeline c) j \<or> (\<exists>k. (j, k) \<in> set ((i, key) # ks) \<and> stored k \<noteq> None)"
      if j: "j < length (pc_agentKinds seed)" and g: "gated_at (cr_pipeline c2) j" for j
    proof -
      from b j g consider "gated_at (cr_pipeline c1) j" | "\<exists>k. (j, k) \<in> set ks \<and> stored k \<noteq> None"
        by blast
      then show ?thesis
      proof cases
        case 1
        with a j have "gated_at (cr_pipeline c) j \<or> (\<exists>k. (j, k) \<in> set [(i, key)] \<and> stored k \<noteq> None)" by blast
        then show ?thesis by auto
      qed auto
    qed
    show "set (cr_dropped c) \<subseteq> set (cr_dropped c2)" using a b by blast
    show "case jk of (j, k) \<Rightarrow> stored k \<noteq> None \<longrightarrow>
        gated_at (cr_pipeline c2) j \<or> pc_agentKinds seed ! j \<in> set (cr_dropped c2)"
      if "jk \<in> set ((i, key) # ks)" for jk
    proof (cases "jk \<in> set ks")
      case True
      with b show ?thesis by blast
    next
      case False
      with that have jk: "jk = (i, key)" by simp
      from a have "stored key \<noteq> None \<longrightarrow> gated_at (cr_pipeline c1) i \<or> pc_agentKinds seed ! i \<in> set (cr_dropped c1)"
        by auto
      with b i show ?thesis unfolding jk by blast
    qed
    show "cr_pipeline c2 = cr_pipeline c \<or> admits (cr_pipeline c2)" using a b by metis
  qed
qed

lemma carry_fold_ok:
  assumes "\<forall>ik \<in> set ks. fst ik < length (pc_agentKinds seed)"
    and "pc_agentKinds (cr_pipeline c) = pc_agentKinds seed"
  shows "\<exists>c'. fold_result (carry_checkpoint seed stored admits) c ks = Inr c' \<and> carry_ok seed stored admits c c' ks"
  using assms
proof (induction ks arbitrary: c)
  case Nil
  then show ?case by (simp add: carry_ok_def)
next
  case (Cons ik ks)
  from carry_checkpoint_ok [OF _ Cons.prems(2), of ik stored admits] Cons.prems(1) obtain c1 where
    c1: "carry_checkpoint seed stored admits c ik = Inr c1" "carry_ok seed stored admits c c1 [ik]" by auto
  then have "pc_agentKinds (cr_pipeline c1) = pc_agentKinds seed" by (simp add: carry_ok_def)
  with Cons obtain c2 where
    c2: "fold_result (carry_checkpoint seed stored admits) c1 ks = Inr c2" "carry_ok seed stored admits c1 c2 ks"
    by fastforce
  show ?case
    using c1(1) c2(1) carry_ok_trans [OF c1(2) c2(2) Cons.prems(2)] Cons.prems(1) by auto
qed

lemma stored_checkpoints_Some:
  "stored_checkpoints existing key \<noteq> None \<longleftrightarrow>
     (\<exists>i < length (pc_agentKinds existing). gated_at existing i \<and> stepOccurrenceKeys (pc_agentKinds existing) ! i = key)"
proof -
  have "dom (fold (\<lambda>(i, k) m. if gated_at existing i then m(k \<mapsto> approvalPolicyOf (options_at existing i)) else m) iks m)
      = dom m \<union> {k. \<exists>i. (i, k) \<in> set iks \<and> gated_at existing i}"
    for iks :: "(nat \<times> string) list" and m
    by (induction iks arbitrary: m) (auto split: if_splits)
  then have "dom (stored_checkpoints existing) = {k. \<exists>i. (i, k) \<in> set (enumerate 0
      (stepOccurrenceKeys (pc_agentKinds existing))) \<and> gated_at existing i}"
    unfolding stored_checkpoints_def by simp
  then show ?thesis by (auto simp: dom_def in_set_enumerate_eq set_eq_iff)
qed

text \<open>
  A reseed never shrinks the oversight silently: whatever the new definition admits, the carrying
  succeeds, keeps the new chain with every checkpoint the catalog ships, and puts every checkpoint of
  the workspace on the same step of the new chain or names its kind as dropped. It adds no other
  checkpoint, and a row that differs from the catalog's is one the definition admits.
\<close>

theorem nothing_is_dropped_silently:
  "\<exists>c. carriedApprovals seed existing admits = Inr c
    \<and> pc_agentKinds (cr_pipeline c) = pc_agentKinds seed
    \<and> (\<forall>j. j < length (pc_agentKinds seed) \<and> gated_at seed j \<longrightarrow> gated_at (cr_pipeline c) j)
    \<and> (\<forall>i. i < length (pc_agentKinds existing) \<and> gated_at existing i \<longrightarrow>
         (\<exists>j < length (pc_agentKinds seed). pc_agentKinds seed ! j = pc_agentKinds existing ! i
            \<and> occurrence (pc_agentKinds seed) j = occurrence (pc_agentKinds existing) i
            \<and> gated_at (cr_pipeline c) j)
         \<or> pc_agentKinds existing ! i \<in> set (cr_dropped c))
    \<and> (\<forall>j. j < length (pc_agentKinds seed) \<and> gated_at (cr_pipeline c) j \<longrightarrow> gated_at seed j
         \<or> (\<exists>i < length (pc_agentKinds existing). gated_at existing i
              \<and> pc_agentKinds existing ! i = pc_agentKinds seed ! j
              \<and> occurrence (pc_agentKinds existing) i = occurrence (pc_agentKinds seed) j))
    \<and> (cr_pipeline c = seed \<or> admits (cr_pipeline c))"
proof -
  let ?sk = "stepOccurrenceKeys (pc_agentKinds seed)" and ?ek = "stepOccurrenceKeys (pc_agentKinds existing)"
  let ?stored = "stored_checkpoints existing"
  let ?start = "\<lparr>cr_pipeline = seed, cr_dropped = [], cr_droppedPolicies = []\<rparr>"
  have "\<forall>ik \<in> set (enumerate 0 ?sk). fst ik < length (pc_agentKinds seed)"
    by (auto simp: in_set_enumerate_eq)
  from carry_fold_ok [OF this, of ?start ?stored admits] obtain c1 where
    c1: "fold_result (carry_checkpoint seed ?stored admits) ?start (enumerate 0 ?sk) = Inr c1"
    and ok: "carry_ok seed ?stored admits ?start c1 (enumerate 0 ?sk)" by auto
  note inv = ok[unfolded carry_ok_def carried.simps]
  define lost where "lost = map (\<lambda>(i, key). pc_agentKinds existing ! i)
      (filter (\<lambda>(i, key). ?stored key \<noteq> None \<and> key \<notin> set ?sk) (enumerate 0 ?ek))"
  let ?c = "c1\<lparr>cr_dropped := cr_dropped c1 @ lost\<rparr>"
  have run: "carriedApprovals seed existing admits = Inr ?c"
    unfolding carriedApprovals_def Let_def lost_def c1 by simp
  have carried_or_lost: "(\<exists>j < length (pc_agentKinds seed). pc_agentKinds seed ! j = pc_agentKinds existing ! i
        \<and> occurrence (pc_agentKinds seed) j = occurrence (pc_agentKinds existing) i \<and> gated_at (cr_pipeline c1) j)
      \<or> pc_agentKinds existing ! i \<in> set (cr_dropped ?c)"
    if i: "i < length (pc_agentKinds existing)" and g: "gated_at existing i" for i
  proof (cases "?ek ! i \<in> set ?sk")
    case False
    moreover have "?stored (?ek ! i) \<noteq> None" using i g stored_checkpoints_Some by blast
    ultimately have "pc_agentKinds existing ! i \<in> set lost"
      using i unfolding lost_def by (force simp: in_set_enumerate_eq)
    then show ?thesis by simp
  next
    case True
    then obtain j where j: "j < length (pc_agentKinds seed)" "?sk ! j = ?ek ! i" by (auto simp: in_set_conv_nth)
    then have same: "pc_agentKinds seed ! j = pc_agentKinds existing ! i"
      "occurrence (pc_agentKinds seed) j = occurrence (pc_agentKinds existing) i"
      using stepOccurrenceKeys_inject [OF j(1) i] by auto
    have "(j, ?sk ! j) \<in> set (enumerate 0 ?sk)" using j(1) by (simp add: in_set_enumerate_eq)
    moreover have "?stored (?sk ! j) \<noteq> None" using i g j(2) stored_checkpoints_Some by metis
    ultimately have "gated_at (cr_pipeline c1) j \<or> pc_agentKinds seed ! j \<in> set (cr_dropped c1)"
      using inv by blast
    with j(1) same show ?thesis by auto
  qed
  have origin: "gated_at seed j \<or> (\<exists>i < length (pc_agentKinds existing). gated_at existing i
        \<and> pc_agentKinds existing ! i = pc_agentKinds seed ! j
        \<and> occurrence (pc_agentKinds existing) i = occurrence (pc_agentKinds seed) j)"
    if j: "j < length (pc_agentKinds seed)" and g: "gated_at (cr_pipeline c1) j" for j
  proof (cases "gated_at seed j")
    case False
    with inv j g obtain key where "(j, key) \<in> set (enumerate 0 ?sk)" "?stored key \<noteq> None" by blast
    then have "?stored (?sk ! j) \<noteq> None" by (simp add: in_set_enumerate_eq)
    then obtain i where "i < length (pc_agentKinds existing)" "gated_at existing i" "?ek ! i = ?sk ! j"
      using stored_checkpoints_Some by blast
    then show ?thesis using stepOccurrenceKeys_inject [of i "pc_agentKinds existing" j "pc_agentKinds seed"] j by auto
  qed simp
  show ?thesis
    using inv by (intro exI [of _ ?c] conjI run) (auto simp: carried_or_lost[simplified] origin)
qed

section \<open>Examples\<close>

definition chain_of :: "string list \<Rightarrow> bool list \<Rightarrow> step_gating option list \<Rightarrow> pipeline" where
  "chain_of kinds gs gating =
     \<lparr>pc_agentKinds = kinds, pc_enabled = None, pc_gates = Some gs, pc_gating = Some gating,
      pc_testerQuality = None, pc_stepOptions = None, pl_id = ''pl'', pl_name = ''pl'',
      pl_builtin = Some True, pl_availability = None, pl_thresholds = None, pl_rest = None\<rparr>"

definition old_copy :: pipeline where
  "old_copy = chain_of [''architect'', ''coder''] [True, True] []"

definition new_catalog :: pipeline where
  "new_catalog = chain_of [''task-estimator'', ''architect'', ''coder''] [False, False, False]
     [None, Some \<lparr>sg_enabled = True, sg_minComplexity = None, sg_minRisk = Some (1 / 2),
        sg_minImpact = None, sg_onMissingEstimate = None\<rparr>, None]"

text \<open>The new definition made the design step conditional: its checkpoint is dropped and named.\<close>

theorem nothing_is_dropped_silently_witness:
  "\<exists>c. carriedApprovals new_catalog old_copy (\<lambda>p. validateCheckpointShape no_registries p = None) = Inr c
     \<and> cr_dropped c = [''architect''] \<and> gated_at (cr_pipeline c) 2"
proof -
  let ?admits = "\<lambda>p. validateCheckpointShape no_registries p = None"
  have coder: "1 < length (pc_agentKinds old_copy)" "gated_at old_copy 1" by code_simp+
  have kept: "map_option cr_dropped (case carriedApprovals new_catalog old_copy ?admits of Inr c \<Rightarrow> Some c | Inl e \<Rightarrow> None)
      = Some [''architect'']" by code_simp
  from nothing_is_dropped_silently [of new_catalog old_copy ?admits] obtain c where
    c: "carriedApprovals new_catalog old_copy ?admits = Inr c" and
    at_seed: "\<forall>i. i < length (pc_agentKinds old_copy) \<and> gated_at old_copy i \<longrightarrow>
      (\<exists>j < length (pc_agentKinds new_catalog). pc_agentKinds new_catalog ! j = pc_agentKinds old_copy ! i
         \<and> occurrence (pc_agentKinds new_catalog) j = occurrence (pc_agentKinds old_copy) i
         \<and> gated_at (cr_pipeline c) j) \<or> pc_agentKinds old_copy ! i \<in> set (cr_dropped c)" by blast
  from c kept have d: "cr_dropped c = [''architect'']" by simp
  from at_seed coder have "(\<exists>j < length (pc_agentKinds new_catalog). pc_agentKinds new_catalog ! j = pc_agentKinds old_copy ! 1
         \<and> gated_at (cr_pipeline c) j) \<or> pc_agentKinds old_copy ! 1 \<in> set (cr_dropped c)" by blast
  then obtain j where j: "j < 3" "pc_agentKinds new_catalog ! j = ''coder''" "gated_at (cr_pipeline c) j"
    by (auto simp: d old_copy_def new_catalog_def chain_of_def eval_nat_numeral)
  then have "j = 2" by (auto simp: new_catalog_def chain_of_def nth_Cons numeral_eq_Suc less_Suc_eq split: nat.splits)
  with j c d show ?thesis by blast
qed

definition locked_pipeline :: pipeline where
  "locked_pipeline = chain_of [''architect'', ''coder''] [True, False] []"

definition add_checkpoint :: set_approvals where
  "add_checkpoint = \<lparr>sa_agentKinds = [''architect'', ''coder''], sa_gates = [True, True],
     sa_policies = Some [None, Some \<lparr>pol_approvers = Some \<lparr>gp_roles = None, gp_userIds = Some [''usr_1'', ''usr_2'']\<rparr>,
        pol_minApprovals = Some 2\<rparr>]\<rparr>"

theorem set_approvals_reads_back_witness:
  "\<exists>ch. approvalsApplied locked_pipeline add_checkpoint (catalogApprovalsOf (Some locked_pipeline)) = Inr ch
     \<and> gated_at (with_approvals locked_pipeline ch) 1
     \<and> approvalPolicyOf (options_at (with_approvals locked_pipeline ch) 1) = normal_policy
         (Some \<lparr>pol_approvers = Some \<lparr>gp_roles = None, gp_userIds = Some [''usr_1'', ''usr_2'']\<rparr>, pol_minApprovals = Some 2\<rparr>)"
proof -
  let ?a = "approvalsApplied locked_pipeline add_checkpoint (catalogApprovalsOf (Some locked_pipeline))"
  have "isl ?a = False" by code_simp
  then obtain ch where ch: "?a = Inr ch" by (cases ?a) auto
  have i: "1 < length (pc_agentKinds locked_pipeline)" by code_simp
  from set_approvals_reads_back [OF ch i] ch show ?thesis
    by (auto simp: add_checkpoint_def)
qed

end
