(* ===== verification/StepGraph.thy ===== *)
theory StepGraph
  imports RunModel
begin

text \<open>
  The step and cursor mutators of the execution engine
  (\<^verbatim>\<open>orchestration/src/modules/execution/StepGraph.ts\<close>) with the two re-arming rules of
  \<^verbatim>\<open>deployer.logic.ts\<close> they call. Each mutates a step in place; here it returns the new step.
  \<open>now\<close> is \<^verbatim>\<open>clock.now()\<close>; \<open>targets\<close> is the registry's \<^verbatim>\<open>companionTargets\<close>, which a deployment
  extends.
\<close>

section \<open>Mutators of one step\<close>

definition startStep :: "int \<Rightarrow> step \<Rightarrow> step" where
  "startStep now s =
     (let s1 = s\<lparr>st_state := Working\<rparr>;
          s2 = (if st_startedAt s1 = None
                then s1\<lparr>st_startedAt := Some now,
                       st_firstStartedAt :=
                         (case st_firstStartedAt s1 of None \<Rightarrow> Some now | Some t \<Rightarrow> Some t),
                       st_attempts :=
                         Some ((case st_attempts s1 of None \<Rightarrow> 0 | Some n \<Rightarrow> n) + 1)\<rparr>
                else s1)
      in s2\<lparr>st_pausedAt := None\<rparr>)"

definition finishStep :: "int \<Rightarrow> step \<Rightarrow> step" where
  "finishStep now s =
     (let s1 = s\<lparr>st_state := StepDone\<rparr>;
          s2 = (if st_finishedAt s1 = None
                then s1\<lparr>st_finishedAt :=
                       Some (case st_pausedAt s1 of None \<Rightarrow> now | Some t \<Rightarrow> t)\<rparr>
                else s1)
      in s2\<lparr>st_pausedAt := None\<rparr>)"

definition pauseStepForInput :: "int \<Rightarrow> step \<Rightarrow> step" where
  "pauseStepForInput now s =
     (let s1 = s\<lparr>st_state := WaitingDecision\<rparr>
      in if st_pausedAt s1 = None then s1\<lparr>st_pausedAt := Some now\<rparr> else s1)"

definition restartDeployFixState :: "deploy_fix_state option \<Rightarrow> deploy_fix_state option" where
  "restartDeployFixState fx = map_option (\<lambda>f.
     f\<lparr>df_phase := Retrying, df_attempts := 0,
       df_cycle := Some ((case df_cycle f of None \<Rightarrow> 0 | Some n \<Rightarrow> n) + 1),
       df_attemptLog := Some (case df_attemptLog f of None \<Rightarrow> [] | Some l \<Rightarrow> l)\<rparr>) fx"

definition restartEnvironmentInvestigationState ::
  "environment_investigation option \<Rightarrow> environment_investigation option" where
  "restartEnvironmentInvestigationState st = map_option (\<lambda>e.
     e\<lparr>ei_attempts := 0, ei_environmentId := None,
       ei_cycle := Some ((case ei_cycle e of None \<Rightarrow> 0 | Some n \<Rightarrow> n) + 1),
       ei_attemptLog := Some (case ei_attemptLog e of None \<Rightarrow> [] | Some l \<Rightarrow> l)\<rparr>) st"

definition resetStepForRerun :: "step \<Rightarrow> step" where
  "resetStepForRerun s =
     (let s1 = s\<lparr>st_state := Pending, st_startedAt := None, st_finishedAt := None,
                st_pausedAt := None, st_jobId := None, st_approval := None, st_subtasks := None,
                st_lastActivityAt := None, st_progress := 0, st_output := None,
                st_custom := None, st_reproduction := None, st_toolServers := None,
                st_delegatedRetries := None, st_rework := None, st_container := None,
                st_deployEnvs := None, st_deployFrameId := None,
                st_deployProvisioning := None, st_deployPrimaryFrameId := None,
                st_deployWait := None,
                st_deployFix := restartDeployFixState (st_deployFix s),
                st_environmentInvestigation :=
                  restartEnvironmentInvestigationState (st_environmentInvestigation s)\<rparr>
      in case restartRalphState (st_ralph s1) of None \<Rightarrow> s1
         | Some ralph \<Rightarrow> s1\<lparr>st_ralph := Some ralph\<rparr>)"

section \<open>Loop-backs\<close>

definition rerunRange :: "int \<Rightarrow> nat \<Rightarrow> nat \<Rightarrow> instance_rec \<Rightarrow> instance_rec" where
  "rerunRange now fromIndex throughIndex i =
     i\<lparr>in_steps := update_at fromIndex (startStep now)
         (update_range fromIndex throughIndex resetStepForRerun (in_steps i)),
       in_currentStep := fromIndex\<rparr>"

definition nearestStepIndexBefore :: "step list \<Rightarrow> nat \<Rightarrow> (step \<Rightarrow> bool) \<Rightarrow> nat option" where
  "nearestStepIndexBefore steps index predicate = scan_back (\<lambda>i. predicate (steps ! i)) index"

text \<open>The three flags that say how a companion's loop ended.\<close>

definition clear_loop_end :: "companion_state \<Rightarrow> companion_state" where
  "clear_loop_end c = c\<lparr>cs_exceeded := None, cs_stalled := None, cs_capSettledByPolicy := None\<rparr>"

definition rerunProducerThrough ::
  "int \<Rightarrow> nat \<Rightarrow> nat \<Rightarrow> rework \<Rightarrow> instance_rec \<Rightarrow> instance_rec" where
  "rerunProducerThrough now producerIndex companionIndex rw i =
     (let steps1 = update_range producerIndex companionIndex resetStepForRerun (in_steps i);
          steps2 = update_at companionIndex
                     (\<lambda>s. s\<lparr>st_companion := map_option clear_loop_end (st_companion s)\<rparr>) steps1;
          steps3 = update_at producerIndex (\<lambda>s. startStep now (s\<lparr>st_rework := Some rw\<rparr>)) steps2
      in i\<lparr>in_steps := steps3, in_currentStep := producerIndex\<rparr>)"

definition companionProducerIndex ::
  "(string \<Rightarrow> string list) \<Rightarrow> step list \<Rightarrow> nat \<Rightarrow> nat option" where
  "companionProducerIndex targets steps companionIndex =
     scan_back (\<lambda>i. st_agentKind (steps ! i) \<in> set (targets (st_agentKind (steps ! companionIndex))))
       companionIndex"

datatype loop_error = NoStepAtIndex nat | NoCompanionBudget string | NoProducer string

definition charge_companion :: "step \<Rightarrow> step" where
  "charge_companion s =
     s\<lparr>st_companion := map_option (\<lambda>c. c\<lparr>cs_attempts := cs_attempts c + 1\<rparr>) (st_companion s)\<rparr>"

definition loopCompanionProducer ::
  "int \<Rightarrow> (string \<Rightarrow> string list) \<Rightarrow> nat \<Rightarrow> rework \<Rightarrow> instance_rec \<Rightarrow>
     loop_error + instance_rec" where
  "loopCompanionProducer now targets companionIndex rw i =
     (if length (in_steps i) \<le> companionIndex then Inl (NoStepAtIndex companionIndex)
      else let companionStep = in_steps i ! companionIndex in
      if st_companion companionStep = None
      then Inl (NoCompanionBudget (st_agentKind companionStep))
      else case companionProducerIndex targets (in_steps i) companionIndex of
        None \<Rightarrow> Inl (NoProducer (st_agentKind companionStep))
      | Some producerIndex \<Rightarrow>
          let i1 = i\<lparr>in_steps := update_at companionIndex charge_companion (in_steps i)\<rparr>;
              i2 = rerunProducerThrough now producerIndex companionIndex rw i1
          in Inr (if in_status i2 = Blocked then i2\<lparr>in_status := Running\<rparr> else i2))"

section \<open>Laws of the timing stamps\<close>

text \<open>
  The well-formedness a step's clock keeps: a paused step is waiting, a working step has been
  started, and a step that started knows its first start and counts at least one attempt.
\<close>

definition step_clock_ok :: "step \<Rightarrow> bool" where
  "step_clock_ok s \<longleftrightarrow>
     (st_pausedAt s \<noteq> None \<longrightarrow> st_state s = WaitingDecision) \<and>
     (st_state s = Working \<longrightarrow> st_startedAt s \<noteq> None) \<and>
     (st_state s = StepDone \<longrightarrow> st_finishedAt s \<noteq> None) \<and>
     (st_startedAt s \<noteq> None \<longrightarrow> st_firstStartedAt s \<noteq> None \<and>
        (\<exists>n. st_attempts s = Some n \<and> 1 \<le> n))"

lemma startStep_clock: "step_clock_ok s \<Longrightarrow> step_clock_ok (startStep now s)"
  by (auto simp: step_clock_ok_def startStep_def Let_def split: option.splits)

lemma finishStep_clock: "step_clock_ok s \<Longrightarrow> step_clock_ok (finishStep now s)"
  by (auto simp: step_clock_ok_def finishStep_def Let_def)

lemma pauseStep_clock: "step_clock_ok s \<Longrightarrow> step_clock_ok (pauseStepForInput now s)"
  by (auto simp: step_clock_ok_def pauseStepForInput_def Let_def)

lemma resetStep_clock: "step_clock_ok s \<Longrightarrow> step_clock_ok (resetStepForRerun s)"
  by (auto simp: step_clock_ok_def resetStepForRerun_def Let_def split: option.splits)

lemmas step_clock_intros = startStep_clock finishStep_clock pauseStep_clock resetStep_clock

lemma startStep_simps [simp]:
  "st_state (startStep now s) = Working"
  "st_agentKind (startStep now s) = st_agentKind s"
  "st_companion (startStep now s) = st_companion s"
  "st_rework (startStep now s) = st_rework s"
  "st_pausedAt (startStep now s) = None"
  "st_jobId (startStep now s) = st_jobId s"
  "st_approval (startStep now s) = st_approval s"
  by (simp_all add: startStep_def Let_def)

lemma finishStep_simps [simp]:
  "st_state (finishStep now s) = StepDone"
  "st_agentKind (finishStep now s) = st_agentKind s"
  "st_approval (finishStep now s) = st_approval s"
  "st_pausedAt (finishStep now s) = None"
  by (simp_all add: finishStep_def Let_def)

lemma pauseStep_simps [simp]:
  "st_state (pauseStepForInput now s) = WaitingDecision"
  "st_agentKind (pauseStepForInput now s) = st_agentKind s"
  "st_approval (pauseStepForInput now s) = st_approval s"
  by (simp_all add: pauseStepForInput_def Let_def)

lemma resetForRerun_simps [simp]:
  "st_state (resetStepForRerun s) = Pending"
  "st_agentKind (resetStepForRerun s) = st_agentKind s"
  "st_companion (resetStepForRerun s) = st_companion s"
  "st_startedAt (resetStepForRerun s) = None"
  "st_finishedAt (resetStepForRerun s) = None"
  "st_pausedAt (resetStepForRerun s) = None"
  "st_jobId (resetStepForRerun s) = None"
  "st_approval (resetStepForRerun s) = None"
  "st_output (resetStepForRerun s) = None"
  "st_rework (resetStepForRerun s) = None"
  "st_attempts (resetStepForRerun s) = st_attempts s"
  "st_firstStartedAt (resetStepForRerun s) = st_firstStartedAt s"
  "st_requiresApproval (resetStepForRerun s) = st_requiresApproval s"
  "st_stepOptions (resetStepForRerun s) = st_stepOptions s"
  "st_gating (resetStepForRerun s) = st_gating s"
  by (simp_all add: resetStepForRerun_def Let_def split: option.split)

text \<open>The stamps are set once.\<close>

lemma startStep_idem: "startStep now' (startStep now s) = startStep now s"
  by (simp add: startStep_def Let_def)

lemma finishStep_idem: "finishStep now' (finishStep now s) = finishStep now s"
  by (simp add: finishStep_def Let_def)

lemma pauseStep_idem: "pauseStepForInput now' (pauseStepForInput now s) = pauseStepForInput now s"
  by (simp add: pauseStepForInput_def Let_def)

lemma park_resume_attempts:
  "st_startedAt s \<noteq> None \<Longrightarrow>
     st_attempts (startStep t2 (pauseStepForInput t1 s)) = st_attempts s \<and>
     st_startedAt (startStep t2 (pauseStepForInput t1 s)) = st_startedAt s"
  by (auto simp: startStep_def pauseStepForInput_def Let_def)

lemma park_finish_bills_to_pause:
  "st_pausedAt s = None \<Longrightarrow> st_finishedAt s = None \<Longrightarrow>
     st_finishedAt (finishStep t2 (pauseStepForInput t1 s)) = Some t1"
  by (simp add: finishStep_def pauseStepForInput_def Let_def)

section \<open>Laws of the loop-backs\<close>

lemma loopCompanionProducer_Inr:
  assumes "loopCompanionProducer now targets ci rw i = Inr i'"
  obtains p c where "companionProducerIndex targets (in_steps i) ci = Some p"
    and "ci < length (in_steps i)" and "p < ci" and "st_companion (in_steps i ! ci) = Some c"
    and "in_currentStep i' = p" and "length (in_steps i') = length (in_steps i)"
    and "in_status i' = (if in_status i = Blocked then Running else in_status i)"
    and "\<And>j. j < length (in_steps i) \<Longrightarrow> in_steps i' ! j =
       (if j = p then startStep now ((resetStepForRerun (in_steps i ! p))\<lparr>st_rework := Some rw\<rparr>)
        else if j = ci then (resetStepForRerun (charge_companion (in_steps i ! ci)))
               \<lparr>st_companion := Some (clear_loop_end (c\<lparr>cs_attempts := cs_attempts c + 1\<rparr>))\<rparr>
        else if p < j \<and> j < ci then resetStepForRerun (in_steps i ! j) else in_steps i ! j)"
proof -
  from assms obtain p c where p: "companionProducerIndex targets (in_steps i) ci = Some p"
    and ci: "ci < length (in_steps i)" and c: "st_companion (in_steps i ! ci) = Some c"
    by (auto simp: loopCompanionProducer_def Let_def split: if_splits option.splits)
  then have pc: "p < ci" by (auto simp: companionProducerIndex_def dest: scan_back_less)
  let ?i1 = "i\<lparr>in_steps := update_at ci charge_companion (in_steps i)\<rparr>"
  let ?i2 = "rerunProducerThrough now p ci rw ?i1"
  have i': "i' = (if in_status ?i2 = Blocked then ?i2\<lparr>in_status := Running\<rparr> else ?i2)"
    using assms p ci c by (auto simp: loopCompanionProducer_def Let_def)
  have st2: "in_status ?i2 = in_status i" by (simp add: rerunProducerThrough_def Let_def)
  have steps: "in_steps i' = in_steps ?i2" using i' by simp
  have nth: "in_steps ?i2 ! j =
       (if j = p then startStep now ((resetStepForRerun (in_steps i ! p))\<lparr>st_rework := Some rw\<rparr>)
        else if j = ci then (resetStepForRerun (charge_companion (in_steps i ! ci)))
               \<lparr>st_companion := Some (clear_loop_end (c\<lparr>cs_attempts := cs_attempts c + 1\<rparr>))\<rparr>
        else if p < j \<and> j < ci then resetStepForRerun (in_steps i ! j) else in_steps i ! j)"
    if "j < length (in_steps i)" for j
    using that pc ci c
    by (auto simp: rerunProducerThrough_def Let_def nth_update_at nth_update_range
        charge_companion_def)
  show thesis
    by (rule that [OF p ci pc c]) (use nth steps i' st2 in \<open>auto simp: rerunProducerThrough_def Let_def\<close>)
qed

lemma charge_companion_clock [simp]: "step_clock_ok (charge_companion s) = step_clock_ok s"
  by (simp add: step_clock_ok_def charge_companion_def)

lemma set_companion_clock [simp]: "step_clock_ok (s\<lparr>st_companion := c\<rparr>) = step_clock_ok s"
  by (simp add: step_clock_ok_def)

lemma set_rework_clock [simp]: "step_clock_ok (s\<lparr>st_rework := c\<rparr>) = step_clock_ok s"
  by (simp add: step_clock_ok_def)

definition steps_clock_ok :: "instance_rec \<Rightarrow> bool" where
  "steps_clock_ok i \<longleftrightarrow> (\<forall>j < length (in_steps i). step_clock_ok (in_steps i ! j))"

lemma loopCompanionProducer_clock:
  assumes "loopCompanionProducer now targets ci rw i = Inr i'" and "steps_clock_ok i"
  shows "steps_clock_ok i'"
proof -
  obtain p c where "length (in_steps i') = length (in_steps i)"
    and nth: "\<And>j. j < length (in_steps i) \<Longrightarrow> in_steps i' ! j =
       (if j = p then startStep now ((resetStepForRerun (in_steps i ! p))\<lparr>st_rework := Some rw\<rparr>)
        else if j = ci then (resetStepForRerun (charge_companion (in_steps i ! ci)))
               \<lparr>st_companion := Some (clear_loop_end (c\<lparr>cs_attempts := cs_attempts c + 1\<rparr>))\<rparr>
        else if p < j \<and> j < ci then resetStepForRerun (in_steps i ! j) else in_steps i ! j)"
    using loopCompanionProducer_Inr [OF assms(1)] by metis
  then show ?thesis using assms(2)
    by (auto simp: steps_clock_ok_def intro!: step_clock_intros)
qed

section \<open>The companion loop is budgeted\<close>

text \<open>The engine asks the disposition rule with the counters of the companion's own state.\<close>

definition companion_again ::
  "companion_state \<Rightarrow> rat \<times> review_comment list option \<Rightarrow> bool" where
  "companion_again c v \<longleftrightarrow> cr_disposition (disposeCompanionVerdict
     \<lparr>ci_rating = fst v, ci_threshold = cs_threshold c, ci_comments = snd v,
      ci_attempts = cs_attempts c, ci_maxAttempts = cs_maxAttempts c,
      ci_hasProducer = True\<rparr>) = CRework"

definition companion_charge :: "companion_state \<Rightarrow> companion_state" where
  "companion_charge c = clear_loop_end (c\<lparr>cs_attempts := cs_attempts c + 1\<rparr>)"

interpretation companion_loop:
  budgeted_loop cs_attempts cs_maxAttempts companion_again companion_charge
proof unfold_locales
  fix c v assume "companion_again c v"
  then show "cs_attempts c < cs_maxAttempts c"
    unfolding companion_again_def by (auto dest: companion_rework_in_budget)
qed (simp_all add: companion_charge_def clear_loop_end_def)

section \<open>Properties\<close>

text \<open>What the engine does to one step's clock, in any order.\<close>

datatype clock_op = OpStart int | OpFinish int | OpPause int | OpReset

fun run_clock :: "clock_op \<Rightarrow> step \<Rightarrow> step" where
  "run_clock (OpStart now) s = startStep now s"
| "run_clock (OpFinish now) s = finishStep now s"
| "run_clock (OpPause now) s = pauseStepForInput now s"
| "run_clock OpReset s = resetStepForRerun s"

definition attempts_of :: "step \<Rightarrow> nat" where
  "attempts_of s = (case st_attempts s of None \<Rightarrow> 0 | Some n \<Rightarrow> n)"

definition clock_grows :: "step \<Rightarrow> step \<Rightarrow> bool" where
  "clock_grows s s' \<longleftrightarrow> attempts_of s \<le> attempts_of s'
     \<and> (st_firstStartedAt s \<noteq> None \<longrightarrow> st_firstStartedAt s' = st_firstStartedAt s)"

lemma clock_op_ok: "step_clock_ok s \<Longrightarrow> step_clock_ok (run_clock p s)"
  by (cases p) (simp_all add: step_clock_intros)

lemma clock_op_grows: "clock_grows s (run_clock p s)"
proof (cases p)
  case (OpStart now)
  then show ?thesis
    by (auto simp: clock_grows_def attempts_of_def startStep_def Let_def split: option.split)
qed (simp_all add: clock_grows_def attempts_of_def finishStep_def pauseStepForInput_def Let_def)

lemma clock_grows_trans: "clock_grows a b \<Longrightarrow> clock_grows b c \<Longrightarrow> clock_grows a c"
  unfolding clock_grows_def by auto

text \<open>
  C7. Whatever sequence of starts, finishes, parks and resets a step goes through, its clock stays
  well formed: a paused step is waiting, a working one has a start, a finished one has an end, and
  a started one knows its first start and counts its attempts. The number of attempts never goes
  down and the first start is never rewritten, so a re-run keeps the record of the runs before it.
\<close>

theorem step_clock_invariant:
  assumes "step_clock_ok s"
  shows "step_clock_ok (fold run_clock ops s) \<and> clock_grows s (fold run_clock ops s)"
  using assms
proof (induction ops arbitrary: s)
  case Nil
  then show ?case by (simp add: clock_grows_def)
next
  case (Cons p ops)
  from Cons.IH [OF clock_op_ok [OF Cons.prems, of p]] clock_grows_trans [OF clock_op_grows [of s p]]
  show ?case by simp
qed

theorem step_clock_invariant_witness:
  "step_clock_ok (fold run_clock [OpStart 5, OpPause 7, OpFinish 9, OpReset, OpStart 11]
     (bare_step ''coder'' Pending))"
  by (rule step_clock_invariant [THEN conjunct1]) (simp add: step_clock_ok_def bare_step_def)

text \<open>
  Waiting for a human costs the step no time and no attempt: a step that parks and is finished
  from the park ends at the moment it parked, and one that is resumed keeps its start and its
  count of attempts.
\<close>

theorem waiting_is_not_billed:
  assumes "st_pausedAt s = None" and "st_finishedAt s = None" and "st_startedAt s \<noteq> None"
  shows "st_finishedAt (finishStep t2 (pauseStepForInput t1 s)) = Some t1
    \<and> st_startedAt (startStep t2 (pauseStepForInput t1 s)) = st_startedAt s
    \<and> st_attempts (startStep t2 (pauseStepForInput t1 s)) = st_attempts s
    \<and> pauseStepForInput t2 (pauseStepForInput t1 s) = pauseStepForInput t1 s"
  using assms by (simp add: park_finish_bills_to_pause park_resume_attempts pauseStep_idem)

theorem waiting_is_not_billed_witness:
  "st_finishedAt (finishStep 90 (pauseStepForInput 40 (startStep 10 (bare_step ''coder'' Pending))))
     = Some 40"
  by (rule waiting_is_not_billed [THEN conjunct1]) (simp_all add: startStep_def bare_step_def Let_def)

text \<open>
  Sending a companion's producer back for rework touches exactly the steps from the producer to
  the companion: the producer runs again with the feedback, the steps between and the companion
  itself are reset, the companion's budget is charged one attempt and keeps its limit, the cursor
  is on the producer, a blocked run runs again, and every other step is as it was.
\<close>

theorem rework_touches_only_the_loop:
  assumes "loopCompanionProducer now targets ci rw i = Inr i'"
    and "st_companion (in_steps i ! ci) = Some c"
  shows "\<exists>p < ci. companionProducerIndex targets (in_steps i) ci = Some p
    \<and> in_currentStep i' = p \<and> length (in_steps i') = length (in_steps i)
    \<and> in_status i' \<noteq> Blocked
    \<and> st_state (in_steps i' ! p) = Working \<and> st_rework (in_steps i' ! p) = Some rw
    \<and> st_companion (in_steps i' ! ci) = Some (companion_charge c)
    \<and> (\<forall>j. p < j \<and> j \<le> ci \<longrightarrow> st_state (in_steps i' ! j) = Pending \<and> st_output (in_steps i' ! j) = None)
    \<and> (\<forall>j < length (in_steps i). j < p \<or> ci < j \<longrightarrow> in_steps i' ! j = in_steps i ! j)"
proof -
  obtain p c' where p: "companionProducerIndex targets (in_steps i) ci = Some p"
      "ci < length (in_steps i)" "p < ci" "st_companion (in_steps i ! ci) = Some c'"
      "in_currentStep i' = p" "length (in_steps i') = length (in_steps i)"
      "in_status i' = (if in_status i = Blocked then Running else in_status i)"
    and nth: "\<And>j. j < length (in_steps i) \<Longrightarrow> in_steps i' ! j =
       (if j = p then startStep now ((resetStepForRerun (in_steps i ! p))\<lparr>st_rework := Some rw\<rparr>)
        else if j = ci then (resetStepForRerun (charge_companion (in_steps i ! ci)))
               \<lparr>st_companion := Some (clear_loop_end (c'\<lparr>cs_attempts := cs_attempts c' + 1\<rparr>))\<rparr>
        else if p < j \<and> j < ci then resetStepForRerun (in_steps i ! j) else in_steps i ! j)"
    by (rule loopCompanionProducer_Inr [OF assms(1)]) (assumption | rule that)+
  have c: "c' = c" using p(4) assms(2) by simp
  have lt: "p < length (in_steps i)" using p(2,3) by simp
  have "st_state (in_steps i' ! p) = Working" "st_rework (in_steps i' ! p) = Some rw"
    unfolding nth [OF lt] by simp_all
  moreover have "st_companion (in_steps i' ! ci) = Some (companion_charge c)"
    unfolding nth [OF p(2)] using p(3) by (simp add: c companion_charge_def)
  moreover have "st_state (in_steps i' ! j) = Pending \<and> st_output (in_steps i' ! j) = None"
    if "p < j" "j \<le> ci" for j
  proof -
    from that p(2) have "j < length (in_steps i)" by simp
    from nth [OF this] that show ?thesis by (cases "j = ci") simp_all
  qed
  moreover have "in_steps i' ! j = in_steps i ! j" if "j < length (in_steps i)" "j < p \<or> ci < j" for j
    using nth [OF that(1)] that p(3) by auto
  moreover have "in_status i' \<noteq> Blocked" by (simp add: p(7))
  ultimately show ?thesis
    using p(1,3,5,6) by (intro exI [of _ p]) simp
qed

definition rework_example :: instance_rec where
  "rework_example = bare_run ''r1'' ''b1''
     [(bare_step ''architect'' StepDone)\<lparr>st_output := Some ''plan''\<rparr>,
      (bare_step ''coder'' StepDone)\<lparr>st_output := Some ''diff''\<rparr>,
      (bare_step ''reviewer'' Working)\<lparr>st_companion := Some
         \<lparr>cs_threshold = 4/5, cs_maxAttempts = 3, cs_attempts = 1, cs_verdicts = [],
          cs_exceeded = None, cs_capSettledByPolicy = None, cs_stalled = None\<rparr>\<rparr>]"

theorem rework_touches_only_the_loop_witness:
  "\<exists>p < 2. companionProducerIndex (\<lambda>k. if k = ''reviewer'' then [''coder''] else [])
             (in_steps rework_example) 2 = Some p"
proof -
  let ?t = "\<lambda>k. if k = ''reviewer'' then [''coder''] else []"
  let ?rw = "\<lparr>re_previousProposal = ''diff'', re_feedback = ''no'', re_comments = None,
      re_requestedBy = RequestedByReviewer\<rparr>"
  have p: "companionProducerIndex ?t (in_steps rework_example) 2 = Some 1"
    by (simp add: companionProducerIndex_def rework_example_def bare_run_def bare_step_def
        numeral_2_eq_2)
  have c: "st_companion (in_steps rework_example ! 2) = Some \<lparr>cs_threshold = 4/5,
      cs_maxAttempts = 3, cs_attempts = 1, cs_verdicts = [], cs_exceeded = None,
      cs_capSettledByPolicy = None, cs_stalled = None\<rparr>" and "length (in_steps rework_example) = 3"
    by (simp_all add: rework_example_def bare_run_def numeral_2_eq_2)
  then obtain i' where i': "loopCompanionProducer 9 ?t 2 ?rw rework_example = Inr i'"
    using p by (simp add: loopCompanionProducer_def Let_def)
  from rework_touches_only_the_loop [OF i' c] show ?thesis by blast
qed

text \<open>
  A companion sends its producer back at most as many times as attempts are left in its budget,
  whatever ratings and comments it gives.
\<close>

theorem companion_rework_bounded:
  "rounds companion_again companion_charge c verdicts \<le> cs_maxAttempts c - cs_attempts c
   \<and> (cs_maxAttempts c \<le> cs_attempts c \<longrightarrow> \<not> companion_again c v)"
  using companion_loop.rounds_bounded companion_loop.exhausted_stops by blast

theorem companion_rework_bounded_witness:
  "\<not> companion_again \<lparr>cs_threshold = 4/5, cs_maxAttempts = 2, cs_attempts = 2, cs_verdicts = [],
      cs_exceeded = None, cs_capSettledByPolicy = None, cs_stalled = None\<rparr> (0, None)"
  using companion_rework_bounded [of "\<lparr>cs_threshold = 4/5, cs_maxAttempts = 2, cs_attempts = 2,
      cs_verdicts = [], cs_exceeded = None, cs_capSettledByPolicy = None, cs_stalled = None\<rparr>" _ "(0, None)"]
  by simp

end
