(* ===== verification/Retry.thy ===== *)
theory Retry
  imports StepGraph
begin

text \<open>
  Planning a retry or a restart of a run
  (\<^verbatim>\<open>orchestration/src/modules/execution/retry.logic.ts\<close>): which steps are kept, which are
  reset, and what the replacement run carries over from the run it replaces.
\<close>

section \<open>The shape a re-drive is admitted under\<close>

record pipeline_shape =
  sh_agentKinds :: "string list"
  sh_gates :: "bool list"
  sh_gating :: "step_gating option list"
  sh_testerQuality :: "json option list"
  sh_stepOptions :: "step_options option list"

definition runnableShapeOf :: "step list \<Rightarrow> pipeline_shape" where
  "runnableShapeOf steps =
     \<lparr>sh_agentKinds = map st_agentKind steps,
      sh_gates = map (\<lambda>s. st_requiresApproval s = Some True) steps,
      sh_gating = map st_gating steps,
      sh_testerQuality = map st_testerQuality steps,
      sh_stepOptions = map st_stepOptions steps\<rparr>"

section \<open>Planning\<close>

definition resetStep :: "step \<Rightarrow> step_state \<Rightarrow> step" where
  "resetStep s state =
     (let r = (bare_step (st_agentKind s) state)\<lparr>st_requiresApproval := st_requiresApproval s\<rparr>
      in case restartRalphState (st_ralph s) of None \<Rightarrow> r
         | Some ralph \<Rightarrow> r\<lparr>st_ralph := Some ralph\<rparr>)"

definition planFromStep :: "step list \<Rightarrow> nat \<Rightarrow> step list \<times> nat" where
  "planFromStep prevSteps resumeIndex =
     (map (\<lambda>(i, s). if i < resumeIndex then s
                    else resetStep s (if i = resumeIndex then Working else Pending))
        (enumerate 0 prevSteps), resumeIndex)"

definition planResumedSteps :: "step list \<Rightarrow> step list \<times> nat" where
  "planResumedSteps steps =
     planFromStep steps
       (case find_index (\<lambda>s. st_state s \<noteq> StepDone) steps of
          None \<Rightarrow> length steps - 1 | Some i \<Rightarrow> i)"

text \<open>\<^verbatim>\<open>Math.trunc(fromIndex)\<close> of the caller's number is the argument.\<close>

definition planRestartFromStep :: "step list \<Rightarrow> int \<Rightarrow> step list \<times> nat" where
  "planRestartFromStep steps fromIndex =
     planFromStep steps (min (nat (max fromIndex 0)) (length steps - 1))"

section \<open>The trails\<close>

definition MAX_FAILURE_HISTORY :: nat where
  "MAX_FAILURE_HISTORY = 20"

definition MAX_OUTPUT_HISTORY :: nat where
  "MAX_OUTPUT_HISTORY = 20"

definition MAX_HISTORY_OUTPUT_CHARS :: nat where
  "MAX_HISTORY_OUTPUT_CHARS = 8000"

definition carryForwardFailures ::
  "agent_failure option \<Rightarrow> agent_failure list option \<Rightarrow> agent_failure list" where
  "carryForwardFailures failure failureHistory =
     (let history = (case failureHistory of None \<Rightarrow> [] | Some h \<Rightarrow> h);
          nxt = (case failure of None \<Rightarrow> history | Some f \<Rightarrow> history @ [f])
      in if MAX_FAILURE_HISTORY < length nxt then slice_last MAX_FAILURE_HISTORY nxt else nxt)"

text \<open>The record one reset step leaves, if it had succeeded with a non-blank output.\<close>

definition discarded_output :: "int \<Rightarrow> nat \<times> step \<Rightarrow> prior_output option" where
  "discarded_output now is =
     (let (i, s) = is in
      case st_output s of
        None \<Rightarrow> None
      | Some output \<Rightarrow>
          if st_state s \<noteq> StepDone \<or> output = [] \<or> blank output then None
          else let truncated = (MAX_HISTORY_OUTPUT_CHARS < length output)
          in Some \<lparr>po_stepIndex = i,
               po_occurredAt = (case st_finishedAt s of None \<Rightarrow> now | Some t \<Rightarrow> t),
               po_output = (if truncated then take MAX_HISTORY_OUTPUT_CHARS output else output),
               po_truncated = truncated\<rparr>)"

definition discarded_outputs :: "step list \<Rightarrow> nat \<Rightarrow> int \<Rightarrow> prior_output list" where
  "discarded_outputs steps resetFromIndex now =
     List.map_filter (discarded_output now) (drop resetFromIndex (enumerate 0 steps))"

definition carryForwardOutputs ::
  "step list \<Rightarrow> prior_output list option \<Rightarrow> nat \<Rightarrow> int \<Rightarrow> prior_output list" where
  "carryForwardOutputs steps outputHistory resetFromIndex now =
     (let history = (case outputHistory of None \<Rightarrow> [] | Some h \<Rightarrow> h);
          nxt = history @ discarded_outputs steps resetFromIndex now
      in if MAX_OUTPUT_HISTORY < length nxt then slice_last MAX_OUTPUT_HISTORY nxt else nxt)"

section \<open>The replacement run\<close>

definition buildResumedInstance ::
  "instance_rec \<Rightarrow> string \<Rightarrow> step list \<times> nat \<Rightarrow> string option \<Rightarrow> int \<Rightarrow> instance_rec" where
  "buildResumedInstance previous newId plan initiatedBy now =
     \<lparr>in_id = newId, in_blockId = in_blockId previous, in_pipelineId = in_pipelineId previous,
      in_pipelineName = in_pipelineName previous, in_steps = fst plan,
      in_currentStep = snd plan, in_status = Running, in_failure = None,
      in_failureHistory =
        Some (carryForwardFailures (in_failure previous) (in_failureHistory previous)),
      in_outputHistory =
        Some (carryForwardOutputs (in_steps previous) (in_outputHistory previous) (snd plan) now),
      in_initiatedBy =
        (case initiatedBy of None \<Rightarrow> in_initiatedBy previous | Some u \<Rightarrow> Some u),
      in_initiatedByRole = in_initiatedByRole previous,
      in_initiatedByExternalIdentity = in_initiatedByExternalIdentity previous,
      in_mode = in_mode previous, in_intakeOrigin = in_intakeOrigin previous,
      in_notes = None, in_frontendBindings = None, in_diagnostics = None, in_inputGate = None,
      in_createdAt = None, in_rev = 0\<rparr>"

section \<open>Laws\<close>

lemma resetStep_simps [simp]:
  "st_state (resetStep s q) = q"
  "st_agentKind (resetStep s q) = st_agentKind s"
  "st_requiresApproval (resetStep s q) = st_requiresApproval s"
  "st_output (resetStep s q) = None"
  "st_jobId (resetStep s q) = None"
  "st_approval (resetStep s q) = None"
  "st_gate (resetStep s q) = None"
  "st_companion (resetStep s q) = None"
  "st_gating (resetStep s q) = None"
  "st_testerQuality (resetStep s q) = None"
  "st_stepOptions (resetStep s q) = None"
  "st_startedAt (resetStep s q) = None"
  "st_ralph (resetStep s q) = restartRalphState (st_ralph s)"
  by (simp_all add: resetStep_def bare_step_def Let_def split: option.split)

lemma length_planFromStep [simp]: "length (fst (planFromStep steps k)) = length steps"
  by (simp add: planFromStep_def)

lemma snd_planFromStep [simp]: "snd (planFromStep steps k) = k"
  by (simp add: planFromStep_def)

lemma nth_planFromStep:
  "j < length steps \<Longrightarrow> fst (planFromStep steps k) ! j =
     (if j < k then steps ! j else resetStep (steps ! j) (if j = k then Working else Pending))"
  by (simp add: planFromStep_def nth_enumerate_eq)

text \<open>Both planners are \<open>planFromStep\<close> at an index in range.\<close>

lemma planResumedSteps_index:
  "steps \<noteq> [] \<Longrightarrow> snd (planResumedSteps steps) < length steps"
  by (auto simp: planResumedSteps_def find_index_Some split: option.split)

lemma planResumedSteps_done:
  "j < snd (planResumedSteps steps) \<Longrightarrow> j < length steps \<Longrightarrow> st_state (steps ! j) = StepDone"
  by (auto simp: planResumedSteps_def find_index_Some find_index_None split: option.splits)

lemma planResumedSteps_unfinished:
  "\<exists>s \<in> set steps. st_state s \<noteq> StepDone \<Longrightarrow>
     st_state (steps ! snd (planResumedSteps steps)) \<noteq> StepDone"
  by (auto simp: planResumedSteps_def find_index_Some find_index_None split: option.splits)

lemma planRestartFromStep_index:
  "steps \<noteq> [] \<Longrightarrow> snd (planRestartFromStep steps k) < length steps"
  by (cases steps) (auto simp: planRestartFromStep_def)

lemma planRestartFromStep_exact:
  "0 \<le> k \<Longrightarrow> nat k < length steps \<Longrightarrow> planRestartFromStep steps k = planFromStep steps (nat k)"
  by (simp add: planRestartFromStep_def)

lemma carryForwardFailures_slice:
  "carryForwardFailures f h =
     slice_last MAX_FAILURE_HISTORY
       ((case h of None \<Rightarrow> [] | Some l \<Rightarrow> l) @ (case f of None \<Rightarrow> [] | Some x \<Rightarrow> [x]))"
  by (auto simp: carryForwardFailures_def Let_def slice_last_all split: option.split)

lemma carryForwardOutputs_slice:
  "carryForwardOutputs steps h k now =
     slice_last MAX_OUTPUT_HISTORY
       ((case h of None \<Rightarrow> [] | Some l \<Rightarrow> l) @ discarded_outputs steps k now)"
  by (auto simp: carryForwardOutputs_def Let_def slice_last_all)

text \<open>The two trails are capped trails: the failures of successive attempts, and the outputs
  successive restarts discard.\<close>

definition append_failures :: "agent_failure list \<Rightarrow> agent_failure list \<Rightarrow> agent_failure list" where
  "append_failures history fs =
     fold (\<lambda>f h. carryForwardFailures (Some f) (Some h)) fs
       (carryForwardFailures None (Some history))"

lemma append_failures_slice:
  "append_failures h fs = slice_last MAX_FAILURE_HISTORY (h @ fs)"
proof (induction fs rule: rev_induct)
  case Nil
  then show ?case by (simp add: append_failures_def carryForwardFailures_slice)
next
  case (snoc f fs)
  then show ?case
    by (simp add: append_failures_def carryForwardFailures_slice slice_last_slice_last_append)
qed

interpretation failure_trail: capped_trail MAX_FAILURE_HISTORY append_failures
  by unfold_locales (rule append_failures_slice)

definition append_outputs :: "prior_output list \<Rightarrow> prior_output list \<Rightarrow> prior_output list" where
  "append_outputs history new =
     (let nxt = history @ new
      in if MAX_OUTPUT_HISTORY < length nxt then slice_last MAX_OUTPUT_HISTORY nxt else nxt)"

interpretation output_trail: capped_trail MAX_OUTPUT_HISTORY append_outputs
  by unfold_locales (auto simp: append_outputs_def Let_def slice_last_all)

lemma carryForwardOutputs_append:
  "carryForwardOutputs steps (Some h) k now = append_outputs h (discarded_outputs steps k now)"
  by (simp add: carryForwardOutputs_def append_outputs_def Let_def)

lemma set_discarded_outputs:
  "o' \<in> set (discarded_outputs steps k now) \<longleftrightarrow>
     (\<exists>i. k \<le> i \<and> i < length steps \<and> discarded_output now (i, steps ! i) = Some o')"
proof -
  have "x \<in> set (drop k (enumerate 0 steps)) \<longleftrightarrow>
      (\<exists>i. k \<le> i \<and> i < length steps \<and> x = (i, steps ! i))" for x
  proof
    assume "x \<in> set (drop k (enumerate 0 steps))"
    then obtain n where "n < length (drop k (enumerate 0 steps))" "drop k (enumerate 0 steps) ! n = x"
      by (auto simp: in_set_conv_nth)
    then show "\<exists>i. k \<le> i \<and> i < length steps \<and> x = (i, steps ! i)"
      by (intro exI [of _ "k + n"]) (auto simp: nth_enumerate_eq)
  next
    assume "\<exists>i. k \<le> i \<and> i < length steps \<and> x = (i, steps ! i)"
    then obtain i where i: "k \<le> i" "i < length steps" "x = (i, steps ! i)" by blast
    then have "drop k (enumerate 0 steps) ! (i - k) = x" by (simp add: nth_enumerate_eq)
    moreover from i have "i - k < length (drop k (enumerate 0 steps))" by simp
    ultimately show "x \<in> set (drop k (enumerate 0 steps))" by (metis nth_mem)
  qed
  then show ?thesis
    unfolding discarded_outputs_def map_filter_def by (auto simp: image_iff)
qed

section \<open>Properties\<close>

text \<open>
  C33. A retry resumes at the first step that did not finish: the cursor is inside the chain, every
  step before it is finished and is kept to the letter (output, approval, timing), the step it
  resumes at works again, and no step from there on keeps a job, an output or an approval of the
  failed attempt.
\<close>

theorem retry_keeps_finished_steps:
  assumes "steps \<noteq> []" and "planResumedSteps steps = (steps', k)"
  shows "k < length steps \<and> length steps' = length steps
    \<and> (\<forall>j < k. steps' ! j = steps ! j \<and> st_state (steps ! j) = StepDone)
    \<and> ((\<exists>s \<in> set steps. st_state s \<noteq> StepDone) \<longrightarrow> st_state (steps ! k) \<noteq> StepDone)
    \<and> st_state (steps' ! k) = Working
    \<and> (\<forall>j < length steps. k \<le> j \<longrightarrow> st_jobId (steps' ! j) = None \<and> st_output (steps' ! j) = None
         \<and> st_approval (steps' ! j) = None \<and> st_agentKind (steps' ! j) = st_agentKind (steps ! j)
         \<and> (k < j \<longrightarrow> st_state (steps' ! j) = Pending))"
proof -
  have k: "k = snd (planResumedSteps steps)" using assms(2) by simp
  have eq: "planResumedSteps steps = planFromStep steps k"
    using k by (simp add: planResumedSteps_def)
  then have steps': "steps' = fst (planFromStep steps k)" using assms(2) by (metis fst_conv)
  have lt: "k < length steps" using planResumedSteps_index [OF assms(1)] k by simp
  have keep: "\<forall>j < k. steps' ! j = steps ! j \<and> st_state (steps ! j) = StepDone"
    using planResumedSteps_done [of _ steps] lt by (simp add: steps' nth_planFromStep k)
  have un: "(\<exists>s \<in> set steps. st_state s \<noteq> StepDone) \<longrightarrow> st_state (steps ! k) \<noteq> StepDone"
    using planResumedSteps_unfinished k by blast
  show ?thesis
    using lt keep un by (simp add: steps' nth_planFromStep)
qed

theorem retry_keeps_finished_steps_witness:
  "st_state (fst (planResumedSteps [bare_step ''architect'' StepDone, bare_step ''coder'' Working]) ! 1)
     = Working"
  using retry_keeps_finished_steps [of "[bare_step ''architect'' StepDone, bare_step ''coder'' Working]"]
  by (simp add: planResumedSteps_def planFromStep_def bare_step_def)

text \<open>
  A resumed run keeps the history of the attempts before it: the failure it clears is the
  newest entry of its failure trail, the record of every output the plan discards is at the end of
  its output trail as long as it fits the cap, both trails are suffixes of the full history, and
  neither is ever longer than its cap.
\<close>

theorem resumed_run_keeps_history:
  assumes "i' = buildResumedInstance i rid plan user now"
    and "discarded = discarded_outputs (in_steps i) (snd plan) now"
  shows "\<exists>fs outs. in_failureHistory i' = Some fs \<and> in_outputHistory i' = Some outs
    \<and> length fs \<le> MAX_FAILURE_HISTORY \<and> length outs \<le> MAX_OUTPUT_HISTORY
    \<and> (\<exists>lost. list_of (in_failureHistory i) @ list_of (map_option (\<lambda>f. [f]) (in_failure i)) = lost @ fs)
    \<and> (\<exists>lost. list_of (in_outputHistory i) @ discarded = lost @ outs)
    \<and> (in_failure i \<noteq> None \<longrightarrow> fs \<noteq> [] \<and> Some (last fs) = in_failure i)
    \<and> (length discarded \<le> MAX_OUTPUT_HISTORY \<longrightarrow> (\<exists>older. outs = older @ discarded))"
proof -
  let ?fl = "list_of (map_option (\<lambda>f. [f]) (in_failure i))"
  let ?fs = "append_failures (list_of (in_failureHistory i)) ?fl"
  let ?os = "append_outputs (list_of (in_outputHistory i)) discarded"
  have fs: "in_failureHistory i' = Some ?fs"
    by (cases "in_failure i"; cases "in_failureHistory i")
       (simp_all add: assms(1) buildResumedInstance_def carryForwardFailures_slice append_failures_slice)
  have outs: "in_outputHistory i' = Some ?os"
    by (cases "in_outputHistory i")
       (simp_all add: assms buildResumedInstance_def carryForwardOutputs_def append_outputs_def Let_def)
  have newest: "in_failure i \<noteq> None \<longrightarrow> ?fs \<noteq> [] \<and> Some (last ?fs) = in_failure i"
    using failure_trail.trail_newest [of ?fl "list_of (in_failureHistory i)"]
    by (cases "in_failure i") (auto simp: MAX_FAILURE_HISTORY_def)
  show ?thesis
    unfolding fs outs
    by (intro exI [of _ ?fs] exI [of _ ?os] conjI refl newest failure_trail.trail_bounded
        output_trail.trail_bounded failure_trail.trail_suffix output_trail.trail_suffix impI
        output_trail.trail_newest)
qed

definition failed_example :: instance_rec where
  "failed_example = (bare_run ''r1'' ''b1''
     [(bare_step ''architect'' StepDone)\<lparr>st_output := Some ''plan'', st_finishedAt := Some 7\<rparr>,
      bare_step ''coder'' Working])
     \<lparr>in_status := Failed, in_failure := Some \<lparr>af_kind = AgentFailed, af_message = ''boom'',
        af_detail = None, af_reason = None, af_occurredAt = 9, af_lastSubtasks = None,
        af_stepIndex = Some 1\<rparr>\<rparr>"

theorem resumed_run_keeps_history_witness:
  "\<exists>fs outs. in_failureHistory (buildResumedInstance failed_example ''r2''
        (planRestartFromStep (in_steps failed_example) 0) None 20) = Some fs
     \<and> in_outputHistory (buildResumedInstance failed_example ''r2''
        (planRestartFromStep (in_steps failed_example) 0) None 20) = Some outs
     \<and> fs \<noteq> [] \<and> Some (last fs) = in_failure failed_example"
  using resumed_run_keeps_history [OF refl refl, of failed_example "''r2''"
      "planRestartFromStep (in_steps failed_example) 0" None 20]
  by (auto simp: failed_example_def)

text \<open>
  A re-driven run does not have the shape it was admitted under. The admission of a retry is
  asked of the options, the gating and the tester configuration of the steps of the run it
  replaces, but the reset drops them from every step that runs again: whenever such a step carried
  one of them, the shape of the plan differs from the shape that was admitted, although the chain of
  agents and the human gates are the same.
\<close>

theorem resume_drops_admitted_shape:
  assumes "k \<le> j" and "j < length steps"
    and "st_stepOptions (steps ! j) \<noteq> None \<or> st_gating (steps ! j) \<noteq> None
      \<or> st_testerQuality (steps ! j) \<noteq> None"
  shows "runnableShapeOf (fst (planFromStep steps k)) \<noteq> runnableShapeOf steps
    \<and> sh_agentKinds (runnableShapeOf (fst (planFromStep steps k))) = sh_agentKinds (runnableShapeOf steps)
    \<and> sh_gates (runnableShapeOf (fst (planFromStep steps k))) = sh_gates (runnableShapeOf steps)"
proof -
  let ?new = "fst (planFromStep steps k)"
  have reset: "?new ! j = resetStep (steps ! j) (if j = k then Working else Pending)"
    using assms(1,2) by (simp add: nth_planFromStep)
  have "map st_stepOptions ?new \<noteq> map st_stepOptions steps \<or> map st_gating ?new \<noteq> map st_gating steps
      \<or> map st_testerQuality ?new \<noteq> map st_testerQuality steps"
  proof (rule ccontr)
    assume "\<not> ?thesis"
    then have "map st_stepOptions ?new ! j = map st_stepOptions steps ! j"
      "map st_gating ?new ! j = map st_gating steps ! j"
      "map st_testerQuality ?new ! j = map st_testerQuality steps ! j" by simp_all
    then show False using assms(2,3) reset by simp
  qed
  moreover have "map st_agentKind ?new = map st_agentKind steps"
    "map (\<lambda>s. st_requiresApproval s = Some True) ?new = map (\<lambda>s. st_requiresApproval s = Some True) steps"
    by (rule nth_equalityI; simp add: nth_planFromStep)+
  ultimately show ?thesis by (auto simp: runnableShapeOf_def)
qed

theorem resume_drops_admitted_shape_witness:
  "runnableShapeOf (fst (planFromStep
       [bare_step ''architect'' StepDone,
        (bare_step ''skill'' Working)\<lparr>st_stepOptions := Some (no_options\<lparr>so_skillId := Some ''s1''\<rparr>)\<rparr>] 1))
   \<noteq> runnableShapeOf [bare_step ''architect'' StepDone,
        (bare_step ''skill'' Working)\<lparr>st_stepOptions := Some (no_options\<lparr>so_skillId := Some ''s1''\<rparr>)\<rparr>]"
  by (rule resume_drops_admitted_shape [where j = 1, THEN conjunct1]) simp_all

end
