(* ===== verification/RunStore.thy ===== *)
theory RunStore
  imports RunModel
begin

text \<open>
  The store of runs: the rows of \<^verbatim>\<open>agent_runs\<close> whose kind is \<^verbatim>\<open>execution\<close>, the mapping between
  a row and an execution instance (\<^verbatim>\<open>server/src/persistence/mappers.ts\<close>) and the operations of
  \<^verbatim>\<open>D1ExecutionRepository\<close>. A table is the list of its rows. The partial unique index on
  the live rows of a block and the primary key are the two constraints; a write that would break
  one is an error of the database and leaves the table as it was. The derived columns
  \<^verbatim>\<open>service_id\<close> and \<^verbatim>\<open>workflow_instance_id\<close> are left out: no modelled operation reads them.
\<close>

section \<open>Rows\<close>

text \<open>The JSON of the \<^verbatim>\<open>detail\<close> column; a key that \<^verbatim>\<open>JSON.stringify\<close> omits is \<open>None\<close>.\<close>

record detail =
  dt_pipelineId :: "string option"
  dt_pipelineName :: "string option"
  dt_steps :: "step list option"
  dt_currentStep :: "int option"
  dt_initiatedBy :: "string option"
  dt_intakeOrigin :: "intake_origin option"
  dt_initiatedByRole :: "workspace_role option"
  dt_initiatedByExternalIdentity :: "string option"
  dt_mode :: "string option"
  dt_failureHistory :: "agent_failure list option"
  dt_outputHistory :: "prior_output list option"
  dt_notes :: "string list option"
  dt_frontendBindings :: "json list option"
  dt_diagnostics :: "json option"
  dt_inputGate :: "run_input_gate option"

text \<open>The value of a text column that does not parse as JSON is \<open>None\<close>.\<close>

record run_row =
  rr_ws :: string
  rr_id :: string
  rr_block_id :: string
  rr_status :: string
  rr_detail :: "detail option"
  rr_failure :: "agent_failure option"
  rr_created_at :: int
  rr_updated_at :: int
  rr_rev :: nat

type_synonym run_table = "run_row list"

datatype store_error =
    NoBlockId string
  | CursorOutOfBounds string int nat
  | BadStatus string string
  | UniqueViolation

definition status_text :: "execution_status \<Rightarrow> string" where
  "status_text s = (case s of
      Running \<Rightarrow> ''running'' | Blocked \<Rightarrow> ''blocked'' | RunDone \<Rightarrow> ''done''
    | Paused \<Rightarrow> ''paused'' | Failed \<Rightarrow> ''failed'')"

definition decode_status :: "string \<Rightarrow> execution_status option" where
  "decode_status t =
     List.find (\<lambda>s. status_text s = t) [Running, Blocked, RunDone, Paused, Failed]"

definition live_text :: "string \<Rightarrow> bool" where
  "live_text t \<longleftrightarrow> t \<in> {''running'', ''blocked'', ''paused''}"

lemma decode_status_text [simp]: "decode_status (status_text s) = Some s"
  by (cases s) (simp_all add: decode_status_def status_text_def)

lemma live_text_status [simp]: "live_text (status_text s) = live_status s"
  by (cases s) (simp_all add: live_text_def status_text_def live_status_def)

text \<open>An array that is absent or empty is not stored.\<close>

definition nonempty_list :: "'a list option \<Rightarrow> 'a list option" where
  "nonempty_list l = (case l of None \<Rightarrow> None | Some xs \<Rightarrow> if xs = [] then None else Some xs)"

definition assertPersistableExecution :: "instance_rec \<Rightarrow> store_error option" where
  "assertPersistableExecution i =
     (if in_blockId i = [] then Some (NoBlockId (in_id i))
      else if in_currentStep i > length (in_steps i)
      then Some (CursorOutOfBounds (in_id i) (int (in_currentStep i)) (length (in_steps i)))
      else None)"

definition executionToDetail :: "instance_rec \<Rightarrow> store_error + detail" where
  "executionToDetail i =
     (case assertPersistableExecution i of
        Some e \<Rightarrow> Inl e
      | None \<Rightarrow> Inr
          \<lparr>dt_pipelineId = Some (in_pipelineId i), dt_pipelineName = Some (in_pipelineName i),
           dt_steps = Some (map (\<lambda>s. s\<lparr>st_runId := None\<rparr>) (in_steps i)),
           dt_currentStep = Some (int (in_currentStep i)), dt_initiatedBy = in_initiatedBy i,
           dt_intakeOrigin =
             (if in_intakeOrigin i = Some UiIntake then None else in_intakeOrigin i),
           dt_initiatedByRole = in_initiatedByRole i,
           dt_initiatedByExternalIdentity = in_initiatedByExternalIdentity i,
           dt_mode = (if in_mode i = Some DryRun then Some ''dry_run'' else None),
           dt_failureHistory = nonempty_list (in_failureHistory i),
           dt_outputHistory = nonempty_list (in_outputHistory i),
           dt_notes = nonempty_list (in_notes i),
           dt_frontendBindings = nonempty_list (in_frontendBindings i),
           dt_diagnostics = in_diagnostics i, dt_inputGate = in_inputGate i\<rparr>)"

text \<open>The detail read from text that is not JSON: \<^verbatim>\<open>{}\<close>.\<close>

definition empty_detail :: detail where
  "empty_detail =
     \<lparr>dt_pipelineId = None, dt_pipelineName = None, dt_steps = None, dt_currentStep = None,
      dt_initiatedBy = None, dt_intakeOrigin = None, dt_initiatedByRole = None,
      dt_initiatedByExternalIdentity = None, dt_mode = None, dt_failureHistory = None,
      dt_outputHistory = None, dt_notes = None, dt_frontendBindings = None,
      dt_diagnostics = None, dt_inputGate = None\<rparr>"

text \<open>
  The record is built from typed values, so the schema guards on the decoded sub-objects
  (\<^verbatim>\<open>parseFailureHistory\<close> and the like) drop nothing but an absent value.
\<close>

definition rowToExecution :: "run_row \<Rightarrow> store_error + instance_rec" where
  "rowToExecution r =
     (let d = or_else (rr_detail r) empty_detail;
          steps = map (\<lambda>s. s\<lparr>st_runId := Some (rr_id r)\<rparr>) (or_else (dt_steps d) []);
          currentStep = or_else (dt_currentStep d) 0
      in if rr_block_id r = [] then Inl (NoBlockId (rr_id r))
         else if currentStep < 0 \<or> currentStep > int (length steps)
         then Inl (CursorOutOfBounds (rr_id r) currentStep (length steps))
         else case decode_status (rr_status r) of
           None \<Rightarrow> Inl (BadStatus (rr_id r) (rr_status r))
         | Some status \<Rightarrow> Inr
             \<lparr>in_id = rr_id r, in_blockId = rr_block_id r,
              in_pipelineId = or_else (dt_pipelineId d) [],
              in_pipelineName = or_else (dt_pipelineName d) [], in_steps = steps,
              in_currentStep = nat currentStep, in_status = status, in_failure = rr_failure r,
              in_failureHistory = Some (or_else (dt_failureHistory d) []),
              in_outputHistory = Some (or_else (dt_outputHistory d) []),
              in_initiatedBy = dt_initiatedBy d, in_initiatedByRole = dt_initiatedByRole d,
              in_initiatedByExternalIdentity = nonempty (dt_initiatedByExternalIdentity d),
              in_mode =
                (case dt_mode d of None \<Rightarrow> None
                 | Some m \<Rightarrow> Some (if m = ''live'' then Live else DryRun)),
              in_intakeOrigin = dt_intakeOrigin d, in_notes = dt_notes d,
              in_frontendBindings = nonempty_list (dt_frontendBindings d),
              in_diagnostics = dt_diagnostics d, in_inputGate = dt_inputGate d,
              in_createdAt = Some (rr_created_at r), in_rev = rr_rev r\<rparr>)"

definition adoptCreatedAt :: "instance_rec \<Rightarrow> int \<Rightarrow> instance_rec" where
  "adoptCreatedAt i now = i\<lparr>in_createdAt := Some (or_else (in_createdAt i) now)\<rparr>"

section \<open>Tables\<close>

definition has_key :: "string \<Rightarrow> string \<Rightarrow> run_row \<Rightarrow> bool" where
  "has_key ws rid r \<longleftrightarrow> rr_ws r = ws \<and> rr_id r = rid"

definition find_row :: "string \<Rightarrow> string \<Rightarrow> run_table \<Rightarrow> run_row option" where
  "find_row ws rid t = List.find (has_key ws rid) t"

definition live_row_of :: "string \<Rightarrow> string \<Rightarrow> run_row \<Rightarrow> bool" where
  "live_row_of ws block r \<longleftrightarrow>
     rr_ws r = ws \<and> rr_block_id r = block \<and> live_text (rr_status r)"

text \<open>The primary key and the partial unique index.\<close>

definition primary_key :: "run_table \<Rightarrow> bool" where
  "primary_key t \<longleftrightarrow> distinct (map (\<lambda>r. (rr_ws r, rr_id r)) t)"

definition live_index :: "run_table \<Rightarrow> bool" where
  "live_index t \<longleftrightarrow>
     distinct (map (\<lambda>r. (rr_ws r, rr_block_id r)) (filter (\<lambda>r. live_text (rr_status r)) t))"

definition table_ok :: "run_table \<Rightarrow> bool" where
  "table_ok t \<longleftrightarrow> primary_key t \<and> live_index t"

definition commit :: "run_table \<Rightarrow> store_error + run_table" where
  "commit t = (if table_ok t then Inr t else Inl UniqueViolation)"

definition update_rows ::
  "(run_row \<Rightarrow> bool) \<Rightarrow> (run_row \<Rightarrow> run_row) \<Rightarrow> run_table \<Rightarrow> run_table" where
  "update_rows p f t = map (\<lambda>r. if p r then f r else r) t"

section \<open>The repository\<close>

definition get_run :: "string \<Rightarrow> string \<Rightarrow> run_table \<Rightarrow> store_error + instance_rec option" where
  "get_run ws rid t =
     (case find_row ws rid t of
        None \<Rightarrow> Inr None
      | Some r \<Rightarrow> (case rowToExecution r of Inl e \<Rightarrow> Inl e | Inr i \<Rightarrow> Inr (Some i)))"

definition getByBlock ::
  "string \<Rightarrow> string \<Rightarrow> run_table \<Rightarrow> store_error + instance_rec option" where
  "getByBlock ws block t =
     (case List.find (\<lambda>r. rr_ws r = ws \<and> rr_block_id r = block) t of
        None \<Rightarrow> Inr None
      | Some r \<Rightarrow> (case rowToExecution r of Inl e \<Rightarrow> Inl e | Inr i \<Rightarrow> Inr (Some i)))"

definition new_row :: "string \<Rightarrow> int \<Rightarrow> instance_rec \<Rightarrow> detail \<Rightarrow> run_row" where
  "new_row ws now i d =
     \<lparr>rr_ws = ws, rr_id = in_id i, rr_block_id = in_blockId i,
      rr_status = status_text (in_status i), rr_detail = Some d, rr_failure = None,
      rr_created_at = or_else (in_createdAt i) now, rr_updated_at = now, rr_rev = 0\<rparr>"

text \<open>A write over a row keeps its failure and its creation stamp and bumps its revision.\<close>

definition write_row :: "int \<Rightarrow> instance_rec \<Rightarrow> detail \<Rightarrow> run_row \<Rightarrow> run_row" where
  "write_row now i d r =
     r\<lparr>rr_block_id := in_blockId i, rr_status := status_text (in_status i),
       rr_detail := Some d, rr_updated_at := now, rr_rev := Suc (rr_rev r)\<rparr>"

definition upsert ::
  "string \<Rightarrow> int \<Rightarrow> instance_rec \<Rightarrow> run_table \<Rightarrow> store_error + instance_rec \<times> run_table" where
  "upsert ws now i t =
     (let i' = adoptCreatedAt i now
      in case executionToDetail i' of
           Inl e \<Rightarrow> Inl e
         | Inr d \<Rightarrow>
             (case find_row ws (in_id i) t of
                None \<Rightarrow>
                  bind_result (commit (t @ [new_row ws now i' d]))
                    (\<lambda>t'. Inr (i'\<lparr>in_rev := 0\<rparr>, t'))
              | Some r \<Rightarrow>
                  bind_result (commit (update_rows (has_key ws (in_id i)) (write_row now i' d) t))
                    (\<lambda>t'. Inr (i'\<lparr>in_rev := Suc (rr_rev r)\<rparr>, t'))))"

definition insertLive ::
  "string \<Rightarrow> int \<Rightarrow> instance_rec \<Rightarrow> string option \<Rightarrow> run_table \<Rightarrow>
     store_error + bool \<times> instance_rec \<times> run_table" where
  "insertLive ws now i replaceId t =
     (let i' = adoptCreatedAt i now
      in case executionToDetail i' of
           Inl e \<Rightarrow> Inl e
         | Inr d \<Rightarrow>
             (let kept = filter (\<lambda>r. \<not> (rr_ws r = ws \<and> rr_block_id r = in_blockId i
                            \<and> (\<not> live_text (rr_status r) \<or> Some (rr_id r) = replaceId))) t
              in if live_status (in_status i)
                    \<and> list_ex (live_row_of ws (in_blockId i)) kept
                 then Inr (False, i', kept)
                 else bind_result (commit (kept @ [new_row ws now i' d]))
                        (\<lambda>t'. Inr (True, i'\<lparr>in_rev := 0\<rparr>, t'))))"

text \<open>The \<^verbatim>\<open>WHERE\<close> of the swap.\<close>

definition cas_hit :: "string \<Rightarrow> instance_rec \<Rightarrow> run_row \<Rightarrow> bool" where
  "cas_hit ws i r \<longleftrightarrow> has_key ws (in_id i) r \<and> rr_rev r = in_rev i"

definition compareAndSwap ::
  "string \<Rightarrow> int \<Rightarrow> instance_rec \<Rightarrow> run_table \<Rightarrow>
     store_error + bool \<times> instance_rec \<times> run_table" where
  "compareAndSwap ws now i t =
     (case executionToDetail i of
        Inl e \<Rightarrow> Inl e
      | Inr d \<Rightarrow>
          (if list_ex (cas_hit ws i) t
           then bind_result (commit (update_rows (cas_hit ws i) (write_row now i d) t))
                  (\<lambda>t'. Inr (True, i\<lparr>in_rev := Suc (in_rev i)\<rparr>, t'))
           else Inr (False, i, t)))"

definition deleteByBlock :: "string \<Rightarrow> string \<Rightarrow> run_table \<Rightarrow> run_table" where
  "deleteByBlock ws block t = filter (\<lambda>r. \<not> (rr_ws r = ws \<and> rr_block_id r = block)) t"

definition markFailed ::
  "string \<Rightarrow> int \<Rightarrow> string \<Rightarrow> agent_failure \<Rightarrow> run_table \<Rightarrow> run_table" where
  "markFailed ws now rid failure t =
     update_rows (\<lambda>r. has_key ws rid r \<and> rr_status r \<notin> {''done'', ''failed''})
       (\<lambda>r. r\<lparr>rr_status := ''failed'', rr_failure := Some failure, rr_updated_at := now,
              rr_rev := Suc (rr_rev r)\<rparr>) t"

definition listStale :: "int \<Rightarrow> run_table \<Rightarrow> (string \<times> string) list" where
  "listStale olderThan t =
     map (\<lambda>r. (rr_ws r, rr_id r))
       (sort_key rr_updated_at
          (filter (\<lambda>r. rr_status r = ''running'' \<and> rr_updated_at r < olderThan) t))"

section \<open>Mutating a run under optimistic concurrency\<close>

datatype run_error =
    NotFound string
  | Conflict string
  | StoreRaised store_error
  | DomainError string

text \<open>
  \<^verbatim>\<open>RunStateMachine.mutateInstance\<close>: read, apply the mutation, compare and swap, and start over
  on a lost race. \<open>env\<close> is what the other writers do to the store between the read and the
  swap of an attempt; a rejected mutation and an error of the store leave the loop at once.
\<close>

fun mutate_attempts ::
  "('k \<Rightarrow> 's \<Rightarrow> store_error + 'v option) \<Rightarrow> ('v \<Rightarrow> 's \<Rightarrow> store_error + bool \<times> 'v \<times> 's) \<Rightarrow>
     ('v \<Rightarrow> run_error + 'v) \<Rightarrow> (nat \<Rightarrow> 's \<Rightarrow> 's) \<Rightarrow> ('k \<Rightarrow> string) \<Rightarrow> nat \<Rightarrow> 'k \<Rightarrow> 's \<Rightarrow>
     (run_error + 'v) \<times> 's" where
  "mutate_attempts get cas mutate env name 0 k s = (Inl (Conflict (name k)), s)"
| "mutate_attempts get cas mutate env name (Suc n) k s =
     (case get k s of
        Inl e \<Rightarrow> (Inl (StoreRaised e), s)
      | Inr None \<Rightarrow> (Inl (NotFound (name k)), s)
      | Inr (Some v) \<Rightarrow>
          (case mutate v of
             Inl e \<Rightarrow> (Inl e, s)
           | Inr w \<Rightarrow>
               (let s1 = env n s
                in case cas w s1 of
                     Inl e \<Rightarrow> (Inl (StoreRaised e), s1)
                   | Inr (True, v', s') \<Rightarrow> (Inr v', s')
                   | Inr (False, v', s') \<Rightarrow>
                       mutate_attempts get cas mutate env name n k s')))"

definition MAX_MUTATE_ATTEMPTS :: nat where
  "MAX_MUTATE_ATTEMPTS = 8"

definition mutateInstance ::
  "string \<Rightarrow> int \<Rightarrow> (instance_rec \<Rightarrow> run_error + instance_rec) \<Rightarrow> (nat \<Rightarrow> run_table \<Rightarrow> run_table) \<Rightarrow>
     string \<Rightarrow> run_table \<Rightarrow> (run_error + instance_rec) \<times> run_table" where
  "mutateInstance ws now mutate env =
     mutate_attempts (get_run ws) (compareAndSwap ws now) mutate env (\<lambda>rid. rid) MAX_MUTATE_ATTEMPTS"

text \<open>What the loop needs of a store, and what it gives in return.\<close>

locale cas_repository =
  fixes get :: "'k \<Rightarrow> 's \<Rightarrow> store_error + 'v option"
    and cas :: "'v \<Rightarrow> 's \<Rightarrow> store_error + bool \<times> 'v \<times> 's"
    and key :: "'v \<Rightarrow> 'k"
    and revision :: "'v \<Rightarrow> nat"
    and stored :: "'k \<Rightarrow> 's \<Rightarrow> nat option"
  assumes get_stored: "get k s = Inr (Some v) \<Longrightarrow> key v = k \<and> stored k s = Some (revision v)"
    and cas_swapped: "cas v s = Inr (True, v', s') \<Longrightarrow>
      stored (key v) s = Some (revision v) \<and> stored (key v) s' = Some (Suc (revision v))
      \<and> revision v' = Suc (revision v)"
    and cas_refused: "cas v s = Inr (False, v', s') \<Longrightarrow>
      s' = s \<and> stored (key v) s \<noteq> Some (revision v)"
begin

lemma loser_keeps_out:
  "stored (key v) s \<noteq> Some (revision v) \<Longrightarrow> cas v s \<noteq> Inr (True, v', s')"
  using cas_swapped [of v s v' s'] by auto

text \<open>Two writers that read the same revision: once one has swapped, the other is refused.\<close>

lemma one_winner:
  assumes "cas v s = Inr (True, v', s')" and "key w = key v" and "revision w = revision v"
  shows "cas w s' \<noteq> Inr (True, w', s'')"
  using cas_swapped [OF assms(1)] assms(2,3) by (intro loser_keeps_out) simp

lemma swapped_on_read_revision:
  assumes "mutate_attempts get cas mutate env name n k s = (Inr v', s')"
    and frame: "\<And>v w. mutate v = Inr w \<Longrightarrow> key w = key v \<and> revision w = revision v"
  shows "\<exists>j < n. \<exists>s0 v w. get k s0 = Inr (Some v) \<and> mutate v = Inr w
           \<and> cas w (env j s0) = Inr (True, v', s')
           \<and> stored k (env j s0) = Some (revision v)"
  using assms(1)
proof (induction n arbitrary: s)
  case 0
  then show ?case by simp
next
  case (Suc n)
  then obtain v w b v1 s1 where *: "get k s = Inr (Some v)" "mutate v = Inr w"
    "cas w (env n s) = Inr (b, v1, s1)"
    by (auto simp: Let_def split: sum.splits option.splits prod.splits bool.splits)
  show ?case
  proof (cases b)
    case True
    with Suc.prems * have "v1 = v'" "s1 = s'" by (simp_all add: Let_def)
    with * True have c: "cas w (env n s) = Inr (True, v', s')" by simp
    with frame [OF *(2)] get_stored [OF *(1)] cas_swapped [OF c]
    have "stored k (env n s) = Some (revision v)" by simp
    with *(1,2) c show ?thesis by (intro exI [of _ n]) auto
  next
    case False
    with Suc.prems * have "mutate_attempts get cas mutate env name n k s1 = (Inr v', s')"
      by (simp add: Let_def)
    from Suc.IH [OF this] show ?thesis by (meson less_SucI)
  qed
qed

text \<open>
  When equal revisions mean equal contents, the mutation was applied to the very state that the
  swap replaced, so no other writer's update is lost.
\<close>

lemma no_lost_update:
  assumes "mutate_attempts get cas mutate env name n k s = (Inr v', s')"
    and "\<And>v w. mutate v = Inr w \<Longrightarrow> key w = key v \<and> revision w = revision v"
    and "\<And>j s. stored k (env j s) \<noteq> None \<Longrightarrow> stored k (env j s) = stored k s \<Longrightarrow>
           get k (env j s) = get k s"
  shows "\<exists>s1 v w. get k s1 = Inr (Some v) \<and> mutate v = Inr w \<and> cas w s1 = Inr (True, v', s')"
proof -
  from swapped_on_read_revision [OF assms(1,2)] obtain j s0 v w where
    *: "get k s0 = Inr (Some v)" "mutate v = Inr w" "cas w (env j s0) = Inr (True, v', s')"
       "stored k (env j s0) = Some (revision v)"
    by blast
  with get_stored [of k s0 v] have "stored k (env j s0) = stored k s0" by simp
  with assms(3) [of j s0] * have "get k (env j s0) = Inr (Some v)" by simp
  with * show ?thesis by blast
qed

text \<open>An attempt that nobody disturbs succeeds, so the loop gives up only when all were lost.\<close>

lemma undisturbed_attempt_wins:
  assumes "j < n" and "\<And>s. env j s = s" and "I s"
    and reads: "\<And>s. I s \<Longrightarrow> \<exists>v. get k s = Inr (Some v)"
    and keeps: "\<And>i s. I s \<Longrightarrow> I (env i s)"
    and total: "\<And>v. \<exists>w. mutate v = Inr w \<and> key w = key v \<and> revision w = revision v"
    and sound: "\<And>i v w s. I s \<Longrightarrow> get k s = Inr (Some v) \<Longrightarrow> mutate v = Inr w \<Longrightarrow>
                  \<exists>r. cas w (env i s) = Inr r"
  shows "\<exists>v' s'. mutate_attempts get cas mutate env name n k s = (Inr v', s')"
  using assms(1,3)
proof (induction n arbitrary: s)
  case 0
  then show ?case by simp
next
  case (Suc n)
  from reads Suc.prems obtain v where v: "get k s = Inr (Some v)" by blast
  from total obtain w where w: "mutate v = Inr w" "key w = key v" "revision w = revision v"
    by blast
  from keeps Suc.prems have I1: "I (env n s)" by blast
  from sound [OF Suc.prems(2) v w(1), of n] obtain b v1 s1 where
    c: "cas w (env n s) = Inr (b, v1, s1)" by (metis prod.exhaust)
  show ?case
  proof (cases b)
    case True
    with v w c show ?thesis by (simp add: Let_def)
  next
    case False
    have "j \<noteq> n"
    proof
      assume "j = n"
      with assms(2) c False have "cas w s = Inr (False, v1, s1)" by simp
      from cas_refused [OF this] get_stored [OF v] w show False by simp
    qed
    with Suc.prems have "j < n" by simp
    moreover from cas_refused [of w "env n s" v1 s1] c False I1 have "I s1" by simp
    ultimately show ?thesis using Suc.IH [of s1] v w c False by (simp add: Let_def)
  qed
qed

end

section \<open>Laws of the table\<close>

lemma find_row_update:
  assumes "\<And>r. has_key ws rid (f r) = has_key ws rid r"
  shows "find_row ws rid (update_rows p f t) =
    map_option (\<lambda>r. if p r then f r else r) (find_row ws rid t)"
  using assms by (induction t) (auto simp: find_row_def update_rows_def)

lemma find_row_filter:
  assumes "\<And>r. has_key ws rid r \<Longrightarrow> p r"
  shows "find_row ws rid (filter p t) = find_row ws rid t"
  using assms by (induction t) (auto simp: find_row_def)

lemma find_row_append:
  "find_row ws rid (t @ u) = (case find_row ws rid t of None \<Rightarrow> find_row ws rid u | r \<Rightarrow> r)"
  by (induction t) (auto simp: find_row_def)

lemma find_row_Some: "find_row ws rid t = Some r \<Longrightarrow> r \<in> set t \<and> rr_ws r = ws \<and> rr_id r = rid"
  by (induction t) (auto simp: find_row_def has_key_def split: if_splits)

lemma find_row_None: "find_row ws rid t = None \<longleftrightarrow> (\<forall>r \<in> set t. \<not> has_key ws rid r)"
  by (induction t) (auto simp: find_row_def)

lemma primary_key_find:
  assumes "primary_key t" and "r \<in> set t" and "has_key ws rid r"
  shows "find_row ws rid t = Some r"
  using assms
  by (induction t) (auto simp: primary_key_def find_row_def has_key_def image_def)

lemma primary_key_update:
  assumes "\<And>r. rr_ws (f r) = rr_ws r \<and> rr_id (f r) = rr_id r"
  shows "primary_key (update_rows p f t) = primary_key t"
proof -
  have "map (\<lambda>r. (rr_ws r, rr_id r)) (update_rows p f t) = map (\<lambda>r. (rr_ws r, rr_id r)) t"
    using assms by (induction t) (auto simp: update_rows_def)
  then show ?thesis by (simp add: primary_key_def)
qed

lemma table_ok_filter: "table_ok t \<Longrightarrow> table_ok (filter p t)"
proof (induction t)
  case Nil
  then show ?case by simp
next
  case (Cons r t)
  then show ?case by (auto simp: table_ok_def primary_key_def live_index_def image_def)
qed

text \<open>Retiring a row never breaks a constraint.\<close>

lemma table_ok_retire:
  assumes "table_ok t"
    and keep: "\<And>r. rr_ws (f r) = rr_ws r \<and> rr_id (f r) = rr_id r \<and> rr_block_id (f r) = rr_block_id r"
    and retired: "\<And>r. \<not> live_text (rr_status (f r))"
  shows "table_ok (update_rows p f t)"
proof -
  have sub: "set (map (\<lambda>r. (rr_ws r, rr_block_id r))
       (filter (\<lambda>r. live_text (rr_status r)) (update_rows p f u)))
     \<subseteq> set (map (\<lambda>r. (rr_ws r, rr_block_id r)) (filter (\<lambda>r. live_text (rr_status r)) u))" for u
    using retired by (induction u) (auto simp: update_rows_def)
  have "live_index u \<Longrightarrow> live_index (update_rows p f u)" for u
  proof (induction u)
    case Nil
    then show ?case by (simp add: update_rows_def)
  next
    case (Cons r u)
    have tl: "live_index u" using Cons.prems by (simp add: live_index_def split: if_splits)
    show ?case
    proof (cases "p r \<or> \<not> live_text (rr_status r)")
      case True
      then have "\<not> live_text (rr_status (if p r then f r else r))" using retired by auto
      then show ?thesis using Cons.IH [OF tl] by (simp add: live_index_def update_rows_def)
    next
      case False
      then have "(rr_ws r, rr_block_id r) \<notin>
          set (map (\<lambda>r. (rr_ws r, rr_block_id r)) (filter (\<lambda>r. live_text (rr_status r)) u))"
        using Cons.prems by (simp add: live_index_def)
      then have "(rr_ws r, rr_block_id r) \<notin> set (map (\<lambda>r. (rr_ws r, rr_block_id r))
          (filter (\<lambda>r. live_text (rr_status r)) (update_rows p f u)))"
        using sub [of u] by blast
      then show ?thesis using Cons.IH [OF tl] False
        by (simp add: live_index_def update_rows_def)
    qed
  qed
  then show ?thesis using assms(1) primary_key_update [of f p t] keep
    by (simp add: table_ok_def)
qed

lemma commit_Inr: "commit t = Inr t' \<longleftrightarrow> t' = t \<and> table_ok t"
  by (auto simp: commit_def)

lemma write_row_simps [simp]:
  "rr_ws (write_row now i d r) = rr_ws r"
  "rr_id (write_row now i d r) = rr_id r"
  "rr_rev (write_row now i d r) = Suc (rr_rev r)"
  "rr_failure (write_row now i d r) = rr_failure r"
  "rr_detail (write_row now i d r) = Some d"
  "rr_status (write_row now i d r) = status_text (in_status i)"
  "rr_block_id (write_row now i d r) = in_blockId i"
  "rr_created_at (write_row now i d r) = rr_created_at r"
  "has_key ws rid (write_row now i d r) = has_key ws rid r"
  by (simp_all add: write_row_def has_key_def)

section \<open>Laws of the operations\<close>

lemma executionToDetail_Inr:
  "(\<exists>d. executionToDetail i = Inr d) \<longleftrightarrow>
     in_blockId i \<noteq> [] \<and> in_currentStep i \<le> length (in_steps i)"
  by (auto simp: executionToDetail_def assertPersistableExecution_def)

lemma get_run_Some:
  "get_run ws rid t = Inr (Some i) \<longleftrightarrow>
     (\<exists>r. find_row ws rid t = Some r \<and> rowToExecution r = Inr i)"
  by (auto simp: get_run_def split: option.splits sum.splits)

lemma rowToExecution_keys:
  "rowToExecution r = Inr i \<Longrightarrow> in_id i = rr_id r \<and> in_rev i = rr_rev r
     \<and> in_blockId i = rr_block_id r \<and> rr_status r = status_text (in_status i)"
  by (auto simp: rowToExecution_def Let_def decode_status_def find_Some_iff
      split: if_splits option.splits)

lemma compareAndSwap_True:
  assumes "compareAndSwap ws now i t = Inr (True, i', t')"
  shows "\<exists>r d. executionToDetail i = Inr d \<and> find_row ws (in_id i) t = Some r
    \<and> rr_rev r = in_rev i \<and> find_row ws (in_id i) t' = Some (write_row now i d r)
    \<and> i' = i\<lparr>in_rev := Suc (in_rev i)\<rparr> \<and> table_ok t'
    \<and> t' = update_rows (cas_hit ws i) (write_row now i d) t"
proof -
  obtain d where d0: "executionToDetail i = Inr d"
    using assms by (cases "executionToDetail i") (simp_all add: compareAndSwap_def)
  have hit: "list_ex (cas_hit ws i) t"
    using assms d0 by (simp add: compareAndSwap_def split: if_splits)
  have d: "executionToDetail i = Inr d" "list_ex (cas_hit ws i) t"
    "table_ok (update_rows (cas_hit ws i) (write_row now i d) t)"
    "t' = update_rows (cas_hit ws i) (write_row now i d) t"
    "i' = i\<lparr>in_rev := Suc (in_rev i)\<rparr>"
    using assms d0 hit by (simp_all add: compareAndSwap_def bind_result_def commit_def split: if_splits)
  have "primary_key t" using d(3) primary_key_update [of "write_row now i d" "cas_hit ws i" t]
    by (simp add: table_ok_def)
  moreover from d(2) obtain r where r: "r \<in> set t" "cas_hit ws i r"
    by (auto simp: list_ex_iff)
  ultimately have f: "find_row ws (in_id i) t = Some r"
    by (simp add: primary_key_find cas_hit_def)
  moreover have "find_row ws (in_id i) t' = Some (write_row now i d r)"
    using f r(2) by (simp add: d(4) find_row_update)
  ultimately show ?thesis using d r(2) by (auto simp: cas_hit_def)
qed

lemma compareAndSwap_False:
  "compareAndSwap ws now i t = Inr (False, i', t') \<Longrightarrow>
     i' = i \<and> t' = t \<and> (\<forall>r. find_row ws (in_id i) t = Some r \<longrightarrow> rr_rev r \<noteq> in_rev i)"
  by (auto simp: compareAndSwap_def bind_result_eq_Inr list_ex_iff cas_hit_def has_key_def
      dest: find_row_Some split: sum.splits if_splits)

definition stored_rev :: "string \<Rightarrow> string \<Rightarrow> run_table \<Rightarrow> nat option" where
  "stored_rev ws rid t = map_option rr_rev (find_row ws rid t)"

interpretation run_cas: cas_repository "get_run ws" "compareAndSwap ws now" in_id in_rev
  "stored_rev ws"
proof (unfold_locales, goal_cases)
  case (1 k s v)
  then show ?case
    by (auto simp: get_run_Some stored_rev_def dest: rowToExecution_keys find_row_Some)
next
  case (2 v s v' s')
  from compareAndSwap_True [OF this] show ?case by (auto simp: stored_rev_def)
next
  case (3 v s v' s')
  from compareAndSwap_False [OF this] show ?case by (auto simp: stored_rev_def)
qed

text \<open>Every write keeps both constraints.\<close>

lemma compareAndSwap_table_ok:
  "table_ok t \<Longrightarrow> compareAndSwap ws now i t = Inr (b, i', t') \<Longrightarrow> table_ok t'"
  by (auto simp: compareAndSwap_def bind_result_eq_Inr commit_Inr split: sum.splits if_splits)

lemma upsert_table_ok: "upsert ws now i t = Inr (i', t') \<Longrightarrow> table_ok t'"
  by (auto simp: upsert_def Let_def bind_result_eq_Inr commit_Inr split: sum.splits option.splits)

lemma insertLive_table_ok:
  "table_ok t \<Longrightarrow> insertLive ws now i rep t = Inr (b, i', t') \<Longrightarrow> table_ok t'"
  by (auto simp: insertLive_def Let_def bind_result_eq_Inr commit_Inr table_ok_filter
      split: sum.splits if_splits)

lemma markFailed_table_ok: "table_ok t \<Longrightarrow> table_ok (markFailed ws now rid f t)"
  unfolding markFailed_def by (rule table_ok_retire) (simp_all add: live_text_def)

lemma deleteByBlock_table_ok: "table_ok t \<Longrightarrow> table_ok (deleteByBlock ws b t)"
  by (simp add: deleteByBlock_def table_ok_filter)

text \<open>Writers that race a mutation: each of them moves the revision or leaves the row.\<close>

datatype run_write = WSwap int instance_rec | WUpsert int instance_rec | WFail int string agent_failure

definition apply_write :: "string \<Rightarrow> run_write \<Rightarrow> run_table \<Rightarrow> run_table" where
  "apply_write ws w t = (case w of
      WSwap now i \<Rightarrow> (case compareAndSwap ws now i t of Inl e \<Rightarrow> t | Inr (b, i', t') \<Rightarrow> t')
    | WUpsert now i \<Rightarrow> (case upsert ws now i t of Inl e \<Rightarrow> t | Inr (i', t') \<Rightarrow> t')
    | WFail now rid f \<Rightarrow> markFailed ws now rid f t)"

definition apply_writes :: "string \<Rightarrow> run_write list \<Rightarrow> run_table \<Rightarrow> run_table" where
  "apply_writes ws wl t = fold (apply_write ws) wl t"

definition row_moves :: "string \<Rightarrow> string \<Rightarrow> run_table \<Rightarrow> run_table \<Rightarrow> bool" where
  "row_moves ws rid t t' \<longleftrightarrow> (\<forall>r. find_row ws rid t = Some r \<longrightarrow>
     (\<exists>r'. find_row ws rid t' = Some r' \<and> (r' = r \<or> rr_rev r < rr_rev r')))"

lemma row_moves_refl: "row_moves ws rid t t"
  by (simp add: row_moves_def)

lemma row_moves_trans: "row_moves ws rid t u \<Longrightarrow> row_moves ws rid u v \<Longrightarrow> row_moves ws rid t v"
  unfolding row_moves_def by (metis less_trans)

lemma row_moves_update:
  assumes "\<And>r. has_key ws rid (f r) = has_key ws rid r" and "\<And>r. rr_rev (f r) = Suc (rr_rev r)"
  shows "row_moves ws rid t (update_rows p f t)"
  using assms by (auto simp: row_moves_def find_row_update)

lemma apply_write_moves: "row_moves ws rid t (apply_write ws w t)"
proof (cases w)
  case (WSwap now i)
  then show ?thesis
    by (auto simp: apply_write_def compareAndSwap_def bind_result_def commit_def row_moves_refl
        intro!: row_moves_update split: sum.splits if_splits)
next
  case (WUpsert now i)
  have "row_moves ws rid t (t @ [r])" for r
    by (auto simp: row_moves_def find_row_append)
  with WUpsert show ?thesis
    by (auto simp: apply_write_def upsert_def Let_def bind_result_def commit_def row_moves_refl
        intro!: row_moves_update split: sum.splits option.splits if_splits)
next
  case (WFail now k f)
  then show ?thesis
    by (auto simp: apply_write_def markFailed_def has_key_def intro!: row_moves_update)
qed

lemma apply_writes_moves: "row_moves ws rid t (apply_writes ws wl t)"
  unfolding apply_writes_def
proof (induction wl arbitrary: t)
  case Nil
  then show ?case by (simp add: row_moves_refl)
next
  case (Cons w wl)
  then show ?case using row_moves_trans apply_write_moves by fastforce
qed

lemma row_moves_same:
  "row_moves ws rid t t' \<Longrightarrow> find_row ws rid t = Some r \<Longrightarrow> stored_rev ws rid t' = stored_rev ws rid t
     \<Longrightarrow> get_run ws rid t' = get_run ws rid t"
  by (auto simp: row_moves_def stored_rev_def get_run_def)

text \<open>A row written from an instance reads back as that instance, normalised.\<close>

definition normalised :: "run_row \<Rightarrow> instance_rec \<Rightarrow> instance_rec" where
  "normalised r i =
     i\<lparr>in_steps := map (\<lambda>s. s\<lparr>st_runId := Some (in_id i)\<rparr>) (in_steps i),
       in_failure := rr_failure r,
       in_failureHistory := Some (or_else (in_failureHistory i) []),
       in_outputHistory := Some (or_else (in_outputHistory i) []),
       in_initiatedByExternalIdentity := nonempty (in_initiatedByExternalIdentity i),
       in_mode := (if in_mode i = Some DryRun then Some DryRun else None),
       in_intakeOrigin := (if in_intakeOrigin i = Some UiIntake then None else in_intakeOrigin i),
       in_notes := nonempty_list (in_notes i),
       in_frontendBindings := nonempty_list (in_frontendBindings i),
       in_createdAt := Some (rr_created_at r), in_rev := rr_rev r\<rparr>"

lemma or_else_nonempty_list [simp]: "or_else (nonempty_list l) [] = or_else l []"
  by (cases l) (simp_all add: nonempty_list_def)

lemma nonempty_list_idem [simp]: "nonempty_list (nonempty_list l) = nonempty_list l"
  by (auto simp: nonempty_list_def split: option.splits)

lemma rowToExecution_written:
  assumes "executionToDetail i = Inr d" and "rr_detail r = Some d" and "rr_id r = in_id i"
    and "rr_block_id r = in_blockId i" and "rr_status r = status_text (in_status i)"
  shows "rowToExecution r = Inr (normalised r i)"
proof -
  have "in_blockId i \<noteq> []" "in_currentStep i \<le> length (in_steps i)"
    using assms(1) executionToDetail_Inr by blast+
  with assms show ?thesis
    by (auto simp: rowToExecution_def executionToDetail_def assertPersistableExecution_def
        normalised_def Let_def comp_def)
qed

text \<open>An update that leaves the keys, the block and the status of the rows it touches.\<close>

lemma table_ok_in_place:
  assumes "\<And>r. r \<in> set t \<Longrightarrow> p r \<Longrightarrow> rr_ws (f r) = rr_ws r \<and> rr_id (f r) = rr_id r
             \<and> rr_block_id (f r) = rr_block_id r \<and> rr_status (f r) = rr_status r"
  shows "table_ok (update_rows p f t) = table_ok t"
proof -
  have "map (\<lambda>r. (rr_ws r, rr_id r)) (update_rows p f t) = map (\<lambda>r. (rr_ws r, rr_id r)) t"
    using assms by (auto simp: update_rows_def)
  moreover have "map (\<lambda>r. (rr_ws r, rr_block_id r)) (filter (\<lambda>r. live_text (rr_status r)) (update_rows p f t))
      = map (\<lambda>r. (rr_ws r, rr_block_id r)) (filter (\<lambda>r. live_text (rr_status r)) t)"
    using assms by (induction t) (auto simp: update_rows_def)
  ultimately show ?thesis by (simp add: table_ok_def primary_key_def live_index_def)
qed

text \<open>A run that can be read stays readable under the writers that race a mutation.\<close>

definition readable :: "string \<Rightarrow> string \<Rightarrow> run_table \<Rightarrow> bool" where
  "readable ws rid t \<longleftrightarrow> table_ok t \<and> (\<exists>i. get_run ws rid t = Inr (Some i))"

lemma readable_update:
  assumes "readable ws rid t" and "table_ok (update_rows p f t)"
    and "\<And>r. has_key ws rid (f r) = has_key ws rid r"
    and "\<And>r i. p r \<Longrightarrow> has_key ws rid r \<Longrightarrow> rowToExecution r = Inr i \<Longrightarrow> \<exists>j. rowToExecution (f r) = Inr j"
  shows "readable ws rid (update_rows p f t)"
proof -
  from assms(1) obtain i r where r: "find_row ws rid t = Some r" "rowToExecution r = Inr i"
    by (auto simp: readable_def get_run_Some)
  then have "has_key ws rid r" by (auto simp: has_key_def dest: find_row_Some)
  with r assms(2-4) show ?thesis
    by (auto simp: readable_def get_run_Some find_row_update)
qed

lemma written_row_readable:
  assumes "executionToDetail i = Inr d"
  shows "\<exists>j. rowToExecution (write_row now i d r) = Inr j"
proof -
  have "in_blockId i \<noteq> []" "in_currentStep i \<le> length (in_steps i)"
    using assms executionToDetail_Inr by blast+
  with assms show ?thesis
    by (auto simp: rowToExecution_def executionToDetail_def assertPersistableExecution_def Let_def)
qed

lemma failed_row_readable:
  assumes "rowToExecution r = Inr i"
  shows "\<exists>j. rowToExecution (r\<lparr>rr_status := ''failed'', rr_failure := Some f, rr_updated_at := now,
    rr_rev := Suc (rr_rev r)\<rparr>) = Inr j"
proof -
  have "decode_status ''failed'' = Some Failed"
    using decode_status_text [of Failed] by (simp add: status_text_def)
  with assms show ?thesis
    by (auto simp: rowToExecution_def Let_def split: if_splits)
qed

lemma apply_write_readable: "readable ws rid t \<Longrightarrow> readable ws rid (apply_write ws w t)"
proof (cases w)
  case (WSwap now i)
  assume rd: "readable ws rid t"
  show ?thesis
  proof (cases "executionToDetail i")
    case (Inr d)
    with rd WSwap show ?thesis
      by (auto simp: apply_write_def compareAndSwap_def bind_result_def commit_def
          intro!: readable_update written_row_readable)
  qed (use rd WSwap in \<open>simp add: apply_write_def compareAndSwap_def\<close>)
next
  case (WUpsert now i)
  assume rd: "readable ws rid t"
  show ?thesis
  proof (cases "executionToDetail (adoptCreatedAt i now)")
    case (Inr d)
    have "readable ws rid (t @ [r])" if "table_ok (t @ [r])" for r
      using rd that by (auto simp: readable_def get_run_Some find_row_append)
    with rd WUpsert Inr show ?thesis
      by (auto simp: apply_write_def upsert_def Let_def bind_result_def commit_def
          intro!: readable_update written_row_readable split: option.split)
  qed (use rd WUpsert in \<open>simp add: apply_write_def upsert_def Let_def\<close>)
next
  case (WFail now k f)
  assume rd: "readable ws rid t"
  have "table_ok (markFailed ws now k f t)" using rd markFailed_table_ok by (simp add: readable_def)
  then show ?thesis using rd WFail
    unfolding apply_write_def markFailed_def
    by (auto intro!: readable_update failed_row_readable simp: has_key_def)
qed

lemma apply_writes_readable: "readable ws rid t \<Longrightarrow> readable ws rid (apply_writes ws wl t)"
  unfolding apply_writes_def by (induction wl arbitrary: t) (auto intro: apply_write_readable)

lemma undisturbed_mutation:
  assumes "readable ws rid t" and "j < MAX_MUTATE_ATTEMPTS" and "others j = []"
    and accepts: "\<And>v. \<exists>w. mutate v = Inr w"
    and frame: "\<And>v w. mutate v = Inr w \<Longrightarrow> in_id w = in_id v \<and> in_rev w = in_rev v
        \<and> in_status w = in_status v \<and> in_blockId w = in_blockId v
        \<and> (in_currentStep v \<le> length (in_steps v) \<longrightarrow> in_currentStep w \<le> length (in_steps w))"
  shows "\<exists>i' t'. mutateInstance ws now mutate (\<lambda>j. apply_writes ws (others j)) rid t = (Inr i', t')"
  unfolding mutateInstance_def
proof (rule run_cas.undisturbed_attempt_wins [where j = j and I = "readable ws rid"])
  fix i v w s
  assume rd: "readable ws rid s" and v: "get_run ws rid s = Inr (Some v)" and w: "mutate v = Inr w"
  from v obtain r where r: "find_row ws rid s = Some r" "rowToExecution r = Inr v"
    by (auto simp: get_run_Some)
  have keys: "in_id v = rid" "in_rev v = rr_rev r" "in_blockId v = rr_block_id r"
    "rr_status r = status_text (in_status v)"
    using rowToExecution_keys [OF r(2)] find_row_Some [OF r(1)] by simp_all
  have "in_blockId v \<noteq> [] \<and> in_currentStep v \<le> length (in_steps v)"
    using r(2) by (auto simp: rowToExecution_def Let_def split: if_splits option.splits)
  then obtain d where d: "executionToDetail w = Inr d"
    using frame [OF w] executionToDetail_Inr [of w] by auto
  let ?t = "apply_writes ws (others i) s"
  have rd': "readable ws rid ?t" by (rule apply_writes_readable [OF rd])
  have "table_ok (update_rows (cas_hit ws w) (write_row now w d) ?t)"
  proof (subst table_ok_in_place)
    fix x assume x: "x \<in> set ?t" "cas_hit ws w x"
    then have "has_key ws rid x" "rr_rev x = rr_rev r"
      using frame [OF w] keys by (simp_all add: cas_hit_def)
    then have fx: "find_row ws rid ?t = Some x"
      using rd' x(1) by (auto simp: readable_def table_ok_def intro: primary_key_find)
    have "row_moves ws rid s ?t" by (rule apply_writes_moves)
    with r(1) fx \<open>rr_rev x = rr_rev r\<close> have "x = r" by (auto simp: row_moves_def)
    then show "rr_ws (write_row now w d x) = rr_ws x \<and> rr_id (write_row now w d x) = rr_id x
        \<and> rr_block_id (write_row now w d x) = rr_block_id x
        \<and> rr_status (write_row now w d x) = rr_status x"
      using keys frame [OF w] by simp
  qed (use rd' in \<open>simp add: readable_def\<close>)
  then show "\<exists>x. compareAndSwap ws now w ?t = Inr x"
    by (simp add: compareAndSwap_def d bind_result_def commit_def) blast
next
  fix v show "\<exists>w. mutate v = Inr w \<and> in_id w = in_id v \<and> in_rev w = in_rev v"
    using accepts [of v] frame by blast
next
  show "readable ws rid (apply_writes ws (others i) s)" if "readable ws rid s" for i s
    using that by (rule apply_writes_readable)
  show "\<exists>v. get_run ws rid s = Inr (Some v)" if "readable ws rid s" for s
    using that by (simp add: readable_def)
qed (use assms(1-3) in \<open>simp_all add: apply_writes_def\<close>)

section \<open>Properties\<close>

text \<open>
  C3. A mutation that succeeds lost nobody's update: at the moment of its swap the stored run was
  exactly the run its mutation was applied to, whatever other writers did in the meantime; the row
  then reads back as the mutated run, at the next revision, and no other row of the table moved.
\<close>

theorem mutation_loses_no_update:
  assumes "mutateInstance ws now mutate (\<lambda>j. apply_writes ws (others j)) rid t = (Inr i', t')"
    and frame: "\<And>v w. mutate v = Inr w \<Longrightarrow> in_id w = in_id v \<and> in_rev w = in_rev v"
  shows "\<exists>t1 i w r. get_run ws rid t1 = Inr (Some i) \<and> mutate i = Inr w
    \<and> find_row ws rid t1 = Some r
    \<and> get_run ws rid t' = Inr (Some (normalised (r\<lparr>rr_rev := Suc (rr_rev r)\<rparr>) w))
    \<and> (\<forall>k. k \<noteq> rid \<longrightarrow> find_row ws k t' = find_row ws k t1)"
proof -
  have same: "get_run ws rid (apply_writes ws wl s) = get_run ws rid s"
    if "stored_rev ws rid (apply_writes ws wl s) \<noteq> None"
      "stored_rev ws rid (apply_writes ws wl s) = stored_rev ws rid s" for wl s
  proof -
    from that obtain r where "find_row ws rid s = Some r"
      by (cases "find_row ws rid s") (auto simp: stored_rev_def)
    from row_moves_same [OF apply_writes_moves this that(2)] show ?thesis .
  qed
  from run_cas.no_lost_update [OF assms(1) [unfolded mutateInstance_def] frame same]
  obtain t1 i w where *: "get_run ws rid t1 = Inr (Some i)" "mutate i = Inr w"
      "compareAndSwap ws now w t1 = Inr (True, i', t')" by blast
  from compareAndSwap_True [OF *(3)] obtain r d where
    r: "executionToDetail w = Inr d" "find_row ws (in_id w) t1 = Some r" "rr_rev r = in_rev w"
      "find_row ws (in_id w) t' = Some (write_row now w d r)"
      "t' = update_rows (cas_hit ws w) (write_row now w d) t1" by blast
  have rid: "in_id w = rid" "rr_id r = in_id w"
    using frame [OF *(2)] *(1) find_row_Some [OF r(2)]
    by (auto simp: get_run_Some dest: rowToExecution_keys find_row_Some)
  have "rowToExecution (write_row now w d r) = Inr (normalised (write_row now w d r) w)"
    by (rule rowToExecution_written [OF r(1)]) (simp_all add: rid)
  moreover have "normalised (write_row now w d r) w = normalised (r\<lparr>rr_rev := Suc (rr_rev r)\<rparr>) w"
    by (simp add: normalised_def)
  ultimately have "get_run ws rid t' = Inr (Some (normalised (r\<lparr>rr_rev := Suc (rr_rev r)\<rparr>) w))"
    using r(4) rid by (simp add: get_run_def)
  moreover have "find_row ws k t' = find_row ws k t1" if "k \<noteq> rid" for k
  proof -
    have "(if cas_hit ws w x then write_row now w d x else x) = x" if "find_row ws k t1 = Some x" for x
      using find_row_Some [OF that] \<open>k \<noteq> rid\<close> rid by (auto simp: cas_hit_def has_key_def)
    then show ?thesis unfolding r(5) by (cases "find_row ws k t1") (simp_all add: find_row_update)
  qed
  ultimately show ?thesis using * r(2) rid by blast
qed

text \<open>
  A human's mutation of a run is not starved by accident: if the run can be read, the mutation
  accepts it and keeps its identity and status, and just one of the attempts is not disturbed by
  another writer, the mutation succeeds. The swap itself never fails on a constraint of the table.
\<close>

theorem mutation_succeeds_undisturbed:
  assumes "readable ws rid t" and "j < MAX_MUTATE_ATTEMPTS" and "others j = []"
    and accepts: "\<And>v. \<exists>w. mutate v = Inr w"
    and frame: "\<And>v w. mutate v = Inr w \<Longrightarrow> in_id w = in_id v \<and> in_rev w = in_rev v
        \<and> in_status w = in_status v \<and> in_blockId w = in_blockId v
        \<and> (in_currentStep v \<le> length (in_steps v) \<longrightarrow> in_currentStep w \<le> length (in_steps w))"
  shows "\<exists>i' t'. mutateInstance ws now mutate (\<lambda>j. apply_writes ws (others j)) rid t = (Inr i', t')"
  using assms by (rule undisturbed_mutation)

text \<open>
  C36. A run written under the revision guard reads back as it was written, in the normal form of the
  reader: the steps with the run's id on them, empty lists and the default mode and origin left
  out, the failure and the creation stamp of the row, and the next revision.
\<close>

theorem swap_round_trip:
  assumes "compareAndSwap ws now i t = Inr (True, i', t')" and "find_row ws (in_id i) t = Some r"
  shows "get_run ws (in_id i) t' = Inr (Some (normalised (r\<lparr>rr_rev := Suc (in_rev i)\<rparr>) i))
    \<and> in_rev i' = Suc (in_rev i)"
proof -
  from compareAndSwap_True [OF assms(1)] assms(2) obtain d where
    d: "executionToDetail i = Inr d" "rr_rev r = in_rev i"
      "find_row ws (in_id i) t' = Some (write_row now i d r)" "i' = i\<lparr>in_rev := Suc (in_rev i)\<rparr>"
    by auto
  have "rowToExecution (write_row now i d r) = Inr (normalised (write_row now i d r) i)"
    using find_row_Some [OF assms(2)] by (intro rowToExecution_written [OF d(1)]) simp_all
  moreover have "normalised (write_row now i d r) i = normalised (r\<lparr>rr_rev := Suc (in_rev i)\<rparr>) i"
    by (simp add: normalised_def d(2))
  ultimately show ?thesis using d by (simp add: get_run_def)
qed

text \<open>
  Recording a failure is final and keeps stale writers out: the row of a run that has not
  settled is failed with that failure, a writer that read the run before can no longer swap, and a
  run that has settled is left exactly as it is.
\<close>

theorem recorded_failure_is_final:
  assumes "find_row ws rid t = Some r" and "in_id i = rid" and "in_rev i \<le> rr_rev r"
  shows "if rr_status r \<in> {''done'', ''failed''}
    then find_row ws rid (markFailed ws now rid f t) = Some r
    else find_row ws rid (markFailed ws now rid f t) =
           Some (r\<lparr>rr_status := ''failed'', rr_failure := Some f, rr_updated_at := now,
                   rr_rev := Suc (rr_rev r)\<rparr>)
         \<and> compareAndSwap ws now' i (markFailed ws now rid f t) \<noteq> Inr (True, i', t')"
proof -
  have fr: "find_row ws rid (markFailed ws now rid f t) =
      Some (if rr_status r \<in> {''done'', ''failed''} then r
            else r\<lparr>rr_status := ''failed'', rr_failure := Some f, rr_updated_at := now,
                   rr_rev := Suc (rr_rev r)\<rparr>)"
    using assms(1) find_row_Some [OF assms(1)]
    by (simp add: markFailed_def find_row_update has_key_def)
  show ?thesis
  proof (cases "rr_status r \<in> {''done'', ''failed''}")
    case False
    with fr assms have "stored_rev ws (in_id i) (markFailed ws now rid f t) \<noteq> Some (in_rev i)"
      by (simp add: stored_rev_def)
    from run_cas.loser_keeps_out [OF this] fr False show ?thesis by simp
  qed (use fr in simp)
qed

text \<open>The table a freshly started run leaves, and a mutation of it.\<close>

definition stored_example :: run_table where
  "stored_example = (case insertLive ''w'' 5 (bare_run ''r1'' ''b1'' [bare_step ''coder'' Working]) None []
     of Inl e \<Rightarrow> [] | Inr (b, i, t) \<Rightarrow> t)"

lemma stored_example_eval:
  "\<exists>r. stored_example = [r] \<and> find_row ''w'' ''r1'' stored_example = Some r
    \<and> rr_ws r = ''w'' \<and> rr_id r = ''r1'' \<and> rr_block_id r = ''b1'' \<and> rr_rev r = 0
    \<and> rr_status r = ''running''"
  "readable ''w'' ''r1'' stored_example"
proof -
  let ?i = "adoptCreatedAt (bare_run ''r1'' ''b1'' [bare_step ''coder'' Working]) 5"
  have i: "in_id ?i = ''r1''" "in_blockId ?i = ''b1''" "in_status ?i = Running"
    by (simp_all add: adoptCreatedAt_def bare_run_def)
  obtain d where d: "executionToDetail ?i = Inr d"
    using executionToDetail_Inr [of ?i] by (auto simp: adoptCreatedAt_def bare_run_def)
  let ?r = "new_row ''w'' 5 ?i d"
  have ok: "table_ok [?r]" by (simp add: table_ok_def primary_key_def live_index_def)
  then have t: "stored_example = [?r]"
    unfolding stored_example_def insertLive_def Let_def d
    by (simp add: bind_result_def commit_def)
  have r: "rr_ws ?r = ''w''" "rr_id ?r = ''r1''" "rr_block_id ?r = ''b1''" "rr_rev ?r = 0"
    "rr_status ?r = ''running''" "rr_detail ?r = Some d"
    by (simp_all add: new_row_def i status_text_def)
  then have f: "find_row ''w'' ''r1'' stored_example = Some ?r"
    unfolding t by (simp add: find_row_def has_key_def)
  have "rowToExecution ?r = Inr (normalised ?r ?i)"
    by (rule rowToExecution_written [OF d]) (simp_all add: r i status_text_def)
  then show "readable ''w'' ''r1'' stored_example"
    using ok f unfolding readable_def t get_run_def by simp
  show "\<exists>r. stored_example = [r] \<and> find_row ''w'' ''r1'' stored_example = Some r
    \<and> rr_ws r = ''w'' \<and> rr_id r = ''r1'' \<and> rr_block_id r = ''b1'' \<and> rr_rev r = 0
    \<and> rr_status r = ''running''"
    using t f r by blast
qed

theorem mutation_succeeds_undisturbed_witness:
  "\<exists>i' t'. mutateInstance ''w'' 9 (\<lambda>v. Inr (v\<lparr>in_notes := Some [''hello'']\<rparr>))
     (\<lambda>j. apply_writes ''w'' []) ''r1'' stored_example = (Inr i', t')"
  using stored_example_eval
  by (intro mutation_succeeds_undisturbed [where j = 0]) (auto simp: MAX_MUTATE_ATTEMPTS_def)

theorem mutation_loses_no_update_witness:
  "\<exists>t1 i r t'. get_run ''w'' ''r1'' t1 = Inr (Some i)
     \<and> get_run ''w'' ''r1'' t' = Inr (Some (normalised r (i\<lparr>in_notes := Some [''hello'']\<rparr>)))"
proof -
  let ?m = "\<lambda>v. (Inr (v\<lparr>in_notes := Some [''hello'']\<rparr>) :: run_error + instance_rec)"
  have "\<exists>i' t'. mutateInstance ''w'' 9 ?m (\<lambda>j. apply_writes ''w'' ((\<lambda>_. []) j)) ''r1'' stored_example
      = (Inr i', t')"
    by (rule undisturbed_mutation [OF stored_example_eval(2), where j = 0])
       (auto simp: MAX_MUTATE_ATTEMPTS_def)
  then obtain i' t' where m: "mutateInstance ''w'' 9 ?m (\<lambda>j. apply_writes ''w'' ((\<lambda>_. []) j)) ''r1''
      stored_example = (Inr i', t')" by blast
  have "\<exists>t1 i w r. get_run ''w'' ''r1'' t1 = Inr (Some i) \<and> ?m i = Inr w
      \<and> find_row ''w'' ''r1'' t1 = Some r
      \<and> get_run ''w'' ''r1'' t' = Inr (Some (normalised (r\<lparr>rr_rev := Suc (rr_rev r)\<rparr>) w))
      \<and> (\<forall>k. k \<noteq> ''r1'' \<longrightarrow> find_row ''w'' k t' = find_row ''w'' k t1)"
    by (rule mutation_loses_no_update [OF m]) auto
  then show ?thesis by blast
qed

theorem swap_round_trip_witness:
  "\<exists>i t' r. get_run ''w'' ''r1'' t' = Inr (Some (normalised r i)) \<and> in_notes i = Some [''hello'']"
proof -
  let ?i = "(bare_run ''r1'' ''b1'' [bare_step ''coder'' Working])\<lparr>in_notes := Some [''hello'']\<rparr>"
  have i: "in_id ?i = ''r1''" "in_notes ?i = Some [''hello'']" "in_rev ?i = 0"
    "in_blockId ?i = ''b1''" "in_status ?i = Running"
    by (simp_all add: bare_run_def)
  obtain d where d: "executionToDetail ?i = Inr d"
    using executionToDetail_Inr [of ?i] by (auto simp: bare_run_def)
  from stored_example_eval obtain r where t: "stored_example = [r]"
    "find_row ''w'' ''r1'' stored_example = Some r" and r:
    "rr_ws r = ''w''" "rr_id r = ''r1''" "rr_block_id r = ''b1''" "rr_rev r = 0" "rr_status r = ''running''"
    by blast
  have "table_ok [write_row 9 ?i d r]"
    by (simp add: table_ok_def primary_key_def live_index_def)
  then have c: "compareAndSwap ''w'' 9 ?i stored_example
      = Inr (True, ?i\<lparr>in_rev := Suc (in_rev ?i)\<rparr>, [write_row 9 ?i d r])"
    unfolding compareAndSwap_def d t(1)
    by (simp add: i r cas_hit_def has_key_def update_rows_def bind_result_def commit_def)
  have "find_row ''w'' (in_id ?i) stored_example = Some r"
    using t(2) by (simp only: i(1))
  from swap_round_trip [OF c this]
  have "get_run ''w'' ''r1'' [write_row 9 ?i d r]
      = Inr (Some (normalised (r\<lparr>rr_rev := Suc (in_rev ?i)\<rparr>) ?i))"
    by (simp only: i(1))
  then show ?thesis using i(2) by (intro exI conjI)
qed

theorem recorded_failure_is_final_witness:
  "\<exists>r. find_row ''w'' ''r1'' (markFailed ''w'' 9 ''r1''
     \<lparr>af_kind = Timeout, af_message = ''late'', af_detail = None, af_reason = None,
      af_occurredAt = 9, af_lastSubtasks = None, af_stepIndex = None\<rparr> stored_example) = Some r
     \<and> rr_status r = ''failed''"
proof -
  let ?i = "bare_run ''r1'' ''b1'' [bare_step ''coder'' Working]"
  from stored_example_eval obtain r where r: "find_row ''w'' ''r1'' stored_example = Some r"
    "rr_status r = ''running''" by blast
  have "in_id ?i = ''r1''" "in_rev ?i \<le> rr_rev r" by (simp_all add: bare_run_def)
  from recorded_failure_is_final [OF r(1) this] r(2) show ?thesis by simp
qed

end
