(* ===== verification/Delegation.thy ===== *)
theory Delegation
  imports StepGraph
begin

text \<open>
  What a dispatch leaves on a step (\<^verbatim>\<open>orchestration/src/modules/execution/step-fold.logic.ts\<close>),
  the poll cadence of the job in flight (\<^verbatim>\<open>awaitingJob.logic.ts\<close>) and the names of jobs
  (\<^verbatim>\<open>kernel/src/domain/job-id.ts\<close>). A step's delegation record is the platform's whole
  account of work that runs in somebody else's system; the record outlives the job it describes.
\<close>

section \<open>The handle of an accepted dispatch\<close>

record delegated_ref =
  dg_executor :: string
  dg_externalId :: string
  dg_url :: "string option"
  dg_branches :: "json option"
  dg_repo :: "json option"

record job_handle =
  jh_jobId :: string
  jh_model :: "string option"
  jh_subscriptionTokenId :: "string option"
  jh_initiatedByUserId :: "string option"
  jh_toolServers :: "json option"
  jh_delegated :: "delegated_ref option"

definition first_some :: "'a option \<Rightarrow> 'a option \<Rightarrow> 'a option" where
  "first_some x y = (case x of None \<Rightarrow> y | Some a \<Rightarrow> Some a)"

lemma first_some_simps [simp]: "first_some None y = y" "first_some (Some a) y = Some a"
  by (simp_all add: first_some_def)

text \<open>\<^verbatim>\<open>...(x ? { f: x } : {})\<close>: a truthy value replaces the field.\<close>

definition if_given :: "string option \<Rightarrow> string option \<Rightarrow> string option" where
  "if_given new old = first_some (nonempty new) old"

definition stepJobId :: "string \<Rightarrow> string \<Rightarrow> nat \<Rightarrow> string" where
  "stepJobId executionId agentKind dispatchEpoch =
     (let base = executionId @ ''-'' @ agentKind
      in if 0 < dispatchEpoch then base @ ''-'' @ digits dispatchEpoch else base)"

section \<open>The job in flight\<close>

definition inFlightDelegation :: "step \<Rightarrow> delegation option" where
  "inFlightDelegation s = (case st_delegated s of
      None \<Rightarrow> None
    | Some d \<Rightarrow> if st_jobId s \<noteq> Some (dl_correlationKey d) then None else Some d)"

definition liveJobId :: "step \<Rightarrow> string option" where
  "liveJobId s = (case nonempty (st_jobId s) of
      None \<Rightarrow> None
    | Some j \<Rightarrow>
        if map_option dl_status (inFlightDelegation s) = Some DStarting then None else Some j)"

text \<open>The slice of a poll handle: executor, external id, link, branches and repository.\<close>

definition delegationHandleSlice :: "step \<Rightarrow> delegated_ref option" where
  "delegationHandleSlice s = map_option (\<lambda>d.
     \<lparr>dg_executor = dl_executor d,
      dg_externalId = (case dl_externalId d of None \<Rightarrow> dl_correlationKey d | Some e \<Rightarrow> e),
      dg_url = nonempty (dl_url d), dg_branches = dl_branches d, dg_repo = dl_repo d\<rparr>)
     (inFlightDelegation s)"

definition delegation_open :: "delegation \<Rightarrow> bool" where
  "delegation_open d \<longleftrightarrow> dl_status d = DStarting \<or> dl_status d = DRunning"

text \<open>
  \<^verbatim>\<open>Math.ceil(a / b)\<close> of positive numbers, and the guard against a degenerate window.
\<close>

definition delegatedPollPolicy :: "step \<Rightarrow> (int \<times> int) option" where
  "delegatedPollPolicy s = (case inFlightDelegation s of
      None \<Rightarrow> None
    | Some d \<Rightarrow>
        if \<not> delegation_open d then None
        else case dl_poll d of
          None \<Rightarrow> None
        | Some (intervalMs, maxDurationMs) \<Rightarrow>
            if \<not> 0 < intervalMs \<or> \<not> 0 < maxDurationMs then None
            else Some (intervalMs, max 1 (\<lceil>(of_int maxDurationMs :: rat) / of_int intervalMs\<rceil>)))"

section \<open>What was dispatched\<close>

text \<open>The counter is in the order of the first dispatch of each kind.\<close>

fun bump_dispatch :: "string \<Rightarrow> (string \<times> nat) list \<Rightarrow> (string \<times> nat) list" where
  "bump_dispatch kind [] = [(kind, 1)]"
| "bump_dispatch kind ((k, n) # ds) =
     (if k = kind then (k, n + 1) # ds else (k, n) # bump_dispatch kind ds)"

definition dispatches_of :: "step \<Rightarrow> (string \<times> nat) list" where
  "dispatches_of s = (case st_dispatches s of None \<Rightarrow> [] | Some ds \<Rightarrow> ds)"

definition dispatchedAgentKinds :: "step list \<Rightarrow> string list" where
  "dispatchedAgentKinds steps =
     rev (remdups (rev (concat (map (\<lambda>s. map fst (dispatches_of s)) steps))))"

definition dispatchEpochFor :: "step list \<Rightarrow> string \<Rightarrow> nat" where
  "dispatchEpochFor steps kind =
     sum_list (map (\<lambda>s. sum_list (map snd (filter (\<lambda>d. fst d = kind) (dispatches_of s)))) steps)"

text \<open>The step is the element \<open>j\<close> of the run's steps.\<close>

definition claimDispatchEpoch :: "step list \<Rightarrow> nat \<Rightarrow> string \<Rightarrow> nat \<times> step list" where
  "claimDispatchEpoch steps j kind =
     (dispatchEpochFor steps kind,
      update_at j (\<lambda>s. s\<lparr>st_dispatches := Some (bump_dispatch kind (dispatches_of s))\<rparr>) steps)"

section \<open>The delegation record\<close>

definition on_last :: "('a \<Rightarrow> 'a) \<Rightarrow> 'a list \<Rightarrow> 'a list" where
  "on_last f xs = (if xs = [] then [] else butlast xs @ [f (last xs)])"

lemma length_on_last [simp]: "length (on_last f xs) = length xs"
  by (simp add: on_last_def)

definition bare_attempt :: "int \<Rightarrow> delegation_attempt" where
  "bare_attempt t = \<lparr>da_startedAt = t, da_externalId = None, da_url = None, da_outcome = None,
                     da_usageReported = None\<rparr>"

record delegation_claim =
  dc_executor :: string
  dc_correlationKey :: string
  dc_startedAt :: int
  dc_poll :: "int \<times> int"

definition claimDelegation :: "delegation_claim \<Rightarrow> step \<Rightarrow> step" where
  "claimDelegation c s =
     (let prior = st_delegated s;
          resumed = (case prior of None \<Rightarrow> False
                     | Some p \<Rightarrow> dl_status p = DStarting
                              \<and> dl_correlationKey p = dc_correlationKey c
                              \<and> dl_attempts p \<noteq> []);
          old = (case prior of None \<Rightarrow> [] | Some p \<Rightarrow> dl_attempts p)
      in s\<lparr>st_jobId := Some (dc_correlationKey c),
           st_delegated := Some
             \<lparr>dl_executor = dc_executor c, dl_status = DStarting,
              dl_correlationKey = dc_correlationKey c, dl_poll = Some (dc_poll c),
              dl_externalId = None, dl_url = None, dl_phase = None, dl_branches = None,
              dl_repo = None, dl_branch = None,
              dl_attempts = (if resumed then old else old @ [bare_attempt (dc_startedAt c)]),
              dl_note = None\<rparr>\<rparr>)"

definition stampDelegationDispatch :: "delegated_ref \<Rightarrow> step \<Rightarrow> step" where
  "stampDelegationDispatch g s =
     (let claim = (case st_delegated s of
             Some d \<Rightarrow> d
           | None \<Rightarrow>
               \<lparr>dl_executor = dg_executor g, dl_status = DStarting,
                dl_correlationKey =
                  (case st_jobId s of None \<Rightarrow> dg_externalId g | Some j \<Rightarrow> j),
                dl_poll = None, dl_externalId = None, dl_url = None, dl_phase = None,
                dl_branches = None, dl_repo = None, dl_branch = None,
                dl_attempts = [bare_attempt 0], dl_note = None\<rparr>);
          attempts = (if dl_attempts claim = [] then [bare_attempt 0] else dl_attempts claim)
      in s\<lparr>st_delegated := Some
            (claim\<lparr>dl_executor := dg_executor g, dl_status := DRunning,
                   dl_externalId := Some (dg_externalId g),
                   dl_url := first_some (dg_url g) (dl_url claim),
                   dl_branches := first_some (dg_branches g) (dl_branches claim),
                   dl_repo := first_some (dg_repo g) (dl_repo claim),
                   dl_attempts := on_last
                     (\<lambda>a. a\<lparr>da_externalId := Some (dg_externalId g),
                            da_url := first_some (dg_url g) (da_url a)\<rparr>) attempts\<rparr>)\<rparr>)"

definition recordDispatchAttribution :: "job_handle \<Rightarrow> string \<Rightarrow> step \<Rightarrow> step" where
  "recordDispatchAttribution h kind s =
     (let s1 = s\<lparr>st_model := if_given (jh_model h) (st_model s),
                st_subscriptionTokenId :=
                  if_given (jh_subscriptionTokenId h) (st_subscriptionTokenId s),
                st_initiatedByUserId :=
                  if_given (jh_initiatedByUserId h) (st_initiatedByUserId s)\<rparr>;
          s2 = (case jh_toolServers h of None \<Rightarrow> s1
                | Some ts \<Rightarrow> s1\<lparr>st_toolServers := Some (ts, kind)\<rparr>);
          s3 = (case jh_delegated h of None \<Rightarrow> s2
                | Some g \<Rightarrow> stampDelegationDispatch g s2)
      in s3\<lparr>st_dispatches := Some (bump_dispatch kind (dispatches_of s3))\<rparr>)"

definition container_up :: container where
  "container_up = \<lparr>ct_status = ContainerUp, ct_phase = None, ct_id = None, ct_url = None\<rparr>"

definition recordDispatchedJob :: "job_handle \<Rightarrow> string \<Rightarrow> step \<Rightarrow> step \<times> string" where
  "recordDispatchedJob h kind s =
     (let s1 = recordDispatchAttribution h kind (s\<lparr>st_jobId := Some (jh_jobId h)\<rparr>);
          s2 = (if jh_delegated h = None then s1\<lparr>st_container := Some container_up\<rparr> else s1)
      in (s2, jh_jobId h))"

record settlement =
  sm_status :: delegation_status
  sm_outcome :: "string option"
  sm_url :: "string option"
  sm_note :: "string option"
  sm_usageReported :: "bool option"
  sm_branch :: "string option"

definition settleDelegation :: "settlement \<Rightarrow> step \<Rightarrow> step" where
  "settleDelegation m s = s\<lparr>st_delegated := map_option (\<lambda>d.
     d\<lparr>dl_status := sm_status m, dl_url := if_given (sm_url m) (dl_url d),
       dl_note := if_given (sm_note m) (dl_note d),
       dl_branch := if_given (sm_branch m) (dl_branch d),
       dl_attempts := on_last
         (\<lambda>a. a\<lparr>da_outcome := if_given (sm_outcome m) (da_outcome a),
                da_url := if_given (sm_url m) (da_url a),
                da_usageReported := first_some (sm_usageReported m) (da_usageReported a)\<rparr>)
         (dl_attempts d)\<rparr>) (st_delegated s)\<rparr>"

definition failDelegationDispatch :: "string \<Rightarrow> bool \<Rightarrow> step \<Rightarrow> step" where
  "failDelegationDispatch err contacted s =
     (let s1 = s\<lparr>st_jobId := None\<rparr>
      in case st_delegated s1 of
           None \<Rightarrow> s1
         | Some d \<Rightarrow>
             if \<not> contacted
             then settleDelegation \<lparr>sm_status = DFailed, sm_outcome = Some err, sm_url = None,
                    sm_note = None, sm_usageReported = None, sm_branch = None\<rparr> s1
             else s1\<lparr>st_delegated := Some (d\<lparr>dl_note := Some err,
                    dl_attempts := on_last (\<lambda>a. a\<lparr>da_outcome := Some err\<rparr>) (dl_attempts d)\<rparr>)\<rparr>)"

definition applyDelegationRunning ::
  "string option \<Rightarrow> string option \<Rightarrow> string option \<Rightarrow> step \<Rightarrow> step \<times> bool" where
  "applyDelegationRunning externalId url phase s = (case st_delegated s of
      None \<Rightarrow> (s, False)
    | Some prev \<Rightarrow>
        (let nxt = prev\<lparr>dl_status := DRunning,
                        dl_externalId := first_some externalId (dl_externalId prev),
                        dl_url := first_some url (dl_url prev),
                        dl_phase := first_some phase (dl_phase prev)\<rparr>
         in if dl_status prev = dl_status nxt \<and> dl_externalId prev = dl_externalId nxt
               \<and> dl_url prev = dl_url nxt \<and> dl_phase prev = dl_phase nxt
            then (s, False)
            else (s\<lparr>st_delegated := Some
                     (case nonempty externalId of
                        None \<Rightarrow> nxt
                      | Some e \<Rightarrow> nxt\<lparr>dl_attempts :=
                          on_last (\<lambda>a. a\<lparr>da_externalId := Some e\<rparr>) (dl_attempts nxt)\<rparr>)\<rparr>,
                  True)))"

datatype settled_update =
    SettledDone "string option" "string option" bool
  | SettledFailed string "string option" bool

text \<open>\<open>SettledDone url branch usage\<close> and \<open>SettledFailed error url usage\<close>.\<close>

definition settleDelegatedJob :: "settled_update \<Rightarrow> step \<Rightarrow> step" where
  "settleDelegatedJob u s =
     (if inFlightDelegation s = None then s
      else case u of
        SettledFailed err url usage \<Rightarrow>
          settleDelegation \<lparr>sm_status = DFailed, sm_outcome = Some err, sm_url = nonempty url,
            sm_note = None, sm_usageReported = Some usage, sm_branch = None\<rparr> s
      | SettledDone url branch usage \<Rightarrow>
          settleDelegation \<lparr>sm_status = DDone, sm_outcome = None, sm_url = nonempty url,
            sm_note = None, sm_usageReported = Some usage, sm_branch = nonempty branch\<rparr> s)"

section \<open>Teardown\<close>

record delegation_handle =
  dh_executor :: string
  dh_correlationKey :: string
  dh_externalId :: "string option"
  dh_url :: "string option"
  dh_branches :: "json option"
  dh_repo :: "json option"
  dh_workspaceId :: string
  dh_blockId :: string
  dh_runId :: string
  dh_agentKind :: string

definition liveDelegations :: "instance_rec \<Rightarrow> string \<Rightarrow> delegation_handle list" where
  "liveDelegations i workspaceId = concat (map (\<lambda>s. case st_delegated s of
      None \<Rightarrow> []
    | Some d \<Rightarrow> if \<not> delegation_open d then [] else
        [\<lparr>dh_executor = dl_executor d, dh_correlationKey = dl_correlationKey d,
          dh_externalId = nonempty (dl_externalId d), dh_url = nonempty (dl_url d),
          dh_branches = dl_branches d, dh_repo = dl_repo d, dh_workspaceId = workspaceId,
          dh_blockId = in_blockId i, dh_runId = in_id i, dh_agentKind = st_agentKind s\<rparr>])
     (in_steps i))"

text \<open>One entry of a reclaim report: the key, whether the work stopped, and a note.\<close>

type_synonym reclaim_report = "(string \<times> bool \<times> string option) list"

text \<open>\<^verbatim>\<open>new Map(entries)\<close>: the last entry of a key is the one that is found.\<close>

definition report_for :: "string \<Rightarrow> reclaim_report \<Rightarrow> (bool \<times> string option) option" where
  "report_for key report = map_of (rev report) key"

definition not_stopped_note :: "string \<Rightarrow> string" where
  "not_stopped_note executor =
     ''This run was stopped, but \"'' @ executor @ ''\" could not stop the external work. ''
     @ ''It may still be running, and opening a pull request; stop it there if that matters.''"

definition cancel_delegation :: "reclaim_report \<Rightarrow> step \<Rightarrow> step" where
  "cancel_delegation report s = (case st_delegated s of
      None \<Rightarrow> s
    | Some d \<Rightarrow>
        if \<not> delegation_open d then s
        else (let outcome = report_for (dl_correlationKey d) report;
                  stopped = (case outcome of None \<Rightarrow> False | Some (c, n) \<Rightarrow> c)
              in settleDelegation
                   \<lparr>sm_status = DCancelled,
                    sm_outcome = Some (if stopped then ''cancelled''
                      else ''cancel requested; the external run may still be running''),
                    sm_url = None,
                    sm_note = first_some (case outcome of None \<Rightarrow> None | Some (c, n) \<Rightarrow> n)
                      (if stopped then None else Some (not_stopped_note (dl_executor d))),
                    sm_usageReported = None, sm_branch = None\<rparr> s))"

definition applyDelegationCancellation ::
  "reclaim_report \<Rightarrow> instance_rec \<Rightarrow> instance_rec \<times> bool" where
  "applyDelegationCancellation report i =
     (i\<lparr>in_steps := map (cancel_delegation report) (in_steps i)\<rparr>,
      list_ex (\<lambda>s. case st_delegated s of None \<Rightarrow> False | Some d \<Rightarrow> delegation_open d)
        (in_steps i))"

section \<open>The rest of the fold\<close>

definition applyContainerRunning ::
  "string option \<Rightarrow> string option \<Rightarrow> string option \<Rightarrow> step \<Rightarrow> step \<times> bool" where
  "applyContainerRunning phase cid url s =
     (let prev = st_container s;
          nxt = \<lparr>ct_status = ContainerUp,
                 ct_phase = first_some phase (Option.bind prev ct_phase),
                 ct_id = first_some cid (Option.bind prev ct_id),
                 ct_url = first_some url (Option.bind prev ct_url)\<rparr>
      in if prev = Some nxt then (s, False) else (s\<lparr>st_container := Some nxt\<rparr>, True))"

definition ACTIVITY_PERSIST_THROTTLE_MS :: int where
  "ACTIVITY_PERSIST_THROTTLE_MS = 20000"

definition shouldPersistActivity :: "int option \<Rightarrow> int option \<Rightarrow> bool" where
  "shouldPersistActivity stored incoming = (case incoming of
      None \<Rightarrow> False
    | Some t \<Rightarrow> (case stored of None \<Rightarrow> True | Some p \<Rightarrow> ACTIVITY_PERSIST_THROTTLE_MS \<le> t - p))"

definition applyLastActivity :: "int option \<Rightarrow> step \<Rightarrow> step \<times> bool" where
  "applyLastActivity incoming s =
     (if \<not> shouldPersistActivity (st_lastActivityAt s) incoming then (s, False)
      else (s\<lparr>st_lastActivityAt := incoming\<rparr>, True))"

section \<open>Laws\<close>

lemma nonempty_Nil_iff: "nonempty s = None \<longleftrightarrow> s = None \<or> s = Some []"
  by (cases s) (auto simp: nonempty_def)

text \<open>A dispatch replayed before the executor answered finds its own claim.\<close>

lemma claim_replay: "claimDelegation c (claimDelegation c s) = claimDelegation c s"
  by (auto simp: claimDelegation_def Let_def split: option.splits)

lemma claim_open: "st_delegated (claimDelegation c s) = Some d \<Longrightarrow>
    delegation_open d \<and> dl_correlationKey d = dc_correlationKey c \<and> dl_status d = DStarting"
  by (auto simp: claimDelegation_def Let_def delegation_open_def)

lemma claim_in_flight: "inFlightDelegation (claimDelegation c s) = st_delegated (claimDelegation c s)"
  by (auto simp: inFlightDelegation_def claimDelegation_def Let_def)

lemma claim_not_live: "liveJobId (claimDelegation c s) = None"
  by (auto simp: liveJobId_def claim_in_flight split: option.splits)
     (auto simp: claimDelegation_def Let_def)

lemma settle_status:
  "st_delegated (settleDelegation m s) = Some d' \<longleftrightarrow>
     (\<exists>d. st_delegated s = Some d \<and> d' =
       d\<lparr>dl_status := sm_status m, dl_url := if_given (sm_url m) (dl_url d),
         dl_note := if_given (sm_note m) (dl_note d),
         dl_branch := if_given (sm_branch m) (dl_branch d),
         dl_attempts := on_last
           (\<lambda>a. a\<lparr>da_outcome := if_given (sm_outcome m) (da_outcome a),
                  da_url := if_given (sm_url m) (da_url a),
                  da_usageReported := first_some (sm_usageReported m) (da_usageReported a)\<rparr>)
           (dl_attempts d)\<rparr>)"
  by (auto simp: settleDelegation_def)

lemma settle_other_fields [simp]:
  "st_jobId (settleDelegation m s) = st_jobId s"
  "st_agentKind (settleDelegation m s) = st_agentKind s"
  "st_state (settleDelegation m s) = st_state s"
  "st_dispatches (settleDelegation m s) = st_dispatches s"
  by (simp_all add: settleDelegation_def)

definition open_delegation :: "step \<Rightarrow> bool" where
  "open_delegation s = (case st_delegated s of None \<Rightarrow> False | Some d \<Rightarrow> delegation_open d)"

lemma cancel_closes: "\<not> open_delegation (cancel_delegation report s)"
proof (cases "open_delegation s")
  case True
  then obtain d where "st_delegated s = Some d" "delegation_open d"
    by (auto simp: open_delegation_def split: option.splits)
  then show ?thesis
    by (auto simp: cancel_delegation_def open_delegation_def Let_def settleDelegation_def
        delegation_open_def)
next
  case False
  then show ?thesis by (auto simp: cancel_delegation_def open_delegation_def split: option.splits)
qed

lemma cancel_untouched: "\<not> open_delegation s \<Longrightarrow> cancel_delegation report s = s"
  by (auto simp: cancel_delegation_def open_delegation_def split: option.splits)

lemma cancel_keeps:
  "st_jobId (cancel_delegation report s) = st_jobId s"
  "map_option (\<lambda>d. length (dl_attempts d)) (st_delegated (cancel_delegation report s))
     = map_option (\<lambda>d. length (dl_attempts d)) (st_delegated s)"
  "map_option dl_correlationKey (st_delegated (cancel_delegation report s))
     = map_option dl_correlationKey (st_delegated s)"
  by (auto simp: cancel_delegation_def Let_def settleDelegation_def split: option.splits)

text \<open>Work the executor did not report as stopped is said to be possibly still running.\<close>

lemma cancel_unreported:
  assumes "st_delegated s = Some d" and "delegation_open d"
    and "report_for (dl_correlationKey d) report = None"
  shows "\<exists>d'. st_delegated (cancel_delegation report s) = Some d' \<and> dl_status d' = DCancelled
     \<and> dl_note d' = Some (not_stopped_note (dl_executor d))"
  using assms
  by (simp add: cancel_delegation_def settleDelegation_def if_given_def nonempty_def
      not_stopped_note_def)

lemma applyDelegationCancellation_alt:
  "applyDelegationCancellation report i =
     (i\<lparr>in_steps := map (cancel_delegation report) (in_steps i)\<rparr>,
      list_ex open_delegation (in_steps i))"
  by (simp add: applyDelegationCancellation_def open_delegation_def [abs_def])

lemma liveDelegations_iff:
  "liveDelegations i ws = [] \<longleftrightarrow> (\<forall>s \<in> set (in_steps i). \<not> open_delegation s)"
  by (auto simp: liveDelegations_def open_delegation_def split: option.splits if_splits)

lemma liveDelegations_keys:
  "map dh_correlationKey (liveDelegations i ws) =
     map (\<lambda>s. dl_correlationKey (the (st_delegated s))) (filter open_delegation (in_steps i))"
proof -
  have "map dh_correlationKey (concat (map f l)) =
      map (\<lambda>s. dl_correlationKey (the (st_delegated s))) (filter open_delegation l)"
    if "\<And>s. \<not> open_delegation s \<Longrightarrow> f s = []"
      "\<And>s. open_delegation s \<Longrightarrow>
         map dh_correlationKey (f s) = [dl_correlationKey (the (st_delegated s))]"
    for f :: "step \<Rightarrow> delegation_handle list" and l
    using that by (induction l) auto
  then show ?thesis
    unfolding liveDelegations_def
    by (rule meta_mp [rotated]) (auto simp: open_delegation_def split: option.splits)
qed

lemma poll_policy_sound:
  assumes "delegatedPollPolicy s = Some (iv, polls)"
  shows "0 < iv \<and> 1 \<le> polls
    \<and> (\<exists>d iv' dur. inFlightDelegation s = Some d \<and> delegation_open d \<and> dl_poll d = Some (iv', dur)
         \<and> iv = iv' \<and> dur \<le> polls * iv)"
proof -
  from assms obtain d dur where d: "inFlightDelegation s = Some d" "delegation_open d"
      "dl_poll d = Some (iv, dur)" "0 < iv" "0 < dur"
      "polls = max 1 (\<lceil>(of_int dur :: rat) / of_int iv\<rceil>)"
    by (auto simp: delegatedPollPolicy_def split: option.splits if_splits)
  have "(of_int dur :: rat) / of_int iv \<le> of_int polls"
    unfolding d(6) of_int_max by (rule order_trans [OF le_of_int_ceiling]) simp
  then have "(of_int dur :: rat) \<le> of_int (polls * iv)" using d(4) by (simp add: divide_le_eq)
  then have "dur \<le> polls * iv" by (simp only: of_int_le_iff)
  with d show ?thesis by auto
qed

section \<open>Job names\<close>

lemma bump_dispatch_count:
  "sum_list (map snd (filter (\<lambda>d. fst d = k) (bump_dispatch kind ds))) =
     sum_list (map snd (filter (\<lambda>d. fst d = k) ds)) + (if k = kind then 1 else 0)"
  by (induction kind ds rule: bump_dispatch.induct) auto

lemma sum_list_update_at:
  assumes "j < length xs" and "f (g (xs ! j)) = f (xs ! j) + (c :: nat)"
  shows "sum_list (map f (update_at j g xs)) = sum_list (map f xs) + c"
  using assms
proof (induction xs arbitrary: j)
  case Nil
  then show ?case by simp
next
  case (Cons x xs)
  then show ?case by (cases j) (auto simp: update_at_def split: if_splits)
qed

lemma claimDispatchEpoch_count:
  assumes "j < length steps"
  shows "dispatchEpochFor (snd (claimDispatchEpoch steps j kind)) k =
    dispatchEpochFor steps k + (if k = kind then 1 else 0)"
  unfolding claimDispatchEpoch_def dispatchEpochFor_def snd_conv
  using assms by (intro sum_list_update_at)
    (simp_all add: dispatches_of_def bump_dispatch_count [unfolded dispatches_of_def])

lemma stamp_keeps_dispatches [simp]:
  "st_dispatches (stampDelegationDispatch g s) = st_dispatches s"
  "st_jobId (stampDelegationDispatch g s) = st_jobId s"
  by (simp_all add: stampDelegationDispatch_def Let_def)

lemma recordDispatchAttribution_dispatches:
  "dispatches_of (recordDispatchAttribution h kind s) = bump_dispatch kind (dispatches_of s)"
  by (simp add: recordDispatchAttribution_def Let_def dispatches_of_def split: option.split)

lemma reset_keeps_dispatches:
  "dispatches_of (resetStepForRerun s) = dispatches_of s"
  by (simp add: dispatches_of_def resetStepForRerun_def Let_def split: option.split)

lemma stepJobId_inject:
  "stepJobId run kind m = stepJobId run kind n \<longleftrightarrow> m = n"
  by (auto simp: stepJobId_def Let_def)

section \<open>Properties\<close>

text \<open>
  The dispatches of a run in order: a job is claimed for a kind on a step, or a step is reset for
  another run over it (a companion's rework, a requested change).
\<close>

datatype dispatch_event = Dispatched nat string | StepReset nat

fun event_step :: "dispatch_event \<Rightarrow> nat" where
  "event_step (Dispatched j kind) = j"
| "event_step (StepReset j) = j"

text \<open>The jobs the events name, each with its kind.\<close>

fun named_jobs :: "string \<Rightarrow> step list \<Rightarrow> dispatch_event list \<Rightarrow> (string \<times> string) list" where
  "named_jobs run steps [] = []"
| "named_jobs run steps (Dispatched j kind # es) =
     (let (epoch, steps1) = claimDispatchEpoch steps j kind
      in (kind, stepJobId run kind epoch) # named_jobs run steps1 es)"
| "named_jobs run steps (StepReset j # es) = named_jobs run (update_at j resetStepForRerun steps) es"

lemma reset_keeps_epochs:
  "dispatchEpochFor (update_at j resetStepForRerun steps) k = dispatchEpochFor steps k"
proof (cases "j < length steps")
  case True
  then show ?thesis
    unfolding dispatchEpochFor_def
    using sum_list_update_at [of j steps _ resetStepForRerun 0] by (simp add: reset_keeps_dispatches)
qed (simp add: update_at_def list_update_beyond)

lemma named_jobs_Dispatched:
  "named_jobs run steps (Dispatched j kind # es) =
     (kind, stepJobId run kind (dispatchEpochFor steps kind))
       # named_jobs run (snd (claimDispatchEpoch steps j kind)) es"
  by (simp add: claimDispatchEpoch_def)

lemma length_claimDispatchEpoch [simp]: "length (snd (claimDispatchEpoch steps j kind)) = length steps"
  by (simp add: claimDispatchEpoch_def)

text \<open>A job named later has an epoch at least the count of the moment.\<close>

lemma named_jobs_epoch:
  assumes "list_all (\<lambda>e. event_step e < length steps) es"
    and "(kind, job) \<in> set (named_jobs run steps es)"
  shows "\<exists>n \<ge> dispatchEpochFor steps kind. job = stepJobId run kind n"
  using assms
proof (induction es arbitrary: steps)
  case (Cons e es)
  show ?case
  proof (cases e)
    case (Dispatched j k)
    let ?s = "snd (claimDispatchEpoch steps j k)"
    show ?thesis
    proof (cases "(kind, job) \<in> set (named_jobs run ?s es)")
      case True
      then obtain n where "dispatchEpochFor ?s kind \<le> n" "job = stepJobId run kind n"
        using Cons.IH [of ?s] Cons.prems(1) by auto
      moreover have "dispatchEpochFor steps kind \<le> dispatchEpochFor ?s kind"
        using Cons.prems(1) Dispatched by (simp add: claimDispatchEpoch_count)
      ultimately show ?thesis using order_trans by blast
    next
      case False
      with Cons.prems(2) show ?thesis unfolding Dispatched named_jobs_Dispatched by auto
    qed
  next
    case (StepReset j)
    with Cons.IH [of "update_at j resetStepForRerun steps"] Cons.prems
    show ?thesis by (simp add: reset_keeps_epochs)
  qed
qed simp



text \<open>
  After a run's delegations were cancelled, none is open: the teardown finds nothing left to
  reclaim and cancelling again changes nothing, whatever the executors reported. Work that no
  executor reported as stopped is named as possibly still running.
\<close>

theorem cancelled_run_owes_nothing:
  assumes "applyDelegationCancellation report i = (j, changed)"
  shows "liveDelegations j ws = [] \<and> applyDelegationCancellation report' j = (j, False)
    \<and> (changed \<longleftrightarrow> liveDelegations i ws \<noteq> [])
    \<and> (\<forall>k < length (in_steps i). \<forall>d. st_delegated (in_steps i ! k) = Some d \<longrightarrow> delegation_open d \<longrightarrow>
         report_for (dl_correlationKey d) report = None \<longrightarrow>
         map_option dl_note (st_delegated (in_steps j ! k)) = Some (Some (not_stopped_note (dl_executor d))))"
proof (intro conjI allI impI)
  from assms have j: "j = i\<lparr>in_steps := map (cancel_delegation report) (in_steps i)\<rparr>"
    and c: "changed = list_ex open_delegation (in_steps i)"
    by (simp_all add: applyDelegationCancellation_alt)
  show "liveDelegations j ws = []" by (simp add: liveDelegations_iff j cancel_closes)
  show "applyDelegationCancellation report' j = (j, False)"
    by (simp add: applyDelegationCancellation_alt j list_ex_iff cancel_closes cancel_untouched)
  show "changed \<longleftrightarrow> liveDelegations i ws \<noteq> []"
    by (simp add: c liveDelegations_iff list_ex_iff)
  fix k d
  assume k: "k < length (in_steps i)" "st_delegated (in_steps i ! k) = Some d" "delegation_open d"
    "report_for (dl_correlationKey d) report = None"
  from cancel_unreported [OF k(2-4)] k(1)
  show "map_option dl_note (st_delegated (in_steps j ! k)) = Some (Some (not_stopped_note (dl_executor d)))"
    by (auto simp: j)
qed

definition delegated_run :: instance_rec where
  "delegated_run = bare_run ''r'' ''b'' [claimDelegation
     \<lparr>dc_executor = ''gha'', dc_correlationKey = ''r-coder'', dc_startedAt = 1, dc_poll = (60, 600)\<rparr>
     (bare_step ''coder'' Working)]"

theorem cancelled_run_owes_nothing_witness:
  "liveDelegations delegated_run ''w'' \<noteq> []
   \<and> liveDelegations (fst (applyDelegationCancellation [] delegated_run)) ''w'' = []"
  using cancelled_run_owes_nothing [of "[]" delegated_run
      "fst (applyDelegationCancellation [] delegated_run)"
      "snd (applyDelegationCancellation [] delegated_run)" "''w''" "[]"]
  by (simp add: liveDelegations_def delegated_run_def bare_run_def claimDelegation_def Let_def
      delegation_open_def)

text \<open>
  Claiming a delegation twice is claiming it once, so a dispatch replayed after a crash adds no
  attempt and finds the same job. The claimed job is in flight but not attachable until the
  executor answered, and answering makes it attachable under the executor's handle.
\<close>

lemma claim_is_replayable:
  "claimDelegation c (claimDelegation c s) = claimDelegation c s
   \<and> inFlightDelegation (claimDelegation c s) = st_delegated (claimDelegation c s)
   \<and> liveJobId (claimDelegation c s) = None
   \<and> liveJobId (stampDelegationDispatch g (claimDelegation c s)) = nonempty (Some (dc_correlationKey c))
   \<and> map_option dg_externalId (delegationHandleSlice (stampDelegationDispatch g (claimDelegation c s)))
       = Some (dg_externalId g)"
  using claim_replay [of c s] claim_in_flight [of c s] claim_not_live [of c s]
  by (simp add: liveJobId_def inFlightDelegation_def stampDelegationDispatch_def claimDelegation_def
      delegationHandleSlice_def Let_def split: option.split)

text \<open>
  The poll policy of a step is that of its open delegation in flight, and its polls together
  span the whole declared duration: the budget of polls never cuts a delegation short.
\<close>

theorem poll_policy_covers_duration:
  assumes "delegatedPollPolicy s = Some (iv, polls)"
  shows "0 < iv \<and> 1 \<le> polls
    \<and> (\<exists>d dur. inFlightDelegation s = Some d \<and> delegation_open d \<and> dl_poll d = Some (iv, dur)
         \<and> dur \<le> polls * iv)"
  using poll_policy_sound [OF assms] by blast

theorem poll_policy_covers_duration_witness:
  "delegatedPollPolicy (hd (in_steps delegated_run)) = Some (60, 10) \<and> (1 :: int) \<le> 10"
proof
  show e: "delegatedPollPolicy (hd (in_steps delegated_run)) = Some (60, 10)" by code_simp
  show "(1 :: int) \<le> 10" using poll_policy_covers_duration [OF e] by blast
qed

end
