(* ===== verification/BlockModel.thy ===== *)
theory BlockModel
  imports Prelude
begin

text \<open>
  A board block (\<^verbatim>\<open>contracts/src/entities.ts\<close>, \<^verbatim>\<open>contracts/src/primitives.ts\<close>) and the small
  helpers over it that several components share. Presentation fields (position, size, provider,
  configuration blobs) that no modelled operation reads are left out, as are the fields of a task's
  type but the pull request it names and the prose of its estimate.
\<close>

datatype block_status = Planned | Ready | InProgress | BlockBlocked | PrReady | BlockDone

datatype block_level = FrameLevel | ModuleLevel | TaskLevel | EpicLevel | InitiativeLevel

datatype block_type =
    FrontendType | ServiceType | LibraryType | DocumentType | ApiType | DatabaseType
  | QueueType | IntegrationType | ExternalType | EnvironmentType

datatype branch_mode = ReferenceBranch | WorkingBranch

record apriori_branch =
  ab_name :: string
  ab_mode :: branch_mode

record pull_request_ref =
  pr_url :: string
  pr_number :: "int option"
  pr_branch :: "string option"

record peer_pull_request =
  pp_repo :: string
  pp_frameIds :: "string list option"
  pp_ref :: pull_request_ref

record service_connection =
  sc_serviceBlockId :: string
  sc_description :: "string option"

record task_estimate =
  te_complexity :: rat
  te_risk :: rat
  te_impact :: rat

record task_pr_fields =
  tf_prNumber :: "rat option"
  tf_prUrl :: "string option"

record block =
  bl_id :: string
  bl_title :: string
  bl_type :: block_type
  bl_description :: string
  bl_status :: block_status
  bl_progress :: rat
  bl_dependsOn :: "string list"
  bl_executionId :: "string option"
  bl_level :: block_level
  bl_parentId :: "string option"
  bl_epicId :: "string option"
  bl_initiativeId :: "string option"
  bl_taskType :: "string option"
  bl_fragmentIds :: "string list option"
  bl_serviceFragmentIds :: "string list option"
  bl_serviceConnections :: "service_connection list option"
  bl_involvedServiceIds :: "string list option"
  bl_pullRequest :: "pull_request_ref option"
  bl_peerPullRequests :: "peer_pull_request list option"
  bl_aprioriBranches :: "apriori_branch list option"
  bl_internal :: "bool option"
  bl_estimate :: "task_estimate option"
  bl_taskTypeFields :: "task_pr_fields option"
  bl_riskPolicyId :: "string option"
  bl_pipelineId :: "string option"
  bl_moduleName :: "string option"
  bl_autoStartDependents :: "bool option"

definition bare_block :: "string \<Rightarrow> block_level \<Rightarrow> string option \<Rightarrow> block" where
  "bare_block bid level parent =
     \<lparr>bl_id = bid, bl_title = bid, bl_type = ServiceType, bl_description = [],
      bl_status = Planned, bl_progress = 0, bl_dependsOn = [], bl_executionId = None,
      bl_level = level, bl_parentId = parent, bl_epicId = None, bl_initiativeId = None,
      bl_taskType = None, bl_fragmentIds = None, bl_serviceFragmentIds = None,
      bl_serviceConnections = None, bl_involvedServiceIds = None, bl_pullRequest = None,
      bl_peerPullRequests = None, bl_aprioriBranches = None, bl_internal = None,
      bl_estimate = None, bl_taskTypeFields = None, bl_riskPolicyId = None, bl_pipelineId = None,
      bl_moduleName = None, bl_autoStartDependents = None\<rparr>"

text \<open>Each entry: the repository and frames of a peer (absent for the own service) and the ref.\<close>

definition allPullRequests ::
  "block \<Rightarrow> (string option \<times> string list \<times> pull_request_ref) list" where
  "allPullRequests b =
     (case bl_pullRequest b of None \<Rightarrow> [] | Some r \<Rightarrow> [(None, [], r)])
     @ map (\<lambda>p. (Some (pp_repo p), list_of (pp_frameIds p), pp_ref p))
         (list_of (bl_peerPullRequests b))"

definition taskTypeAttachesPullRequest :: "string option \<Rightarrow> bool" where
  "taskTypeAttachesPullRequest t \<longleftrightarrow> t = Some ''resolve-conflicts''"

definition aprioriWorkingBranch :: "apriori_branch list option \<Rightarrow> string option" where
  "aprioriWorkingBranch bs =
     map_option ab_name (List.find (\<lambda>b. ab_mode b = WorkingBranch) (list_of bs))"

definition aprioriReferenceBranches :: "apriori_branch list option \<Rightarrow> string list" where
  "aprioriReferenceBranches bs =
     map ab_name (filter (\<lambda>b. ab_mode b = ReferenceBranch) (list_of bs))"

text \<open>The working branch, or the error of a working branch that is the base branch.\<close>

definition resolveAprioriWorkingBranch ::
  "apriori_branch list option \<Rightarrow> string \<Rightarrow> string + string option" where
  "resolveAprioriWorkingBranch bs baseBranch =
     (case nonempty (aprioriWorkingBranch bs) of
        None \<Rightarrow> Inr (aprioriWorkingBranch bs)
      | Some w \<Rightarrow> if w = baseBranch then Inl w else Inr (Some w))"

text \<open>
  \<^verbatim>\<open>includes\<close>, \<^verbatim>\<open>startsWith\<close> and \<^verbatim>\<open>endsWith\<close> on strings of code points below 256.
\<close>

fun starts_with :: "string \<Rightarrow> string \<Rightarrow> bool" where
  "starts_with [] s = True"
| "starts_with (c # cs) [] = False"
| "starts_with (c # cs) (d # ds) = (c = d \<and> starts_with cs ds)"

fun contains_text :: "string \<Rightarrow> string \<Rightarrow> bool" where
  "contains_text p [] = (p = [])"
| "contains_text p (c # cs) = (starts_with p (c # cs) \<or> contains_text p cs)"

definition ends_with :: "string \<Rightarrow> string \<Rightarrow> bool" where
  "ends_with p s = starts_with (rev p) (rev s)"

definition isSafeGitBranchName :: "string \<Rightarrow> bool" where
  "isSafeGitBranchName name =
     (if name = [] then False
      else if name = ''@'' then False
      else if starts_with ''-'' name \<or> starts_with ''/'' name \<or> ends_with ''/'' name then False
      else if ends_with ''.lock'' name then False
      else if contains_text ''..'' name \<or> contains_text ''//'' name \<or> contains_text [CHR ''@'', CHR 0x7B] name then False
      else list_all (\<lambda>c. \<not> ((of_char c :: nat) \<le> 32 \<or> of_char c = (127 :: nat)
             \<or> c \<in> set [CHR ''~'', CHR 0x5E, CHR '':'', CHR ''?'', CHR ''*'', CHR ''['', CHR 0x5C]))
             name)"

lemma starts_with_iff: "starts_with p s \<longleftrightarrow> (\<exists>t. s = p @ t)"
  by (induction p s rule: starts_with.induct) auto

lemma ends_with_iff: "ends_with p s \<longleftrightarrow> (\<exists>t. s = t @ p)"
  unfolding ends_with_def starts_with_iff by (metis rev_append rev_rev_ident)

lemma contains_text_iff: "contains_text p s \<longleftrightarrow> (\<exists>t u. s = t @ p @ u)"
proof (induction p s rule: contains_text.induct)
  case (1 p)
  then show ?case by auto
next
  case (2 p c cs)
  show ?case
  proof
    assume "contains_text p (c # cs)"
    then show "\<exists>t u. c # cs = t @ p @ u"
      using 2 by (auto simp: starts_with_iff) (metis append_Cons append_Nil)+
  next
    assume "\<exists>t u. c # cs = t @ p @ u"
    then obtain t u where *: "c # cs = t @ p @ u" by blast
    show "contains_text p (c # cs)"
    proof (cases t)
      case Nil
      with * have "starts_with p (c # cs)" by (simp add: starts_with_iff)
      then show ?thesis by simp
    next
      case (Cons d t')
      with * have "cs = t' @ p @ u" by simp
      with 2 show ?thesis by auto
    qed
  qed
qed

definition connectionNeighborIds :: "block list \<Rightarrow> string \<Rightarrow> string list" where
  "connectionNeighborIds blocks frameId =
     concat (map (\<lambda>b. concat (map (\<lambda>c.
        if bl_id b = frameId \<and> sc_serviceBlockId c \<noteq> frameId then [sc_serviceBlockId c]
        else if sc_serviceBlockId c = frameId \<and> bl_id b \<noteq> frameId then [bl_id b]
        else []) (list_of (bl_serviceConnections b)))) blocks)"

lemma connection_declared:
  "n \<in> set (connectionNeighborIds blocks f) \<longleftrightarrow>
     n \<noteq> f \<and> ((\<exists>b \<in> set blocks. bl_id b = f \<and>
         n \<in> sc_serviceBlockId ` set (list_of (bl_serviceConnections b)))
       \<or> (\<exists>b \<in> set blocks. bl_id b = n \<and>
         f \<in> sc_serviceBlockId ` set (list_of (bl_serviceConnections b))))"
  by (fastforce simp: connectionNeighborIds_def split: if_splits)

text \<open>Being a neighbour does not depend on which of the two declares the connection.\<close>

lemma connection_symmetric:
  assumes "f \<noteq> g" and "\<exists>b \<in> set blocks. bl_id b = f" and "\<exists>b \<in> set blocks. bl_id b = g"
  shows "g \<in> set (connectionNeighborIds blocks f) \<longleftrightarrow> f \<in> set (connectionNeighborIds blocks g)"
  using assms unfolding connection_declared by blast

text \<open>\<^verbatim>\<open>new Map(blocks.map((b) => [b.id, b]))\<close>: the last block of an id is found.\<close>

definition block_by_id :: "block list \<Rightarrow> string \<Rightarrow> block option" where
  "block_by_id blocks i = List.find (\<lambda>b. bl_id b = i) (rev blocks)"

lemma block_by_id_Some: "block_by_id blocks i = Some b \<Longrightarrow> b \<in> set blocks \<and> bl_id b = i"
  unfolding block_by_id_def find_Some_iff by (metis nth_mem set_rev)

lemma block_by_id_None: "block_by_id blocks i = None \<longleftrightarrow> i \<notin> bl_id ` set blocks"
  by (auto simp: block_by_id_def find_None_iff)

end
