(* ===== verification/Board.thy ===== *)
theory Board
  imports BlockModel
begin

text \<open>
  The pure board computations (\<^verbatim>\<open>orchestration/src/modules/board/board.logic.ts\<close>) and the walk to
  the owning service frame (\<^verbatim>\<open>kernel/src/domain/block-tree.ts\<close>). Error messages are the
  constructors of \<open>board_error\<close>. The search over dependencies and the cascade over children are
  loops with a termination proof; the walk up the tree may run forever on a parent cycle, so it is
  a partial function, and returns on every tree whose links \<open>canReparent\<close> admits.
\<close>

section \<open>Layout and membership\<close>

definition gridSlot :: "nat \<Rightarrow> nat \<Rightarrow> int \<Rightarrow> int \<Rightarrow> int \<Rightarrow> int \<Rightarrow> int \<times> int" where
  "gridSlot n cols cw ch x0 y0 = (x0 + int (n mod cols) * cw, y0 + int (n div cols) * ch)"

definition tasksOf :: "block list \<Rightarrow> string \<Rightarrow> block list" where
  "tasksOf blocks containerId =
     filter (\<lambda>b. bl_parentId b = Some containerId \<and> bl_level b = TaskLevel) blocks"

definition modulesOf :: "block list \<Rightarrow> string \<Rightarrow> block list" where
  "modulesOf blocks serviceId =
     filter (\<lambda>b. bl_parentId b = Some serviceId \<and> bl_level b = ModuleLevel) blocks"

definition epicMembers :: "block list \<Rightarrow> string \<Rightarrow> block list" where
  "epicMembers blocks epicId = filter (\<lambda>b. bl_epicId b = Some epicId) blocks"

definition canReparent :: "block_level \<Rightarrow> block \<Rightarrow> bool" where
  "canReparent childLevel parent = (case childLevel of
      TaskLevel \<Rightarrow> bl_level parent = FrameLevel \<or> bl_level parent = ModuleLevel
    | ModuleLevel \<Rightarrow> bl_level parent = FrameLevel
    | EpicLevel \<Rightarrow> bl_level parent = FrameLevel \<or> bl_level parent = ModuleLevel
    | InitiativeLevel \<Rightarrow> bl_level parent = FrameLevel
    | FrameLevel \<Rightarrow> False)"

section \<open>The owning service\<close>

definition parent_block :: "(string \<Rightarrow> block option) \<Rightarrow> block \<Rightarrow> block option" where
  "parent_block byId b = (case nonempty (bl_parentId b) of None \<Rightarrow> None | Some p \<Rightarrow> byId p)"

partial_function (option) service_walk ::
  "(string \<Rightarrow> block option) \<Rightarrow> block option \<Rightarrow> block option option" where
  "service_walk byId cur = (case cur of
      None \<Rightarrow> Some None
    | Some b \<Rightarrow>
        if bl_level b = FrameLevel then Some (Some b)
        else service_walk byId (parent_block byId b))"

definition serviceOf :: "block list \<Rightarrow> block \<Rightarrow> block option option" where
  "serviceOf blocks b = service_walk (block_by_id blocks) (Some b)"

fun resolve_frame_loop ::
  "(string \<Rightarrow> block option) \<Rightarrow> nat \<Rightarrow> block option \<Rightarrow> block option" where
  "resolve_frame_loop getb 0 cur = cur"
| "resolve_frame_loop getb (Suc n) cur = (case cur of
      None \<Rightarrow> None
    | Some b \<Rightarrow>
        if bl_level b = FrameLevel \<or> nonempty (bl_parentId b) = None then Some b
        else resolve_frame_loop getb n (parent_block getb b))"

definition resolveServiceFrameBlock ::
  "(string \<Rightarrow> block option) \<Rightarrow> string \<Rightarrow> block option \<Rightarrow> block option" where
  "resolveServiceFrameBlock getb blockId start =
     resolve_frame_loop getb 8 (case start of None \<Rightarrow> getb blockId | Some b \<Rightarrow> Some b)"

datatype own_service =
    ServiceStated string string "string option"
  | BlockIsTheService
  | NotUnderAService

definition describeOwnService :: "block \<Rightarrow> block option \<Rightarrow> own_service" where
  "describeOwnService b frame =
     (if bl_level b = FrameLevel then BlockIsTheService
      else case frame of
        None \<Rightarrow> NotUnderAService
      | Some f \<Rightarrow>
          if bl_level f \<noteq> FrameLevel \<or> bl_id f = bl_id b then NotUnderAService
          else ServiceStated (bl_id f) (bl_title f) (nonempty (Some (js_trim (bl_description f)))))"

definition applicableFragmentIds :: "block \<Rightarrow> block option \<Rightarrow> string list" where
  "applicableFragmentIds b frame =
     (let serviceIds = (if bl_level b = FrameLevel
                        then (case frame of None \<Rightarrow> [] | Some f \<Rightarrow> list_of (bl_serviceFragmentIds f))
                        else [])
      in rev (remdups (rev (serviceIds @ list_of (bl_fragmentIds b)))))"

section \<open>Subtrees\<close>

definition child_pass :: "block list \<Rightarrow> string list \<Rightarrow> string list" where
  "child_pass blocks doomed =
     fold (\<lambda>b d. case nonempty (bl_parentId b) of
             None \<Rightarrow> d
           | Some p \<Rightarrow> if p \<in> set d \<and> bl_id b \<notin> set d then d @ [bl_id b] else d)
       blocks doomed"

lemma child_pass_grows: "\<exists>new. child_pass blocks doomed = doomed @ new"
proof (induction blocks arbitrary: doomed)
  case Nil
  then show ?case by (simp add: child_pass_def)
next
  case (Cons b bs)
  have step: "child_pass (b # bs) doomed = child_pass bs (child_pass [b] doomed)"
    by (simp add: child_pass_def)
  have "\<exists>m. child_pass [b] doomed = doomed @ m"
    by (auto simp: child_pass_def split: option.splits)
  then show ?case unfolding step using Cons.IH by (metis append.assoc)
qed

lemma child_pass_subset:
  "set (child_pass blocks doomed) \<subseteq> set doomed \<union> bl_id ` set blocks"
proof (induction blocks arbitrary: doomed)
  case Nil
  then show ?case by (simp add: child_pass_def)
next
  case (Cons b bs)
  have step: "child_pass (b # bs) doomed = child_pass bs (child_pass [b] doomed)"
    by (simp add: child_pass_def)
  have "set (child_pass [b] doomed) \<subseteq> set doomed \<union> {bl_id b}"
    by (auto simp: child_pass_def split: option.splits)
  then show ?case unfolding step using Cons.IH [of "child_pass [b] doomed"] by auto
qed

lemma child_pass_distinct: "distinct doomed \<Longrightarrow> distinct (child_pass blocks doomed)"
proof (induction blocks arbitrary: doomed)
  case Nil
  then show ?case by (simp add: child_pass_def)
next
  case (Cons b bs)
  have step: "child_pass (b # bs) doomed = child_pass bs (child_pass [b] doomed)"
    by (simp add: child_pass_def)
  have "distinct (child_pass [b] doomed)"
    using Cons.prems by (auto simp: child_pass_def split: option.splits)
  then show ?case unfolding step by (rule Cons.IH)
qed

text \<open>\<^verbatim>\<open>while (grew)\<close>: pass after pass until one adds nothing.\<close>

function descend :: "block list \<Rightarrow> string list \<Rightarrow> string list" where
  "descend blocks doomed =
     (let d = child_pass blocks doomed in if d = doomed then doomed else descend blocks d)"
  by pat_completeness auto
termination
proof (relation "measure (\<lambda>(bs, d). card (bl_id ` set bs - set d))", goal_cases)
  case 1
  then show ?case by simp
next
  case (2 bs doomed d)
  obtain new where new: "d = doomed @ new" using child_pass_grows 2(1) by metis
  then obtain x where "x \<in> set new" using 2 by (cases new) auto
  moreover have "set new \<subseteq> set doomed \<union> bl_id ` set bs"
    using child_pass_subset [of bs doomed] new 2(1) by auto
  moreover have "\<exists>x \<in> set new. x \<notin> set doomed"
  proof (rule ccontr)
    assume "\<not> ?thesis"
    then have "set new \<subseteq> set doomed" by blast
    then have "child_pass bs doomed = doomed"
    proof -
      have "child_pass us v = v" if "set (child_pass us v) \<subseteq> set v" for us v
        using that
      proof (induction us arbitrary: v)
        case Nil
        then show ?case by (simp add: child_pass_def)
      next
        case (Cons u us)
        have step: "child_pass (u # us) v = child_pass us (child_pass [u] v)"
          by (simp add: child_pass_def)
        have one: "child_pass [u] v = v \<or> child_pass [u] v = v @ [bl_id u] \<and> bl_id u \<notin> set v"
          by (auto simp: child_pass_def split: option.splits)
        have "set (child_pass [u] v) \<subseteq> set (child_pass us (child_pass [u] v))"
          using child_pass_grows [of us "child_pass [u] v"] by auto
        with Cons.prems one have eq: "child_pass [u] v = v" unfolding step by auto
        with Cons.prems show ?case unfolding step eq by (intro Cons.IH) (simp add: step eq)
      qed
      moreover have "set (child_pass bs doomed) \<subseteq> set doomed"
        using \<open>set new \<subseteq> set doomed\<close> new 2(1) by simp
      ultimately show ?thesis by blast
    qed
    with 2 show False by simp
  qed
  ultimately have "bl_id ` set bs - set d \<subset> bl_id ` set bs - set doomed" using new by auto
  then show ?case by (simp add: psubset_card_mono)
qed

declare descend.simps [simp del]

definition descendantIds :: "block list \<Rightarrow> string \<Rightarrow> string list" where
  "descendantIds blocks rootId = descend blocks [rootId]"

definition unfinishedTasksUnder :: "block list \<Rightarrow> string \<Rightarrow> block list" where
  "unfinishedTasksUnder blocks rootId =
     (let subtree = descendantIds blocks rootId
      in filter (\<lambda>b. bl_id b \<in> set subtree \<and> bl_level b = TaskLevel \<and> bl_status b \<noteq> BlockDone)
           blocks)"

section \<open>Dependencies\<close>

definition deps_of :: "block list \<Rightarrow> string \<Rightarrow> string list" where
  "deps_of blocks i = (case block_by_id blocks i of None \<Rightarrow> [] | Some b \<Rightarrow> bl_dependsOn b)"

text \<open>The stack is a list with its top first; \<^verbatim>\<open>push(...deps)\<close> leaves the last dependency on top.\<close>

function cycle_search :: "block list \<Rightarrow> string \<Rightarrow> string list \<Rightarrow> string list \<Rightarrow> bool" where
  "cycle_search blocks targetId seen [] = False"
| "cycle_search blocks targetId seen (i # stack) =
     (if i = targetId then True
      else if i \<in> set seen then cycle_search blocks targetId seen stack
      else cycle_search blocks targetId (i # seen) (rev (deps_of blocks i) @ stack))"
  by pat_completeness auto
termination
proof (relation "measures
    [\<lambda>(bs, t, seen, stack). card (bl_id ` set bs - set seen),
     \<lambda>(bs, t, seen, stack). length stack]", goal_cases)
  case 1
  then show ?case by simp
next
  case (2 bs t seen i stack)
  then show ?case by simp
next
  case (3 bs t seen i stack)
  show ?case
  proof (cases "i \<in> bl_id ` set bs")
    case True
    with 3 have "bl_id ` set bs - set (i # seen) \<subset> bl_id ` set bs - set seen" by auto
    then have "card (bl_id ` set bs - set (i # seen)) < card (bl_id ` set bs - set seen)"
      by (intro psubset_card_mono) auto
    then show ?thesis by simp
  next
    case False
    then have none: "block_by_id bs i = None" by (simp add: block_by_id_None)
    from False have "bl_id ` set bs - set (i # seen) = bl_id ` set bs - set seen" by auto
    with none show ?thesis by (simp add: deps_of_def)
  qed
qed

definition wouldCreateCycle :: "block list \<Rightarrow> string \<Rightarrow> string \<Rightarrow> bool" where
  "wouldCreateCycle blocks targetId sourceId =
     (if targetId = sourceId then False else cycle_search blocks targetId [] [sourceId])"

definition dependenciesMet :: "block list \<Rightarrow> string \<Rightarrow> bool" where
  "dependenciesMet blocks taskId = (case block_by_id blocks taskId of
      None \<Rightarrow> True
    | Some task \<Rightarrow> list_all (\<lambda>d. case block_by_id blocks d of
        None \<Rightarrow> True | Some dep \<Rightarrow> bl_status dep = BlockDone) (bl_dependsOn task))"

definition unmetDependencies :: "block list \<Rightarrow> string \<Rightarrow> block list" where
  "unmetDependencies blocks taskId = (case block_by_id blocks taskId of
      None \<Rightarrow> []
    | Some task \<Rightarrow> List.map_filter (\<lambda>d. case block_by_id blocks d of
        None \<Rightarrow> None | Some dep \<Rightarrow> if bl_status dep \<noteq> BlockDone then Some dep else None)
        (bl_dependsOn task))"

section \<open>Guards of a patch\<close>

datatype board_error =
    SelfConnection
  | DuplicateConnection string
  | MissingTarget string
  | TargetNotService string
  | NotInService
  | OwnService string
  | DuplicateInvolved string
  | NotConnected string string
  | DuplicateBranch string
  | ManyWorkingBranches
  | WorkingOnMultiRepo
  | WorkingBranchFrozen

fun connections_loop ::
  "string \<Rightarrow> (string \<Rightarrow> block option) \<Rightarrow> string list \<Rightarrow> service_connection list \<Rightarrow>
     board_error option" where
  "connections_loop frameId resolve seen [] = None"
| "connections_loop frameId resolve seen (c # cs) =
     (let targetId = sc_serviceBlockId c
      in if targetId = frameId then Some SelfConnection
         else if targetId \<in> set seen then Some (DuplicateConnection targetId)
         else case resolve targetId of
           None \<Rightarrow> Some (MissingTarget targetId)
         | Some target \<Rightarrow>
             if bl_level target \<noteq> FrameLevel \<or> bl_type target \<noteq> ServiceType
             then Some (TargetNotService (bl_title target))
             else connections_loop frameId resolve (targetId # seen) cs)"

definition serviceConnectionsError ::
  "string \<Rightarrow> service_connection list \<Rightarrow> (string \<Rightarrow> block option) \<Rightarrow> board_error option" where
  "serviceConnectionsError frameId connections resolveTarget =
     connections_loop frameId resolveTarget [] connections"

fun involved_loop ::
  "block \<Rightarrow> string list \<Rightarrow> string list \<Rightarrow> string list \<Rightarrow> board_error option" where
  "involved_loop frame neighbors seen [] = None"
| "involved_loop frame neighbors seen (i # is) =
     (if i = bl_id frame then Some (OwnService (bl_title frame))
      else if i \<in> set seen then Some (DuplicateInvolved i)
      else if i \<notin> set neighbors then Some (NotConnected i (bl_title frame))
      else involved_loop frame neighbors (i # seen) is)"

text \<open>\<open>None\<close> for the walk that does not return, like \<open>serviceOf\<close>.\<close>

definition involvedServiceIdsError ::
  "block list \<Rightarrow> block \<Rightarrow> string list \<Rightarrow> board_error option option" where
  "involvedServiceIdsError blocks task involved = (case serviceOf blocks task of
      None \<Rightarrow> None
    | Some None \<Rightarrow> Some (Some NotInService)
    | Some (Some frame) \<Rightarrow>
        Some (involved_loop frame (connectionNeighborIds blocks (bl_id frame)) [] involved))"

fun branches_loop ::
  "string list \<Rightarrow> nat \<Rightarrow> apriori_branch list \<Rightarrow> board_error + nat" where
  "branches_loop seen n [] = Inr n"
| "branches_loop seen n (b # bs) =
     (if ab_name b \<in> set seen then Inl (DuplicateBranch (ab_name b))
      else branches_loop (ab_name b # seen) (if ab_mode b = WorkingBranch then n + 1 else n) bs)"

definition aprioriBranchesError ::
  "apriori_branch list \<Rightarrow> block \<Rightarrow> bool \<Rightarrow> board_error option" where
  "aprioriBranchesError branches task hasInvolvedServices =
     (case branches_loop [] 0 branches of
        Inl e \<Rightarrow> Some e
      | Inr workingCount \<Rightarrow>
          if 1 < workingCount then Some ManyWorkingBranches
          else let working = aprioriWorkingBranch (Some branches)
          in if working \<noteq> None \<and> hasInvolvedServices then Some WorkingOnMultiRepo
             else if bl_pullRequest task \<noteq> None
                     \<and> working \<noteq> aprioriWorkingBranch (bl_aprioriBranches task)
             then Some WorkingBranchFrozen
             else None)"

section \<open>Laws\<close>

text \<open>The edges of the two graphs.\<close>

definition child_edges :: "block list \<Rightarrow> (string \<times> string) set" where
  "child_edges blocks =
     {(p, c). \<exists>b \<in> set blocks. nonempty (bl_parentId b) = Some p \<and> bl_id b = c}"

definition dep_edges :: "block list \<Rightarrow> (string \<times> string) set" where
  "dep_edges blocks = {(i, d). d \<in> set (deps_of blocks i)}"

lemma child_pass_sound:
  assumes "x \<in> set (child_pass blocks doomed)"
  shows "\<exists>r \<in> set doomed. (r, x) \<in> (child_edges blocks)\<^sup>*"
proof -
  have "\<exists>r \<in> set d. (r, x) \<in> (child_edges all)\<^sup>*"
    if "x \<in> set (child_pass bs d)" "set bs \<subseteq> set all" for bs all d
    using that
  proof (induction bs arbitrary: d)
    case Nil
    then show ?case by (auto simp: child_pass_def)
  next
    case (Cons b bs)
    have step: "child_pass (b # bs) d = child_pass bs (child_pass [b] d)"
      by (simp add: child_pass_def)
    from Cons have "\<exists>r \<in> set (child_pass [b] d). (r, x) \<in> (child_edges all)\<^sup>*"
      unfolding step by simp
    then obtain r where r: "r \<in> set (child_pass [b] d)" "(r, x) \<in> (child_edges all)\<^sup>*" by blast
    show ?case
    proof (cases "r \<in> set d")
      case True
      with r show ?thesis by blast
    next
      case False
      with r(1) obtain p where "nonempty (bl_parentId b) = Some p" "p \<in> set d" "r = bl_id b"
        by (auto simp: child_pass_def split: option.splits if_splits)
      moreover then have "(p, r) \<in> child_edges all"
        using Cons.prems(2) by (auto simp: child_edges_def)
      ultimately show ?thesis using r(2) by (meson converse_rtrancl_into_rtrancl)
    qed
  qed
  with assms show ?thesis by blast
qed

lemma child_pass_closed:
  assumes "child_pass blocks d = d" and "p \<in> set d" and "(p, c) \<in> child_edges blocks"
  shows "c \<in> set d"
proof -
  from assms(3) obtain b where b: "b \<in> set blocks" "nonempty (bl_parentId b) = Some p" "bl_id b = c"
    by (auto simp: child_edges_def)
  from b(1) obtain us vs where "blocks = us @ b # vs" by (meson split_list)
  then have eq: "child_pass blocks d = child_pass vs (child_pass [b] (child_pass us d))"
    by (simp add: child_pass_def)
  obtain m where m: "child_pass us d = d @ m" using child_pass_grows by metis
  have "c \<in> set (child_pass [b] (child_pass us d))"
    using b assms(2) unfolding m by (auto simp: child_pass_def)
  moreover have "set (child_pass [b] (child_pass us d)) \<subseteq> set (child_pass blocks d)"
    unfolding eq using child_pass_grows [of vs "child_pass [b] (child_pass us d)"] by auto
  ultimately show ?thesis using assms(1) by auto
qed

lemma descend_exact:
  "set (descend blocks doomed) = {x. \<exists>r \<in> set doomed. (r, x) \<in> (child_edges blocks)\<^sup>*}"
proof (induction blocks doomed rule: descend.induct)
  case (1 blocks doomed)
  show ?case
  proof (cases "child_pass blocks doomed = doomed")
    case True
    have "x \<in> set doomed" if "r \<in> set doomed" "(r, x) \<in> (child_edges blocks)\<^sup>*" for r x
      using that(2,1) child_pass_closed [OF True] by (induction rule: rtrancl_induct) blast+
    with True show ?thesis by (subst descend.simps) (auto simp: Let_def)
  next
    case False
    have eq: "set (descend blocks doomed) =
        {x. \<exists>r \<in> set (child_pass blocks doomed). (r, x) \<in> (child_edges blocks)\<^sup>*}"
      using 1 [OF refl False] False by (subst descend.simps) (simp add: Let_def)
    have sub: "set doomed \<subseteq> set (child_pass blocks doomed)"
      using child_pass_grows [of blocks doomed] by auto
    have "(\<exists>r \<in> set (child_pass blocks doomed). (r, x) \<in> (child_edges blocks)\<^sup>*)
        = (\<exists>r \<in> set doomed. (r, x) \<in> (child_edges blocks)\<^sup>*)" for x
    proof
      assume "\<exists>r \<in> set (child_pass blocks doomed). (r, x) \<in> (child_edges blocks)\<^sup>*"
      then obtain r where r: "r \<in> set (child_pass blocks doomed)"
          "(r, x) \<in> (child_edges blocks)\<^sup>*" by blast
      from child_pass_sound [OF r(1)] obtain r0 where
        r0: "r0 \<in> set doomed" "(r0, r) \<in> (child_edges blocks)\<^sup>*" by blast
      from rtrancl_trans [OF r0(2) r(2)] r0(1)
      show "\<exists>r \<in> set doomed. (r, x) \<in> (child_edges blocks)\<^sup>*" by (rule bexI)
    next
      assume "\<exists>r \<in> set doomed. (r, x) \<in> (child_edges blocks)\<^sup>*"
      with sub show "\<exists>r \<in> set (child_pass blocks doomed). (r, x) \<in> (child_edges blocks)\<^sup>*"
        by (meson subsetD)
    qed
    then show ?thesis unfolding eq by (rule Collect_cong)
  qed
qed

lemma cycle_search_sound:
  "cycle_search blocks t seen stack \<Longrightarrow> \<exists>x \<in> set stack. (x, t) \<in> (dep_edges blocks)\<^sup>*"
proof (induction blocks t seen stack rule: cycle_search.induct)
  case (1 blocks t seen)
  then show ?case by simp
next
  case (2 blocks t seen i stack)
  show ?case
  proof (cases "i = t \<or> i \<in> set seen")
    case True
    with 2 show ?thesis by (auto split: if_splits)
  next
    case False
    with 2 obtain x where x: "x \<in> set (rev (deps_of blocks i) @ stack)"
        "(x, t) \<in> (dep_edges blocks)\<^sup>*"
      by auto
    show ?thesis
    proof (cases "x \<in> set stack")
      case True
      with x show ?thesis by auto
    next
      case out: False
      with x have "(i, x) \<in> dep_edges blocks" by (simp add: dep_edges_def)
      with x show ?thesis by (meson converse_rtrancl_into_rtrancl list.set_intros(1))
    qed
  qed
qed

lemma cycle_search_closed:
  assumes "\<not> cycle_search blocks t seen stack" and "t \<notin> set seen"
    and "\<forall>x \<in> set seen. \<forall>y. (x, y) \<in> dep_edges blocks \<longrightarrow> y \<in> set seen \<union> set stack"
  shows "\<exists>S. set seen \<union> set stack \<subseteq> S \<and> t \<notin> S
    \<and> (\<forall>x \<in> S. \<forall>y. (x, y) \<in> dep_edges blocks \<longrightarrow> y \<in> S)"
  using assms
proof (induction blocks t seen stack rule: cycle_search.induct)
  case (1 blocks t seen)
  then show ?case by (intro exI [of _ "set seen"]) auto
next
  case (2 blocks t seen i stack)
  show ?case
  proof (cases "i \<in> set seen")
    case True
    have ni: "i \<noteq> t" using 2(3) by auto
    have "\<exists>S. set seen \<union> set stack \<subseteq> S \<and> t \<notin> S
        \<and> (\<forall>x \<in> S. \<forall>y. (x, y) \<in> dep_edges blocks \<longrightarrow> y \<in> S)"
    proof (rule 2(1) [OF ni True])
      show "\<not> cycle_search blocks t seen stack" using 2(3) ni True by simp
      show "t \<notin> set seen" by (rule 2(4))
      show "\<forall>x \<in> set seen. \<forall>y. (x, y) \<in> dep_edges blocks \<longrightarrow> y \<in> set seen \<union> set stack"
        using 2(5) True by auto
    qed
    moreover have "set seen \<union> set (i # stack) = set seen \<union> set stack" using True by auto
    ultimately show ?thesis by simp
  next
    case False
    have ni: "i \<noteq> t" using 2(3) by auto
    have "\<exists>S. set (i # seen) \<union> set (rev (deps_of blocks i) @ stack) \<subseteq> S \<and> t \<notin> S
        \<and> (\<forall>x \<in> S. \<forall>y. (x, y) \<in> dep_edges blocks \<longrightarrow> y \<in> S)"
    proof (rule 2(2) [OF ni False])
      show "\<not> cycle_search blocks t (i # seen) (rev (deps_of blocks i) @ stack)"
        using 2(3) ni False by simp
      show "t \<notin> set (i # seen)" using 2(4) ni by simp
      show "\<forall>x \<in> set (i # seen). \<forall>y. (x, y) \<in> dep_edges blocks \<longrightarrow>
          y \<in> set (i # seen) \<union> set (rev (deps_of blocks i) @ stack)"
        using 2(5) by (auto simp: dep_edges_def)
    qed
    then show ?thesis by auto
  qed
qed

lemma cycle_search_exact:
  "cycle_search blocks t [] [s] \<longleftrightarrow> (s, t) \<in> (dep_edges blocks)\<^sup>*"
proof
  assume "cycle_search blocks t [] [s]"
  from cycle_search_sound [OF this] show "(s, t) \<in> (dep_edges blocks)\<^sup>*" by simp
next
  assume path: "(s, t) \<in> (dep_edges blocks)\<^sup>*"
  show "cycle_search blocks t [] [s]"
  proof (rule ccontr)
    assume "\<not> ?thesis"
    from cycle_search_closed [OF this] obtain S where S: "s \<in> S" "t \<notin> S"
        "\<forall>x \<in> S. \<forall>y. (x, y) \<in> dep_edges blocks \<longrightarrow> y \<in> S"
      by auto
    have "t \<in> S" using path S(1,3) by (induction rule: rtrancl_induct) blast+
    with S(2) show False by simp
  qed
qed

text \<open>Every legal link goes down: the containment tree is at most three levels deep.\<close>

definition level_depth :: "block_level \<Rightarrow> nat" where
  "level_depth l = (case l of
      FrameLevel \<Rightarrow> 0 | ModuleLevel \<Rightarrow> 1 | TaskLevel \<Rightarrow> 2 | EpicLevel \<Rightarrow> 2 | InitiativeLevel \<Rightarrow> 2)"

lemma canReparent_down: "canReparent l p \<Longrightarrow> level_depth (bl_level p) < level_depth l"
  by (cases l) (auto simp: canReparent_def level_depth_def)

definition tree_ok :: "(string \<Rightarrow> block option) \<Rightarrow> block \<Rightarrow> bool" where
  "tree_ok byId b \<longleftrightarrow> (\<forall>p. parent_block byId b = Some p \<longrightarrow> canReparent (bl_level b) p)"

lemma service_walk_returns:
  assumes "\<And>i b. byId i = Some b \<Longrightarrow> tree_ok byId b" and "tree_ok byId b"
  shows "\<exists>r. service_walk byId (Some b) = Some r"
  using assms(2)
proof (induction "level_depth (bl_level b)" arbitrary: b rule: less_induct)
  case less
  show ?case
  proof (cases "bl_level b = FrameLevel")
    case True
    then show ?thesis by (subst service_walk.simps) simp
  next
    case False
    show ?thesis
    proof (cases "parent_block byId b")
      case None
      with False show ?thesis
        by (subst service_walk.simps) (simp add: service_walk.simps [of byId None])
    next
      case (Some p)
      with less.prems have "level_depth (bl_level p) < level_depth (bl_level b)"
        by (simp add: tree_ok_def canReparent_down)
      moreover from Some have "tree_ok byId p"
        using assms(1) by (auto simp: parent_block_def split: option.splits)
      ultimately obtain r where "service_walk byId (Some p) = Some r" using less.hyps by blast
      with Some False show ?thesis by (subst service_walk.simps) simp
    qed
  qed
qed

lemma service_walk_frame:
  assumes "service_walk byId cur = Some (Some f)"
  shows "bl_level f = FrameLevel"
proof -
  have "\<forall>f. r = Some f \<longrightarrow> bl_level f = FrameLevel" if "service_walk byId cur = Some r" for r
    by (rule service_walk.raw_induct [of "\<lambda>byId cur r. \<forall>f. r = Some f \<longrightarrow> bl_level f = FrameLevel",
          OF _ that])
       (auto split: option.splits if_splits)
  with assms show ?thesis by blast
qed

text \<open>With the hops it is given, the bounded walk finds the frame that the free walk finds.\<close>

lemma resolve_loop_agrees:
  assumes "\<And>i b. byId i = Some b \<Longrightarrow> tree_ok byId b" and "tree_ok byId b"
    and "level_depth (bl_level b) < n"
  shows "(case resolve_frame_loop byId n (Some b) of
      None \<Rightarrow> None | Some f \<Rightarrow> if bl_level f = FrameLevel then Some f else None)
    = the (service_walk byId (Some b))"
  using assms(2,3)
proof (induction n arbitrary: b)
  case 0
  then show ?case by simp
next
  case (Suc n)
  have none: "service_walk byId None = Some None" by (subst service_walk.simps) simp
  show ?case
  proof (cases "bl_level b = FrameLevel")
    case True
    then show ?thesis by (subst service_walk.simps) simp
  next
    case False
    show ?thesis
    proof (cases "parent_block byId b")
      case p: None
      show ?thesis
      proof (cases "nonempty (bl_parentId b)")
        case None
        with False p none show ?thesis by (subst service_walk.simps) simp
      next
        case (Some q)
        with False p none show ?thesis by (subst service_walk.simps) (cases n; simp)
      qed
    next
      case (Some q)
      then obtain y where ne: "nonempty (bl_parentId b) = Some y"
        by (auto simp: parent_block_def split: option.splits)
      from Some Suc.prems have d: "level_depth (bl_level q) < n"
        using canReparent_down by (fastforce simp: tree_ok_def)
      from Some have "tree_ok byId q"
        using assms(1) by (auto simp: parent_block_def split: option.splits)
      from Suc.IH [OF this d] Some ne False show ?thesis
        by (subst service_walk.simps) simp
    qed
  qed
qed

lemma connections_loop_None:
  "connections_loop f resolve seen cs = None \<longleftrightarrow>
     (\<forall>c \<in> set cs. sc_serviceBlockId c \<noteq> f \<and> sc_serviceBlockId c \<notin> set seen
        \<and> (\<exists>t. resolve (sc_serviceBlockId c) = Some t \<and> bl_level t = FrameLevel
             \<and> bl_type t = ServiceType))
     \<and> distinct (map sc_serviceBlockId cs)"
proof (induction f resolve seen cs rule: connections_loop.induct)
  case (1 frameId resolve seen)
  then show ?case by simp
next
  case (2 frameId resolve seen c cs)
  have "distinct (map sc_serviceBlockId (c # cs)) \<longleftrightarrow>
      distinct (map sc_serviceBlockId cs) \<and>
      (\<forall>d \<in> set cs. sc_serviceBlockId d \<noteq> sc_serviceBlockId c)"
    by (auto simp: image_iff)
  with 2 show ?case by (simp add: Let_def split: option.splits) blast
qed

lemma involved_loop_None:
  "involved_loop frame nbs seen is = None \<longleftrightarrow>
     (\<forall>i \<in> set is. i \<noteq> bl_id frame \<and> i \<notin> set seen \<and> i \<in> set nbs) \<and> distinct is"
  by (induction frame nbs seen "is" rule: involved_loop.induct) auto

lemma branches_loop_Inr:
  "branches_loop seen n bs = Inr m \<longleftrightarrow>
     distinct (map ab_name bs) \<and> set (map ab_name bs) \<inter> set seen = {}
     \<and> m = n + length (filter (\<lambda>b. ab_mode b = WorkingBranch) bs)"
  by (induction seen n bs arbitrary: m rule: branches_loop.induct) auto

section \<open>Properties\<close>

text \<open>
  C34. The guard of a new dependency is exact: the edge from the target to the source is refused if
  and only if the source already depends, through any chain of blocks, on the target. The search
  always ends, on cyclic graphs and dangling ids too.
\<close>

theorem cycle_guard_exact:
  "wouldCreateCycle blocks targetId sourceId \<longleftrightarrow>
     targetId \<noteq> sourceId \<and> (sourceId, targetId) \<in> (dep_edges blocks)\<^sup>*"
  by (simp only: wouldCreateCycle_def cycle_search_exact if_bool_eq_conj) blast

text \<open>
  A cascade takes exactly the subtree: the doomed ids are the root and everything below it in the
  containment relation, each once, however deep and even on a parent cycle.
\<close>

theorem cascade_takes_exactly_the_subtree:
  "set (descendantIds blocks rootId) = {x. (rootId, x) \<in> (child_edges blocks)\<^sup>*}
   \<and> distinct (descendantIds blocks rootId)
   \<and> (\<exists>rest. descendantIds blocks rootId = rootId # rest)"
proof -
  have "distinct (descend blocks doomed)" if "distinct doomed" for doomed
    using that
  proof (induction blocks doomed rule: descend.induct)
    case (1 blocks doomed)
    then show ?case by (subst descend.simps) (simp add: Let_def child_pass_distinct)
  qed
  moreover have "\<exists>rest. descend blocks doomed = doomed @ rest" for doomed
  proof (induction blocks doomed rule: descend.induct)
    case (1 blocks doomed)
    show ?case
    proof (cases "child_pass blocks doomed = doomed")
      case True
      then show ?thesis by (subst descend.simps) simp
    next
      case False
      obtain new rest where "child_pass blocks doomed = doomed @ new"
        "descend blocks (child_pass blocks doomed) = child_pass blocks doomed @ rest"
        using child_pass_grows [of blocks doomed] 1 [OF refl False] by blast
      then have "descend blocks doomed = doomed @ (new @ rest)"
        using False by (subst descend.simps) (simp add: Let_def)
      then show ?thesis by blast
    qed
  qed
  from this [of "[rootId]"] have "\<exists>rest. descend blocks [rootId] = rootId # rest" by simp
  ultimately show ?thesis
    unfolding descendantIds_def by (simp add: descend_exact)
qed

text \<open>
  On a board whose links are all legal, the walk to the owning service returns, and the bounded
  walk of the kernel with its eight hops finds the same service frame as the free walk of the board.
\<close>

theorem service_walks_agree:
  assumes "\<forall>p \<in> set blocks. tree_ok (block_by_id blocks) p" and "b \<in> set blocks"
  shows "\<exists>f. serviceOf blocks b = Some f
    \<and> (case resolveServiceFrameBlock (block_by_id blocks) i (Some b) of
         None \<Rightarrow> None | Some r \<Rightarrow> if bl_level r = FrameLevel then Some r else None) = f"
proof -
  have all: "tree_ok (block_by_id blocks) p" if "block_by_id blocks j = Some p" for j p
    using assms(1) block_by_id_Some [OF that] by blast
  have b: "tree_ok (block_by_id blocks) b" using assms by blast
  have "level_depth (bl_level b) < 8" by (simp add: level_depth_def split: block_level.split)
  from resolve_loop_agrees [OF all b this] service_walk_returns [OF all b]
  show ?thesis by (auto simp: resolveServiceFrameBlock_def serviceOf_def)
qed

definition small_board :: "block list" where
  "small_board = [bare_block ''api'' FrameLevel None, bare_block ''auth'' ModuleLevel (Some ''api''),
     bare_block ''login'' TaskLevel (Some ''auth'')]"

theorem service_walks_agree_witness:
  "serviceOf small_board (small_board ! 2) = Some (Some (small_board ! 0))"
proof -
  have "\<forall>p \<in> set small_board. tree_ok (block_by_id small_board) p"
    by (simp add: small_board_def tree_ok_def parent_block_def bare_block_def block_by_id_def
        nonempty_def canReparent_def)
  moreover have "small_board ! 2 \<in> set small_board" by (simp add: small_board_def)
  moreover have "resolveServiceFrameBlock (block_by_id small_board) [] (Some (small_board ! 2))
      = Some (small_board ! 0)" by code_simp
  moreover have "bl_level (small_board ! 0) = FrameLevel" by (simp add: small_board_def bare_block_def)
  ultimately show ?thesis
    using service_walks_agree [of small_board "small_board ! 2" "[]"] by auto
qed

end
