(* ===== verification/RunMachine.thy ===== *)
theory RunMachine
  imports RunStore Delegation BlockModel
begin

text \<open>
  \<^verbatim>\<open>RunStateMachine\<close>: the transitions of a run over the stored rows, the board's blocks, the
  inbox and the effects that leave the engine. An operation is a function of the world that
  returns an error or a result together with the new world, so that what was written before an
  error stays written. The services the code may have unwired are fields of \<open>machine_deps\<close>.
  Left out: the metrics rollup of an emit, the confidence score a finished block records, the prose
  of hints and cards, and the swallowed
  failures of best-effort calls. Blocks and cards are those of the run's workspace.
\<close>

section \<open>The world\<close>

datatype card_type =
    PipelineComplete | DecisionRequired | BudgetPaused
  | FollowupPending | ForkDecisionPending | PrReviewReady | MergeReview

record card =
  cd_type :: card_type
  cd_blockId :: "string option"
  cd_executionId :: "string option"

datatype lifecycle_kind = RunStarted | RunStepCompleted | RunCompleted | RunFailed

record lifecycle_step =
  ls_index :: nat
  ls_agentKind :: string
  ls_skipped :: bool
  ls_attempt :: nat
  ls_final :: bool

record lifecycle_event =
  le_event :: lifecycle_kind
  le_runId :: string
  le_taskId :: string
  le_taskTitle :: string
  le_pipelineId :: string
  le_pipelineName :: string
  le_startedAt :: "int option"
  le_occurredAt :: int
  le_pullRequestUrl :: "string option"
  le_failure :: "(failure_kind \<times> string \<times> string option) option"
  le_step :: "lifecycle_step option"

datatype effect =
    ExecutionChanged instance_rec
  | BoardChanged string block
  | KaizenScheduled string
  | TraceRecorded string
  | InitiativePoked string instance_rec
  | ActivationDeleted string
  | Lifecycle lifecycle_event
  | ContainersReclaimed string string "string list" "delegation_handle list"
  | DecisionSignalled string string
  | TrackRecorded string string
  | CardRaised card

record machine_deps =
  md_sink :: bool
  md_notifications :: bool
  md_raise_ok :: "card \<Rightarrow> bool"
  md_kaizen :: bool
  md_trace :: bool
  md_activations :: bool
  md_initiatives :: bool
  md_trackRecord :: bool
  md_reclaim :: "(delegation_handle list \<Rightarrow> reclaim_report) option"
  md_redact :: "string \<Rightarrow> string"
  md_errorText :: "store_error \<Rightarrow> string"
  md_nextId :: "nat \<Rightarrow> string"

record world =
  wd_ws :: string
  wd_now :: int
  wd_runs :: run_table
  wd_blocks :: "block list"
  wd_cards :: "card list"
  wd_effects :: "effect list"
  wd_ids :: nat

datatype machine_error =
    RunContended string
  | StoreFailed store_error
  | RaiseFailed card
  | NoApprovalAt nat
  | DispatchThrew string

type_synonym 'a act = "(world, machine_error, 'a) action"

definition put_effects :: "effect list \<Rightarrow> unit act" where
  "put_effects es w = (Inr (), w\<lparr>wd_effects := wd_effects w @ es\<rparr>)"

definition block_in :: "world \<Rightarrow> string \<Rightarrow> block option" where
  "block_in w i = List.find (\<lambda>b. bl_id b = i) (wd_blocks w)"

definition set_block :: "string \<Rightarrow> (block \<Rightarrow> block) \<Rightarrow> world \<Rightarrow> world" where
  "set_block i f w =
     w\<lparr>wd_blocks := map (\<lambda>b. if bl_id b = i then f b else b) (wd_blocks w)\<rparr>"

definition get_block :: "string \<Rightarrow> block option act" where
  "get_block i w = (Inr (block_in w i), w)"

definition update_block :: "string \<Rightarrow> (block \<Rightarrow> block) \<Rightarrow> unit act" where
  "update_block i f w = (Inr (), set_block i f w)"

lemmas act_world [act_simps] = put_effects_def get_block_def update_block_def

definition is_internal :: "block option \<Rightarrow> bool" where
  "is_internal b = (case b of None \<Rightarrow> False | Some x \<Rightarrow> bl_internal x = Some True)"

text \<open>An open card per block and type; raising it again replaces it.\<close>

definition raise_card :: "machine_deps \<Rightarrow> card \<Rightarrow> unit act" where
  "raise_card deps c w =
     (if \<not> md_notifications deps then (Inr (), w)
      else if \<not> md_raise_ok deps c then (Inl (RaiseFailed c), w)
      else (Inr (), w\<lparr>wd_cards :=
              filter (\<lambda>d. \<not> (cd_type d = cd_type c \<and> cd_blockId d = cd_blockId c)) (wd_cards w)
              @ [c],
            wd_effects := wd_effects w @ [CardRaised c]\<rparr>))"

section \<open>Persisting\<close>

definition casPersist :: "instance_rec \<Rightarrow> instance_rec act" where
  "casPersist i w =
     (case compareAndSwap (wd_ws w) (wd_now w) i (wd_runs w) of
        Inl e \<Rightarrow> (Inl (StoreFailed e), w)
      | Inr (swapped, i', t') \<Rightarrow>
          if swapped then (Inr i', w\<lparr>wd_runs := t'\<rparr>) else (Inl (RunContended (in_id i)), w))"

definition upsertRun :: "instance_rec \<Rightarrow> instance_rec act" where
  "upsertRun i w =
     (case upsert (wd_ws w) (wd_now w) i (wd_runs w) of
        Inl e \<Rightarrow> (Inl (StoreFailed e), w)
      | Inr (i', t') \<Rightarrow> (Inr i', w\<lparr>wd_runs := t'\<rparr>))"

section \<open>Emitting\<close>

definition publishRunLifecycle ::
  "machine_deps \<Rightarrow> int \<Rightarrow> instance_rec \<Rightarrow> block option \<Rightarrow> lifecycle_kind \<Rightarrow> lifecycle_step option \<Rightarrow>
     effect list" where
  "publishRunLifecycle deps now i b event s =
     (if \<not> md_sink deps \<or> is_internal b then []
      else [Lifecycle
        \<lparr>le_event = event, le_runId = in_id i, le_taskId = in_blockId i,
         le_taskTitle = (case b of None \<Rightarrow> [] | Some x \<Rightarrow> bl_title x),
         le_pipelineId = in_pipelineId i, le_pipelineName = in_pipelineName i,
         le_startedAt = in_createdAt i, le_occurredAt = now,
         le_pullRequestUrl = map_option pr_url (Option.bind b bl_pullRequest),
         le_failure =
           (if event = RunFailed
            then map_option (\<lambda>f. (af_kind f, md_redact deps (af_message f), af_reason f))
                   (in_failure i)
            else None),
         le_step = s\<rparr>])"

definition publishRunStarted ::
  "machine_deps \<Rightarrow> int \<Rightarrow> instance_rec \<Rightarrow> block option \<Rightarrow> effect list" where
  "publishRunStarted deps now i b = publishRunLifecycle deps now i b RunStarted None"

definition lifecycle_step_at :: "instance_rec \<Rightarrow> nat \<Rightarrow> lifecycle_step" where
  "lifecycle_step_at i k =
     (let s = in_steps i ! k
      in \<lparr>ls_index = k, ls_agentKind = st_agentKind s, ls_skipped = (st_skipped s = Some True),
          ls_attempt = or_else (st_attempts s) 1, ls_final = (Suc k = length (in_steps i))\<rparr>)"

definition publishStepsCompleted ::
  "machine_deps \<Rightarrow> instance_rec \<Rightarrow> nat list \<Rightarrow> unit act" where
  "publishStepsCompleted deps i ks w =
     (if \<not> md_sink deps \<or> ks = [] then (Inr (), w)
      else put_effects (concat (map (\<lambda>k.
             if k < length (in_steps i)
             then publishRunLifecycle deps (wd_now w) i (block_in w (in_blockId i))
                    RunStepCompleted (Some (lifecycle_step_at i k))
             else []) ks)) w)"

definition publishStepCompleted :: "machine_deps \<Rightarrow> instance_rec \<Rightarrow> nat \<Rightarrow> unit act" where
  "publishStepCompleted deps i k = publishStepsCompleted deps i [k]"

definition stamp_run_id :: "instance_rec \<Rightarrow> instance_rec" where
  "stamp_run_id i = i\<lparr>in_steps := map (\<lambda>s. s\<lparr>st_runId := Some (in_id i)\<rparr>) (in_steps i)\<rparr>"

text \<open>The effects of an emit, in the order the code makes them.\<close>

definition emit_effects ::
  "machine_deps \<Rightarrow> int \<Rightarrow> instance_rec \<Rightarrow> block option \<Rightarrow> effect list" where
  "emit_effects deps now i b =
     (let settled = terminal_status (in_status i);
          initiative = (case b of None \<Rightarrow> None | Some x \<Rightarrow> nonempty (bl_initiativeId x))
      in (if is_internal b then [] else [ExecutionChanged i])
       @ (if md_kaizen deps \<and> settled then [KaizenScheduled (in_id i)] else [])
       @ (if md_trace deps \<and> settled then [TraceRecorded (in_id i)] else [])
       @ (case initiative of None \<Rightarrow> []
          | Some ini \<Rightarrow> if settled \<and> md_initiatives deps then [InitiativePoked ini i] else [])
       @ (if md_activations deps \<and> settled then [ActivationDeleted (in_id i)] else [])
       @ (if settled
          then publishRunLifecycle deps now i b
                 (if in_status i = RunDone then RunCompleted else RunFailed) None
          else []))"

definition emitInstance :: "machine_deps \<Rightarrow> instance_rec \<Rightarrow> instance_rec act" where
  "emitInstance deps i w =
     (let i' = stamp_run_id i
      in (Inr i', w\<lparr>wd_effects := wd_effects w @
            emit_effects deps (wd_now w) i' (block_in w (in_blockId i))\<rparr>))"

section \<open>The block's status and progress\<close>

definition steps_done :: "step list \<Rightarrow> nat" where
  "steps_done steps = length (filter (\<lambda>s. st_state s = StepDone) steps)"

definition block_progress :: "instance_rec \<Rightarrow> rat" where
  "block_progress i =
     (let total = (if in_steps i = [] then 1 else length (in_steps i))
      in min 1 (of_nat (steps_done (in_steps i)) / of_nat total))"

definition updateBlockProgress :: "instance_rec \<Rightarrow> block_status \<Rightarrow> unit act" where
  "updateBlockProgress i status = update_block (in_blockId i)
     (\<lambda>b. b\<lparr>bl_status := status, bl_progress := block_progress i\<rparr>)"

definition refreshBlockProgress :: "instance_rec \<Rightarrow> unit act" where
  "refreshBlockProgress i = update_block (in_blockId i)
     (\<lambda>b. b\<lparr>bl_progress := block_progress i\<rparr>)"

definition persistAndEmit ::
  "machine_deps \<Rightarrow> instance_rec \<Rightarrow> block_status option \<Rightarrow> instance_rec act" where
  "persistAndEmit deps i blockStatus =
     act_then (case blockStatus of None \<Rightarrow> act_return () | Some st \<Rightarrow> updateBlockProgress i st)
       (act_bind (casPersist i) (emitInstance deps))"

section \<open>Parking\<close>

text \<open>\<^verbatim>\<open>idGenerator.next('appr')\<close> draws the next id of the deployment's generator.\<close>

definition openDecisionPark ::
  "machine_deps \<Rightarrow> string \<Rightarrow> step \<Rightarrow> (string \<times> step) act" where
  "openDecisionPark deps proposal s w =
     (let aid = md_nextId deps (wd_ids w)
      in (Inr (aid, pauseStepForInput (wd_now w)
            (s\<lparr>st_approval := Some (pending_approval aid proposal)\<rparr>)),
          w\<lparr>wd_ids := Suc (wd_ids w)\<rparr>))"

text \<open>The step is the element \<open>k\<close> of the run's steps; the result is the decision the driver parks on.\<close>

definition parkStepOnDecision ::
  "machine_deps \<Rightarrow> instance_rec \<Rightarrow> nat \<Rightarrow> string \<Rightarrow> (string \<times> instance_rec) act" where
  "parkStepOnDecision deps i k proposal =
     act_bind (openDecisionPark deps proposal (in_steps i ! k)) (\<lambda>(aid, s).
       let i1 = i\<lparr>in_steps := (in_steps i)[k := s], in_status := Blocked\<rparr>
       in act_then (updateBlockProgress i1 BlockBlocked)
            (act_bind (upsertRun i1) (\<lambda>i2.
               act_bind (emitInstance deps i2) (\<lambda>i3. act_return (aid, i3)))))"

definition finishHumanGateStep :: "int \<Rightarrow> bool \<Rightarrow> step \<Rightarrow> step" where
  "finishHumanGateStep now clearPendingInterview s =
     (let s1 = (finishStep now s)\<lparr>st_progress := 1, st_subtasks := None, st_approval := None\<rparr>
      in if clearPendingInterview then s1\<lparr>st_pendingInterview := None\<rparr> else s1)"

section \<open>Reclaiming the run's containers\<close>

definition job_of_run :: "instance_rec \<Rightarrow> string" where
  "job_of_run i =
     (if in_currentStep i < length (in_steps i)
      then or_else (st_jobId (in_steps i ! in_currentStep i)) (in_id i) else in_id i)"

definition stopRunContainer :: "machine_deps \<Rightarrow> instance_rec \<Rightarrow> instance_rec act" where
  "stopRunContainer deps i w =
     (case md_reclaim deps of
        None \<Rightarrow> (Inr i, w)
      | Some reclaim \<Rightarrow>
          (let delegations = liveDelegations i (wd_ws w);
               w1 = w\<lparr>wd_effects := wd_effects w @
                       [ContainersReclaimed (job_of_run i) (in_id i)
                          (dispatchedAgentKinds (in_steps i)) delegations]\<rparr>
           in if delegations = [] then (Inr i, w1)
              else (case applyDelegationCancellation (reclaim delegations) i of
                      (i', changed) \<Rightarrow> if changed then casPersist i' w1 else (Inr i', w1))))"

section \<open>Finishing a pipeline\<close>

definition INITIATIVE_AGENT_KINDS :: "string list" where
  "INITIATIVE_AGENT_KINDS =
     [''initiative-interviewer'', ''initiative-analyst'', ''initiative-planner'',
      ''initiative-committer'']"

definition isInitiativeAgentKind :: "string \<Rightarrow> bool" where
  "isInitiativeAgentKind k \<longleftrightarrow> k \<in> set INITIATIVE_AGENT_KINDS"

definition raisePipelineComplete :: "machine_deps \<Rightarrow> instance_rec \<Rightarrow> block \<Rightarrow> unit act" where
  "raisePipelineComplete deps i b =
     act_then (if md_trackRecord deps then put_effects [TrackRecorded (bl_id b) (in_id i)]
               else act_return ())
       (raise_card deps \<lparr>cd_type = PipelineComplete, cd_blockId = Some (bl_id b),
                         cd_executionId = Some (in_id i)\<rparr>)"

definition set_status :: "block_status \<Rightarrow> rat \<Rightarrow> block \<Rightarrow> block" where
  "set_status st p b = b\<lparr>bl_status := st, bl_progress := p\<rparr>"

definition finalizeBlock :: "machine_deps \<Rightarrow> instance_rec \<Rightarrow> unit act" where
  "finalizeBlock deps i = act_bind (get_block (in_blockId i)) (\<lambda>found. case found of
      None \<Rightarrow> act_return ()
    | Some b \<Rightarrow>
        if bl_status b = BlockDone then act_return ()
        else if bl_level b \<noteq> TaskLevel then
          (if list_ex (\<lambda>s. isInitiativeAgentKind (st_agentKind s)) (in_steps i)
           then update_block (bl_id b) (set_status InProgress 0)
           else update_block (bl_id b)
             (set_status (if list_all (\<lambda>s. st_agentKind s = ''blueprints'') (in_steps i)
                          then Ready else BlockDone) 1))
        else if list_ex (\<lambda>s. st_agentKind s = ''merger'') (in_steps i) then
          act_bind (get_block (bl_id b)) (\<lambda>fresh. case fresh of
             None \<Rightarrow> act_return ()
           | Some f \<Rightarrow>
               if bl_status f \<noteq> BlockDone \<and> bl_status f \<noteq> PrReady
               then update_block (bl_id b) (set_status PrReady 1) else act_return ())
        else if allPullRequests b = [] \<or> taskTypeAttachesPullRequest (bl_taskType b) then
          update_block (bl_id b) (set_status BlockDone 1)
        else act_then (raisePipelineComplete deps i b)
               (update_block (bl_id b) (set_status PrReady 1)))"

definition blockIsTerminal :: "instance_rec \<Rightarrow> bool act" where
  "blockIsTerminal i w =
     (Inr (case block_in w (in_blockId i) of
             None \<Rightarrow> False | Some b \<Rightarrow> bl_status b = BlockDone \<or> bl_status b = PrReady), w)"

section \<open>Settling a step\<close>

datatype advance_result =
    Continue
  | AwaitingDecision string
  | AwaitingJob string nat "(int \<times> int) option"
  | AwaitingGate nat
  | AwaitingEnvironment nat
  | AwaitingInvestigations nat
  | JobFailed string "failure_kind option" "string option" "string option"
  | JobEvicted string "string option"
  | AdvanceDone
  | AdvancePaused
  | Noop

definition settleStepAndAdvance ::
  "machine_deps \<Rightarrow> instance_rec \<Rightarrow> bool \<Rightarrow> bool \<Rightarrow> (advance_result \<times> instance_rec) act" where
  "settleStepAndAdvance deps i isFinalStep resolverOwnsTerminalStatus =
     (if isFinalStep then
        (let i1 = i\<lparr>in_status := RunDone\<rparr>
         in act_then (finalizeBlock deps i1)
              (act_bind (persistAndEmit deps i1 None) (\<lambda>i2.
                 act_bind (stopRunContainer deps i2) (\<lambda>i3.
                   act_then (publishStepCompleted deps i3 (in_currentStep i))
                     (act_return (AdvanceDone, i3))))))
      else (\<lambda>w.
        let k = Suc (in_currentStep i);
            i1 = i\<lparr>in_currentStep := k,
                   in_steps := update_at k (startStep (wd_now w)) (in_steps i)\<rparr>
        in act_bind
             (act_bind (blockIsTerminal i1) (\<lambda>terminal.
                if resolverOwnsTerminalStatus \<or> terminal
                then act_then (refreshBlockProgress i1) (persistAndEmit deps i1 None)
                else persistAndEmit deps i1 (Some InProgress)))
             (\<lambda>i2. act_then (publishStepCompleted deps i2 (in_currentStep i))
                     (act_return (Continue, i2))) w))"

definition advanceRunPastGate :: "int \<Rightarrow> instance_rec \<Rightarrow> nat \<Rightarrow> instance_rec \<times> bool" where
  "advanceRunPastGate now i k =
     (let steps1 = update_at k (\<lambda>s. (finishStep now s)\<lparr>st_progress := 1\<rparr>) (in_steps i);
          isFinalStep = (Suc k = length (in_steps i))
      in if isFinalStep then (i\<lparr>in_steps := steps1, in_status := RunDone\<rparr>, True)
         else (i\<lparr>in_steps := update_at (Suc k) (startStep now) steps1, in_currentStep := Suc k,
                 in_status := (if in_status i = Blocked then Running else in_status i)\<rparr>, False))"

definition settleAdvancedGate :: "machine_deps \<Rightarrow> instance_rec \<Rightarrow> nat \<Rightarrow> instance_rec act" where
  "settleAdvancedGate deps i k =
     (case st_approval (in_steps i ! k) of
        None \<Rightarrow> act_throw (NoApprovalAt k)
      | Some a \<Rightarrow>
          act_bind
            (if Suc k = length (in_steps i)
             then act_then (finalizeBlock deps i) (stopRunContainer deps i)
             else act_bind (blockIsTerminal i) (\<lambda>terminal.
                    act_then (if terminal then refreshBlockProgress i
                              else updateBlockProgress i InProgress) (act_return i)))
            (\<lambda>i1. act_then (put_effects [DecisionSignalled (in_id i1) (ap_id a)])
               (act_bind (emitInstance deps i1) (\<lambda>i2.
                  act_then (publishStepCompleted deps i2 k) (act_return i2)))))"

section \<open>Failing a run\<close>

record run_failure =
  rf_message :: string
  rf_kind :: failure_kind
  rf_detail :: "string option"
  rf_reason :: "string option"

text \<open>A status this build does not know is the one fault that is not disposed of.\<close>

definition malformed :: "store_error \<Rightarrow> bool" where
  "malformed e = (case e of NoBlockId r \<Rightarrow> True | CursorOutOfBounds r c n \<Rightarrow> True
                  | BadStatus r s \<Rightarrow> False | UniqueViolation \<Rightarrow> False)"

definition failUnreadableRun :: "machine_deps \<Rightarrow> string \<Rightarrow> store_error \<Rightarrow> unit act" where
  "failUnreadableRun deps runId cause w =
     (let failure = \<lparr>af_kind = StateUnreadable,
              af_message = ''This run's stored state could not be read, so it could not be resumed.'',
              af_detail = Some (md_errorText deps cause),
              af_reason = Some ''run_state_unreadable'', af_occurredAt = wd_now w,
              af_lastSubtasks = None, af_stepIndex = None\<rparr>;
          w1 = w\<lparr>wd_runs := markFailed (wd_ws w) (wd_now w) runId failure (wd_runs w)\<rparr>
      in case List.find (\<lambda>b. bl_executionId b = Some runId) (wd_blocks w1) of
           None \<Rightarrow> (Inr (), w1)
         | Some b \<Rightarrow>
             act_then (update_block (bl_id b) (\<lambda>x. x\<lparr>bl_status := BlockBlocked\<rparr>))
               (put_effects (if is_internal (Some b) then []
                 else [BoardChanged ''run-state-unreadable'' (b\<lparr>bl_status := BlockBlocked\<rparr>)])) w1)"

definition loadOrDispose :: "machine_deps \<Rightarrow> string \<Rightarrow> instance_rec option act" where
  "loadOrDispose deps runId w =
     (case get_run (wd_ws w) runId (wd_runs w) of
        Inr r \<Rightarrow> (Inr r, w)
      | Inl e \<Rightarrow>
          if malformed e
          then act_then (failUnreadableRun deps runId e) (act_return None) w
          else (Inl (StoreFailed e), w))"

definition failure_of :: "run_failure \<Rightarrow> int \<Rightarrow> instance_rec \<Rightarrow> agent_failure" where
  "failure_of f now i =
     \<lparr>af_kind = rf_kind f, af_message = rf_message f, af_detail = rf_detail f,
      af_reason = rf_reason f, af_occurredAt = now,
      af_lastSubtasks = (if in_currentStep i < length (in_steps i)
                         then st_subtasks (in_steps i ! in_currentStep i) else None),
      af_stepIndex = Some (in_currentStep i)\<rparr>"

text \<open>The steps of \<^verbatim>\<open>failRun\<close> after the reclaim: the guarded write, the re-read, the projection.\<close>

definition project_failure :: "machine_deps \<Rightarrow> string \<Rightarrow> unit act" where
  "project_failure deps runId w =
     (case get_run (wd_ws w) runId (wd_runs w) of
        Inl e \<Rightarrow> (Inl (StoreFailed e), w)
      | Inr None \<Rightarrow> (Inr (), w)
      | Inr (Some failed) \<Rightarrow>
          act_then
            (if in_status failed = Failed
             then update_block (in_blockId failed)
                    (set_status BlockBlocked
                      (if in_steps failed = [] then 0
                       else of_nat (steps_done (in_steps failed)) / of_nat (length (in_steps failed))))
             else act_return ())
            (act_then (emitInstance deps failed) (act_return ())) w)"

definition failRun :: "machine_deps \<Rightarrow> string \<Rightarrow> run_failure \<Rightarrow> unit act" where
  "failRun deps runId f = act_bind (loadOrDispose deps runId) (\<lambda>loaded. case loaded of
      None \<Rightarrow> act_return ()
    | Some i0 \<Rightarrow> act_bind (stopRunContainer deps i0) (\<lambda>i.
        if in_status i = Failed \<or> in_status i = RunDone then act_return ()
        else (\<lambda>w. project_failure deps runId
               (w\<lparr>wd_runs := markFailed (wd_ws w) (wd_now w) runId (failure_of f (wd_now w) i)
                              (wd_runs w)\<rparr>))))"

section \<open>The inbox\<close>

definition raiseDecisionRequired :: "machine_deps \<Rightarrow> instance_rec \<Rightarrow> unit act" where
  "raiseDecisionRequired deps i w =
     (if \<not> md_notifications deps then (Inr (), w)
      else case block_in w (in_blockId i) of
        None \<Rightarrow> (Inr (), w)
      | Some b \<Rightarrow> raise_card deps \<lparr>cd_type = DecisionRequired, cd_blockId = Some (bl_id b),
                                   cd_executionId = Some (in_id i)\<rparr> w)"

definition ensureWaitingNotification :: "machine_deps \<Rightarrow> instance_rec \<Rightarrow> unit act" where
  "ensureWaitingNotification deps i w =
     (if \<not> md_notifications deps then (Inr (), w)
      else if list_ex (\<lambda>c. cd_blockId c = Some (in_blockId i) \<and> cd_executionId c = Some (in_id i))
                (wd_cards w)
      then (Inr (), w)
      else case block_in w (in_blockId i) of
        None \<Rightarrow> (Inr (), w)
      | Some b \<Rightarrow> raise_card deps \<lparr>cd_type = DecisionRequired, cd_blockId = Some (bl_id b),
                                   cd_executionId = Some (in_id i)\<rparr> w)"

definition clearWaitingNotification :: "machine_deps \<Rightarrow> instance_rec \<Rightarrow> unit act" where
  "clearWaitingNotification deps i w =
     (if \<not> md_notifications deps then (Inr (), w)
      else (Inr (), w\<lparr>wd_cards := filter (\<lambda>c. \<not> (cd_blockId c = Some (in_blockId i)
              \<and> cd_type c \<in> {DecisionRequired, FollowupPending, ForkDecisionPending, PrReviewReady}))
              (wd_cards w)\<rparr>))"

definition raiseBudgetPaused :: "machine_deps \<Rightarrow> unit act" where
  "raiseBudgetPaused deps w =
     (if \<not> md_notifications deps then (Inr (), w)
      else if list_ex (\<lambda>c. cd_type c = BudgetPaused \<and> cd_blockId c = None) (wd_cards w)
      then (Inr (), w)
      else raise_card deps \<lparr>cd_type = BudgetPaused, cd_blockId = None, cd_executionId = None\<rparr> w)"

definition clearBudgetPaused :: "machine_deps \<Rightarrow> unit act" where
  "clearBudgetPaused deps w =
     (if \<not> md_notifications deps then (Inr (), w)
      else (Inr (), w\<lparr>wd_cards := filter (\<lambda>c. \<not> (cd_type c = BudgetPaused \<and> cd_blockId c = None))
              (wd_cards w)\<rparr>))"

section \<open>Laws\<close>

lemma casPersist_Inr:
  "casPersist i w = (Inr i', w') \<longleftrightarrow>
     (\<exists>t'. compareAndSwap (wd_ws w) (wd_now w) i (wd_runs w) = Inr (True, i', t')
        \<and> w' = w\<lparr>wd_runs := t'\<rparr>)"
  by (auto simp: casPersist_def split: sum.splits if_splits)

lemma casPersist_Inl: "casPersist i w = (Inl e, w') \<Longrightarrow> w' = w"
  by (auto simp: casPersist_def split: sum.splits if_splits)

lemma emitInstance_eq:
  "emitInstance deps i w = (Inr (stamp_run_id i), w\<lparr>wd_effects := wd_effects w @
     emit_effects deps (wd_now w) (stamp_run_id i) (block_in w (in_blockId i))\<rparr>)"
  by (simp add: emitInstance_def Let_def)

lemma stamp_run_id_simps [simp]:
  "in_id (stamp_run_id i) = in_id i"
  "in_rev (stamp_run_id i) = in_rev i"
  "in_status (stamp_run_id i) = in_status i"
  "in_blockId (stamp_run_id i) = in_blockId i"
  "in_currentStep (stamp_run_id i) = in_currentStep i"
  "length (in_steps (stamp_run_id i)) = length (in_steps i)"
  by (simp_all add: stamp_run_id_def)

lemma executionToDetail_stamp [simp]:
  "executionToDetail (stamp_run_id i) = executionToDetail i"
  "executionToDetail (i\<lparr>in_rev := n\<rparr>) = executionToDetail i"
  by (simp_all add: executionToDetail_def assertPersistableExecution_def stamp_run_id_def comp_def)

lemma set_block_simps [simp]:
  "wd_runs (set_block i f w) = wd_runs w"
  "wd_effects (set_block i f w) = wd_effects w"
  "wd_cards (set_block i f w) = wd_cards w"
  "wd_ws (set_block i f w) = wd_ws w"
  "wd_now (set_block i f w) = wd_now w"
  "wd_ids (set_block i f w) = wd_ids w"
  by (simp_all add: set_block_def)

lemma block_in_set_block:
  assumes "\<And>b. bl_id (f b) = bl_id b"
  shows "block_in (set_block i f w) j =
    map_option (\<lambda>b. if j = i then f b else b) (block_in w j)"
proof -
  have "List.find (\<lambda>b. bl_id b = j) (map (\<lambda>b. if bl_id b = i then f b else b) bs)
      = map_option (\<lambda>b. if j = i then f b else b) (List.find (\<lambda>b. bl_id b = j) bs)" for bs
    using assms by (induction bs) auto
  then show ?thesis by (simp add: block_in_def set_block_def)
qed

lemma block_in_id: "block_in w j = Some b \<Longrightarrow> bl_id b = j"
  by (auto simp: block_in_def find_Some_iff)

text \<open>A status prologue changes neither the rows nor the effects.\<close>

lemma persistAndEmit_eq:
  "persistAndEmit deps i st w =
     (let w0 = (case st of None \<Rightarrow> w
                | Some x \<Rightarrow> set_block (in_blockId i)
                    (\<lambda>b. b\<lparr>bl_status := x, bl_progress := block_progress i\<rparr>) w)
      in case casPersist i w0 of (Inl e, w1) \<Rightarrow> (Inl e, w1)
         | (Inr i', w1) \<Rightarrow> emitInstance deps i' w1)"
  by (simp add: persistAndEmit_def act_simps updateBlockProgress_def Let_def split: option.split)

lemma settleStep_next:
  "settleStepAndAdvance deps i False owns w =
     (let k = Suc (in_currentStep i);
          i1 = i\<lparr>in_currentStep := k,
                 in_steps := update_at k (startStep (wd_now w)) (in_steps i)\<rparr>;
          terminal = (case block_in w (in_blockId i) of None \<Rightarrow> False
                      | Some b \<Rightarrow> bl_status b = BlockDone \<or> bl_status b = PrReady);
          w0 = (if owns \<or> terminal
                then set_block (in_blockId i) (\<lambda>b. b\<lparr>bl_progress := block_progress i1\<rparr>) w
                else w)
      in case persistAndEmit deps i1 (if owns \<or> terminal then None else Some InProgress) w0 of
           (Inl e, w1) \<Rightarrow> (Inl e, w1)
         | (Inr i2, w1) \<Rightarrow>
             (Inr (Continue, i2), snd (publishStepCompleted deps i2 (in_currentStep i) w1)))"
  by (simp add: settleStepAndAdvance_def act_simps Let_def blockIsTerminal_def
      refreshBlockProgress_def publishStepCompleted_def publishStepsCompleted_def
      split: prod.split sum.split option.split)

text \<open>What a persist-and-emit leaves: the row it wrote, read back, and the effects after it.\<close>

lemma persistAndEmit_Inr:
  assumes "persistAndEmit deps i st w = (Inr j, w')"
  shows "wd_ws w' = wd_ws w \<and> j = stamp_run_id (i\<lparr>in_rev := Suc (in_rev i)\<rparr>)
    \<and> (\<exists>row. find_row (wd_ws w) (in_id i) (wd_runs w') = Some row
          \<and> rowToExecution row = Inr (normalised row i) \<and> rr_rev row = Suc (in_rev i))
    \<and> wd_effects w' = wd_effects w
         @ emit_effects deps (wd_now w) j (block_in w' (in_blockId i))"
proof -
  define w0 where "w0 = (case st of None \<Rightarrow> w
      | Some x \<Rightarrow> set_block (in_blockId i)
          (\<lambda>b. b\<lparr>bl_status := x, bl_progress := block_progress i\<rparr>) w)"
  have w0: "wd_ws w0 = wd_ws w" "wd_now w0 = wd_now w" "wd_effects w0 = wd_effects w"
    by (simp_all add: w0_def split: option.split)
  from assms obtain i1 w1 where c: "casPersist i w0 = (Inr i1, w1)"
    and e: "emitInstance deps i1 w1 = (Inr j, w')"
    unfolding persistAndEmit_eq Let_def w0_def [symmetric]
    by (auto split: prod.splits sum.splits)
  from c obtain t' where cas: "compareAndSwap (wd_ws w0) (wd_now w0) i (wd_runs w0)
      = Inr (True, i1, t')" and w1: "w1 = w0\<lparr>wd_runs := t'\<rparr>"
    unfolding casPersist_Inr by blast
  from compareAndSwap_True [OF cas] obtain r d where
    d: "executionToDetail i = Inr d" "find_row (wd_ws w0) (in_id i) (wd_runs w0) = Some r"
    "rr_rev r = in_rev i"
    "find_row (wd_ws w0) (in_id i) t' = Some (write_row (wd_now w0) i d r)"
    "i1 = i\<lparr>in_rev := Suc (in_rev i)\<rparr>"
    by blast
  have rid: "rr_id r = in_id i" using find_row_Some [OF d(2)] by simp
  from e have j: "j = stamp_run_id i1" and w': "w' = w1\<lparr>wd_effects := wd_effects w1 @
      emit_effects deps (wd_now w1) (stamp_run_id i1) (block_in w1 (in_blockId i1))\<rparr>"
    unfolding emitInstance_eq by (simp_all add: eq_commute [of _ w'])
  have "rowToExecution (write_row (wd_now w0) i d r)
      = Inr (normalised (write_row (wd_now w0) i d r) i)"
    by (rule rowToExecution_written [OF d(1)]) (simp_all add: rid)
  with d j w' w1 w0 show ?thesis by (auto simp: block_in_def)
qed

lemma persistAndEmit_Inl:
  assumes "persistAndEmit deps i st w = (Inl e, w')"
  shows "wd_runs w' = wd_runs w \<and> wd_effects w' = wd_effects w \<and> wd_cards w' = wd_cards w"
  using assms unfolding persistAndEmit_eq Let_def
  by (auto simp: emitInstance_eq dest!: casPersist_Inl split: prod.splits sum.splits option.splits)

text \<open>What the operations that write the board, the inbox and the effects leave of the runs.\<close>

lemma put_effects_runs [simp]:
  "snd (put_effects es w) = w\<lparr>wd_effects := wd_effects w @ es\<rparr>"
  "fst (put_effects es w) = Inr ()"
  by (simp_all add: put_effects_def)

definition reclaims :: "effect \<Rightarrow> bool" where
  "reclaims e \<longleftrightarrow> (case e of ContainersReclaimed j r ks ds \<Rightarrow> True | _ \<Rightarrow> False)"

text \<open>An act that touches neither the runs nor the containers.\<close>

definition quiet :: "'a act \<Rightarrow> bool" where
  "quiet m \<longleftrightarrow> (\<forall>w. wd_runs (snd (m w)) = wd_runs w \<and> wd_ws (snd (m w)) = wd_ws w
     \<and> wd_now (snd (m w)) = wd_now w
     \<and> filter reclaims (wd_effects (snd (m w))) = filter reclaims (wd_effects w))"

lemma quiet_return [intro]: "quiet (act_return x)"
  by (simp add: quiet_def act_return_def)

lemma quiet_throw [intro]: "quiet (act_throw x)"
  by (simp add: quiet_def act_throw_def)

lemma quiet_bind [intro]: "quiet m \<Longrightarrow> (\<And>x. quiet (f x)) \<Longrightarrow> quiet (act_bind m f)"
  by (auto simp: quiet_def act_bind_def split: prod.split sum.split) (metis snd_conv)+

lemma quiet_then [intro]: "quiet m \<Longrightarrow> quiet n \<Longrightarrow> quiet (act_then m n)"
  by (simp add: act_then_def quiet_bind)

lemma quiet_effects [intro]: "(\<And>e. e \<in> set es \<Longrightarrow> \<not> reclaims e) \<Longrightarrow> quiet (put_effects es)"
  by (auto simp: quiet_def filter_empty_conv)

lemma quiet_world [intro]: "quiet (get_block i)" "quiet (update_block i f)"
  by (simp_all add: quiet_def get_block_def update_block_def)

lemma quiet_progress [intro]: "quiet (refreshBlockProgress i)" "quiet (updateBlockProgress i st)"
  by (auto simp: refreshBlockProgress_def updateBlockProgress_def)

lemma quiet_terminal [intro]: "quiet (blockIsTerminal i)"
  by (simp add: quiet_def blockIsTerminal_def)

lemma quiet_card [intro]: "quiet (raise_card deps c)"
  by (auto simp: quiet_def raise_card_def reclaims_def)

lemma quiet_if: "quiet m \<Longrightarrow> quiet n \<Longrightarrow> quiet (if b then m else n)"
  by simp

lemma quiet_option: "quiet m \<Longrightarrow> (\<And>y. quiet (f y)) \<Longrightarrow> quiet (case x of None \<Rightarrow> m | Some y \<Rightarrow> f y)"
  by (cases x) simp_all

lemmas quiet_intros = quiet_if quiet_option quiet_bind quiet_then quiet_world quiet_return quiet_card

lemma quiet_complete [intro]: "quiet (raisePipelineComplete deps i b)"
  unfolding raisePipelineComplete_def
  by (intro quiet_intros quiet_effects) (simp add: reclaims_def)

lemma quiet_finalize: "quiet (finalizeBlock deps i)"
  unfolding finalizeBlock_def by (intro quiet_intros quiet_complete)

lemma lifecycle_quiet: "e \<in> set (publishRunLifecycle deps now i b ev s) \<Longrightarrow> \<not> reclaims e"
  by (auto simp: publishRunLifecycle_def reclaims_def split: if_splits)

lemma quiet_published [intro]: "quiet (publishStepCompleted deps i k)"
proof -
  have "quiet (put_effects (concat (map (\<lambda>k. if k < length (in_steps i)
      then publishRunLifecycle deps now i b RunStepCompleted (Some (lifecycle_step_at i k)) else []) [k])))"
    for now b
    by (rule quiet_effects) (auto split: if_splits dest: lifecycle_quiet)
  then show ?thesis
    by (auto simp: quiet_def publishStepCompleted_def publishStepsCompleted_def)
qed

lemma emit_effects_quiet: "e \<in> set (emit_effects deps now i b) \<Longrightarrow> \<not> reclaims e"
  by (auto simp: emit_effects_def Let_def reclaims_def dest: lifecycle_quiet
      split: if_splits option.splits)

lemma quiet_emit [intro]: "quiet (emitInstance deps i)"
  by (auto simp: quiet_def emitInstance_eq filter_empty_conv dest: emit_effects_quiet)

text \<open>Reclaiming: the status and the failure of the stored run survive.\<close>

lemma stopRunContainer_row:
  assumes "stopRunContainer deps i w = (Inr j, w')" and "find_row (wd_ws w) (in_id i) (wd_runs w) = Some r"
    and "rr_status r = status_text (in_status i)"
  shows "in_status j = in_status i \<and> in_id j = in_id i \<and> wd_ws w' = wd_ws w \<and> wd_now w' = wd_now w
    \<and> (\<exists>r'. find_row (wd_ws w) (in_id i) (wd_runs w') = Some r' \<and> rr_status r' = rr_status r
         \<and> rr_failure r' = rr_failure r)"
proof (cases "md_reclaim deps")
  case None
  with assms show ?thesis by (simp add: stopRunContainer_def)
next
  case (Some reclaim)
  define ds where "ds = liveDelegations i (wd_ws w)"
  define w1 where "w1 = w\<lparr>wd_effects := wd_effects w @
      [ContainersReclaimed (job_of_run i) (in_id i) (dispatchedAgentKinds (in_steps i)) ds]\<rparr>"
  obtain i' ch where can: "applyDelegationCancellation (reclaim ds) i = (i', ch)"
    by (metis surj_pair)
  have i': "in_id i' = in_id i" "in_status i' = in_status i" "in_rev i' = in_rev i"
    using can by (auto simp: applyDelegationCancellation_def)
  have w1: "wd_runs w1 = wd_runs w" "wd_ws w1 = wd_ws w" "wd_now w1 = wd_now w"
    by (simp_all add: w1_def)
  show ?thesis
  proof (cases "ds \<noteq> [] \<and> ch")
    case False
    with assms(1,2) Some can i' w1 show ?thesis
      by (auto simp: stopRunContainer_def Let_def ds_def [symmetric] w1_def [symmetric] split: if_splits)
  next
    case True
    then have "casPersist i' w1 = (Inr j, w')"
      using assms(1) Some can by (auto simp: stopRunContainer_def Let_def ds_def [symmetric] w1_def [symmetric])
    then obtain t' where t': "compareAndSwap (wd_ws w1) (wd_now w1) i' (wd_runs w1) = Inr (True, j, t')"
      "w' = w1\<lparr>wd_runs := t'\<rparr>" unfolding casPersist_Inr by blast
    from compareAndSwap_True [OF t'(1)] obtain r0 d where
      "find_row (wd_ws w1) (in_id i') (wd_runs w1) = Some r0"
      "find_row (wd_ws w1) (in_id i') t' = Some (write_row (wd_now w1) i' d r0)"
      "j = i'\<lparr>in_rev := Suc (in_rev i')\<rparr>" by blast
    with assms(2,3) i' w1 t'(2) show ?thesis by auto
  qed
qed

lemma project_failure_runs: "wd_runs (snd (project_failure deps rid w)) = wd_runs w"
proof -
  have "quiet (act_then (if b then update_block k f else act_return ())
      (act_then (emitInstance deps j) (act_return ())))" for b k f j
    by auto
  then show ?thesis
    by (auto simp: project_failure_def quiet_def split: sum.split option.split)
qed

lemma stopRunContainer_Inl:
  "stopRunContainer deps i w = (Inl e, w') \<Longrightarrow> wd_runs w' = wd_runs w"
  by (auto simp: stopRunContainer_def Let_def dest!: casPersist_Inl
      split: option.splits if_splits prod.splits)

lemma persistAndEmit_reclaims:
  "filter reclaims (wd_effects (snd (persistAndEmit deps i st w))) = filter reclaims (wd_effects w)"
proof (cases "persistAndEmit deps i st w")
  case (Pair r w')
  show ?thesis
  proof (cases r)
    case (Inl e)
    with Pair persistAndEmit_Inl [of deps i st w e w'] show ?thesis by simp
  next
    case (Inr j)
    with Pair persistAndEmit_Inr [of deps i st w j w'] show ?thesis
      by (auto simp: filter_empty_conv dest: emit_effects_quiet)
  qed
qed

text \<open>A step that is not the last reclaims nothing.\<close>

lemma settle_next_reclaims:
  "filter reclaims (wd_effects (snd (settleStepAndAdvance deps i False owns w)))
     = filter reclaims (wd_effects w)"
proof -
  have pub: "filter reclaims (wd_effects (snd (publishStepCompleted deps j k v)))
      = filter reclaims (wd_effects v)" for j k v
    using quiet_published [of deps j k] by (simp add: quiet_def)
  have inner: "filter reclaims (wd_effects (snd (case persistAndEmit deps i1 st w0 of
        (Inl e, w1) \<Rightarrow> (Inl e, w1)
      | (Inr i2, w1) \<Rightarrow> (Inr (Continue, i2), snd (publishStepCompleted deps i2 k w1)))))
      = filter reclaims (wd_effects w0)" for i1 st w0 k
    using persistAndEmit_reclaims [of deps i1 st w0]
    by (cases "persistAndEmit deps i1 st w0"; cases "fst (persistAndEmit deps i1 st w0)") (simp_all add: pub)
  have w0: "wd_effects (if b then set_block k f w else w) = wd_effects w" for b k f by simp
  show ?thesis
    unfolding settleStep_next Let_def inner w0 ..
qed

text \<open>The final step: the run is stored as done before anything is reclaimed.\<close>

lemma settleStep_final:
  assumes "finalizeBlock deps (i\<lparr>in_status := RunDone\<rparr>) w = (x1, w1)"
    and "persistAndEmit deps (i\<lparr>in_status := RunDone\<rparr>) None w1 = (x2, w2)"
  shows "settleStepAndAdvance deps i True owns w =
      (case x1 of Inl e \<Rightarrow> (Inl e, w1) | Inr _ \<Rightarrow>
        (case x2 of Inl e \<Rightarrow> (Inl e, w2) | Inr i2 \<Rightarrow>
          (case stopRunContainer deps i2 w2 of (Inl e, w3) \<Rightarrow> (Inl e, w3)
           | (Inr i3, w3) \<Rightarrow> (Inr (AdvanceDone, i3),
               snd (publishStepCompleted deps i3 (in_currentStep i) w3)))))"
  by (simp add: settleStepAndAdvance_def act_simps assms publishStepCompleted_def
      publishStepsCompleted_def Let_def split: sum.split prod.split)

lemma settle_final_done:
  assumes "settleStepAndAdvance deps i True owns w = (r, w')"
    and "filter reclaims (wd_effects w') \<noteq> filter reclaims (wd_effects w)"
  shows "\<exists>row. find_row (wd_ws w) (in_id i) (wd_runs w') = Some row \<and> rr_status row = ''done''"
proof -
  let ?i = "i\<lparr>in_status := RunDone\<rparr>"
  obtain x1 w1 where fin: "finalizeBlock deps ?i w = (x1, w1)" by (metis surj_pair)
  have w1: "wd_ws w1 = wd_ws w" "filter reclaims (wd_effects w1) = filter reclaims (wd_effects w)"
    using quiet_finalize [of deps ?i] fin unfolding quiet_def by (metis snd_conv)+
  obtain x2 w2 where per: "persistAndEmit deps ?i None w1 = (x2, w2)" by (metis surj_pair)
  have w2: "filter reclaims (wd_effects w2) = filter reclaims (wd_effects w)"
    using persistAndEmit_reclaims [of deps ?i None w1] per w1 by simp
  note settle = settleStep_final [OF fin per, of owns]
  from settle assms w1(2) w2 obtain i2 where x2: "x2 = Inr i2" and x1: "\<exists>u. x1 = Inr u"
    by (auto split: sum.splits)
  from persistAndEmit_Inr [of deps ?i None w1 i2 w2] per x2 obtain row where
    row: "wd_ws w2 = wd_ws w1" "i2 = stamp_run_id (?i\<lparr>in_rev := Suc (in_rev ?i)\<rparr>)"
      "find_row (wd_ws w1) (in_id ?i) (wd_runs w2) = Some row"
      "rowToExecution row = Inr (normalised row ?i)" by auto
  have i2: "in_id i2 = in_id i" "in_status i2 = RunDone" by (simp_all add: row(2))
  have st: "rr_status row = status_text RunDone"
    using rowToExecution_keys [OF row(4)] by (simp add: normalised_def)
  have fine: "rr_status row = ''done''" using st by (simp add: status_text_def)
  obtain x3 w3 where stop: "stopRunContainer deps i2 w2 = (x3, w3)" by (metis surj_pair)
  show ?thesis
  proof (cases x3)
    case (Inl e)
    then have "w' = w3" using settle assms(1) x1 x2 stop by auto
    with stopRunContainer_Inl [of deps i2 w2 e w3] stop Inl row w1 fine show ?thesis by auto
  next
    case (Inr i3)
    then have "w' = snd (publishStepCompleted deps i3 (in_currentStep i) w3)"
      using settle assms(1) x1 x2 stop by auto
    then have "wd_runs w' = wd_runs w3"
      using quiet_published [of deps i3 "in_currentStep i"] by (simp add: quiet_def)
    moreover have "find_row (wd_ws w2) (in_id i2) (wd_runs w2) = Some row"
      using row w1 i2 by simp
    ultimately show ?thesis
      using stopRunContainer_row [of deps i2 w2 i3 w3 row] stop Inr i2 st row w1 fine by auto
  qed
qed

text \<open>The run a park writes, and the write it makes.\<close>

definition parked_run :: "machine_deps \<Rightarrow> instance_rec \<Rightarrow> nat \<Rightarrow> string \<Rightarrow> world \<Rightarrow> instance_rec" where
  "parked_run deps i k proposal w =
     i\<lparr>in_steps := (in_steps i)[k := pauseStepForInput (wd_now w)
        ((in_steps i ! k)\<lparr>st_approval := Some (pending_approval (md_nextId deps (wd_ids w)) proposal)\<rparr>)], in_status := Blocked\<rparr>"

lemma parked_run_simps [simp]:
  "in_id (parked_run deps i k p w) = in_id i" "in_status (parked_run deps i k p w) = Blocked"
  "in_blockId (parked_run deps i k p w) = in_blockId i"
  "in_currentStep (parked_run deps i k p w) = in_currentStep i"
  "length (in_steps (parked_run deps i k p w)) = length (in_steps i)"
  by (simp_all add: parked_run_def)

lemma park_upsert:
  "(\<exists>x w'. parkStepOnDecision deps i k p w = (Inr x, w') \<and> wd_runs w' = t') \<longleftrightarrow>
   (\<exists>i2. upsert (wd_ws w) (wd_now w) (parked_run deps i k p w) (wd_runs w) = Inr (i2, t'))"
  by (cases "upsert (wd_ws w) (wd_now w) (parked_run deps i k p w) (wd_runs w)")
     (auto simp: parkStepOnDecision_def openDecisionPark_def updateBlockProgress_def upsertRun_def
        emitInstance_eq act_simps Let_def parked_run_def [symmetric])

text \<open>A small world: one running run of a task, nothing wired but the reclaim.\<close>

definition example_deps :: machine_deps where
  "example_deps = \<lparr>md_sink = False, md_notifications = False, md_raise_ok = (\<lambda>_. True),
     md_kaizen = False, md_trace = False, md_activations = False, md_initiatives = False,
     md_trackRecord = False, md_reclaim = Some (\<lambda>_. []), md_redact = (\<lambda>s. s),
     md_errorText = (\<lambda>_. []), md_nextId = digits\<rparr>"

definition example_run :: instance_rec where
  "example_run = bare_run ''r1'' ''b1'' [bare_step ''coder'' Working]"

definition example_world :: "run_table \<Rightarrow> world" where
  "example_world t = \<lparr>wd_ws = ''w'', wd_now = 9, wd_runs = t,
     wd_blocks = [(bare_block ''b1'' TaskLevel None)\<lparr>bl_status := InProgress\<rparr>],
     wd_cards = [], wd_effects = [], wd_ids = 0\<rparr>"

lemma finalize_no_pull_request:
  assumes "block_in w (in_blockId i) = Some b" and "bl_level b = TaskLevel" and "bl_status b \<noteq> BlockDone"
    and "allPullRequests b = []" and "\<not> list_ex (\<lambda>s. st_agentKind s = ''merger'') (in_steps i)"
  shows "finalizeBlock deps i w = (Inr (), set_block (bl_id b) (set_status BlockDone 1) w)"
  using assms by (simp add: finalizeBlock_def act_simps)

lemma example_run_simps [simp]:
  "in_id example_run = ''r1''" "in_blockId example_run = ''b1''" "in_rev example_run = 0"
  "in_status example_run = Running" "in_currentStep example_run = 0"
  "in_steps example_run = [bare_step ''coder'' Working]"
  by (simp_all add: example_run_def bare_run_def)

lemma example_world_simps [simp]:
  "wd_ws (example_world t) = ''w''" "wd_runs (example_world t) = t" "wd_now (example_world t) = 9"
  "wd_effects (example_world t) = []"
  by (simp_all add: example_world_def)

lemma example_swap:
  assumes "in_id i = ''r1''" and "in_rev i = 0" and "in_blockId i = ''b1''"
    and "in_currentStep i \<le> length (in_steps i)"
  shows "\<exists>row. compareAndSwap ''w'' now i stored_example = Inr (True, i\<lparr>in_rev := 1\<rparr>, [row])"
proof -
  obtain d where d: "executionToDetail i = Inr d"
    using executionToDetail_Inr [of i] assms by auto
  from stored_example_eval obtain r where r: "stored_example = [r]" "rr_ws r = ''w''" "rr_id r = ''r1''"
    "rr_rev r = 0" by blast
  have "table_ok [write_row now i d r]" by (simp add: table_ok_def primary_key_def live_index_def)
  then show ?thesis
    unfolding compareAndSwap_def d r(1)
    by (simp add: assms r cas_hit_def has_key_def update_rows_def bind_result_def commit_def)
qed

section \<open>Properties\<close>


text \<open>
  Containers are reclaimed on the final step only, and only once the run is durably done: a step
  that is followed by another never reclaims, and whenever settling a final step has reclaimed
  something, the stored run is done.
\<close>

theorem containers_reclaimed_only_when_done:
  assumes "settleStepAndAdvance deps i final owns w = (r, w')"
    and "filter reclaims (wd_effects w') \<noteq> filter reclaims (wd_effects w)"
  shows "final \<and> (\<exists>row. find_row (wd_ws w) (in_id i) (wd_runs w') = Some row \<and> rr_status row = ''done'')"
proof (cases final)
  case True
  with settle_final_done assms show ?thesis by simp
next
  case False
  with settle_next_reclaims [of deps i owns w] assms show ?thesis by simp
qed


theorem containers_reclaimed_only_when_done_witness:
  "\<exists>row. find_row ''w'' ''r1'' (wd_runs (snd (settleStepAndAdvance example_deps example_run True False
       (example_world stored_example)))) = Some row \<and> rr_status row = ''done''"
proof -
  let ?w = "example_world stored_example"
  let ?b = "(bare_block ''b1'' TaskLevel None)\<lparr>bl_status := InProgress\<rparr>"
  let ?i = "example_run\<lparr>in_status := RunDone\<rparr>"
  obtain row where cas: "compareAndSwap ''w'' 9 ?i stored_example = Inr (True, ?i\<lparr>in_rev := 1\<rparr>, [row])"
    using example_swap [of ?i 9] by auto
  obtain w1 where fin: "finalizeBlock example_deps ?i ?w = (Inr (), w1)"
    and w1: "wd_ws w1 = ''w''" "wd_now w1 = 9" "wd_runs w1 = stored_example" "wd_effects w1 = []"
    using finalize_no_pull_request [of ?w ?i ?b example_deps]
    by (simp add: block_in_def example_world_def bare_block_def bare_step_def allPullRequests_def)
  let ?j = "stamp_run_id (?i\<lparr>in_rev := 1\<rparr>)"
  have c: "casPersist ?i w1 = (Inr (?i\<lparr>in_rev := 1\<rparr>), w1\<lparr>wd_runs := [row]\<rparr>)"
    using cas w1 by (simp add: casPersist_def)
  have "fst (persistAndEmit example_deps ?i None w1) = Inr ?j"
    by (simp add: persistAndEmit_eq c emitInstance_eq)
  then obtain w2 where per: "persistAndEmit example_deps ?i None w1 = (Inr ?j, w2)"
    by (metis prod.collapse)
  have w2: "filter reclaims (wd_effects w2) = []"
    using persistAndEmit_reclaims [of example_deps ?i None w1] w1 per by simp
  have j: "liveDelegations ?j v = []" for v
    by (simp add: liveDelegations_def stamp_run_id_def bare_step_def)
  define e where "e = ContainersReclaimed (job_of_run ?j) (in_id ?j) (dispatchedAgentKinds (in_steps ?j)) []"
  have e: "reclaims e" by (simp add: e_def reclaims_def)
  have md: "md_reclaim example_deps = Some (\<lambda>_. [])" by (simp add: example_deps_def)
  have stop: "stopRunContainer example_deps ?j w2 = (Inr ?j, w2\<lparr>wd_effects := wd_effects w2 @ [e]\<rparr>)"
    unfolding stopRunContainer_def md j Let_def by (simp add: e_def)
  obtain r w' where s: "settleStepAndAdvance example_deps example_run True False ?w = (r, w')"
    by (metis surj_pair)
  then have "w' = snd (publishStepCompleted example_deps ?j 0 (w2\<lparr>wd_effects := wd_effects w2 @ [e]\<rparr>))"
    using settleStep_final [OF fin per, of False] stop by simp
  then have "filter reclaims (wd_effects w') \<noteq> []"
    using e by (simp add: publishStepCompleted_def publishStepsCompleted_def example_deps_def)
  with containers_reclaimed_only_when_done [OF s] s show ?thesis by simp
qed

text \<open>
  C35. Failing a run records exactly the failure it was given, and only on a run that has not settled:
  a run that is still live ends failed, with the kind and the message of the failure, and one that
  is already done or failed keeps its status and its failure.
\<close>

theorem fail_run_records_failure:
  assumes "failRun deps rid f w = (Inr (), w')" and "find_row (wd_ws w) rid (wd_runs w) = Some r"
    and "rowToExecution r = Inr i"
  shows "\<exists>r'. find_row (wd_ws w) rid (wd_runs w') = Some r'
    \<and> (if terminal_status (in_status i)
       then rr_status r' = rr_status r \<and> rr_failure r' = rr_failure r
       else rr_status r' = ''failed'' \<and> (\<exists>af. rr_failure r' = Some af
              \<and> af_kind af = rf_kind f \<and> af_message af = rf_message f
              \<and> af_detail af = rf_detail f \<and> af_reason af = rf_reason f
              \<and> af_occurredAt af = wd_now w))"
proof -
  have rid: "in_id i = rid" "rr_status r = status_text (in_status i)"
    using rowToExecution_keys [OF assms(3)] find_row_Some [OF assms(2)] by simp_all
  have load: "loadOrDispose deps rid w = (Inr (Some i), w)"
    using assms(2,3) by (simp add: loadOrDispose_def get_run_def)
  obtain x w1 where stop: "stopRunContainer deps i w = (x, w1)" by (metis surj_pair)
  with assms(1) load obtain j where x: "x = Inr j"
    by (auto simp: failRun_def act_simps split: sum.splits)
  from stopRunContainer_row [of deps i w j w1 r] stop x assms(2) rid obtain r1 where
    r1: "in_status j = in_status i" "wd_ws w1 = wd_ws w" "wd_now w1 = wd_now w"
      "find_row (wd_ws w) rid (wd_runs w1) = Some r1" "rr_status r1 = rr_status r"
      "rr_failure r1 = rr_failure r" by auto
  show ?thesis
  proof (cases "terminal_status (in_status i)")
    case True
    then have "w' = w1" using assms(1) load stop x r1(1)
      by (auto simp: failRun_def act_simps terminal_status_def)
    with r1 True show ?thesis by auto
  next
    case False
    define w2 where "w2 = w1\<lparr>wd_runs := markFailed (wd_ws w1) (wd_now w1) rid
      (failure_of f (wd_now w1) j) (wd_runs w1)\<rparr>"
    have "project_failure deps rid w2 = (Inr (), w')"
      using assms(1) load stop x r1(1) False
      by (auto simp: failRun_def act_simps terminal_status_def w2_def)
    then have "wd_runs w' = wd_runs w2" using project_failure_runs by (metis snd_conv)
    moreover have "rr_status r1 \<notin> {''done'', ''failed''}"
      using r1 rid False by (cases "in_status i") (auto simp: status_text_def terminal_status_def)
    ultimately show ?thesis
      using r1 False find_row_Some [OF r1(4)] by (simp add: w2_def markFailed_def find_row_update has_key_def failure_of_def)
  qed
qed

theorem fail_run_records_failure_witness:
  "\<exists>r' w'. failRun (example_deps\<lparr>md_reclaim := None\<rparr>) ''r1''
       \<lparr>rf_message = ''gone'', rf_kind = Evicted, rf_detail = None, rf_reason = None\<rparr>
       (example_world stored_example) = (Inr (), w')
     \<and> find_row ''w'' ''r1'' (wd_runs w') = Some r' \<and> rr_status r' = ''failed''"
proof -
  let ?d = "example_deps\<lparr>md_reclaim := None\<rparr>" and ?w = "example_world stored_example"
  let ?f = "\<lparr>rf_message = ''gone'', rf_kind = Evicted, rf_detail = None, rf_reason = None\<rparr>"
  from stored_example_eval obtain r where r: "find_row ''w'' ''r1'' stored_example = Some r"
    "rr_status r = ''running''" by blast
  from stored_example_eval(2) r(1) obtain i where i: "rowToExecution r = Inr i"
    by (auto simp: readable_def get_run_Some)
  have st: "in_status i = Running"
    using rowToExecution_keys [OF i] r(2) by (cases "in_status i") (auto simp: status_text_def)
  have stop: "stopRunContainer ?d i ?w = (Inr i, ?w)" by (simp add: stopRunContainer_def)
  have load: "loadOrDispose ?d ''r1'' ?w = (Inr (Some i), ?w)"
    using r i by (simp add: loadOrDispose_def get_run_def)
  define t where "t = markFailed ''w'' 9 ''r1'' (failure_of ?f 9 i) stored_example"
  have "find_row ''w'' ''r1'' t = Some (r\<lparr>rr_status := ''failed'', rr_failure := Some (failure_of ?f 9 i),
      rr_updated_at := 9, rr_rev := Suc (rr_rev r)\<rparr>)"
    using r find_row_Some [OF r(1)] by (simp add: t_def markFailed_def find_row_update has_key_def)
  with failed_row_readable [OF i] obtain j where "get_run ''w'' ''r1'' t = Inr (Some j)"
    unfolding get_run_Some by blast
  then have "fst (project_failure ?d ''r1'' (?w\<lparr>wd_runs := t\<rparr>)) = Inr ()"
    by (simp add: project_failure_def act_simps emitInstance_eq)
  then obtain w' where run: "failRun ?d ''r1'' ?f ?w = (Inr (), w')"
    using load stop st by (cases "project_failure ?d ''r1'' (?w\<lparr>wd_runs := t\<rparr>)")
       (simp add: failRun_def act_simps t_def)
  have "find_row (wd_ws ?w) ''r1'' (wd_runs ?w) = Some r" using r by simp
  from fail_run_records_failure [OF run this i] run st show ?thesis
    by (auto simp: terminal_status_def)
qed

text \<open>
  Settling the final step finishes the board before the run: when the run was moved meanwhile
  (cancelled, or failed by a sweeper) the swap is refused and nothing is announced, but the block
  of a task without a pull request has already been written as done and stays done, although the
  stored run is not.
\<close>

theorem lost_final_swap_leaves_block_done:
  assumes "compareAndSwap (wd_ws w) (wd_now w) (i\<lparr>in_status := RunDone\<rparr>) (wd_runs w) = Inr (False, i', t')"
    and "block_in w (in_blockId i) = Some b" and "bl_level b = TaskLevel" and "bl_status b \<noteq> BlockDone"
    and "allPullRequests b = []" and "\<not> list_ex (\<lambda>s. st_agentKind s = ''merger'') (in_steps i)"
  shows "\<exists>w' b'. settleStepAndAdvance deps i True owns w = (Inl (RunContended (in_id i)), w')
    \<and> wd_runs w' = wd_runs w \<and> wd_effects w' = wd_effects w
    \<and> block_in w' (in_blockId i) = Some b' \<and> bl_status b' = BlockDone"
proof -
  let ?i = "i\<lparr>in_status := RunDone\<rparr>" and ?f = "set_status BlockDone 1"
  let ?w1 = "set_block (bl_id b) ?f w"
  have fin: "finalizeBlock deps ?i w = (Inr (), ?w1)"
    using finalize_no_pull_request [of w ?i b deps] assms by simp
  have "casPersist ?i ?w1 = (Inl (RunContended (in_id i)), ?w1)"
    using assms(1) by (simp add: casPersist_def)
  then have per: "persistAndEmit deps ?i None ?w1 = (Inl (RunContended (in_id i)), ?w1)"
    by (simp add: persistAndEmit_eq)
  have "block_in ?w1 (in_blockId i) = Some (?f b)"
    using block_in_id [OF assms(2)] assms(2) by (simp add: block_in_set_block set_status_def)
  then show ?thesis
    unfolding settleStep_final [OF fin per] by (simp add: set_status_def)
qed

text \<open>A run that was failed after the driver read it.\<close>

definition failed_table :: run_table where
  "failed_table = markFailed ''w'' 7 ''r1'' \<lparr>af_kind = Cancelled, af_message = ''stopped'',
     af_detail = None, af_reason = None, af_occurredAt = 7, af_lastSubtasks = None,
     af_stepIndex = None\<rparr> stored_example"

lemma failed_table_eval:
  "\<exists>r. failed_table = [r] \<and> find_row ''w'' ''r1'' failed_table = Some r \<and> rr_status r = ''failed''
    \<and> rr_ws r = ''w'' \<and> rr_id r = ''r1'' \<and> rr_rev r = 1"
proof -
  from stored_example_eval(1) obtain r where r: "stored_example = [r]" "rr_ws r = ''w''"
    "rr_id r = ''r1''" "rr_rev r = 0" "rr_status r = ''running''" by blast
  show ?thesis
    unfolding failed_table_def markFailed_def update_rows_def find_row_def r(1)
    by (simp add: r has_key_def)
qed

theorem lost_final_swap_leaves_block_done_witness:
  "\<exists>w' b'. settleStepAndAdvance example_deps example_run True False (example_world failed_table)
       = (Inl (RunContended ''r1''), w')
     \<and> block_in w' ''b1'' = Some b' \<and> bl_status b' = BlockDone"
proof -
  let ?i = "example_run\<lparr>in_status := RunDone\<rparr>"
  let ?b = "(bare_block ''b1'' TaskLevel None)\<lparr>bl_status := InProgress\<rparr>"
  obtain d where "executionToDetail ?i = Inr d" using executionToDetail_Inr [of ?i] by auto
  moreover obtain r where r: "failed_table = [r]" "rr_rev r = 1" using failed_table_eval by blast
  have "\<not> list_ex (cas_hit ''w'' ?i) failed_table" unfolding r(1) by (simp add: cas_hit_def r(2))
  ultimately have refused: "compareAndSwap ''w'' 9 ?i failed_table = Inr (False, ?i, failed_table)"
    by (simp add: compareAndSwap_def)
  have "block_in (example_world failed_table) ''b1'' = Some ?b"
    by (simp add: block_in_def example_world_def bare_block_def)
  with lost_final_swap_leaves_block_done [of "example_world failed_table" example_run ?i failed_table ?b
      example_deps False] refused
  show ?thesis by (auto simp: bare_block_def bare_step_def allPullRequests_def)
qed

text \<open>
  A park is written without the revision guard: whatever has become of the stored run since the
  engine read it, a park that returns leaves it blocked, at the next revision and with the failure
  it had. A run that was cancelled in between is blocked again and waits for a decision.
\<close>

theorem park_writes_blind:
  assumes "parkStepOnDecision deps i k proposal w = (Inr (aid, j), w')"
    and "find_row (wd_ws w) (in_id i) (wd_runs w) = Some r"
  shows "\<exists>r'. find_row (wd_ws w) (in_id i) (wd_runs w') = Some r' \<and> rr_status r' = ''blocked''
    \<and> rr_rev r' = Suc (rr_rev r) \<and> rr_failure r' = rr_failure r"
proof -
  let ?i1 = "parked_run deps i k proposal w"
  have "\<exists>i2. upsert (wd_ws w) (wd_now w) ?i1 (wd_runs w) = Inr (i2, wd_runs w')"
    using assms(1) park_upsert by blast
  then have "\<exists>d. wd_runs w' = update_rows (has_key (wd_ws w) (in_id i))
      (write_row (wd_now w) (adoptCreatedAt ?i1 (wd_now w)) d) (wd_runs w)"
    using assms(2)
    by (auto simp: upsert_def Let_def bind_result_eq_Inr commit_Inr split: sum.splits) metis
  then obtain d where "wd_runs w' = update_rows (has_key (wd_ws w) (in_id i))
      (write_row (wd_now w) (adoptCreatedAt ?i1 (wd_now w)) d) (wd_runs w)" by blast
  with assms(2) find_row_Some [OF assms(2)] show ?thesis
    by (simp add: find_row_update has_key_def adoptCreatedAt_def status_text_def)
qed

theorem park_writes_blind_witness:
  "\<exists>w' x r'. parkStepOnDecision example_deps example_run 0 ''merge?'' (example_world failed_table) = (Inr x, w')
     \<and> find_row ''w'' ''r1'' (wd_runs w') = Some r' \<and> rr_status r' = ''blocked''"
proof -
  let ?w = "example_world failed_table"
  from failed_table_eval obtain r where r: "failed_table = [r]" "find_row ''w'' ''r1'' failed_table = Some r"
    "rr_ws r = ''w''" "rr_id r = ''r1''" by blast
  have "\<exists>i2 t'. upsert ''w'' 9 i1 failed_table = Inr (i2, t')"
    if "in_id i1 = ''r1''" "in_blockId i1 = ''b1''" "in_currentStep i1 \<le> length (in_steps i1)" for i1
  proof -
    have "in_blockId (adoptCreatedAt i1 9) \<noteq> []
        \<and> in_currentStep (adoptCreatedAt i1 9) \<le> length (in_steps (adoptCreatedAt i1 9))"
      using that by (simp add: adoptCreatedAt_def)
    then obtain d where d: "executionToDetail (adoptCreatedAt i1 9) = Inr d"
      using executionToDetail_Inr by blast
    have "table_ok [write_row 9 (adoptCreatedAt i1 9) d r]"
      by (simp add: table_ok_def primary_key_def live_index_def)
    then show ?thesis
      unfolding upsert_def Let_def d that(1) r(1) find_row_def
      by (simp add: r(3,4) bind_result_def commit_def update_rows_def has_key_def)
  qed
  then obtain i2 t' where "upsert (wd_ws ?w) (wd_now ?w)
      (parked_run example_deps example_run 0 ''merge?'' ?w) (wd_runs ?w) = Inr (i2, t')"
    by fastforce
  then obtain x w' where park: "parkStepOnDecision example_deps example_run 0 ''merge?'' ?w = (Inr x, w')"
    using park_upsert by blast
  obtain aid j where x: "x = (aid, j)" by (metis surj_pair)
  from park_writes_blind [OF park [unfolded x], of r] r park show ?thesis by auto
qed

end
