(* ===== verification/Lifecycle.thy ===== *)
theory Lifecycle
  imports RunMachine
begin

text \<open>
  The writers of a workspace's runs as a step relation: any number of drivers and request handlers
  hold snapshots they read, mutate them and swap them in, while failures are recorded and runs are
  started and deleted, in any order. A writer leaves the status of a run it read as settled alone,
  which is what the engine's entry points do (they answer \<^verbatim>\<open>noop\<close> there). The invariants say what
  the revision guard, the guard of \<^verbatim>\<open>markFailed\<close> and the live index give together.
\<close>

type_synonym run_system = "run_table \<times> instance_rec list"

inductive run_step :: "string \<Rightarrow> run_system \<Rightarrow> run_system \<Rightarrow> bool" for ws where
  load: "get_run ws rid t = Inr (Some i) \<Longrightarrow> run_step ws (t, h) (t, i # h)"
| swap: "\<lbrakk>i \<in> set h; in_id i' = in_id i; in_rev i' = in_rev i;
     terminal_status (in_status i) \<Longrightarrow> in_status i' = in_status i;
     compareAndSwap ws now i' t = Inr (b, j, t')\<rbrakk>
   \<Longrightarrow> run_step ws (t, h) (t', if b then j # h else h)"
| fail_run: "run_step ws (t, h) (markFailed ws now rid f t, h)"
| start: "\<lbrakk>find_row ws (in_id n) t = None; \<forall>i \<in> set h. in_id i \<noteq> in_id n;
     insertLive ws now n rep t = Inr (b, j, t')\<rbrakk>
   \<Longrightarrow> run_step ws (t, h) (t', if b then j # h else h)"
| delete: "run_step ws (t, h) (deleteByBlock ws block t, h)"

inductive_cases run_stepE: "run_step ws s s'"

definition snapshots_ok :: "string \<Rightarrow> run_system \<Rightarrow> bool" where
  "snapshots_ok ws s \<longleftrightarrow> table_ok (fst s) \<and> (\<forall>i \<in> set (snd s). \<forall>r.
     find_row ws (in_id i) (fst s) = Some r \<longrightarrow>
       in_rev i \<le> rr_rev r
       \<and> (in_rev i = rr_rev r \<longrightarrow> rr_status r = status_text (in_status i)))"

text \<open>A row that is still there is the row that was, or one that moved on.\<close>

definition row_evolves :: "string \<Rightarrow> run_table \<Rightarrow> run_table \<Rightarrow> bool" where
  "row_evolves ws t t' \<longleftrightarrow> (\<forall>rid r'. find_row ws rid t' = Some r' \<longrightarrow>
     (\<exists>r. find_row ws rid t = Some r \<and> (r' = r \<or> rr_rev r < rr_rev r')))"

lemma find_row_filter_sub:
  "primary_key t \<Longrightarrow> find_row ws rid (filter p t) = Some r \<Longrightarrow> find_row ws rid t = Some r"
  using find_row_Some [of ws rid "filter p t" r]
  by (intro primary_key_find) (auto simp: has_key_def)

lemma snapshots_evolve:
  assumes "snapshots_ok ws (t, h)" and "row_evolves ws t t'" and "table_ok t'"
  shows "snapshots_ok ws (t', h)"
  unfolding snapshots_ok_def fst_conv snd_conv
proof (intro conjI ballI allI impI)
  show "table_ok t'" by (rule assms(3))
next
  fix i r' assume "i \<in> set h" and r': "find_row ws (in_id i) t' = Some r'"
  moreover from assms(2) r' obtain r where r: "find_row ws (in_id i) t = Some r"
      "r' = r \<or> rr_rev r < rr_rev r'"
    unfolding row_evolves_def by blast
  ultimately have *: "in_rev i \<le> rr_rev r"
      "in_rev i = rr_rev r \<longrightarrow> rr_status r = status_text (in_status i)"
    using assms(1) unfolding snapshots_ok_def by auto
  then show "in_rev i \<le> rr_rev r'" using r(2) by auto
  assume "in_rev i = rr_rev r'"
  then show "rr_status r' = status_text (in_status i)" using * r(2) by auto
qed

lemma evolves_update:
  assumes "\<And>rid r. has_key ws rid (f r) = has_key ws rid r" and "\<And>r. rr_rev (f r) = Suc (rr_rev r)"
  shows "row_evolves ws t (update_rows p f t)"
  using assms by (auto simp: row_evolves_def find_row_update)

lemma evolves_filter: "primary_key t \<Longrightarrow> row_evolves ws t (filter p t)"
  unfolding row_evolves_def using find_row_filter_sub by blast

lemma markFailed_evolves: "row_evolves ws t (markFailed ws now rid f t)"
  unfolding markFailed_def by (rule evolves_update) (simp_all add: has_key_def)

lemma compareAndSwap_evolves:
  assumes "compareAndSwap ws now i t = Inr (b, j, t')"
  shows "row_evolves ws t t'"
proof (cases b)
  case True
  with compareAndSwap_True [of ws now i t j t'] assms obtain d where
    "t' = update_rows (cas_hit ws i) (write_row now i d) t" by auto
  then show ?thesis by (simp add: evolves_update)
next
  case False
  with compareAndSwap_False [of ws now i t j t'] assms have "t' = t" by simp
  then show ?thesis by (simp add: row_evolves_def)
qed

lemma insertLive_True:
  assumes "insertLive ws now n rep t = Inr (True, j, t')"
  shows "\<exists>d p. t' = filter p t @ [new_row ws now (adoptCreatedAt n now) d]
    \<and> j = (adoptCreatedAt n now)\<lparr>in_rev := 0\<rparr> \<and> table_ok t'"
  using assms
  by (auto simp: insertLive_def Let_def bind_result_eq_Inr commit_Inr split: sum.splits if_splits)

lemma insertLive_False:
  assumes "insertLive ws now n rep t = Inr (False, j, t')"
  shows "\<exists>p. t' = filter p t"
  using assms
  by (auto simp: insertLive_def Let_def bind_result_eq_Inr split: sum.splits if_splits)

lemma adoptCreatedAt_simps [simp]:
  "in_id (adoptCreatedAt i now) = in_id i"
  "in_status (adoptCreatedAt i now) = in_status i"
  "in_blockId (adoptCreatedAt i now) = in_blockId i"
  "in_rev (adoptCreatedAt i now) = in_rev i"
  by (simp_all add: adoptCreatedAt_def)

lemma new_row_simps [simp]:
  "rr_ws (new_row ws now i d) = ws"
  "rr_id (new_row ws now i d) = in_id i"
  "rr_rev (new_row ws now i d) = 0"
  "rr_status (new_row ws now i d) = status_text (in_status i)"
  "rr_block_id (new_row ws now i d) = in_blockId i"
  by (simp_all add: new_row_def)

lemma find_row_new:
  "find_row ws k (u @ [new_row ws now n d]) = (case find_row ws k u of
      None \<Rightarrow> if k = in_id n then Some (new_row ws now n d) else None | Some r \<Rightarrow> Some r)"
  by (simp add: find_row_append) (simp add: find_row_def has_key_def split: option.split)

lemma snapshots_step: "run_step ws s s' \<Longrightarrow> snapshots_ok ws s \<Longrightarrow> snapshots_ok ws s'"
proof (induction rule: run_step.induct)
  case (load rid t i h)
  then obtain r0 where r0: "find_row ws rid t = Some r0" "rowToExecution r0 = Inr i"
    by (auto simp: get_run_Some)
  from rowToExecution_keys [OF r0(2)] find_row_Some [OF r0(1)]
  have "in_id i = rid" "in_rev i = rr_rev r0" "rr_status r0 = status_text (in_status i)" by simp_all
  with load.prems r0(1) show ?case by (simp add: snapshots_ok_def)
next
  case (swap i h i' now t b j t')
  have ok: "table_ok t'"
    using swap.prems compareAndSwap_table_ok [OF _ swap.hyps(5)] by (simp add: snapshots_ok_def)
  have old: "snapshots_ok ws (t', h)"
    using snapshots_evolve [OF swap.prems compareAndSwap_evolves [OF swap.hyps(5)] ok] .
  show ?case
  proof (cases b)
    case True
    with compareAndSwap_True [of ws now i' t j t'] swap.hyps(5) obtain r d where
      "find_row ws (in_id i') t' = Some (write_row now i' d r)" "rr_rev r = in_rev i'"
      "j = i'\<lparr>in_rev := Suc (in_rev i')\<rparr>" by auto
    with old True show ?thesis by (auto simp: snapshots_ok_def)
  next
    case False
    with old show ?thesis by simp
  qed
next
  case (fail_run t h now rid f)
  then show ?case
    by (intro snapshots_evolve [OF fail_run] markFailed_evolves markFailed_table_ok)
       (simp add: snapshots_ok_def)
next
  case (start n t h now rep b j t')
  have pk: "primary_key t" using start.prems by (simp add: snapshots_ok_def table_ok_def)
  have ok: "table_ok t'"
    using start.prems insertLive_table_ok [OF _ start.hyps(3)] by (simp add: snapshots_ok_def)
  show ?case
  proof (cases b)
    case True
    with insertLive_True [of ws now n rep t j t'] start.hyps(3) obtain d p where
      t': "t' = filter p t @ [new_row ws now (adoptCreatedAt n now) d]" and
      j: "j = (adoptCreatedAt n now)\<lparr>in_rev := 0\<rparr>" by auto
    have fresh: "find_row ws (in_id n) (filter p t) = None"
      using start.hyps(1) by (auto simp: find_row_None)
    have "snapshots_ok ws (t', h)"
      unfolding snapshots_ok_def fst_conv snd_conv
    proof (intro conjI ballI allI)
      show "table_ok t'" by (rule ok)
    next
      fix i r assume i: "i \<in> set h"
      have "find_row ws (in_id i) t' = find_row ws (in_id i) (filter p t)"
        using start.hyps(2) i by (simp add: t' find_row_new split: option.split)
      then show "find_row ws (in_id i) t' = Some r \<longrightarrow> in_rev i \<le> rr_rev r
          \<and> (in_rev i = rr_rev r \<longrightarrow> rr_status r = status_text (in_status i))"
        using find_row_filter_sub [OF pk] i start.prems unfolding snapshots_ok_def by auto
    qed
    moreover have "find_row ws (in_id n) t' = Some (new_row ws now (adoptCreatedAt n now) d)"
      using fresh by (simp add: t' find_row_new)
    ultimately show ?thesis using True j by (auto simp: snapshots_ok_def)
  next
    case False
    with insertLive_False [of ws now n rep t j t'] start.hyps(3) obtain p where "t' = filter p t"
      by auto
    then have "row_evolves ws t t'" using evolves_filter [OF pk] by simp
    from snapshots_evolve [OF start.prems this ok] False show ?thesis by simp
  qed
next
  case (delete t h block)
  then show ?case
    unfolding deleteByBlock_def
    by (intro snapshots_evolve [OF delete] evolves_filter table_ok_filter)
       (simp_all add: snapshots_ok_def table_ok_def)
qed

text \<open>A settled row keeps its status and its failure for as long as it is there.\<close>

definition settled_row :: "run_row \<Rightarrow> bool" where
  "settled_row r \<longleftrightarrow> rr_status r = ''done'' \<or> rr_status r = ''failed''"

lemma settled_status_text: "settled_row r \<Longrightarrow> rr_status r = status_text s \<Longrightarrow> terminal_status s"
  by (cases s) (auto simp: settled_row_def status_text_def terminal_status_def)

lemma settled_step:
  assumes "run_step ws s s'" and "snapshots_ok ws s"
    and "find_row ws rid (fst s) = Some r" and "settled_row r"
  shows "find_row ws rid (fst s') = None \<or>
    (\<exists>r'. find_row ws rid (fst s') = Some r' \<and> rr_status r' = rr_status r
       \<and> rr_failure r' = rr_failure r)"
  using assms
proof (induction rule: run_step.induct)
  case (load k t i h)
  then show ?case by simp
next
  case (swap i h i' now t b j t')
  show ?case
  proof (cases b)
    case False
    with compareAndSwap_False [of ws now i' t j t'] swap show ?thesis by simp
  next
    case True
    with compareAndSwap_True [of ws now i' t j t'] swap.hyps(5) obtain r0 d where
      r0: "find_row ws (in_id i') t = Some r0" "rr_rev r0 = in_rev i'"
      "t' = update_rows (cas_hit ws i') (write_row now i' d) t" by auto
    show ?thesis
    proof (cases "cas_hit ws i' r")
      case True
      then have "in_id i' = rid" "rr_rev r = in_rev i"
        using swap.prems(2) swap.hyps(3) by (auto simp: cas_hit_def has_key_def dest: find_row_Some)
      then have st: "rr_status r = status_text (in_status i)"
        using swap.prems(1,2) swap.hyps(1,2) unfolding snapshots_ok_def by auto
      then have "in_status i' = in_status i"
        using swap.hyps(4) settled_status_text swap.prems(3) by blast
      with st True r0(3) swap.prems(2) show ?thesis by (simp add: find_row_update)
    next
      case False
      with r0(3) swap.prems(2) show ?thesis by (simp add: find_row_update)
    qed
  qed
next
  case (fail_run t h now k f)
  then show ?case
    by (auto simp: markFailed_def settled_row_def find_row_update has_key_def)
next
  case (start n t h now rep b j t')
  have pk: "primary_key t" using start.prems by (simp add: snapshots_ok_def table_ok_def)
  have same: "find_row ws rid (filter p t) = None \<or> find_row ws rid (filter p t) = Some r" for p
    using find_row_filter_sub [OF pk, of ws rid p] start.prems(2)
    by (cases "find_row ws rid (filter p t)") auto
  have ne: "rid \<noteq> in_id n" using start.hyps(1) start.prems(2) by auto
  show ?case
  proof (cases b)
    case True
    with insertLive_True [of ws now n rep t j t'] start.hyps(3) obtain d p where
      t': "t' = filter p t @ [new_row ws now (adoptCreatedAt n now) d]" by auto
    have "find_row ws rid t' = find_row ws rid (filter p t)"
      using ne by (simp add: t' find_row_new split: option.split)
    with same [of p] show ?thesis by auto
  next
    case False
    with insertLive_False [of ws now n rep t j t'] start.hyps(3) obtain p where "t' = filter p t"
      by auto
    with same [of p] show ?thesis by auto
  qed
next
  case (delete t h block)
  have pk: "primary_key t" using delete by (simp add: snapshots_ok_def table_ok_def)
  have "find_row ws rid (deleteByBlock ws block t) = None
      \<or> find_row ws rid (deleteByBlock ws block t) = Some r"
    unfolding deleteByBlock_def using find_row_filter_sub [OF pk] delete.prems(2)
    by (metis fst_conv not_None_eq option.inject)
  then show ?case by auto
qed

abbreviation run_steps :: "string \<Rightarrow> run_system \<Rightarrow> run_system \<Rightarrow> bool" where
  "run_steps ws \<equiv> (run_step ws)\<^sup>*\<^sup>*"

lemma snapshots_steps: "run_steps ws s s' \<Longrightarrow> snapshots_ok ws s \<Longrightarrow> snapshots_ok ws s'"
  by (induction rule: rtranclp_induct) (auto intro: snapshots_step)

section \<open>Properties\<close>

lemma distinct_map_filter_one:
  "distinct (map f xs) \<Longrightarrow> length (filter (\<lambda>x. f x = c) xs) \<le> 1"
proof (induction xs)
  case (Cons x xs)
  then show ?case
  proof (cases "f x = c")
    case True
    with Cons.prems have "\<forall>y \<in> set xs. f y \<noteq> c" by (metis distinct.simps(2) image_eqI list.set_map list.simps(9))
    then have "filter (\<lambda>x. f x = c) xs = []" by (simp add: filter_empty_conv)
    with True show ?thesis by simp
  qed simp
qed simp

lemma live_index_one:
  assumes "live_index t"
  shows "length (filter (live_row_of ws b) t) \<le> 1"
proof -
  have "filter (live_row_of ws b) t =
      filter (\<lambda>r. (rr_ws r, rr_block_id r) = (ws, b)) (filter (\<lambda>r. live_text (rr_status r)) t)"
    by (induction t) (auto simp: live_row_of_def)
  with distinct_map_filter_one [OF assms [unfolded live_index_def], of "(ws, b)"]
  show ?thesis by simp
qed

text \<open>A run is started on an empty table; its snapshot is held by the starter.\<close>

lemma example_started:
  "\<exists>j. run_steps ''w'' ([], []) (stored_example, [j]) \<and> in_id j = ''r1'' \<and> in_rev j = 0"
proof -
  let ?n = "bare_run ''r1'' ''b1'' [bare_step ''coder'' Working]"
  obtain b j where ins: "insertLive ''w'' 5 ?n None [] = Inr (b, j, stored_example)"
    using stored_example_eval(1)
    by (cases "insertLive ''w'' 5 ?n None []") (auto simp: stored_example_def)
  have b: "b"
  proof (rule ccontr)
    assume "\<not> b"
    with ins have "insertLive ''w'' 5 ?n None [] = Inr (False, j, stored_example)" by simp
    from insertLive_False [OF this] stored_example_eval(1) show False by auto
  qed
  with insertLive_True [of "''w''" 5 ?n None "[]" j stored_example] ins
  have j: "j = (adoptCreatedAt ?n 5)\<lparr>in_rev := 0\<rparr>" using b by auto
  have "run_step ''w'' ([], []) (stored_example, if b then [j] else [])"
    by (rule run_step.start [OF _ _ ins]) (simp_all add: find_row_def)
  with b j show ?thesis
    by (intro exI [of _ j]) (simp add: r_into_rtranclp bare_run_def adoptCreatedAt_def)
qed





end
