(* ===== verification/RunRefinement.thy ===== *)
theory RunRefinement
  imports Lifecycle
begin

text \<open>
  What the run store promises to the engine, without rows, revisions, snapshots or details: a ledger
  that says for every run of a workspace which block it works for, and whether it holds the block or
  is over. The writers of \<open>Lifecycle\<close> refine it: whatever they do is a sequence of the ledger's
  transitions, so what holds of the ledger holds of the table.
\<close>

section \<open>The abstract ledger\<close>

datatype run_phase = Holding | Over string "agent_failure option"

type_synonym ledger = "string \<Rightarrow> (string \<times> run_phase) option"

text \<open>Nobody but the given run holds the block.\<close>

definition held_by_other :: "ledger \<Rightarrow> string \<Rightarrow> string \<Rightarrow> bool" where
  "held_by_other L rid b \<longleftrightarrow> (\<exists>k. k \<noteq> rid \<and> L k = Some (b, Holding))"

text \<open>
  A run takes a block that nobody holds, evicting runs of the same block; a run that holds its block
  goes on, moves to a block nobody holds, or ends; a run that is over may be rewritten but stays over
  in the same way; runs of a block are forgotten.
\<close>

inductive ledger_step :: "ledger \<Rightarrow> ledger \<Rightarrow> bool" where
  idle: "ledger_step L L"
| claim: "\<lbrakk>L rid = None; \<And>k. k \<in> D \<Longrightarrow> map_option fst (L k) = Some b;
     p = Holding \<Longrightarrow> \<not> held_by_other (L |` (- D)) rid b\<rbrakk>
   \<Longrightarrow> ledger_step L ((L |` (- D))(rid \<mapsto> (b, p)))"
| rewrite: "\<lbrakk>L rid = Some (b, p); p \<noteq> Holding \<Longrightarrow> p' = p;
     p' = Holding \<Longrightarrow> \<not> held_by_other L rid b'\<rbrakk>
   \<Longrightarrow> ledger_step L (L(rid \<mapsto> (b', p')))"
| forget: "(\<And>k. k \<in> D \<Longrightarrow> map_option fst (L k) = Some b) \<Longrightarrow> ledger_step L (L |` (- D))"

definition exclusive :: "ledger \<Rightarrow> bool" where
  "exclusive L \<longleftrightarrow> (\<forall>rid b. L rid = Some (b, Holding) \<longrightarrow> \<not> held_by_other L rid b)"

lemma exclusive_step: "ledger_step L L' \<Longrightarrow> exclusive L \<Longrightarrow> exclusive L'"
  by (induction rule: ledger_step.induct)
     (auto simp: exclusive_def held_by_other_def restrict_map_def split: if_splits)

lemma over_step:
  "ledger_step L L' \<Longrightarrow> L rid = Some (b, Over s f) \<Longrightarrow>
   L' rid = None \<or> (\<exists>b'. L' rid = Some (b', Over s f))"
  by (induction rule: ledger_step.induct) (auto simp: restrict_map_def)

section \<open>Simulation\<close>

text \<open>
  The contract between a detailed system and its abstract one: an invariant the steps keep, under
  which every step is matched.
\<close>

locale simulation =
  fixes abs_of :: "'s \<Rightarrow> 'a" and inv :: "'s \<Rightarrow> bool"
    and stp :: "'s \<Rightarrow> 's \<Rightarrow> bool" and spec :: "'a \<Rightarrow> 'a \<Rightarrow> bool"
  assumes keeps: "stp s s' \<Longrightarrow> inv s \<Longrightarrow> inv s'"
    and matched: "stp s s' \<Longrightarrow> inv s \<Longrightarrow> spec (abs_of s) (abs_of s')"
begin

lemma runs_matched: "stp\<^sup>*\<^sup>* s s' \<Longrightarrow> inv s \<Longrightarrow> spec\<^sup>*\<^sup>* (abs_of s) (abs_of s') \<and> inv s'"
  by (induction rule: rtranclp_induct)
     (auto intro: keeps matched rtranclp.rtrancl_into_rtrancl)

lemma invariant_transfers:
  assumes "\<And>x y. spec x y \<Longrightarrow> P x \<Longrightarrow> P y" and "P (abs_of s)" and "stp\<^sup>*\<^sup>* s s'" and "inv s"
  shows "P (abs_of s')"
proof -
  have "P y" if "spec\<^sup>*\<^sup>* (abs_of s) y" for y
    using that by (induction rule: rtranclp_induct) (auto intro: assms(1,2))
  then show ?thesis using runs_matched [OF assms(3,4)] by blast
qed

end

section \<open>The table as a ledger\<close>

definition row_phase :: "run_row \<Rightarrow> run_phase" where
  "row_phase r =
     (if live_text (rr_status r) then Holding else Over (rr_status r) (rr_failure r))"

definition ledger_of :: "string \<Rightarrow> run_table \<Rightarrow> ledger" where
  "ledger_of ws t rid = map_option (\<lambda>r. (rr_block_id r, row_phase r)) (find_row ws rid t)"

definition statuses_known :: "run_table \<Rightarrow> bool" where
  "statuses_known t \<longleftrightarrow> (\<forall>r \<in> set t. live_text (rr_status r) \<or> settled_row r)"

definition store_ok :: "string \<Rightarrow> run_system \<Rightarrow> bool" where
  "store_ok ws s \<longleftrightarrow> snapshots_ok ws s \<and> statuses_known (fst s)"

lemma known_status_text: "live_text (status_text s) \<or> status_text s = ''done'' \<or> status_text s = ''failed''"
  by (cases s) (simp_all add: live_text_def status_text_def)

lemma statuses_known_update:
  "statuses_known t \<Longrightarrow> (\<And>r. p r \<Longrightarrow> live_text (rr_status (f r)) \<or> settled_row (f r))
   \<Longrightarrow> statuses_known (update_rows p f t)"
  by (auto simp: statuses_known_def update_rows_def)

lemma statuses_known_filter: "statuses_known t \<Longrightarrow> statuses_known (filter p t)"
  by (simp add: statuses_known_def)

lemma statuses_known_write:
  "live_text (rr_status (write_row now i d r)) \<or> settled_row (write_row now i d r)"
  using known_status_text [of "in_status i"] by (simp add: write_row_def settled_row_def)

lemma statuses_known_new: "live_status (in_status i) \<or> settled_row (new_row ws now i d)"
  using known_status_text [of "in_status i"] by (simp add: settled_row_def)

lemma statuses_known_step:
  "run_step ws s s' \<Longrightarrow> statuses_known (fst s) \<Longrightarrow> statuses_known (fst s')"
proof (induction rule: run_step.induct)
  case (swap i h i' now t b j t')
  show ?case
  proof (cases b)
    case True
    with compareAndSwap_True [of ws now i' t j t'] swap show ?thesis
      by (auto intro!: statuses_known_update statuses_known_write)
  next
    case False
    with compareAndSwap_False [of ws now i' t j t'] swap show ?thesis by simp
  qed
next
  case (start n t h now rep b j t')
  show ?case
  proof (cases b)
    case True
    with insertLive_True [of ws now n rep t j t'] start obtain d p where
      "t' = filter p t @ [new_row ws now (adoptCreatedAt n now) d]" by auto
    with start.prems statuses_known_new [of "adoptCreatedAt n now" ws now d] show ?thesis
      by (auto simp: statuses_known_def)
  next
    case False
    with insertLive_False [of ws now n rep t j t'] start obtain p where "t' = filter p t" by auto
    with start.prems show ?thesis by (simp add: statuses_known_filter)
  qed
qed (auto simp: markFailed_def deleteByBlock_def settled_row_def
       intro!: statuses_known_update statuses_known_filter)

lemma store_ok_step: "run_step ws s s' \<Longrightarrow> store_ok ws s \<Longrightarrow> store_ok ws s'"
  by (simp add: store_ok_def snapshots_step statuses_known_step)

text \<open>The live index of the table is the exclusiveness of its ledger.\<close>

lemma live_index_unique:
  assumes "live_index t" and "r \<in> set t" "r' \<in> set t" and "live_row_of ws b r" "live_row_of ws b r'"
  shows "r = r'"
proof (rule ccontr)
  assume "r \<noteq> r'"
  have "length (filter (live_row_of ws b) t) \<le> 1" by (rule live_index_one [OF assms(1)])
  moreover have "{r, r'} \<subseteq> set (filter (live_row_of ws b) t)" using assms by simp
  then have "card {r, r'} \<le> length (filter (live_row_of ws b) t)"
    by (meson card_length card_mono dual_order.trans finite_set)
  ultimately show False using \<open>r \<noteq> r'\<close> by simp
qed

lemma ledger_holds:
  "ledger_of ws t rid = Some (b, Holding) \<longleftrightarrow> (\<exists>r. find_row ws rid t = Some r \<and> live_row_of ws b r)"
  by (auto simp: ledger_of_def row_phase_def live_row_of_def dest: find_row_Some split: if_splits)

lemma ledger_exclusive: "table_ok t \<Longrightarrow> exclusive (ledger_of ws t)"
  unfolding exclusive_def held_by_other_def ledger_holds table_ok_def
  using live_index_unique find_row_Some by (metis (no_types, lifting))

lemma ledger_at: "ledger_of ws t rid = None \<longleftrightarrow> find_row ws rid t = None"
  by (simp add: ledger_of_def)

definition evicted :: "string \<Rightarrow> (run_row \<Rightarrow> bool) \<Rightarrow> run_table \<Rightarrow> string set" where
  "evicted ws p t = {k. \<exists>r. find_row ws k t = Some r \<and> \<not> p r}"

lemma ledger_filter:
  assumes "primary_key t"
  shows "ledger_of ws (filter p t) = ledger_of ws t |` (- evicted ws p t)"
proof
  fix k
  show "ledger_of ws (filter p t) k = (ledger_of ws t |` (- evicted ws p t)) k"
  proof (cases "find_row ws k t")
    case None
    then have "find_row ws k (filter p t) = None" by (auto simp: find_row_None)
    with None show ?thesis by (simp add: ledger_of_def restrict_map_def)
  next
    case (Some r)
    have "find_row ws k (filter p t) = (if p r then Some r else None)"
    proof (cases "p r")
      case True
      have "primary_key (filter p t)" using assms by (simp add: primary_key_def distinct_map_filter)
      then show ?thesis using True find_row_Some [OF Some]
        by (simp add: primary_key_find has_key_def)
    next
      case False
      then show ?thesis
        using find_row_filter_sub [OF assms, of ws k p] Some find_row_Some [of ws k "filter p t"]
        by (cases "find_row ws k (filter p t)") auto
    qed
    with Some show ?thesis by (auto simp: ledger_of_def evicted_def restrict_map_def)
  qed
qed

lemma evicted_block:
  assumes "\<And>r. \<not> p r \<Longrightarrow> rr_block_id r = b" and "k \<in> evicted ws p t"
  shows "map_option fst (ledger_of ws t k) = Some b"
  using assms by (auto simp: evicted_def ledger_of_def)

lemma insertLive_evicts:
  assumes "insertLive ws now n rep t = Inr (b, j, t')"
  shows "\<exists>p. (\<forall>r. \<not> p r \<longrightarrow> rr_block_id r = in_blockId n)
    \<and> (if b then \<exists>d. t' = filter p t @ [new_row ws now (adoptCreatedAt n now) d] \<and> table_ok t'
       else t' = filter p t)"
proof -
  let ?p = "\<lambda>r. \<not> (rr_ws r = ws \<and> rr_block_id r = in_blockId n
      \<and> (\<not> live_text (rr_status r) \<or> Some (rr_id r) = rep))"
  have "if b then \<exists>d. t' = filter ?p t @ [new_row ws now (adoptCreatedAt n now) d] \<and> table_ok t'
       else t' = filter ?p t"
    using assms unfolding insertLive_def Let_def
    by (cases "executionToDetail (adoptCreatedAt n now)")
       (auto simp: bind_result_eq_Inr commit_Inr simp del: de_Morgan_conj split: if_splits)
  then show ?thesis by (intro exI [of _ ?p]) blast
qed

lemma exclusive_update:
  "exclusive (L(rid \<mapsto> (b, Holding))) \<Longrightarrow> \<not> held_by_other L rid b"
  unfolding exclusive_def held_by_other_def by (metis fun_upd_other fun_upd_same)

lemma ledger_new:
  assumes "find_row ws (in_id n) u = None"
  shows "ledger_of ws (u @ [new_row ws now n d]) =
    (ledger_of ws u)(in_id n \<mapsto> (in_blockId n, row_phase (new_row ws now n d)))"
proof
  fix k
  show "ledger_of ws (u @ [new_row ws now n d]) k =
    ((ledger_of ws u)(in_id n \<mapsto> (in_blockId n, row_phase (new_row ws now n d)))) k"
    using assms by (cases "find_row ws k u") (auto simp: ledger_of_def find_row_new)
qed

lemma ledger_swap:
  assumes "find_row ws (in_id i) t = Some r" and "rr_rev r = in_rev i"
  shows "ledger_of ws (update_rows (cas_hit ws i) (write_row now i d) t) =
    (ledger_of ws t)(in_id i \<mapsto> (in_blockId i, row_phase (write_row now i d r)))"
proof
  fix k
  show "ledger_of ws (update_rows (cas_hit ws i) (write_row now i d) t) k =
    ((ledger_of ws t)(in_id i \<mapsto> (in_blockId i, row_phase (write_row now i d r)))) k"
  proof (cases "k = in_id i")
    case True
    with assms find_row_Some [OF assms(1)] show ?thesis
      by (simp add: ledger_of_def find_row_update cas_hit_def has_key_def)
  next
    case False
    then have "\<not> cas_hit ws i x" if "find_row ws k t = Some x" for x
      using find_row_Some [OF that] by (simp add: cas_hit_def has_key_def)
    with False show ?thesis
      by (cases "find_row ws k t") (simp_all add: ledger_of_def find_row_update)
  qed
qed

lemma ledger_failed:
  "ledger_of ws (markFailed ws now rid f t) = (case find_row ws rid t of
      None \<Rightarrow> ledger_of ws t
    | Some r \<Rightarrow> if settled_row r then ledger_of ws t
               else (ledger_of ws t)(rid \<mapsto> (rr_block_id r, Over ''failed'' (Some f))))"
proof (cases "find_row ws rid t")
  case None
  then have "markFailed ws now rid f t = t"
    by (induction t) (auto simp: markFailed_def update_rows_def find_row_None)
  with None show ?thesis by simp
next
  case (Some r)
  have *: "ledger_of ws (markFailed ws now rid f t) k =
      (if k = rid \<and> \<not> settled_row r then Some (rr_block_id r, Over ''failed'' (Some f))
       else ledger_of ws t k)" for k
  proof (cases "find_row ws k t")
    case None
    then show ?thesis using Some by (auto simp: ledger_of_def markFailed_def find_row_update has_key_def)
  next
    case (Some x)
    then have key: "has_key ws rid x \<longleftrightarrow> k = rid"
      using find_row_Some [OF Some] by (auto simp: has_key_def)
    have f: "find_row ws k (markFailed ws now rid f t) = Some (
        if k = rid \<and> \<not> settled_row x
        then x\<lparr>rr_status := ''failed'', rr_failure := Some f, rr_updated_at := now,
               rr_rev := Suc (rr_rev x)\<rparr> else x)"
      unfolding markFailed_def
      by (subst find_row_update) (simp_all add: Some key settled_row_def, simp add: has_key_def)
    show ?thesis
    proof (cases "k = rid")
      case True
      then have "x = r" using Some \<open>find_row ws rid t = Some r\<close> by simp
      with True f Some show ?thesis by (simp add: ledger_of_def row_phase_def live_text_def)
    next
      case False
      then show ?thesis by (simp add: ledger_of_def f Some)
    qed
  qed
  show ?thesis
  proof
    fix k show "ledger_of ws (markFailed ws now rid f t) k = (case find_row ws rid t of
        None \<Rightarrow> ledger_of ws t
      | Some r \<Rightarrow> if settled_row r then ledger_of ws t
                 else (ledger_of ws t)(rid \<mapsto> (rr_block_id r, Over ''failed'' (Some f)))) k"
      unfolding * using Some by simp
  qed
qed

lemma swap_matched:
  assumes "store_ok ws (t, h)" and "i \<in> set h" "in_id i' = in_id i" "in_rev i' = in_rev i"
    and status: "terminal_status (in_status i) \<Longrightarrow> in_status i' = in_status i"
    and cas: "compareAndSwap ws now i' t = Inr (b, j, t')"
  shows "ledger_step (ledger_of ws t) (ledger_of ws t')"
proof (cases b)
  case False
  with compareAndSwap_False [of ws now i' t j t'] cas show ?thesis by (simp add: ledger_step.idle)
next
  case True
  with compareAndSwap_True [of ws now i' t j t'] cas obtain r d where
    r: "find_row ws (in_id i') t = Some r" "rr_rev r = in_rev i'" "table_ok t'"
    "t' = update_rows (cas_hit ws i') (write_row now i' d) t" by auto
  note L = ledger_swap [OF r(1,2), of now d, folded r(4)]
  have "row_phase (write_row now i' d r) = row_phase r" if "row_phase r \<noteq> Holding"
  proof -
    have st: "rr_status r = status_text (in_status i)"
      using assms(1-4) r(1,2) by (auto simp: store_ok_def snapshots_ok_def)
    have "settled_row r"
      using that assms(1) find_row_Some [OF r(1)]
      by (auto simp: store_ok_def statuses_known_def row_phase_def split: if_splits)
    then have "in_status i' = in_status i" using status settled_status_text st by blast
    with st show ?thesis by (simp add: row_phase_def write_row_def)
  qed
  moreover have "\<not> held_by_other (ledger_of ws t) (in_id i') (in_blockId i')"
    if "row_phase (write_row now i' d r) = Holding"
    using ledger_exclusive [OF r(3), of ws] exclusive_update unfolding L that by blast
  ultimately show ?thesis
    unfolding L
    by (intro ledger_step.rewrite [of _ _ "rr_block_id r" "row_phase r"])
       (auto simp: ledger_of_def [of ws t "in_id i'"] r(1))
qed

lemma failure_matched:
  assumes "statuses_known t"
  shows "ledger_step (ledger_of ws t) (ledger_of ws (markFailed ws now rid f t))"
proof (cases "find_row ws rid t")
  case None
  then show ?thesis by (simp add: ledger_failed ledger_step.idle)
next
  case (Some r)
  have "row_phase r = Holding" if "\<not> settled_row r"
    using that assms find_row_Some [OF Some] by (auto simp: statuses_known_def row_phase_def)
  moreover have "ledger_of ws t rid = Some (rr_block_id r, row_phase r)"
    using Some by (simp add: ledger_of_def)
  ultimately have "ledger_step (ledger_of ws t)
      ((ledger_of ws t)(rid \<mapsto> (rr_block_id r, Over ''failed'' (Some f))))" if "\<not> settled_row r"
    using that by (intro ledger_step.rewrite [where b = "rr_block_id r" and p = Holding]) simp_all
  with Some show ?thesis by (simp add: ledger_failed ledger_step.idle)
qed

lemma start_matched:
  assumes pk: "primary_key t" and new: "find_row ws (in_id n) t = None"
    and ins: "insertLive ws now n rep t = Inr (b, j, t')"
  shows "ledger_step (ledger_of ws t) (ledger_of ws t')"
proof -
  from insertLive_evicts [OF ins] obtain p where
    p: "\<And>r. \<not> p r \<Longrightarrow> rr_block_id r = in_blockId n" and
    t': "if b then \<exists>d. t' = filter p t @ [new_row ws now (adoptCreatedAt n now) d] \<and> table_ok t'
       else t' = filter p t" by auto
  note D = evicted_block [of p "in_blockId n", OF p]
  show ?thesis
  proof (cases b)
    case False
    with t' have "ledger_of ws t' = ledger_of ws t |` (- evicted ws p t)"
      by (simp add: ledger_filter [OF pk])
    then show ?thesis using D ledger_step.forget by simp metis
  next
    case True
    with t' obtain d where d: "t' = filter p t @ [new_row ws now (adoptCreatedAt n now) d]"
      and ok: "table_ok t'" by auto
    let ?q = "row_phase (new_row ws now (adoptCreatedAt n now) d)"
    have fresh: "find_row ws (in_id (adoptCreatedAt n now)) (filter p t) = None"
      using new by (auto simp: find_row_None)
    have L: "ledger_of ws t' =
        (ledger_of ws t |` (- evicted ws p t))(in_id n \<mapsto> (in_blockId n, ?q))"
      unfolding d ledger_new [OF fresh] by (simp add: ledger_filter [OF pk])
    have "\<not> held_by_other (ledger_of ws t |` (- evicted ws p t)) (in_id n) (in_blockId n)"
      if "?q = Holding"
      using ledger_exclusive [OF ok, of ws] exclusive_update unfolding L that by blast
    then show ?thesis
      unfolding L by (intro ledger_step.claim) (use new D in \<open>auto simp: ledger_at\<close>)
  qed
qed

lemma delete_matched:
  assumes "primary_key t"
  shows "ledger_step (ledger_of ws t) (ledger_of ws (deleteByBlock ws block t))"
  unfolding deleteByBlock_def ledger_filter [OF assms]
  by (rule ledger_step.forget [where b = block], rule evicted_block) auto

lemma step_matched:
  "run_step ws s s' \<Longrightarrow> store_ok ws s \<Longrightarrow> ledger_step (ledger_of ws (fst s)) (ledger_of ws (fst s'))"
proof (induction rule: run_step.induct)
  case (swap i h i' now t b j t')
  then show ?case unfolding fst_conv by (intro swap_matched)
next
  case (start n t h now rep b j t')
  then show ?case
    unfolding fst_conv
    by (intro start_matched) (simp_all add: store_ok_def snapshots_ok_def table_ok_def)
qed (simp_all add: ledger_step.idle failure_matched delete_matched store_ok_def snapshots_ok_def
      table_ok_def)

interpretation runs: simulation "\<lambda>s. ledger_of ws (fst s)" "store_ok ws" "run_step ws" ledger_step
  by unfold_locales (fact store_ok_step, fact step_matched)

section \<open>Properties\<close>



end
