(* ===== verification/Drive.thy ===== *)
theory Drive
  imports RunMachine
begin

text \<open>
  The runtime-neutral driver (\<^verbatim>\<open>orchestration/src/modules/execution/drive.ts\<close>) with the results of
  an advance (\<^verbatim>\<open>advance.ts\<close>) and the classification of failures (\<^verbatim>\<open>runFailure.ts\<close>). The engine it
  drives is a record of calls over a state of its own; a call answers, throws, or does not answer
  within the ceiling. The outer loop runs for as long as advances answer \<^verbatim>\<open>continue\<close>, so it takes
  fuel: one unit per advance; the poll loops and the hops of a park are bounded by the code.
\<close>

section \<open>Failures\<close>

text \<open>A thrown error: its message, whether it is a \<^verbatim>\<open>DomainError\<close>, and its reason code.\<close>

record thrown =
  th_message :: string
  th_domain :: bool
  th_reason :: "string option"

definition failureFromAdvanceError :: "thrown \<Rightarrow> run_failure" where
  "failureFromAdvanceError e =
     \<lparr>rf_message = th_message e, rf_kind = (if th_domain e then Preflight else AgentFailed),
      rf_detail = None, rf_reason = th_reason e\<rparr>"

definition failureFromDriver :: "string \<Rightarrow> failure_kind \<Rightarrow> run_failure" where
  "failureFromDriver message kind =
     \<lparr>rf_message = message, rf_kind = kind, rf_detail = None, rf_reason = None\<rparr>"

text \<open>\<open>None\<close> for a result that is not a failure.\<close>

definition failureFromResult :: "advance_result \<Rightarrow> run_failure option" where
  "failureFromResult r = (case r of
      JobEvicted err detail \<Rightarrow> Some
        \<lparr>rf_message = err, rf_kind = Evicted, rf_detail = detail, rf_reason = None\<rparr>
    | JobFailed err kind detail reason \<Rightarrow> Some
        \<lparr>rf_message = err, rf_kind = (case kind of None \<Rightarrow> failure_kind.JobFailed | Some k \<Rightarrow> k),
         rf_detail = detail, rf_reason = reason\<rparr>
    | _ \<Rightarrow> None)"

definition redriveOnContention :: "(machine_error + advance_result) \<Rightarrow> machine_error + advance_result"
  where
  "redriveOnContention r = (case r of
      Inl (RunContended i) \<Rightarrow> Inr Continue | other \<Rightarrow> other)"

section \<open>The engine\<close>

datatype call_outcome = Answer advance_result | Threw thrown | TimedOut

record 's engine =
  en_advance :: "'s \<Rightarrow> call_outcome \<times> 's"
  en_pollJob :: "'s \<Rightarrow> call_outcome \<times> 's"
  en_pollGate :: "'s \<Rightarrow> call_outcome \<times> 's"
  en_exhaust :: "'s \<Rightarrow> (thrown + advance_result) \<times> 's"
  en_fail :: "run_failure \<Rightarrow> 's \<Rightarrow> 's"
  en_sleep :: "int \<Rightarrow> 's \<Rightarrow> 's"

record drive_config =
  dv_jobPollIntervalMs :: int
  dv_jobMaxPolls :: nat
  dv_jobPollFailureTolerance :: nat
  dv_ciPollIntervalMs :: int
  dv_ciMaxPolls :: nat
  dv_advanceTimeoutMs :: nat

definition MAX_PARK_HOPS :: nat where
  "MAX_PARK_HOPS = 64"

text \<open>\<^verbatim>\<open>Math.round(ms / unit)\<close> of a natural number: halves round up.\<close>

definition round_div :: "nat \<Rightarrow> nat \<Rightarrow> nat" where
  "round_div ms unit = (2 * ms + unit) div (2 * unit)"

definition describeCeiling :: "nat \<Rightarrow> string" where
  "describeCeiling ms =
     (if 60000 \<le> ms then
        (let minutes = round_div ms 60000
         in digits minutes @ '' minute'' @ (if minutes = 1 then [] else ''s''))
      else if 1000 \<le> ms then
        (let seconds = round_div ms 1000
         in digits seconds @ '' second'' @ (if seconds = 1 then [] else ''s''))
      else digits ms @ ''ms'')"

section \<open>Polling\<close>

text \<open>The kind of a result, as \<^verbatim>\<open>result.kind !== awaiting\<close> compares it.\<close>

datatype park_kind = JobPark | GatePark | EnvironmentPark | InvestigationsPark

definition park_of :: "advance_result \<Rightarrow> park_kind option" where
  "park_of r = (case r of
      AwaitingJob j k p \<Rightarrow> Some JobPark
    | AwaitingGate k \<Rightarrow> Some GatePark
    | AwaitingEnvironment k \<Rightarrow> Some EnvironmentPark
    | AwaitingInvestigations k \<Rightarrow> Some InvestigationsPark
    | _ \<Rightarrow> None)"

definition unreadable :: "string \<Rightarrow> nat \<Rightarrow> string \<Rightarrow> run_failure" where
  "unreadable label n cause = failureFromDriver
     (label @ '' status was unreadable ('' @ digits n @ '' polls)''
      @ (if cause = [] then [] else '' (last error: '' @ cause @ '')'')) Timeout"

definition unsettled :: "string \<Rightarrow> run_failure" where
  "unsettled label =
     failureFromDriver (label @ '' did not settle within its polling budget'') Timeout"

text \<open>
  What a poll loop ends on: a result of another kind, a failure it recorded, or a spent budget.
  \<open>sleepFirst\<close> is false only for the first poll of a job that was just dispatched.
\<close>

datatype poll_end = Settled advance_result | GaveUp | Spent

fun poll_loop ::
  "'s engine \<Rightarrow> drive_config \<Rightarrow> park_kind \<Rightarrow> ('s \<Rightarrow> call_outcome \<times> 's) \<Rightarrow> int \<Rightarrow> string \<Rightarrow>
     nat \<Rightarrow> bool \<Rightarrow> nat \<Rightarrow> 's \<Rightarrow> poll_end \<times> 's" where
  "poll_loop en cfg awaiting poll interval label 0 sleepFirst readFailures s = (Spent, s)"
| "poll_loop en cfg awaiting poll interval label (Suc n) sleepFirst readFailures s =
     (let s0 = (if sleepFirst then en_sleep en interval s else s)
      in case poll s0 of
           (Answer r, s1) \<Rightarrow>
             if park_of r \<noteq> Some awaiting then (Settled r, s1)
             else poll_loop en cfg awaiting poll interval label n True 0 s1
         | (other, s1) \<Rightarrow>
             (let failures = Suc readFailures;
                  cause = (case other of Threw e \<Rightarrow> th_message e
                           | _ \<Rightarrow> ''no answer within '' @ describeCeiling (dv_advanceTimeoutMs cfg))
              in if dv_jobPollFailureTolerance cfg \<le> failures
                 then (GaveUp, en_fail en (unreadable label failures cause) s1)
                 else poll_loop en cfg awaiting poll interval label n True failures s1))"

text \<open>
  A gate resolves its own exhaustion, and a throw from there leaves the driver; every other park
  fails the run. \<open>None\<close> is the source's \<^verbatim>\<open>null\<close>: the run was failed.
\<close>

definition pollUntil ::
  "'s engine \<Rightarrow> drive_config \<Rightarrow> park_kind \<Rightarrow> ('s \<Rightarrow> call_outcome \<times> 's) \<Rightarrow> int \<Rightarrow> nat \<Rightarrow> string \<Rightarrow>
     bool \<Rightarrow> ('s \<Rightarrow> (thrown + advance_result) \<times> 's) option \<Rightarrow> 's \<Rightarrow>
     (thrown + advance_result option) \<times> 's" where
  "pollUntil en cfg awaiting poll interval maxPolls label pollFirst onExhausted s =
     (case poll_loop en cfg awaiting poll interval label maxPolls (\<not> pollFirst) 0 s of
        (Settled r, s1) \<Rightarrow> (Inr (Some r), s1)
      | (GaveUp, s1) \<Rightarrow> (Inr None, s1)
      | (Spent, s1) \<Rightarrow>
          (case onExhausted of
             Some f \<Rightarrow> (case f s1 of (Inl e, s2) \<Rightarrow> (Inl e, s2) | (Inr r, s2) \<Rightarrow> (Inr (Some r), s2))
           | None \<Rightarrow> (Inr None, en_fail en (unsettled label) s1)))"

section \<open>Draining a park\<close>

datatype drive_end =
    Stopped
  | Parked string
  | RearmedGate
  | Escaped thrown

text \<open>The poll of a park: which call, on which cadence, under which label.\<close>

definition park_poll ::
  "'s engine \<Rightarrow> drive_config \<Rightarrow> advance_result \<Rightarrow> 's \<Rightarrow>
     ((thrown + advance_result option) \<times> 's) option" where
  "park_poll en cfg result s = (case result of
      AwaitingJob job k poll \<Rightarrow> Some
        (pollUntil en cfg JobPark (en_pollJob en)
           (case poll of None \<Rightarrow> dv_jobPollIntervalMs cfg | Some (iv, n) \<Rightarrow> iv)
           (case poll of None \<Rightarrow> dv_jobMaxPolls cfg | Some (iv, n) \<Rightarrow> nat n)
           ''Implementation job'' True None s)
    | AwaitingEnvironment k \<Rightarrow> Some
        (pollUntil en cfg EnvironmentPark (en_pollJob en) (dv_jobPollIntervalMs cfg)
           (dv_jobMaxPolls cfg) ''Environment readiness'' False None s)
    | AwaitingInvestigations k \<Rightarrow> Some
        (pollUntil en cfg InvestigationsPark (en_pollJob en) (dv_jobPollIntervalMs cfg)
           (dv_jobMaxPolls cfg) ''Challenge investigations'' False None s)
    | AwaitingGate k \<Rightarrow> Some
        (pollUntil en cfg GatePark (en_pollGate en) (dv_ciPollIntervalMs cfg)
           (dv_ciMaxPolls cfg) ''Gate precheck'' False (Some (en_exhaust en)) s)
    | _ \<Rightarrow> None)"

text \<open>
  \<open>Inr r\<close>: the drain ended on the result \<open>r\<close>; \<open>Inl e\<close>: the drive ended in it. \<open>hops\<close> is how
  many parks it may still drain. A gate that is still parked after its budget releases the drive.
\<close>

fun drain ::
  "'s engine \<Rightarrow> drive_config \<Rightarrow> nat \<Rightarrow> advance_result \<Rightarrow> 's \<Rightarrow> (drive_end + advance_result) \<times> 's" where
  "drain en cfg 0 result s = (Inr result, s)"
| "drain en cfg (Suc hops) result s = (case park_poll en cfg result s of
      None \<Rightarrow> (Inr result, s)
    | Some (Inl e, s1) \<Rightarrow> (Inl (Escaped e), s1)
    | Some (Inr None, s1) \<Rightarrow> (Inl Stopped, s1)
    | Some (Inr (Some r), s1) \<Rightarrow>
        if park_of result = Some GatePark \<and> park_of r = Some GatePark
        then (Inl RearmedGate, s1) else drain en cfg hops r s1)"

section \<open>The drive\<close>

definition ceiling_failure :: "drive_config \<Rightarrow> run_failure" where
  "ceiling_failure cfg = failureFromDriver
     (''Step advance did not complete within '' @ describeCeiling (dv_advanceTimeoutMs cfg)) Timeout"

text \<open>One turn of \<^verbatim>\<open>for (;;)\<close>: \<open>None\<close> asks for another turn.\<close>

definition drive_turn ::
  "'s engine \<Rightarrow> drive_config \<Rightarrow> 's \<Rightarrow> drive_end option \<times> 's" where
  "drive_turn en cfg s = (case en_advance en s of
      (Threw e, s1) \<Rightarrow> (Some Stopped, en_fail en (failureFromAdvanceError e) s1)
    | (TimedOut, s1) \<Rightarrow> (Some Stopped, en_fail en (ceiling_failure cfg) s1)
    | (Answer r, s1) \<Rightarrow>
        (case drain en cfg MAX_PARK_HOPS r s1 of
           (Inl e, s2) \<Rightarrow> (Some e, s2)
         | (Inr r2, s2) \<Rightarrow>
             (case failureFromResult r2 of
                Some f \<Rightarrow> (Some Stopped, en_fail en f s2)
              | None \<Rightarrow>
                  (case r2 of
                     AdvanceDone \<Rightarrow> (Some Stopped, s2)
                   | Noop \<Rightarrow> (Some Stopped, s2)
                   | AdvancePaused \<Rightarrow> (Some Stopped, s2)
                   | AwaitingDecision d \<Rightarrow> (Some (Parked d), s2)
                   | _ \<Rightarrow> (None, s2)))))"

fun driveExecution ::
  "nat \<Rightarrow> 's engine \<Rightarrow> drive_config \<Rightarrow> 's \<Rightarrow> (drive_end \<times> 's) option" where
  "driveExecution 0 en cfg s = None"
| "driveExecution (Suc fuel) en cfg s = (case drive_turn en cfg s of
      (Some e, s1) \<Rightarrow> Some (e, s1)
    | (None, s1) \<Rightarrow> driveExecution fuel en cfg s1)"

section \<open>Laws\<close>

text \<open>
  A measure of the engine that its calls leave alone and a recorded failure raises by one counts
  the failures: the interface under which the driver records at most one.
\<close>

locale counted_engine =
  fixes en :: "'s engine" and fails :: "'s \<Rightarrow> nat"
  assumes advance_keeps: "fails (snd (en_advance en s)) = fails s"
    and pollJob_keeps: "fails (snd (en_pollJob en s)) = fails s"
    and pollGate_keeps: "fails (snd (en_pollGate en s)) = fails s"
    and exhaust_keeps: "fails (snd (en_exhaust en s)) = fails s"
    and sleep_keeps: "fails (en_sleep en ms s) = fails s"
    and fail_counts: "fails (en_fail en f s) = Suc (fails s)"
begin

lemma poll_loop_fails:
  assumes "\<And>s. fails (snd (poll s)) = fails s"
    and "poll_loop en cfg awaiting poll interval label n sf rf s = (r, s')"
  shows "fails s' = (if r = GaveUp then Suc (fails s) else fails s)"
  using assms(2)
proof (induction n arbitrary: sf rf s)
  case 0
  then show ?case by auto
next
  case (Suc n)
  obtain c s1 where c: "poll (if sf then en_sleep en interval s else s) = (c, s1)"
    by (metis prod.exhaust)
  have k: "fails s1 = fails s"
    using assms(1) [of "if sf then en_sleep en interval s else s"] c
    by (auto simp: sleep_keeps split: if_splits)
  show ?case
  proof (cases c)
    case (Answer x)
    with Suc c k show ?thesis by (auto simp: Let_def split: if_splits)
  next
    case (Threw e)
    with Suc c k show ?thesis by (auto simp: Let_def fail_counts split: if_splits)
  next
    case TimedOut
    with Suc c k show ?thesis by (auto simp: Let_def fail_counts split: if_splits)
  qed
qed

lemma pollUntil_fails:
  assumes "\<And>s. fails (snd (poll s)) = fails s"
    and "\<And>f s. oe = Some f \<Longrightarrow> fails (snd (f s)) = fails s"
    and "pollUntil en cfg awaiting poll interval n label pf oe s = (r, s')"
  shows "fails s' = (if r = Inr None then Suc (fails s) else fails s)"
proof -
  obtain e s1 where l: "poll_loop en cfg awaiting poll interval label n (\<not> pf) 0 s = (e, s1)"
    by (metis prod.exhaust)
  have k: "fails s1 = (if e = GaveUp then Suc (fails s) else fails s)"
    by (rule poll_loop_fails [OF assms(1) l])
  show ?thesis
  proof (cases e)
    case Spent
    show ?thesis
    proof (cases oe)
      case None
      with assms(3) l Spent k show ?thesis by (auto simp: pollUntil_def fail_counts)
    next
      case (Some f)
      with assms(2) [OF Some, of s1] assms(3) l Spent k show ?thesis
        by (auto simp: pollUntil_def split: prod.splits sum.splits)
    qed
  qed (use assms(3) l k in \<open>auto simp: pollUntil_def\<close>)
qed

lemma job_until_fails:
  "pollUntil en cfg awaiting (en_pollJob en) interval n label pf None s = (r, s') \<Longrightarrow>
     fails s' = (if r = Inr None then Suc (fails s) else fails s)"
  by (erule pollUntil_fails [rotated 2]) (simp_all add: pollJob_keeps)

lemma gate_until_fails:
  "pollUntil en cfg awaiting (en_pollGate en) interval n label pf (Some (en_exhaust en)) s = (r, s')
     \<Longrightarrow> fails s' = (if r = Inr None then Suc (fails s) else fails s)"
  by (erule pollUntil_fails [rotated 2]) (auto simp: pollGate_keeps exhaust_keeps)

lemma park_poll_fails:
  assumes "park_poll en cfg result s = Some (r, s')"
  shows "fails s' = (if r = Inr None then Suc (fails s) else fails s)"
  using assms unfolding park_poll_def
  by (cases result) (simp_all only: advance_result.case option.inject option.distinct
      job_until_fails gate_until_fails)

lemma drain_fails:
  assumes "drain en cfg hops result s = (r, s')"
  shows "fails s' = (if r = Inl Stopped then Suc (fails s) else fails s)"
  using assms
proof (induction hops arbitrary: result s)
  case 0
  then show ?case by auto
next
  case (Suc hops)
  show ?case
  proof (cases "park_poll en cfg result s")
    case None
    with Suc.prems show ?thesis by auto
  next
    case (Some x)
    obtain y s1 where x: "x = (y, s1)" by (cases x)
    with Some have k: "fails s1 = (if y = Inr None then Suc (fails s) else fails s)"
      using park_poll_fails by blast
    with Suc Some x show ?thesis
      by (cases y) (auto split: option.splits if_splits)
  qed
qed

lemma drive_turn_fails:
  assumes "drive_turn en cfg s = (r, s')"
  shows "fails s' \<le> Suc (fails s) \<and> (r \<noteq> Some Stopped \<longrightarrow> fails s' = fails s)"
proof -
  obtain c s1 where c: "en_advance en s = (c, s1)" by (metis prod.exhaust)
  have k: "fails s1 = fails s" using advance_keeps [of s] c by simp
  show ?thesis
  proof (cases c)
    case (Answer x)
    obtain d s2 where d: "drain en cfg MAX_PARK_HOPS x s1 = (d, s2)" by (metis prod.exhaust)
    have k2: "fails s2 = (if d = Inl Stopped then Suc (fails s1) else fails s1)"
      by (rule drain_fails [OF d])
    show ?thesis
    proof (cases d)
      case (Inl e)
      with assms c Answer d k k2 show ?thesis by (auto simp: drive_turn_def)
    next
      case (Inr r2)
      with assms c Answer d k k2 show ?thesis
        by (auto simp: drive_turn_def fail_counts
            split: option.splits advance_result.splits)
    qed
  qed (use assms c k in \<open>auto simp: drive_turn_def fail_counts\<close>)
qed

text \<open>A drive records at most one failure, and none unless it stops.\<close>

lemma drive_fails:
  assumes "driveExecution fuel en cfg s = Some (e, s')"
  shows "fails s' \<le> Suc (fails s) \<and> (e \<noteq> Stopped \<longrightarrow> fails s' = fails s)"
  using assms
proof (induction fuel arbitrary: s)
  case 0
  then show ?case by simp
next
  case (Suc fuel)
  obtain r s1 where t: "drive_turn en cfg s = (r, s1)" by (metis prod.exhaust)
  show ?case
  proof (cases r)
    case None
    with Suc.prems t have "driveExecution fuel en cfg s1 = Some (e, s')" by simp
    from Suc.IH [OF this] drive_turn_fails [OF t] None show ?thesis by simp
  next
    case (Some x)
    with Suc.prems t drive_turn_fails [OF t] show ?thesis by auto
  qed
qed

end

text \<open>
  The driver returns when every advance that asks for another turn brings the run closer to its
  end, by any measure of the engine; one unit of fuel more than the measure is enough.
\<close>

lemma drive_returns:
  assumes "\<And>s s'. drive_turn en cfg s = (None, s') \<Longrightarrow> work s' < (work s :: nat)"
    and "work s < fuel"
  shows "\<exists>e s'. driveExecution fuel en cfg s = Some (e, s')"
  using assms(2)
proof (induction fuel arbitrary: s)
  case 0
  then show ?case by simp
next
  case (Suc fuel)
  obtain r s1 where t: "drive_turn en cfg s = (r, s1)" by (metis prod.exhaust)
  show ?case
  proof (cases r)
    case None
    with t assms(1) Suc.prems have "work s1 < fuel" by fastforce
    with Suc.IH [of s1] None t show ?thesis by simp
  next
    case (Some e)
    with t show ?thesis by simp
  qed
qed

text \<open>A poll loop asks at most as often as its budget says.\<close>

lemma poll_loop_polls:
  assumes "\<And>s. polls (snd (poll s)) = Suc (polls s)" and "\<And>ms s. polls (en_sleep en ms s) = polls s"
    and "\<And>f s. polls (en_fail en f s) = (polls s :: nat)"
    and "poll_loop en cfg awaiting poll interval label n sf rf s = (r, s')"
  shows "polls s' \<le> polls s + n \<and> (r = Spent \<longrightarrow> polls s' = polls s + n)"
  using assms(4)
proof (induction n arbitrary: sf rf s)
  case 0
  then show ?case by auto
next
  case (Suc n)
  obtain c s1 where c: "poll (if sf then en_sleep en interval s else s) = (c, s1)"
    by (metis prod.exhaust)
  have k: "polls s1 = Suc (polls s)"
    using assms(1) [of "if sf then en_sleep en interval s else s"] c assms(2)
    by (auto split: if_splits)
  show ?case
  proof (cases c)
    case (Answer x)
    with Suc.prems c k Suc.IH [of True 0 s1] show ?thesis by (auto simp: Let_def split: if_splits)
  next
    case (Threw e)
    with Suc.prems c k assms(3) Suc.IH [of True "Suc rf" s1] show ?thesis
      by (auto simp: Let_def split: if_splits)
  next
    case TimedOut
    with Suc.prems c k assms(3) Suc.IH [of True "Suc rf" s1] show ?thesis
      by (auto simp: Let_def split: if_splits)
  qed
qed

section \<open>The ledger of recorded failures\<close>

text \<open>Any engine, with the list of the failures it was told to record.\<close>

definition on_state :: "('s \<Rightarrow> 'a \<times> 's) \<Rightarrow> 's \<times> 'l \<Rightarrow> 'a \<times> 's \<times> 'l" where
  "on_state f x = (case f (fst x) of (a, s) \<Rightarrow> (a, s, snd x))"

definition with_ledger :: "'s engine \<Rightarrow> ('s \<times> run_failure list) engine" where
  "with_ledger en =
     \<lparr>en_advance = on_state (en_advance en), en_pollJob = on_state (en_pollJob en),
      en_pollGate = on_state (en_pollGate en), en_exhaust = on_state (en_exhaust en),
      en_fail = (\<lambda>f x. (en_fail en f (fst x), snd x @ [f])),
      en_sleep = (\<lambda>ms x. (en_sleep en ms (fst x), snd x))\<rparr>"

interpretation ledger: counted_engine "with_ledger en" "\<lambda>x. length (snd x)"
  by unfold_locales (simp_all add: with_ledger_def on_state_def split: prod.split)

definition drop_ledger :: "'a \<times> 's \<times> 'l \<Rightarrow> 'a \<times> 's" where
  "drop_ledger x = (fst x, fst (snd x))"

lemma drop_ledger_simp [simp]: "drop_ledger (a, s, l) = (a, s)"
  by (simp add: drop_ledger_def)

lemma on_state_drop: "drop_ledger (on_state f x) = f (fst x)"
  by (simp add: on_state_def drop_ledger_def split: prod.split)

lemma ledger_fail [simp]:
  "en_fail (with_ledger en) f x = (en_fail en f (fst x), snd x @ [f])"
  by (simp add: with_ledger_def)

lemma ledger_sleep [simp]: "en_sleep (with_ledger en) ms x = (en_sleep en ms (fst x), snd x)"
  by (simp add: with_ledger_def)

lemma ledger_poll_loop:
  assumes "\<And>x. drop_ledger (poll' x) = poll (fst x)"
  shows "drop_ledger (poll_loop (with_ledger en) cfg awaiting poll' interval label n sf rf x)
    = poll_loop en cfg awaiting poll interval label n sf rf (fst x)"
proof (induction n arbitrary: sf rf x)
  case 0
  then show ?case by (simp add: drop_ledger_def)
next
  case (Suc n)
  define y where "y = (if sf then en_sleep (with_ledger en) interval x else x)"
  have y: "fst y = (if sf then en_sleep en interval (fst x) else fst x)"
    by (simp add: y_def)
  obtain c s1 l1 where p': "poll' y = (c, s1, l1)" by (metis prod.exhaust)
  with assms [of y] have p: "poll (fst y) = (c, s1)" by simp
  show ?case
    using Suc p' p [unfolded y]
    by (cases c) (auto simp: Let_def y_def [symmetric])
qed

lemma ledger_pollUntil:
  assumes "\<And>x. drop_ledger (poll' x) = poll (fst x)"
    and "rel_option (\<lambda>f' f. \<forall>x. drop_ledger (f' x) = f (fst x)) oe' oe"
  shows "drop_ledger (pollUntil (with_ledger en) cfg awaiting poll' interval n label pf oe' x)
    = pollUntil en cfg awaiting poll interval n label pf oe (fst x)"
proof -
  obtain r s1 l1 where l: "poll_loop (with_ledger en) cfg awaiting poll' interval label n (\<not> pf) 0 x
      = (r, s1, l1)" by (metis prod.exhaust)
  then have e: "poll_loop en cfg awaiting poll interval label n (\<not> pf) 0 (fst x) = (r, s1)"
    using ledger_poll_loop [where poll = poll and poll' = poll', OF assms(1),
        of en cfg awaiting interval label n "\<not> pf" 0 x] by simp
  show ?thesis
  proof (cases r)
    case Spent
    show ?thesis
    proof (cases oe')
      case None
      with assms(2) l e Spent show ?thesis by (auto simp: pollUntil_def)
    next
      case (Some f')
      with assms(2) obtain f where f: "oe = Some f" "f s1 = drop_ledger (f' (s1, l1))"
        by (cases oe) auto
      then show ?thesis using l e Spent Some
        by (cases "f' (s1, l1)") (auto simp: pollUntil_def split: sum.splits)
    qed
  qed (use l e in \<open>auto simp: pollUntil_def\<close>)
qed

lemma ledger_fields:
  "drop_ledger (en_pollJob (with_ledger en) x) = en_pollJob en (fst x)"
  "drop_ledger (en_pollGate (with_ledger en) x) = en_pollGate en (fst x)"
  "drop_ledger (en_exhaust (with_ledger en) x) = en_exhaust en (fst x)"
  "drop_ledger (en_advance (with_ledger en) x) = en_advance en (fst x)"
  by (simp_all add: with_ledger_def on_state_drop)

lemma ledger_park_poll:
  "map_option drop_ledger (park_poll (with_ledger en) cfg r x) = park_poll en cfg r (fst x)"
  by (cases r) (auto simp: park_poll_def ledger_fields intro!: ledger_pollUntil)

lemma ledger_drain:
  "drop_ledger (drain (with_ledger en) cfg hops r x) = drain en cfg hops r (fst x)"
proof (induction hops arbitrary: r x)
  case 0
  then show ?case by (simp add: drop_ledger_def)
next
  case (Suc hops)
  show ?case
  proof (cases "park_poll (with_ledger en) cfg r x")
    case None
    with ledger_park_poll [of en cfg r x] have "park_poll en cfg r (fst x) = None" by simp
    with None show ?thesis by (simp add: drop_ledger_def)
  next
    case (Some y)
    obtain a s1 l1 where y: "y = (a, s1, l1)" by (metis prod.exhaust)
    with Some ledger_park_poll [of en cfg r x] have p: "park_poll en cfg r (fst x) = Some (a, s1)"
      by simp
    show ?thesis using Some y p Suc.IH
      by (cases a) (auto split: option.splits)
  qed
qed

lemma ledger_drive_turn:
  "drop_ledger (drive_turn (with_ledger en) cfg x) = drive_turn en cfg (fst x)"
proof -
  obtain c s1 l1 where c: "en_advance (with_ledger en) x = (c, s1, l1)" by (metis prod.exhaust)
  with ledger_fields(4) [of en x] have c': "en_advance en (fst x) = (c, s1)" by simp
  show ?thesis
  proof (cases c)
    case (Answer r)
    obtain d s2 l2 where d: "drain (with_ledger en) cfg MAX_PARK_HOPS r (s1, l1) = (d, s2, l2)"
      by (metis prod.exhaust)
    with ledger_drain [of en cfg MAX_PARK_HOPS r "(s1, l1)"]
    have d': "drain en cfg MAX_PARK_HOPS r s1 = (d, s2)" by simp
    show ?thesis
    proof (cases d)
      case (Inl e)
      with c c' d d' Answer show ?thesis by (simp add: drive_turn_def)
    next
      case (Inr r2)
      show ?thesis
        by (cases "failureFromResult r2"; cases r2)
           (simp_all add: drive_turn_def c c' d d' Answer Inr)
    qed
  qed (simp_all add: drive_turn_def c c')
qed

lemma ledger_drive:
  "driveExecution fuel en cfg (fst x) =
     map_option drop_ledger (driveExecution fuel (with_ledger en) cfg x)"
proof (induction fuel arbitrary: x)
  case 0
  then show ?case by simp
next
  case (Suc fuel)
  obtain r s1 l1 where t: "drive_turn (with_ledger en) cfg x = (r, s1, l1)" by (metis prod.exhaust)
  with ledger_drive_turn [of en cfg x] have t': "drive_turn en cfg (fst x) = (r, s1)" by simp
  show ?case using t t' Suc.IH [of "(s1, l1)"] by (cases r) simp_all
qed

section \<open>Properties\<close>

text \<open>An engine whose state counts the advances left; it polls nothing and ignores failures.\<close>

definition countdown :: "nat engine" where
  "countdown =
     \<lparr>en_advance = (\<lambda>n. if n = 0 then (Answer AdvanceDone, 0) else (Answer Continue, n - 1)),
      en_pollJob = (\<lambda>n. (Answer Continue, n)), en_pollGate = (\<lambda>n. (Answer Continue, n)),
      en_exhaust = (\<lambda>n. (Inr Noop, n)), en_fail = (\<lambda>f n. n), en_sleep = (\<lambda>ms n. n)\<rparr>"

definition example_config :: drive_config where
  "example_config = \<lparr>dv_jobPollIntervalMs = 15000, dv_jobMaxPolls = 3, dv_jobPollFailureTolerance = 2,
     dv_ciPollIntervalMs = 30000, dv_ciMaxPolls = 3, dv_advanceTimeoutMs = 1800000\<rparr>"

text \<open>An engine whose advance throws and whose state counts the polls.\<close>

definition broken :: "nat engine" where
  "broken = countdown\<lparr>en_advance := (\<lambda>n. (Threw \<lparr>th_message = ''boom'', th_domain = False, th_reason = None\<rparr>, n)),
     en_pollJob := (\<lambda>n. (Threw \<lparr>th_message = ''dns'', th_domain = False, th_reason = None\<rparr>, Suc n))\<rparr>"

text \<open>
  A drive records at most one failure, and none when it parks on a decision, re-arms a gate or
  escapes with an error: the record of what went wrong is never overwritten by a second, more
  generic one. Keeping the ledger changes nothing: the run it describes is the drive of the engine
  itself.
\<close>

theorem one_failure_per_drive:
  assumes "driveExecution fuel (with_ledger en) cfg (s, []) = Some (e, s', recorded)"
  shows "length recorded \<le> 1 \<and> (e \<noteq> Stopped \<longrightarrow> recorded = [])
    \<and> driveExecution fuel en cfg s = Some (e, s')"
  using ledger.drive_fails [OF assms] ledger_drive [of fuel en cfg "(s, [])"] assms by simp

theorem one_failure_per_drive_witness:
  "\<exists>e s' recorded. driveExecution 1 (with_ledger broken) example_config (0, []) = Some (e, s', recorded)
     \<and> length recorded \<le> 1 \<and> recorded \<noteq> []"
proof -
  obtain e s' recorded where d:
    "driveExecution 1 (with_ledger broken) example_config (0, []) = Some (e, s', recorded)"
    "recorded \<noteq> []"
    by (simp add: drive_turn_def with_ledger_def on_state_def broken_def countdown_def)
  from one_failure_per_drive [OF d(1)] d show ?thesis by blast
qed



lemma unreadable_gives_up:
  assumes "\<And>s. \<exists>e. poll s = (Threw e, Suc s)" and "\<And>ms s. en_sleep en ms s = (s :: nat)"
    and "\<And>f s. en_fail en f s = s"
    and "rf < dv_jobPollFailureTolerance cfg" and "dv_jobPollFailureTolerance cfg \<le> rf + n"
  shows "poll_loop en cfg awaiting poll interval label n sf rf s
    = (GaveUp, s + (dv_jobPollFailureTolerance cfg - rf))"
  using assms(4,5)
proof (induction n arbitrary: sf rf s)
  case 0
  then show ?case by simp
next
  case (Suc n)
  obtain e where e: "poll s = (Threw e, Suc s)" using assms(1) by blast
  show ?case
  proof (cases "dv_jobPollFailureTolerance cfg \<le> Suc rf")
    case True
    then show ?thesis using e Suc.prems by (simp add: Let_def assms(2,3))
  next
    case False
    then show ?thesis using e Suc.prems Suc.IH [of "Suc rf" True "Suc s"]
      by (simp add: Let_def assms(2))
  qed
qed

text \<open>
  A park is polled at most as often as its budget says, and the budget counts as spent exactly
  when every poll of it was used; a status that can never be read fails the run after exactly the
  tolerated number of polls.
\<close>

theorem polling_is_bounded:
  assumes "\<And>s. snd (poll s) = Suc s" and "\<And>ms s. en_sleep en ms s = s" and "\<And>f s. en_fail en f s = s"
    and "poll_loop en cfg awaiting poll interval label n sf 0 s = (r, s')"
  shows "s' \<le> s + n \<and> (r = Spent \<longrightarrow> s' = s + n)
    \<and> ((\<forall>s. \<exists>e. fst (poll s) = Threw e) \<and> 0 < dv_jobPollFailureTolerance cfg
        \<and> dv_jobPollFailureTolerance cfg \<le> n
       \<longrightarrow> r = GaveUp \<and> s' = s + dv_jobPollFailureTolerance cfg)"
proof -
  have "s' \<le> s + n \<and> (r = Spent \<longrightarrow> s' = s + n)"
    using poll_loop_polls [where polls = "\<lambda>n. n", OF assms(1-3) assms(4)] .
  moreover have "r = GaveUp \<and> s' = s + dv_jobPollFailureTolerance cfg"
    if "\<forall>s. \<exists>e. fst (poll s) = Threw e" "0 < dv_jobPollFailureTolerance cfg"
      "dv_jobPollFailureTolerance cfg \<le> n"
  proof -
    have "\<exists>e. poll s = (Threw e, Suc s)" for s
      using that(1) assms(1) by (metis prod.collapse)
    from unreadable_gives_up [OF this assms(2,3), of 0 cfg n awaiting interval label sf s] that assms(4)
    show ?thesis by simp
  qed
  ultimately show ?thesis by blast
qed

theorem polling_is_bounded_witness:
  "\<exists>r s'. poll_loop broken example_config JobPark (en_pollJob broken) 15000 ''job'' 3 False 0 0 = (r, s')
     \<and> r = GaveUp \<and> s' = 2"
proof -
  obtain r s' where p: "poll_loop broken example_config JobPark (en_pollJob broken) 15000 ''job'' 3 False 0 0
      = (r, s')" by (metis surj_pair)
  from polling_is_bounded [OF _ _ _ p] p show ?thesis
    by (simp add: broken_def countdown_def example_config_def)
qed

end
