(* ===== verification/GateStep.thy ===== *)
theory GateStep
  imports RunMachine
begin

text \<open>
  Dispatching a job for a step (\<^verbatim>\<open>buildStartStepDispatch\<close> in \<^verbatim>\<open>delegation.logic.ts\<close>) and the polling
  gates over it: \<^verbatim>\<open>GateStepController\<close>, \<^verbatim>\<open>GateHelperDispatcher\<close>, and the gate half of
  \<^verbatim>\<open>RunDispatcher\<close>. The executor, the gate's probe, the risk policy and the completion spine
  (\<^verbatim>\<open>recordStepResult\<close>) are fields of \<open>gate_env\<close>; the assembly of the agent's prompt context
  has no state of its own and is left out. The step is the one the run's cursor points at.
\<close>

section \<open>Dispatching a job\<close>

text \<open>
  \<open>plan\<close> is the delegation to claim, absent for a kind of the platform's own executors. \<open>start\<close>
  is the executor's \<^verbatim>\<open>startJob\<close>: it sees the world as the claim left it, and answers a handle or
  throws a message together with whether the external system had been contacted.
\<close>

definition on_current :: "(step \<Rightarrow> step) \<Rightarrow> instance_rec \<Rightarrow> instance_rec" where
  "on_current f i = i\<lparr>in_steps := update_at (in_currentStep i) f (in_steps i)\<rparr>"

definition current_step :: "instance_rec \<Rightarrow> step" where
  "current_step i = in_steps i ! in_currentStep i"

definition container_starting :: container where
  "container_starting =
     \<lparr>ct_status = ContainerStarting, ct_phase = None, ct_id = None, ct_url = None\<rparr>"

definition container_errored :: container where
  "container_errored =
     \<lparr>ct_status = ContainerErrored, ct_phase = None, ct_id = None, ct_url = None\<rparr>"

definition open_dispatch :: "delegation_claim option \<Rightarrow> step \<Rightarrow> step" where
  "open_dispatch plan s = (case plan of
      Some c \<Rightarrow> claimDelegation c s
    | None \<Rightarrow> s\<lparr>st_container := Some container_starting\<rparr>)"

definition undo_dispatch :: "delegation_claim option \<Rightarrow> string \<Rightarrow> bool \<Rightarrow> step \<Rightarrow> step" where
  "undo_dispatch plan err contacted s = (case plan of
      Some c \<Rightarrow> failDelegationDispatch err contacted s
    | None \<Rightarrow> s\<lparr>st_container := Some container_errored\<rparr>)"

type_synonym start_call = "world \<Rightarrow> (string \<times> bool) + job_handle"

definition startStepDispatch ::
  "machine_deps \<Rightarrow> delegation_claim option \<Rightarrow> start_call \<Rightarrow> string \<Rightarrow> instance_rec \<Rightarrow>
     (string \<times> instance_rec) act" where
  "startStepDispatch deps plan start kind i =
     act_bind (persistAndEmit deps (on_current (open_dispatch plan) i) None) (\<lambda>i1 w.
       case start w of
         Inr h \<Rightarrow>
           (let (s, job) = recordDispatchedJob h kind (current_step i1)
            in (Inr (job, on_current (\<lambda>_. s) i1), w))
       | Inl (err, contacted) \<Rightarrow>
           (Inl (DispatchThrew err),
            snd (persistAndEmit deps (on_current (undo_dispatch plan err contacted) i1) None w)))"

section \<open>A gate\<close>

datatype poll_exhaustion = ExhaustionPass | ExhaustionRearm | ExhaustionFail

record gate_def =
  gd_kind :: string
  gd_helperKind :: string
  gd_wired :: bool
  gd_unwiredOutput :: string
  gd_attemptBudget :: "(json option \<Rightarrow> nat) option"
  gd_pollExhaustion :: poll_exhaustion
  gd_onExhausted :: "string option \<Rightarrow> string"

record gate_policy =
  gp_ciMaxAttempts :: nat
  gp_releaseWatchWindowMinutes :: int
  gp_humanReviewGraceMinutes :: int

record probe =
  pb_status :: probe_status
  pb_headSha :: "string option"
  pb_headShas :: "json option"
  pb_conflictTarget :: "json option"
  pb_failureSummary :: "string option"
  pb_failingChecks :: "json option"
  pb_passOutput :: "string option"
  pb_escalatable :: "bool option"

datatype gate_outcome = GatePassed | GateExhausted

text \<open>\<open>ge_config\<close> is the sanitised gate configuration, \<open>None\<close> when it has no fields.\<close>

record gate_env =
  ge_policy :: gate_policy
  ge_config :: "json option"
  ge_async :: bool
  ge_probe :: "world \<Rightarrow> gate_state \<Rightarrow> probe"
  ge_record :: "instance_rec \<Rightarrow> bool \<Rightarrow> string \<Rightarrow> (advance_result \<times> instance_rec) act"
  ge_outcome :: "gate_outcome \<Rightarrow> instance_rec \<Rightarrow> unit act"
  ge_plan :: "delegation_claim option"
  ge_start :: start_call

definition awaitingJob :: "step \<Rightarrow> nat \<Rightarrow> string \<Rightarrow> advance_result" where
  "awaitingJob s k job = AwaitingJob job k (delegatedPollPolicy s)"

definition gate_phase_to :: "gate_phase \<Rightarrow> step \<Rightarrow> step" where
  "gate_phase_to ph s = s\<lparr>st_gate := map_option (\<lambda>g. g\<lparr>gs_phase := ph\<rparr>) (st_gate s)\<rparr>"

definition DEFAULT_CI_MAX_ATTEMPTS :: nat where
  "DEFAULT_CI_MAX_ATTEMPTS = 10"

definition fresh_gate :: "gate_def \<Rightarrow> gate_policy \<Rightarrow> json option \<Rightarrow> gate_state" where
  "fresh_gate g p config =
     \<lparr>gs_phase = GateChecking, gs_attempts = 0,
      gs_maxAttempts = (case gd_attemptBudget g of
          None \<Rightarrow> gp_ciMaxAttempts p | Some b \<Rightarrow> b config),
      gs_headSha = None, gs_headShas = None, gs_conflictTarget = None, gs_lastVerdict = None,
      gs_config = config, gs_lastFailureSummary = None, gs_failingChecks = None,
      gs_lastDispatchedInstructions = None, gs_watchSince = None,
      gs_watchWindowMinutes = Some (gp_releaseWatchWindowMinutes p),
      gs_humanReviewGraceMinutes = Some (gp_humanReviewGraceMinutes p), gs_pendingFix = None\<rparr>"

text \<open>The gate state a dispatched helper leaves: one attempt more.\<close>

definition bare_gate :: gate_state where
  "bare_gate =
     \<lparr>gs_phase = GateChecking, gs_attempts = 0, gs_maxAttempts = DEFAULT_CI_MAX_ATTEMPTS,
      gs_headSha = None, gs_headShas = None, gs_conflictTarget = None, gs_lastVerdict = None,
      gs_config = None, gs_lastFailureSummary = None, gs_failingChecks = None,
      gs_lastDispatchedInstructions = None, gs_watchSince = None, gs_watchWindowMinutes = None,
      gs_humanReviewGraceMinutes = None, gs_pendingFix = None\<rparr>"

definition charge_gate :: "string option \<Rightarrow> gate_state \<Rightarrow> gate_state" where
  "charge_gate summary g =
     g\<lparr>gs_phase := GateWorking, gs_attempts := gs_attempts g + 1,
       gs_lastDispatchedInstructions := first_some summary (gs_lastDispatchedInstructions g)\<rparr>"

definition dispatchHelper ::
  "machine_deps \<Rightarrow> gate_env \<Rightarrow> gate_def \<Rightarrow> string option \<Rightarrow> instance_rec \<Rightarrow>
     (advance_result \<times> instance_rec) act" where
  "dispatchHelper deps env g failureSummary i =
     (if \<not> ge_async env then
        act_return (JobFailed (''No async executor available for the '' @ gd_kind g @ '' gate.'')
                      None None None, i)
      else act_bind (startStepDispatch deps (ge_plan env) (ge_start env) (gd_helperKind g) i)
        (\<lambda>(job, i1).
           act_bind
             (persistAndEmit deps (on_current (\<lambda>s. s\<lparr>st_gate :=
                Some (charge_gate failureSummary (or_else (st_gate s) bare_gate))\<rparr>) i1) None)
             (\<lambda>i2. act_return (awaitingJob (current_step i2) (in_currentStep i2) job, i2))))"

text \<open>What a probe leaves on the gate.\<close>

definition fold_probe :: "probe \<Rightarrow> gate_state \<Rightarrow> gate_state" where
  "fold_probe p g =
     g\<lparr>gs_headSha := pb_headSha p, gs_headShas := pb_headShas p,
       gs_conflictTarget := pb_conflictTarget p, gs_lastVerdict := Some (pb_status p),
       gs_lastFailureSummary := pb_failureSummary p, gs_failingChecks := pb_failingChecks p\<rparr>"

definition escalates :: "bool \<Rightarrow> gate_state \<Rightarrow> probe \<Rightarrow> bool" where
  "escalates async g p \<longleftrightarrow>
     pb_status p = ProbeFail \<and> async \<and> pb_escalatable p \<noteq> Some False \<and> gs_attempts g < gs_maxAttempts g"

text \<open>After the probe: pass, wait, send the helper, or give up.\<close>

definition settle_probe ::
  "machine_deps \<Rightarrow> gate_env \<Rightarrow> gate_def \<Rightarrow> bool \<Rightarrow> probe \<Rightarrow> instance_rec \<Rightarrow>
     (advance_result \<times> instance_rec) act" where
  "settle_probe deps env g isFinal p i = (case pb_status p of
      ProbePass \<Rightarrow> act_then (ge_outcome env GatePassed i)
        (ge_record env i isFinal (or_else (pb_passOutput p) (gd_kind g @ '' gate passed.'')))
    | ProbePending \<Rightarrow>
        act_bind (persistAndEmit deps (on_current (gate_phase_to GateChecking) i) None)
          (\<lambda>i1. act_return (AwaitingGate (in_currentStep i1), i1))
    | ProbeFail \<Rightarrow>
        (case st_gate (current_step i) of
           None \<Rightarrow> act_return (Noop, i)
         | Some gs \<Rightarrow>
             if escalates (ge_async env) gs p then dispatchHelper deps env g (pb_failureSummary p) i
             else act_then (ge_outcome env GateExhausted i)
               (act_return (JobFailed (gd_onExhausted g (pb_failureSummary p)) None None None, i))))"

definition probe_gate ::
  "machine_deps \<Rightarrow> gate_env \<Rightarrow> gate_def \<Rightarrow> bool \<Rightarrow> gate_state \<Rightarrow> instance_rec \<Rightarrow>
     (advance_result \<times> instance_rec) act" where
  "probe_gate deps env g isFinal gs0 i w =
     (let gs1 = (if gs_watchSince gs0 = None
                 then gs0\<lparr>gs_watchSince := Some (wd_now w)\<rparr> else gs0);
          p = ge_probe env w gs1
      in settle_probe deps env g isFinal p
           (on_current (\<lambda>x. x\<lparr>st_gate := Some (fold_probe p gs1)\<rparr>) i) w)"

definition evaluateGate ::
  "machine_deps \<Rightarrow> gate_env \<Rightarrow> gate_def \<Rightarrow> bool \<Rightarrow> instance_rec \<Rightarrow>
     (advance_result \<times> instance_rec) act" where
  "evaluateGate deps env g isFinal i =
     (let s = current_step i; attached = liveJobId s
      in if map_option gs_phase (st_gate s) = Some GateWorking \<and> attached \<noteq> None
         then act_return (awaitingJob s (in_currentStep i) (the attached), i)
         else if \<not> gd_wired g then ge_record env i isFinal (gd_unwiredOutput g)
         else
           (let gs0 = or_else (st_gate s) (fresh_gate g (ge_policy env) (ge_config env))
            in case gs_pendingFix gs0 of
                 Some instructions \<Rightarrow>
                   if ge_async env then
                     act_bind (casPersist (on_current
                         (\<lambda>x. x\<lparr>st_gate := Some (gs0\<lparr>gs_pendingFix := None\<rparr>)\<rparr>) i))
                       (dispatchHelper deps env g (Some instructions))
                   else probe_gate deps env g isFinal gs0 i
               | None \<Rightarrow> probe_gate deps env g isFinal gs0 i))"

section \<open>Polling a gate\<close>

definition run_polls :: "instance_rec \<Rightarrow> bool" where
  "run_polls i \<longleftrightarrow> in_status i = Running \<or> in_status i = Paused"

definition has_step :: "instance_rec \<Rightarrow> bool" where
  "has_step i \<longleftrightarrow> in_currentStep i < length (in_steps i)"

definition is_final :: "instance_rec \<Rightarrow> bool" where
  "is_final i \<longleftrightarrow> Suc (in_currentStep i) = length (in_steps i)"

definition load_run :: "string \<Rightarrow> instance_rec option act" where
  "load_run rid w = (case get_run (wd_ws w) rid (wd_runs w) of
      Inl e \<Rightarrow> (Inl (StoreFailed e), w) | Inr r \<Rightarrow> (Inr r, w))"

text \<open>\<open>gates\<close> is the gate registry: the gate of an agent kind, if it is one.\<close>

definition pollGateInner ::
  "machine_deps \<Rightarrow> (string \<Rightarrow> gate_env) \<Rightarrow> (string \<Rightarrow> gate_def option) \<Rightarrow> string \<Rightarrow>
     advance_result act" where
  "pollGateInner deps env gates rid = act_bind (load_run rid) (\<lambda>loaded. case loaded of
      None \<Rightarrow> act_return Noop
    | Some i \<Rightarrow>
        if \<not> run_polls i then act_return Noop
        else if \<not> has_step i then act_return Continue
        else (case gates (st_agentKind (current_step i)) of
            None \<Rightarrow> act_return Continue
          | Some g \<Rightarrow>
              (case liveJobId (current_step i) of
                 Some job \<Rightarrow> act_return (awaitingJob (current_step i) (in_currentStep i) job)
               | None \<Rightarrow> act_bind (get_block (in_blockId i)) (\<lambda>b. case b of
                     None \<Rightarrow> act_return Noop
                   | Some x \<Rightarrow>
                       act_bind (evaluateGate deps (env (st_agentKind (current_step i))) g
                                   (is_final i) i)
                         (\<lambda>(r, j). act_return r)))))"

definition redrive :: "advance_result act \<Rightarrow> advance_result act" where
  "redrive m w = (case m w of
      (Inl (RunContended r), w1) \<Rightarrow> (Inr Continue, w1) | other \<Rightarrow> other)"

definition pollGate ::
  "machine_deps \<Rightarrow> (string \<Rightarrow> gate_env) \<Rightarrow> (string \<Rightarrow> gate_def option) \<Rightarrow> string \<Rightarrow>
     advance_result act" where
  "pollGate deps env gates rid = redrive (pollGateInner deps env gates rid)"

definition HUMAN_TEST_AGENT_KIND :: string where
  "HUMAN_TEST_AGENT_KIND = ''human-test''"

definition window_open :: "int \<Rightarrow> gate_state option \<Rightarrow> bool" where
  "window_open now g = (case g of None \<Rightarrow> False | Some x \<Rightarrow>
     (case (gs_watchSince x, gs_watchWindowMinutes x) of
        (Some since, Some minutes) \<Rightarrow> now - since < minutes * 60000 | _ \<Rightarrow> False))"

definition rearm_gate :: "instance_rec \<Rightarrow> advance_result act" where
  "rearm_gate i = act_bind (casPersist (on_current (gate_phase_to GateChecking) i))
     (\<lambda>i1. act_return (AwaitingGate (in_currentStep i1)))"

definition resolveGatePollExhaustion ::
  "(string \<Rightarrow> gate_env) \<Rightarrow> (string \<Rightarrow> gate_def option) \<Rightarrow> string \<Rightarrow> advance_result act" where
  "resolveGatePollExhaustion env gates rid = redrive (act_bind (load_run rid) (\<lambda>loaded. case loaded of
      None \<Rightarrow> act_return Noop
    | Some i \<Rightarrow>
        if \<not> run_polls i then act_return Noop
        else (let timeoutError = ''Gate precheck did not settle within its polling budget'';
                  gave_up = JobFailed timeoutError (Some Timeout) None None
              in if \<not> has_step i then act_return gave_up
                 else (let kind = st_agentKind (current_step i);
                           policy = map_option gd_pollExhaustion (gates kind)
                       in if kind = HUMAN_TEST_AGENT_KIND then act_return Continue
                          else if policy = Some ExhaustionRearm then rearm_gate i
                          else if policy \<noteq> Some ExhaustionPass then act_return gave_up
                          else (\<lambda>w. if window_open (wd_now w) (st_gate (current_step i))
                                    then rearm_gate i w
                                    else act_bind (ge_record (env kind) i (is_final i)
                                           (kind @ '' gate passed: watch window elapsed with no regression observed.''))
                                           (\<lambda>(r, j). act_return r) w)))))"

text \<open>A settled helper returns its gate to the precheck.\<close>

definition reprobeGateAfterHelper ::
  "machine_deps \<Rightarrow> instance_rec \<Rightarrow> (advance_result \<times> instance_rec) act" where
  "reprobeGateAfterHelper deps i =
     act_bind (persistAndEmit deps (on_current (\<lambda>s.
         gate_phase_to GateChecking (s\<lparr>st_jobId := None, st_subtasks := None\<rparr>)) i) None)
       (\<lambda>i1. act_return (AwaitingGate (in_currentStep i1), i1))"

section \<open>Laws\<close>

text \<open>A red gate sends its helper while the budget lasts; every dispatch is charged to it.\<close>

interpretation gate_loop: budgeted_loop gs_attempts gs_maxAttempts "escalates async"
  "charge_gate summary"
  by unfold_locales (auto simp: escalates_def charge_gate_def)

lemma on_current_simps [simp]:
  "in_id (on_current f i) = in_id i"
  "in_currentStep (on_current f i) = in_currentStep i"
  "in_rev (on_current f i) = in_rev i"
  "in_blockId (on_current f i) = in_blockId i"
  "length (in_steps (on_current f i)) = length (in_steps i)"
  by (simp_all add: on_current_def)

lemma current_on_current: "has_step i \<Longrightarrow> current_step (on_current f i) = f (current_step i)"
  by (simp add: current_step_def on_current_def has_step_def nth_update_at)

text \<open>The claim of a delegation is in the store.\<close>

definition claim_stored :: "delegation_claim \<Rightarrow> instance_rec \<Rightarrow> world \<Rightarrow> bool" where
  "claim_stored c i v \<longleftrightarrow> (\<exists>row j d. find_row (wd_ws v) (in_id i) (wd_runs v) = Some row
     \<and> rowToExecution row = Inr j \<and> st_delegated (in_steps j ! in_currentStep i) = Some d
     \<and> dl_status d = DStarting \<and> dl_correlationKey d = dc_correlationKey c)"

lemma persisted_claim:
  assumes "has_step i"
    and "persistAndEmit deps (on_current (open_dispatch (Some c)) i) st w = (Inr j, w1)"
  shows "claim_stored c i w1"
proof -
  let ?i = "on_current (open_dispatch (Some c)) i"
  from persistAndEmit_Inr [OF assms(2)] obtain row where
    row: "find_row (wd_ws w1) (in_id i) (wd_runs w1) = Some row"
      "rowToExecution row = Inr (normalised row ?i)" by auto
  have "in_steps (normalised row ?i) ! in_currentStep i
      = (claimDelegation c (current_step i))\<lparr>st_runId := Some (in_id i)\<rparr>"
    using assms(1) current_on_current [OF assms(1), of "open_dispatch (Some c)"]
    by (simp add: normalised_def has_step_def current_step_def open_dispatch_def)
  then have "\<exists>d. st_delegated (in_steps (normalised row ?i) ! in_currentStep i) = Some d
      \<and> dl_status d = DStarting \<and> dl_correlationKey d = dc_correlationKey c"
    by (simp add: claimDelegation_def Let_def)
  with row show ?thesis unfolding claim_stored_def by blast
qed

section \<open>Properties\<close>

text \<open>
  C27. A delegated job is started only when its claim is in the store: the executor is called on no
  other state, so two executors that agree on every state holding the claim give the same dispatch.
  A crash between the claim and the start therefore always finds the claim.
\<close>

theorem claim_is_stored_before_start:
  assumes "has_step i" and "\<And>v. claim_stored c i v \<Longrightarrow> start v = start' v"
  shows "startStepDispatch deps (Some c) start kind i w = startStepDispatch deps (Some c) start' kind i w"
proof (cases "persistAndEmit deps (on_current (open_dispatch (Some c)) i) None w")
  case (Pair r w1)
  show ?thesis
  proof (cases r)
    case (Inl e)
    with Pair show ?thesis by (simp add: startStepDispatch_def act_bind_def)
  next
    case (Inr j)
    with Pair persisted_claim [OF assms(1), of deps c None w j w1] assms(2) [of w1]
    show ?thesis by (simp add: startStepDispatch_def act_bind_def)
  qed
qed

definition example_claim :: delegation_claim where
  "example_claim = \<lparr>dc_executor = ''gha'', dc_correlationKey = ''key-1'', dc_startedAt = 9,
     dc_poll = (60000, 90)\<rparr>"

theorem claim_is_stored_before_start_witness:
  "startStepDispatch example_deps (Some example_claim) (\<lambda>v. Inl (''refused'', False)) ''coder'' example_run
      (example_world stored_example)
   = startStepDispatch example_deps (Some example_claim)
      (\<lambda>v. if wd_runs v = [] then Inl (''too early'', True) else Inl (''refused'', False))
      ''coder'' example_run (example_world stored_example)"
  by (rule claim_is_stored_before_start)
     (auto simp: has_step_def claim_stored_def find_row_def)

text \<open>A dispatch leaves the gate of the step alone.\<close>

lemma claim_keeps_gate [simp]: "st_gate (claimDelegation c s) = st_gate s"
  by (simp add: claimDelegation_def Let_def)

lemma stamp_keeps_gate [simp]: "st_gate (stampDelegationDispatch g s) = st_gate s"
  by (simp add: stampDelegationDispatch_def Let_def)

lemma record_keeps_gate [simp]: "st_gate (fst (recordDispatchedJob h kind s)) = st_gate s"
  by (simp add: recordDispatchedJob_def recordDispatchAttribution_def Let_def split: option.split)

lemma open_keeps_gate [simp]: "st_gate (open_dispatch plan s) = st_gate s"
  by (simp add: open_dispatch_def split: option.split)

lemma current_stamp: "has_step i \<Longrightarrow>
    current_step (stamp_run_id i) = (current_step i)\<lparr>st_runId := Some (in_id i)\<rparr>"
  by (simp add: has_step_def current_step_def stamp_run_id_def)

lemma has_step_simps [simp]:
  "has_step (on_current f i) = has_step i" "has_step (stamp_run_id i) = has_step i"
  "has_step (i\<lparr>in_rev := n\<rparr>) = has_step i"
  by (simp_all add: has_step_def)

lemma current_step_rev [simp]: "current_step (i\<lparr>in_rev := n\<rparr>) = current_step i"
  by (simp add: current_step_def)

lemma persistAndEmit_current:
  assumes "persistAndEmit deps (on_current f i) st w = (Inr j, w')" and "has_step i"
  shows "in_id j = in_id i \<and> in_currentStep j = in_currentStep i \<and> has_step j \<and> wd_ws w' = wd_ws w
    \<and> current_step j = (f (current_step i))\<lparr>st_runId := Some (in_id i)\<rparr>
    \<and> (\<exists>r. get_run (wd_ws w) (in_id i) (wd_runs w') = Inr (Some r)
         \<and> in_steps r ! in_currentStep i = (f (current_step i))\<lparr>st_runId := Some (in_id i)\<rparr>)"
proof -
  from persistAndEmit_Inr [OF assms(1)] obtain row where
    j: "j = stamp_run_id ((on_current f i)\<lparr>in_rev := Suc (in_rev i)\<rparr>)" "wd_ws w' = wd_ws w" and
    row: "find_row (wd_ws w) (in_id i) (wd_runs w') = Some row"
      "rowToExecution row = Inr (normalised row (on_current f i))" by auto
  have "in_steps (normalised row (on_current f i)) ! in_currentStep i
      = (f (current_step i))\<lparr>st_runId := Some (in_id i)\<rparr>"
    using assms(2) current_on_current [OF assms(2), of f]
    by (simp add: normalised_def has_step_def current_step_def)
  with j row assms(2) show ?thesis
    by (auto simp: current_stamp current_on_current get_run_def)
qed

lemma startStepDispatch_gate:
  assumes "startStepDispatch deps plan start kind i w = (Inr (job, j), w')" and "has_step i"
  shows "in_id j = in_id i \<and> in_currentStep j = in_currentStep i \<and> has_step j \<and> wd_ws w' = wd_ws w
    \<and> st_gate (current_step j) = st_gate (current_step i)"
proof -
  obtain x w1 where p: "persistAndEmit deps (on_current (open_dispatch plan) i) None w = (x, w1)"
    by (metis surj_pair)
  with assms(1) obtain i1 where x: "x = Inr i1"
    by (cases x) (simp_all add: startStepDispatch_def act_bind_def)
  obtain h where h: "start w1 = Inr h"
    using assms(1) p x
    by (cases "start w1") (auto simp: startStepDispatch_def act_bind_def)
  have j: "j = on_current (\<lambda>_. fst (recordDispatchedJob h kind (current_step i1))) i1" "w' = w1"
    using assms(1) p x h
    by (auto simp: startStepDispatch_def act_bind_def Let_def split: prod.splits)
  have i1: "in_id i1 = in_id i" "in_currentStep i1 = in_currentStep i" "has_step i1"
    "wd_ws w1 = wd_ws w"
    "current_step i1 = (open_dispatch plan (current_step i))\<lparr>st_runId := Some (in_id i)\<rparr>"
    using persistAndEmit_current [OF p [unfolded x] assms(2)] by simp_all
  have "st_gate (current_step j) = st_gate (current_step i1)"
    unfolding j(1) current_on_current [OF i1(3)] record_keeps_gate ..
  then show ?thesis using i1 by (simp add: j)
qed


text \<open>A table of one row takes the swap of its own run.\<close>

lemma persist_single:
  assumes "wd_runs w = [r]" and "has_key (wd_ws w) (in_id i) r" and "rr_rev r = in_rev i"
    and "in_blockId i \<noteq> []" and "in_currentStep i \<le> length (in_steps i)"
  shows "\<exists>r' w'. persistAndEmit deps i None w = (Inr (stamp_run_id (i\<lparr>in_rev := Suc (in_rev i)\<rparr>)), w')
    \<and> wd_runs w' = [r'] \<and> has_key (wd_ws w') (in_id i) r' \<and> rr_rev r' = Suc (in_rev i)"
proof -
  obtain d where d: "executionToDetail i = Inr d" using executionToDetail_Inr assms(4,5) by blast
  have "table_ok [write_row (wd_now w) i d r]"
    by (simp add: table_ok_def primary_key_def live_index_def)
  then have "compareAndSwap (wd_ws w) (wd_now w) i (wd_runs w)
      = Inr (True, i\<lparr>in_rev := Suc (in_rev i)\<rparr>, [write_row (wd_now w) i d r])"
    using assms(2,3) by (simp add: compareAndSwap_def d assms(1) cas_hit_def update_rows_def
        bind_result_def commit_def)
  then have "casPersist i w = (Inr (i\<lparr>in_rev := Suc (in_rev i)\<rparr>),
      w\<lparr>wd_runs := [write_row (wd_now w) i d r]\<rparr>)"
    by (simp add: casPersist_def)
  then show ?thesis
    using assms(2,3) by (simp add: persistAndEmit_eq emitInstance_eq)
qed

definition gate_run :: instance_rec where
  "gate_run = example_run\<lparr>in_steps := [(bare_step ''ci'' Working)
     \<lparr>st_gate := Some (bare_gate\<lparr>gs_maxAttempts := 2\<rparr>)\<rparr>]\<rparr>"

definition example_env :: gate_env where
  "example_env = \<lparr>ge_policy = \<lparr>gp_ciMaxAttempts = 2, gp_releaseWatchWindowMinutes = 30,
       gp_humanReviewGraceMinutes = 0\<rparr>, ge_config = None, ge_async = True,
     ge_probe = (\<lambda>w g. \<lparr>pb_status = ProbeFail, pb_headSha = None, pb_headShas = None,
       pb_conflictTarget = None, pb_failureSummary = Some ''red'', pb_failingChecks = None,
       pb_passOutput = None, pb_escalatable = None\<rparr>),
     ge_record = (\<lambda>i f s. act_return (Continue, i)), ge_outcome = (\<lambda>g i. act_return ()),
     ge_plan = None,
     ge_start = (\<lambda>w. Inr \<lparr>jh_jobId = ''job-1'', jh_model = None, jh_subscriptionTokenId = None,
       jh_initiatedByUserId = None, jh_toolServers = None, jh_delegated = None\<rparr>)\<rparr>"

definition ci_gate :: gate_def where
  "ci_gate = \<lparr>gd_kind = ''ci'', gd_helperKind = ''ci-fixer'', gd_wired = True, gd_unwiredOutput = [],
     gd_attemptBudget = None, gd_pollExhaustion = ExhaustionFail, gd_onExhausted = (\<lambda>s. ''CI stayed red'')\<rparr>"


end
