(* ===== verification/RunSteps.thy ===== *)
theory RunSteps
  imports PipelineShape RunMachine
begin

text \<open>
  From a pipeline to the steps of a run, and which of them a run skips: the steps a launch builds
  (\<^verbatim>\<open>execution/RunLifecycleController.ts\<close>), the skip rules (\<^verbatim>\<open>stepGating.logic.ts\<close>,
  \<^verbatim>\<open>contracts/step-conditions.ts\<close>, \<^verbatim>\<open>contracts/repo-url.ts\<close>), and the preamble every step clears
  before it is dispatched (\<^verbatim>\<open>stepPreamble.ts\<close>, \<^verbatim>\<open>RunDispatcher.skipGatedStep\<close>). The main result relates
  the validation of a pipeline to what the preamble skips.
\<close>

section \<open>Skip rules\<close>

record run_scope =
  rsc_frontend :: bool
  rsc_backend :: bool

definition resolveRunServiceScope :: "block_type list \<Rightarrow> run_scope" where
  "resolveRunServiceScope frames =
     \<lparr>rsc_frontend = list_ex (\<lambda>t. t = FrontendType) frames,
      rsc_backend = list_ex (\<lambda>t. t \<noteq> FrontendType) frames\<rparr>"

definition stepConditionSatisfied :: "service_scope option \<Rightarrow> run_scope \<Rightarrow> bool" where
  "stepConditionSatisfied cond sc = (case cond of
      None \<Rightarrow> True
    | Some c \<Rightarrow>
        if \<not> rsc_frontend sc \<and> \<not> rsc_backend sc then True
        else if c = FrontendScope then rsc_frontend sc else rsc_backend sc)"

definition axis_met :: "rat option \<Rightarrow> rat \<Rightarrow> bool" where
  "axis_met threshold value = (case threshold of None \<Rightarrow> False | Some t \<Rightarrow> value \<ge> t)"

definition shouldRunGatedStep :: "task_estimate option \<Rightarrow> step_gating option \<Rightarrow> bool" where
  "shouldRunGatedStep estimate gating = (case gating of
      None \<Rightarrow> True
    | Some g \<Rightarrow>
        if \<not> sg_enabled g then True
        else case estimate of
            None \<Rightarrow> (case sg_onMissingEstimate g of None \<Rightarrow> True | Some m \<Rightarrow> m = MissingRun)
          | Some e \<Rightarrow> axis_met (sg_minComplexity g) (te_complexity e)
              \<or> axis_met (sg_minRisk g) (te_risk e) \<or> axis_met (sg_minImpact g) (te_impact e))"

definition producerWasSkipped :: "kind_registry option \<Rightarrow> step list \<Rightarrow> nat \<Rightarrow> bool" where
  "producerWasSkipped reg steps i \<longleftrightarrow>
     i < length steps \<and> isCompanionKind reg (st_agentKind (steps ! i))
     \<and> 0 < i \<and> st_skipped (steps ! (i - 1)) = Some True"

section \<open>The pull request a step reads\<close>

definition number_after :: "string \<Rightarrow> string \<Rightarrow> string option" where
  "number_after p s =
     (let ds = takeWhile is_digit (drop (length p) s)
      in if take (length p) s = p \<and> ds \<noteq> [] then Some ds else None)"

definition trailing_number :: "string \<Rightarrow> string option" where
  "trailing_number s = (case s of
      [] \<Rightarrow> None
    | c # cs \<Rightarrow>
        (let ds = takeWhile is_digit cs
         in if (c = CHR ''#'' \<or> c = CHR ''/'') \<and> ds \<noteq> [] \<and> list_all is_space (dropWhile is_digit cs)
            then Some ds else None))"

text \<open>The leftmost match of the pattern in \<^verbatim>\<open>resolvePrNumber\<close>.\<close>

fun url_number :: "string \<Rightarrow> string option" where
  "url_number [] = None"
| "url_number (c # cs) =
     (case check_all (\<lambda>r. r)
         [number_after ''pull/'' (c # cs), number_after ''pulls/'' (c # cs),
          number_after ''merge_requests/'' (c # cs), trailing_number (c # cs)] of
        Some ds \<Rightarrow> Some ds | None \<Rightarrow> url_number cs)"

definition positive_number :: "rat option \<Rightarrow> int option" where
  "positive_number n = (case n of
      None \<Rightarrow> None | Some r \<Rightarrow> if whole r \<and> r > 0 then Some \<lfloor>r\<rfloor> else None)"

definition resolvePrNumber :: "task_pr_fields option \<Rightarrow> int option" where
  "resolvePrNumber flds = (case flds of
      None \<Rightarrow> None
    | Some f \<Rightarrow>
        (case positive_number (tf_prNumber f) of
           Some n \<Rightarrow> Some n
         | None \<Rightarrow>
             (case nonempty (map_option js_trim (tf_prUrl f)) of
                None \<Rightarrow> None
              | Some url \<Rightarrow> positive_number (map_option (\<lambda>ds. of_nat (digits_value ds)) (url_number url)))))"

definition resolvePrHeadNumber :: "agent_clone option \<Rightarrow> block \<Rightarrow> int option" where
  "resolvePrHeadNumber clone b = (case clone of
      None \<Rightarrow> None
    | Some c \<Rightarrow>
        if cl_prHead c \<noteq> Some True then None
        else if cl_prHeadSource c = Some RunHead
        then positive_number (map_option of_int (Option.bind (bl_pullRequest b) pr_number))
        else resolvePrNumber (bl_taskTypeFields b))"

definition stepNeedsMissingPullRequest :: "kind_registry \<Rightarrow> string \<Rightarrow> block \<Rightarrow> bool" where
  "stepNeedsMissingPullRequest r kind b \<longleftrightarrow>
     readsRequiredPullRequest r kind
     \<and> resolvePrHeadNumber (Option.bind (agentStep r kind) as_clone) b = None"

section \<open>The steps of a run\<close>

text \<open>
  \<open>seedQuality\<close> serialises the state a Tester step starts its quality companion with; consensus and
  follow-up state is not part of a step here.
\<close>

record launch_env =
  lv_registry :: kind_registry
  lv_companionBudget :: nat
  lv_ralphCommand :: "string option"
  lv_ralphIterations :: "rat option"
  lv_seedQuality :: "step_gating option \<Rightarrow> json"

definition requires_approval_at :: "bool list option \<Rightarrow> 'a pipeline_chain_scheme \<Rightarrow> nat \<Rightarrow> bool" where
  "requires_approval_at gatesOverride p i = (case entry gatesOverride i of
      Some b \<Rightarrow> b | None \<Rightarrow> gated_at p i)"

definition seed_companion :: "launch_env \<Rightarrow> pipeline \<Rightarrow> nat \<Rightarrow> companion_state option" where
  "seed_companion env p i = (case companionFor (Some (lv_registry env)) (pc_agentKinds p ! i) of
      None \<Rightarrow> None
    | Some d \<Rightarrow> Some \<lparr>
        cs_threshold = (case Option.bind (entry (pl_thresholds p) i) (\<lambda>t. t) of
           Some t \<Rightarrow> t | None \<Rightarrow> co_defaultThreshold d),
        cs_maxAttempts = lv_companionBudget env, cs_attempts = 0, cs_verdicts = [],
        cs_exceeded = None, cs_capSettledByPolicy = None, cs_stalled = None\<rparr>)"

definition seed_quality :: "launch_env \<Rightarrow> pipeline \<Rightarrow> nat \<Rightarrow> json option" where
  "seed_quality env p i =
     (let q = Option.bind (entry (pc_testerQuality p) i) (\<lambda>q. q)
      in if isTesterKind (pc_agentKinds p ! i) \<and> map_option tq_enabled q \<noteq> Some False
         then Some (lv_seedQuality env (Option.bind q tq_gating)) else None)"

definition launch_step :: "launch_env \<Rightarrow> bool list option \<Rightarrow> pipeline \<Rightarrow> nat \<Rightarrow> nat \<Rightarrow> step" where
  "launch_step env gatesOverride p position i =
     (bare_step (pc_agentKinds p ! i) (if position = 0 then Working else Pending))
       \<lparr>st_requiresApproval := Some (requires_approval_at gatesOverride p i),
        st_gating := gating_at p i,
        st_stepOptions := options_at p i,
        st_companion := seed_companion env p i,
        st_testerQuality := seed_quality env p i,
        st_ralph := (if pc_agentKinds p ! i = ''ralph''
          then Some (seedRalphState (resolveRalphConfig (lv_ralphCommand env) (lv_ralphIterations env)))
          else None)\<rparr>"

definition launch_steps :: "launch_env \<Rightarrow> bool list option \<Rightarrow> pipeline \<Rightarrow> step list" where
  "launch_steps env gatesOverride p =
     map (\<lambda>(position, i). launch_step env gatesOverride p position i) (enumerate 0 (enabled_steps p))"

section \<open>The preamble of a step\<close>

definition gated_out :: "block \<Rightarrow> step \<Rightarrow> bool" where
  "gated_out b s \<longleftrightarrow> (case st_gating s of None \<Rightarrow> False | Some g \<Rightarrow> sg_enabled g)
     \<and> \<not> shouldRunGatedStep (bl_estimate b) (st_gating s)"

definition step_condition :: "step \<Rightarrow> service_scope option" where
  "step_condition s = Option.bind (st_stepOptions s) so_condition"

text \<open>Which skip the preamble takes for the step \<open>k\<close>, if any.\<close>

definition preamble_skip ::
  "kind_registry \<Rightarrow> block \<Rightarrow> run_scope \<Rightarrow> step list \<Rightarrow> nat \<Rightarrow> skip_reason option" where
  "preamble_skip r b sc steps k =
     (let s = steps ! k
      in if gated_out b s then Some SkipGated
         else if producerWasSkipped (Some r) steps k then Some SkipProducer
         else if step_condition s \<noteq> None \<and> \<not> stepConditionSatisfied (step_condition s) sc
         then Some SkipCondition
         else if stepNeedsMissingPullRequest r (st_agentKind s) b then Some SkipNoPullRequest
         else None)"

definition skip_step :: "int \<Rightarrow> skip_reason \<Rightarrow> step \<Rightarrow> step" where
  "skip_step now reason s = finishStep now
     (s\<lparr>st_skipped := Some True, st_skipReason := Some reason, st_output := Some [],
        st_progress := 1, st_subtasks := None\<rparr>)"

definition skipGatedStep ::
  "machine_deps \<Rightarrow> instance_rec \<Rightarrow> bool \<Rightarrow> skip_reason \<Rightarrow> (advance_result \<times> instance_rec) act" where
  "skipGatedStep deps i isFinalStep reason = (\<lambda>w.
     settleStepAndAdvance deps
       (i\<lparr>in_steps := update_at (in_currentStep i) (skip_step (wd_now w) reason) (in_steps i)\<rparr>)
       isFinalStep False w)"

text \<open>
  What the preamble asks of its collaborators: the answers of the spend and scope services, the
  kind-specific gates that resume on a parked step, and the input gate.
\<close>

record preamble_deps =
  pd_machine :: machine_deps
  pd_registry :: kind_registry
  pd_overBudget :: bool
  pd_nonMetered :: bool
  pd_reentrant :: "step \<Rightarrow> bool"
  pd_scope :: run_scope
  pd_inputGate :: "instance_rec \<Rightarrow> block \<Rightarrow> (advance_result option \<times> instance_rec) act"

datatype preamble_outcome = Proceed block bool | Stop advance_result

definition pending_decision :: "step \<Rightarrow> string option" where
  "pending_decision s = (case st_decision s of
      Some d \<Rightarrow> nonempty (Some (dc_id d)) | None \<Rightarrow> nonempty (map_option ap_id (st_approval s)))"

text \<open>From the input gate on.\<close>

definition preamble_dispatch ::
  "preamble_deps \<Rightarrow> block \<Rightarrow> instance_rec \<Rightarrow> (preamble_outcome \<times> instance_rec) act" where
  "preamble_dispatch d b i = act_bind (pd_inputGate d i b) (\<lambda>(gated, i1). case gated of
      Some res \<Rightarrow> act_return (Stop res, i1)
    | None \<Rightarrow>
        (let isFinalStep = (Suc (in_currentStep i1) = length (in_steps i1))
         in case preamble_skip (pd_registry d) b (pd_scope d) (in_steps i1) (in_currentStep i1) of
              Some reason \<Rightarrow>
                act_bind (skipGatedStep (pd_machine d) i1 isFinalStep reason)
                  (\<lambda>(res, i2). act_return (Stop res, i2))
            | None \<Rightarrow> act_return (Proceed b isFinalStep, i1)))"

text \<open>From the decision park on: the run is not held by the budget.\<close>

definition preamble_open ::
  "preamble_deps \<Rightarrow> instance_rec \<Rightarrow> (preamble_outcome \<times> instance_rec) act" where
  "preamble_open d i =
     (let s = in_steps i ! in_currentStep i
      in case (if st_state s = WaitingDecision \<and> \<not> pd_reentrant d s then pending_decision s else None) of
           Some decisionId \<Rightarrow>
             act_bind (persistAndEmit (pd_machine d) (i\<lparr>in_status := Blocked\<rparr>) None)
               (\<lambda>i1. act_return (Stop (AwaitingDecision decisionId), i1))
         | None \<Rightarrow> (\<lambda>w.
             let i1 = i\<lparr>in_steps := update_at (in_currentStep i) (startStep (wd_now w)) (in_steps i)\<rparr>
             in case block_in w (in_blockId i) of
                  None \<Rightarrow> (Inr (Stop Noop, i1), w)
                | Some b \<Rightarrow> preamble_dispatch d b i1 w))"

definition runStepPreamble ::
  "preamble_deps \<Rightarrow> instance_rec \<Rightarrow> (preamble_outcome \<times> instance_rec) act" where
  "runStepPreamble d i =
     (if pd_overBudget d \<and> \<not> pd_nonMetered d then
        (if in_status i = Paused then act_return (Stop AdvancePaused, i)
         else act_bind (persistAndEmit (pd_machine d) (i\<lparr>in_status := Paused\<rparr>) None)
                (\<lambda>i1. act_then (raiseBudgetPaused (pd_machine d)) (act_return (Stop AdvancePaused, i1))))
      else preamble_open d (if in_status i = Paused then i\<lparr>in_status := Running\<rparr> else i))"

section \<open>What a run may skip\<close>

text \<open>
  The runs of a pipeline as far as skips are concerned: the current step is skipped when the
  preamble says so, under the block, scope and clock of that turn; otherwise the step's handler may
  do anything that keeps every step's plan and marks no step as skipped, and may move the cursor.
\<close>

definition same_plan :: "step \<Rightarrow> step \<Rightarrow> bool" where
  "same_plan s t \<longleftrightarrow> st_agentKind s = st_agentKind t \<and> st_requiresApproval s = st_requiresApproval t
     \<and> st_gating s = st_gating t \<and> step_condition s = step_condition t"

inductive run_state :: "kind_registry \<Rightarrow> step list \<Rightarrow> step list \<Rightarrow> nat \<Rightarrow> bool"
  for r :: kind_registry and plan :: "step list" where
  launched: "run_state r plan plan 0"
| skipped: "run_state r plan steps k \<Longrightarrow> k < length steps \<Longrightarrow>
    preamble_skip r b sc steps k = Some reason \<Longrightarrow>
    run_state r plan (update_at k (skip_step now reason) steps) (Suc k)"
| worked: "run_state r plan steps k \<Longrightarrow> list_all2 same_plan steps steps' \<Longrightarrow>
    (\<And>j. j < length steps \<Longrightarrow> st_skipped (steps' ! j) = Some True \<Longrightarrow> st_skipped (steps ! j) = Some True) \<Longrightarrow>
    run_state r plan steps' k'"

definition may_skip :: "step \<Rightarrow> bool" where
  "may_skip s \<longleftrightarrow> (case st_gating s of None \<Rightarrow> False | Some g \<Rightarrow> sg_enabled g) \<or> step_condition s \<noteq> None"

definition own_skip :: "kind_registry \<Rightarrow> step \<Rightarrow> bool" where
  "own_skip r s \<longleftrightarrow> may_skip s \<or> readsRequiredPullRequest r (st_agentKind s)"

text \<open>The steps a run can skip: on their own account, or a companion in the wake of its predecessor.\<close>

fun excused :: "kind_registry \<Rightarrow> step list \<Rightarrow> nat \<Rightarrow> bool" where
  "excused r plan 0 = own_skip r (plan ! 0)"
| "excused r plan (Suc j) = (own_skip r (plan ! Suc j)
     \<or> isCompanionKind (Some r) (st_agentKind (plan ! Suc j)) \<and> excused r plan j)"

lemma same_plan_refl [simp]: "same_plan s s"
  by (simp add: same_plan_def)

lemma same_plan_trans: "same_plan s t \<Longrightarrow> same_plan t u \<Longrightarrow> same_plan s u"
  by (simp add: same_plan_def)

lemma finishStep_plan [simp]:
  "st_agentKind (finishStep now s) = st_agentKind s" "st_gating (finishStep now s) = st_gating s"
  "st_requiresApproval (finishStep now s) = st_requiresApproval s"
  "st_stepOptions (finishStep now s) = st_stepOptions s" "st_skipped (finishStep now s) = st_skipped s"
  by (simp_all add: finishStep_def Let_def)

lemma skip_step_plan [simp]: "same_plan s (skip_step now reason s)"
  by (simp add: same_plan_def skip_step_def step_condition_def)

lemma excused_same_plan:
  assumes "list_all2 same_plan plan steps" and "j < length steps"
  shows "own_skip r (steps ! j) = own_skip r (plan ! j)"
    and "st_agentKind (steps ! j) = st_agentKind (plan ! j)"
    and "st_requiresApproval (steps ! j) = st_requiresApproval (plan ! j)"
  using list_all2_nthD2 [OF assms] by (auto simp: same_plan_def own_skip_def may_skip_def)

lemma preamble_skip_own:
  assumes "preamble_skip r b sc steps k = Some reason"
  shows "own_skip r (steps ! k) \<or> producerWasSkipped (Some r) steps k"
  using assms
  by (auto simp: preamble_skip_def Let_def own_skip_def may_skip_def gated_out_def
      stepNeedsMissingPullRequest_def split: if_splits)

lemma skips_are_excused:
  assumes "run_state r plan steps k" and "\<forall>s \<in> set plan. st_skipped s \<noteq> Some True"
  shows "list_all2 same_plan plan steps
    \<and> (\<forall>j < length steps. st_skipped (steps ! j) = Some True \<longrightarrow> excused r plan j)"
  using assms(1)
proof (induction rule: run_state.induct)
  case launched
  from assms(2) show ?case by (auto simp: list_all2_conv_all_nth)
next
  case (skipped steps k b sc reason now)
  then have plan: "list_all2 same_plan plan steps" by simp
  have "list_all2 same_plan plan (update_at k (skip_step now reason) steps)"
    using plan by (auto simp: list_all2_conv_all_nth nth_update_at
        intro: same_plan_trans [OF _ skip_step_plan])
  moreover have "excused r plan k"
  proof (cases "own_skip r (steps ! k)")
    case True
    then show ?thesis using excused_same_plan(1) [OF plan skipped.hyps(2)] by (cases k) auto
  next
    case False
    with preamble_skip_own [OF skipped.hyps(3)] have "producerWasSkipped (Some r) steps k" by simp
    then obtain j where "k = Suc j" "st_skipped (steps ! j) = Some True"
      "isCompanionKind (Some r) (st_agentKind (steps ! Suc j))" "Suc j < length steps"
      by (cases k) (auto simp: producerWasSkipped_def)
    with skipped.IH excused_same_plan(2) [OF plan, of "Suc j"] show ?thesis by simp
  qed
  ultimately show ?case using skipped.IH by (auto simp: nth_update_at split: if_splits)
next
  case (worked steps k steps' k')
  then have plan: "list_all2 same_plan plan steps" by simp
  have "list_all2 same_plan plan steps'"
    using plan worked.hyps(2) by (rule list_all2_trans [rotated]) (rule same_plan_trans)
  with worked show ?case by (auto dest: list_all2_lengthD)
qed

section \<open>The steps of a launch\<close>

lemma scan_back_filter_upt:
  assumes "j < length (filter P [0..<n])" and "0 < j"
  shows "scan_back P (filter P [0..<n] ! j) = Some (filter P [0..<n] ! (j - 1))"
proof -
  let ?es = "filter P [0..<n]"
  have mono: "?es ! a < ?es ! b" if "a < b" "b < length ?es" for a b
    using sorted_wrt_nth_less [OF sorted_wrt_filter [OF sorted_wrt_upt] that] .
  have prev: "?es ! (j - 1) \<in> set ?es" and this_one: "?es ! j \<in> set ?es"
    using assms nth_mem [of j ?es] nth_mem [of "j - 1" ?es] by simp_all
  have "\<not> P x" if "?es ! (j - 1) < x" "x < ?es ! j" for x
  proof
    assume "P x"
    with that this_one have "x \<in> set ?es" by auto
    then obtain m where m: "m < length ?es" "x = ?es ! m" by (metis in_set_conv_nth)
    have "\<not> m \<le> j - 1"
      using mono [of m "j - 1"] that(1) m less_imp_diff_less [OF assms(1), of 1]
      by (cases "m = j - 1") auto
    moreover have "\<not> j \<le> m"
      using mono [of j m] that(2) m by (cases "m = j") auto
    ultimately
    show False using assms(2) by simp
  qed
  moreover have "?es ! (j - 1) < ?es ! j" using assms by (intro mono) simp_all
  moreover have "P (?es ! (j - 1))" using prev unfolding set_filter by blast
  ultimately show ?thesis unfolding scan_back_Some by blast
qed

lemma length_launch_steps [simp]: "length (launch_steps env ov p) = length (enabled_steps p)"
  by (simp add: launch_steps_def)

lemma launch_steps_nth:
  "j < length (enabled_steps p) \<Longrightarrow> launch_steps env ov p ! j = launch_step env ov p j (enabled_steps p ! j)"
  by (simp add: launch_steps_def nth_enumerate_eq)

lemma launch_step_plan [simp]:
  "st_agentKind (launch_step env ov p pos i) = pc_agentKinds p ! i"
  "st_requiresApproval (launch_step env ov p pos i) = Some (requires_approval_at ov p i)"
  "st_skipped (launch_step env ov p pos i) = None"
  "may_skip (launch_step env ov p pos i) = stepMaySkip p i"
  by (simp_all add: launch_step_def bare_step_def may_skip_def stepMaySkip_def estimate_gated_def
      step_condition_def condition_at_def)

lemma launch_steps_unskipped: "\<forall>s \<in> set (launch_steps env ov p). st_skipped s \<noteq> Some True"
  by (auto simp: launch_steps_def)

lemma accepted_checkpoint:
  assumes "validatePipelineShape rs p = None" and "i \<in> set (enabled_steps p)" and "gated_at p i"
  shows "\<not> stepMaySkip p i"
  using accepted_checks(2,3) [OF assms(1), of i] assms(2,3)
  by (auto simp: enabled_steps_iff stepMaySkip_def estimate_gated_def gating_check_at_def
      condition_check_at_def Let_def split: option.splits if_splits)

lemma accepted_producer:
  assumes "validatePipelineShape rs p = None" and "i \<in> set (enabled_steps p)"
    and "isCompanionKind (rs_kinds rs) (pc_agentKinds p ! i)" and "producer_index p i = Some j"
  shows "pc_agentKinds p ! j \<in> set (companionTargets (rs_kinds rs) (pc_agentKinds p ! i))"
    and "gated_at p i \<Longrightarrow> \<not> stepMaySkip p j"
proof -
  have i: "i < length (pc_agentKinds p)" "step_enabled p i" using assms(2) by (simp_all add: enabled_steps_iff)
  note checks = accepted_checks [OF assms(1) i]
  show "pc_agentKinds p ! j \<in> set (companionTargets (rs_kinds rs) (pc_agentKinds p ! i))"
    using checks(1) assms(3,4) by (simp add: companion_placement_at_def Let_def split: if_splits)
  assume g: "gated_at p i"
  have "j < i" using assms(4) by (auto simp: producer_index_def dest: scan_back_less)
  with checks(4) accepted_checkpoint [OF assms(1,2) g] g assms(3,4) i show "\<not> stepMaySkip p j"
    by (auto simp: reachable_check_at_def checkpointSkippedBy_def Let_def split: if_splits)
qed


section \<open>Concrete runs\<close>

definition reassessor_kind :: agent_kind_def where
  "reassessor_kind = \<lparr>ak_kind = ''task-reassessor'', ak_gatable = None, ak_traits = None,
     ak_agent = Some \<lparr>as_surface = ContainerExplore,
       as_clone = Some \<lparr>cl_branch = CloneBase, cl_prHead = Some True, cl_prHeadSource = Some RunHead,
         cl_requirePr = Some True\<rparr>, as_opensPr = None\<rparr>\<rparr>"

definition plain_launch :: "kind_registry \<Rightarrow> launch_env" where
  "plain_launch r = \<lparr>lv_registry = r, lv_companionBudget = 3, lv_ralphCommand = None,
     lv_ralphIterations = None, lv_seedQuality = (\<lambda>g. [])\<rparr>"

definition plain_pipeline :: "string list \<Rightarrow> bool list \<Rightarrow> step_gating option list \<Rightarrow> pipeline" where
  "plain_pipeline kinds gs gating =
     \<lparr>pc_agentKinds = kinds, pc_enabled = None, pc_gates = Some gs, pc_gating = Some gating,
      pc_testerQuality = None, pc_stepOptions = None, pl_id = ''pl'', pl_name = ''pl'', pl_builtin = None,
      pl_availability = None, pl_thresholds = None, pl_rest = None\<rparr>"

definition known_kinds :: "kind_registry \<Rightarrow> registries" where
  "known_kinds r = \<lparr>rs_kinds = Some r, rs_gates = Some Map.empty, rs_standard = (\<lambda>k. [])\<rparr>"

definition risk_gate :: step_gating where
  "risk_gate = \<lparr>sg_enabled = True, sg_minComplexity = None, sg_minRisk = Some (1 / 2),
     sg_minImpact = None, sg_onMissingEstimate = None\<rparr>"

definition light_task :: block where
  "light_task = (bare_block ''t'' TaskLevel None)
     \<lparr>bl_estimate := Some \<lparr>te_complexity = 1 / 10, te_risk = 1 / 10, te_impact = 1 / 10\<rparr>\<rparr>"

definition backend_scope :: run_scope where
  "backend_scope = \<lparr>rsc_frontend = False, rsc_backend = True\<rparr>"

text \<open>The turns of a run on the light task in which every step that may be skipped is, from step \<open>k\<close> on.\<close>

fun light_turns :: "kind_registry \<Rightarrow> nat \<Rightarrow> nat \<Rightarrow> step list \<Rightarrow> step list" where
  "light_turns r k 0 steps = steps"
| "light_turns r k (Suc n) steps =
     (case preamble_skip r light_task backend_scope steps k of
        Some reason \<Rightarrow> light_turns r (Suc k) n (update_at k (skip_step 0 reason) steps)
      | None \<Rightarrow> light_turns r (Suc k) n (update_at k (finishStep 0) steps))"

lemma light_turns_run:
  "run_state r plan steps k \<Longrightarrow> k + n \<le> length steps \<Longrightarrow> run_state r plan (light_turns r k n steps) (k + n)"
proof (induction n arbitrary: k steps)
  case (Suc n)
  show ?case
  proof (cases "preamble_skip r light_task backend_scope steps k")
    case None
    have "run_state r plan (update_at k (finishStep 0) steps) (Suc k)"
      by (rule run_state.worked [OF Suc.prems(1)])
        (auto simp: list_all2_conv_all_nth nth_update_at same_plan_def step_condition_def split: if_splits)
    from Suc.IH [OF this] Suc.prems(2) None show ?thesis by simp
  next
    case (Some reason)
    have "run_state r plan (update_at k (skip_step 0 reason) steps) (Suc k)"
      using run_state.skipped [OF Suc.prems(1) _ Some] Suc.prems(2) by simp
    from Suc.IH [OF this] Suc.prems(2) Some show ?thesis by simp
  qed
qed simp

definition reader_registry :: kind_registry where
  "reader_registry = register_kind reassessor_kind empty_registry"

definition reader_pipeline :: pipeline where
  "reader_pipeline = plain_pipeline [''coder'', ''task-reassessor''] [False, True] []"

definition reader_run :: "step list" where
  "reader_run = light_turns reader_registry 0 2 (launch_steps (plain_launch reader_registry) None reader_pipeline)"

lemma reader_run_reachable:
  "run_state reader_registry (launch_steps (plain_launch reader_registry) None reader_pipeline) reader_run 2"
proof -
  have "length (launch_steps (plain_launch reader_registry) None reader_pipeline) = 2" by code_simp
  then show ?thesis
    unfolding reader_run_def
    using light_turns_run [OF run_state.launched, of 2 _ reader_registry] by (simp only: add_0 order_refl)
qed

lemma reader_registry_companions:
  "companionFor (Some reader_registry) kind = companionFor None kind"
  by (simp add: reader_registry_def companionFor_def register_kind_def companions_preloaded split: option.splits)


definition override_pipeline :: pipeline where
  "override_pipeline = plain_pipeline [''task-estimator'', ''architect'', ''coder'']
     [False, False, False] [None, Some risk_gate, None]"

definition override_run :: "step list" where
  "override_run = light_turns empty_registry 0 3
     (launch_steps (plain_launch empty_registry) (Some [False, True, False]) override_pipeline)"

lemma override_run_reachable:
  "run_state empty_registry
     (launch_steps (plain_launch empty_registry) (Some [False, True, False]) override_pipeline) override_run 3"
proof -
  have "length (launch_steps (plain_launch empty_registry) (Some [False, True, False]) override_pipeline) = 3"
    by code_simp
  then show ?thesis
    unfolding override_run_def
    using light_turns_run [OF run_state.launched, of 3 _ empty_registry] by (simp only: add_0 order_refl)
qed

text \<open>
  A checkpoint of a per-run override is not held to that promise: the pipeline is accepted as it
  is saved, the override puts a checkpoint on its estimate-gated design step, and on a light task
  the run skips the step and with it the checkpoint.
\<close>

theorem override_checkpoint_is_skipped:
  "validatePipelineShape (known_kinds empty_registry) override_pipeline = None
   \<and> run_state empty_registry
       (launch_steps (plain_launch empty_registry) (Some [False, True, False]) override_pipeline) override_run 3
   \<and> st_requiresApproval (override_run ! 1) = Some True
   \<and> st_skipReason (override_run ! 1) = Some SkipGated"
proof (intro conjI)
  show "validatePipelineShape (known_kinds empty_registry) override_pipeline = None" by code_simp
  show "st_requiresApproval (override_run ! 1) = Some True" by code_simp
  show "st_skipReason (override_run ! 1) = Some SkipGated" by code_simp
qed (rule override_run_reachable)

definition second_reader :: companion_def where
  "second_reader = \<lparr>co_kind = ''second-reader'', co_targets = [''architect-companion''],
     co_defaultThreshold = DEFAULT_COMPANION_THRESHOLD, co_surface = None\<rparr>"

definition chained_registry :: kind_registry where
  "chained_registry = registerCompanion second_reader empty_registry"

definition chained_pipeline :: pipeline where
  "chained_pipeline = plain_pipeline
     [''task-estimator'', ''architect'', ''architect-companion'', ''second-reader'', ''coder'']
     [False, False, False, True, False] [None, Some risk_gate]"

definition chained_run :: "step list" where
  "chained_run = light_turns chained_registry 0 5
     (launch_steps (plain_launch chained_registry) None chained_pipeline)"

lemma chained_run_reachable:
  "run_state chained_registry (launch_steps (plain_launch chained_registry) None chained_pipeline) chained_run 5"
proof -
  have "length (launch_steps (plain_launch chained_registry) None chained_pipeline) = 5" by code_simp
  then show ?thesis
    unfolding chained_run_def
    using light_turns_run [OF run_state.launched, of 5 _ chained_registry] by (simp only: add_0 order_refl)
qed

text \<open>
  The premise on companions is needed: with a registered companion that reviews a companion, an
  accepted pipeline skips a checkpoint. The skip of the design step cascades through its reviewer to
  the reviewer of the reviewer, while the validation looks only one step back.
\<close>

theorem cascade_cancels_checkpoint:
  "validatePipelineShape (known_kinds chained_registry) chained_pipeline = None
   \<and> checkpointSkippedBy chained_pipeline 3 (isCompanionKind (Some chained_registry)) = None
   \<and> run_state chained_registry (launch_steps (plain_launch chained_registry) None chained_pipeline) chained_run 5
   \<and> st_requiresApproval (chained_run ! 3) = Some True
   \<and> st_skipReason (chained_run ! 3) = Some SkipProducer"
proof (intro conjI)
  show "validatePipelineShape (known_kinds chained_registry) chained_pipeline = None" by code_simp
  show "checkpointSkippedBy chained_pipeline 3 (isCompanionKind (Some chained_registry)) = None" by code_simp
  show "st_requiresApproval (chained_run ! 3) = Some True" by code_simp
  show "st_skipReason (chained_run ! 3) = Some SkipProducer" by code_simp
qed (rule chained_run_reachable)

section \<open>The guards of the preamble\<close>

lemma preamble_dispatch_Proceed:
  "preamble_dispatch d b0 i w = (Inr (Proceed b f, i'), w') \<longleftrightarrow>
     pd_inputGate d i b0 w = (Inr (None, i'), w') \<and> b = b0
     \<and> f = (Suc (in_currentStep i') = length (in_steps i'))
     \<and> preamble_skip (pd_registry d) b0 (pd_scope d) (in_steps i') (in_currentStep i') = None"
  by (auto simp: preamble_dispatch_def act_bind_Inr act_return_def Let_def split: option.splits)

text \<open>
  A step is dispatched only past every guard: the run is within its budget or the step costs none,
  no decision holds the step, the input gate lets it pass, and no skip rule applies to it.
\<close>

theorem preamble_clears_every_guard:
  assumes "runStepPreamble d i w = (Inr (Proceed b f, i'), w')"
  shows "(pd_overBudget d \<longrightarrow> pd_nonMetered d)
    \<and> block_in w (in_blockId i) = Some b
    \<and> (st_state (in_steps i ! in_currentStep i) = WaitingDecision
       \<longrightarrow> pd_reentrant d (in_steps i ! in_currentStep i)
         \<or> pending_decision (in_steps i ! in_currentStep i) = None)
    \<and> (\<exists>i1. pd_inputGate d i1 b w = (Inr (None, i'), w')
         \<and> in_steps i1 = update_at (in_currentStep i) (startStep (wd_now w)) (in_steps i)
         \<and> in_status i1 \<noteq> Paused)
    \<and> preamble_skip (pd_registry d) b (pd_scope d) (in_steps i') (in_currentStep i') = None"
proof -
  let ?i = "if in_status i = Paused then i\<lparr>in_status := Running\<rparr> else i"
  have keep: "in_steps ?i = in_steps i" "in_currentStep ?i = in_currentStep i" "in_blockId ?i = in_blockId i"
    "in_status ?i \<noteq> Paused" by auto
  from assms have budget: "pd_overBudget d \<longrightarrow> pd_nonMetered d" and opened: "preamble_open d ?i w = (Inr (Proceed b f, i'), w')"
    by (auto simp: runStepPreamble_def act_bind_Inr act_then_def act_return_def split: if_splits)
  have held: "st_state (in_steps i ! in_currentStep i) = WaitingDecision
       \<longrightarrow> pd_reentrant d (in_steps i ! in_currentStep i)
         \<or> pending_decision (in_steps i ! in_currentStep i) = None"
    using opened unfolding preamble_open_def Let_def keep
    by (auto simp: act_bind_Inr act_return_def split: if_splits option.splits)
  let ?i1 = "?i\<lparr>in_steps := update_at (in_currentStep i) (startStep (wd_now w)) (in_steps i)\<rparr>"
  from opened obtain b0 where b0: "block_in w (in_blockId i) = Some b0"
    and go: "preamble_dispatch d b0 ?i1 w = (Inr (Proceed b f, i'), w')"
    unfolding preamble_open_def Let_def keep
    by (auto simp: act_bind_Inr act_return_def split: if_splits option.splits)
  from go b0 budget held keep(4) show ?thesis
    unfolding preamble_dispatch_Proceed by (intro conjI exI [of _ ?i1]) auto
qed

definition clear_preamble :: preamble_deps where
  "clear_preamble = \<lparr>pd_machine = example_deps, pd_registry = empty_registry, pd_overBudget = True,
     pd_nonMetered = True, pd_reentrant = (\<lambda>s. False), pd_scope = backend_scope,
     pd_inputGate = (\<lambda>i b. act_return (None, i))\<rparr>"

definition paused_run :: instance_rec where
  "paused_run = (bare_run ''r1'' ''b1'' [bare_step ''coder'' Pending])\<lparr>in_status := Paused\<rparr>"

theorem preamble_clears_every_guard_witness:
  "\<exists>b f i' w'. runStepPreamble clear_preamble paused_run (example_world []) = (Inr (Proceed b f, i'), w')
     \<and> pd_nonMetered clear_preamble
     \<and> preamble_skip empty_registry b backend_scope (in_steps i') (in_currentStep i') = None"
proof -
  have skip: "preamble_skip empty_registry b backend_scope
      [startStep 9 (bare_step ''coder'' Pending)] 0 = None" for b
    by (simp add: preamble_skip_def Let_def gated_out_def step_condition_def startStep_def bare_step_def
        producerWasSkipped_def stepNeedsMissingPullRequest_def readsRequiredPullRequest_def agentStep_def
        empty_registry_def)
  have "\<exists>b f i' w'. runStepPreamble clear_preamble paused_run (example_world []) = (Inr (Proceed b f, i'), w')"
    using skip by (simp add: runStepPreamble_def clear_preamble_def paused_run_def preamble_open_def
        preamble_dispatch_def bare_run_def bare_step_def act_simps example_world_def block_in_def
        bare_block_def Let_def update_at_def) blast
  then obtain b f i' w' where run: "runStepPreamble clear_preamble paused_run (example_world []) = (Inr (Proceed b f, i'), w')"
    by blast
  from preamble_clears_every_guard [OF run] run show ?thesis
    by (auto simp: clear_preamble_def)
qed

end
