(* ===== verification/EnvLifecycle.thy ===== *)
theory EnvLifecycle
  imports RunSteps
begin

text \<open>
  The environment lifecycle of a pipeline (\<^verbatim>\<open>contracts/pipeline-environment-lifecycle.ts\<close>): provision,
  consume, reclaim. The code walks the enabled steps as a state machine; here the walk is shown to
  report exactly the faults of a positional description, and a pipeline without faults to give every
  consumer of a run an environment, whatever the run skips.
\<close>

section \<open>The walk\<close>

definition DEPLOYER_AGENT_KIND :: string where "DEPLOYER_AGENT_KIND = ''deployer''"
definition DISPOSER_AGENT_KIND :: string where "DISPOSER_AGENT_KIND = ''disposer''"

definition ENV_CONSUMER_AGENT_KINDS :: "string list" where
  "ENV_CONSUMER_AGENT_KINDS = [''tester-api'', ''tester-ui'', ''playwright'', ''human-test'']"

datatype env_reason =
    ConsumerWithoutDeployer | ConsumerAfterDisposer | DeployerWithoutDisposer
  | DisposerWithoutDeployer | RetainedDeployerReclaimed

record env_problem =
  ep_reason :: env_reason
  ep_index :: nat
  ep_agentKind :: string

datatype env_state = EnvNone | EnvLive | EnvReclaimed

definition reclaimed_after :: "'a pipeline_chain_scheme \<Rightarrow> nat \<Rightarrow> bool" where
  "reclaimed_after p i \<longleftrightarrow>
     list_ex (\<lambda>j. j > i \<and> pc_agentKinds p ! j = DISPOSER_AGENT_KIND) (enabled_steps p)"

definition retains :: "'a pipeline_chain_scheme \<Rightarrow> nat \<Rightarrow> bool" where
  "retains p i \<longleftrightarrow> Option.bind (options_at p i) so_retainEnvironment = Some True"

text \<open>One step of the walk: the state after it and the fault it carries.\<close>

definition env_step :: "'a pipeline_chain_scheme \<Rightarrow> nat \<Rightarrow> env_state \<Rightarrow> env_state \<times> env_reason option" where
  "env_step p i env =
     (let kind = pc_agentKinds p ! i
      in if kind = DEPLOYER_AGENT_KIND then
           (EnvLive, if retains p i
              then (if reclaimed_after p i then Some RetainedDeployerReclaimed else None)
              else if \<not> reclaimed_after p i then Some DeployerWithoutDisposer else None)
         else if kind = DISPOSER_AGENT_KIND then
           (EnvReclaimed, if env \<noteq> EnvLive then Some DisposerWithoutDeployer else None)
         else if env \<noteq> EnvLive \<and> kind \<in> set ENV_CONSUMER_AGENT_KINDS then
           (env, Some (if env = EnvReclaimed then ConsumerAfterDisposer else ConsumerWithoutDeployer))
         else (env, None))"

fun env_walk :: "'a pipeline_chain_scheme \<Rightarrow> env_state \<Rightarrow> nat list \<Rightarrow> env_problem list" where
  "env_walk p env [] = []"
| "env_walk p env (i # is) =
     (case env_step p i env of (env', fault) \<Rightarrow>
        (case fault of
           None \<Rightarrow> env_walk p env' is
         | Some r \<Rightarrow> \<lparr>ep_reason = r, ep_index = i, ep_agentKind = pc_agentKinds p ! i\<rparr> # env_walk p env' is))"

definition pipelineEnvironmentProblems :: "'a pipeline_chain_scheme \<Rightarrow> env_problem list" where
  "pipelineEnvironmentProblems p = env_walk p EnvNone (enabled_steps p)"

section \<open>The same faults by position\<close>

definition runs_kind :: "'a pipeline_chain_scheme \<Rightarrow> string \<Rightarrow> nat \<Rightarrow> bool" where
  "runs_kind p kind i \<longleftrightarrow> i \<in> set (enabled_steps p) \<and> pc_agentKinds p ! i = kind"

text \<open>An environment stands before step \<open>i\<close>: a deployer runs earlier, and no disposer between.\<close>

definition stands :: "'a pipeline_chain_scheme \<Rightarrow> nat \<Rightarrow> bool" where
  "stands p i \<longleftrightarrow> (\<exists>d < i. runs_kind p DEPLOYER_AGENT_KIND d
     \<and> (\<forall>j. d < j \<and> j < i \<longrightarrow> \<not> runs_kind p DISPOSER_AGENT_KIND j))"

definition disposed_before :: "'a pipeline_chain_scheme \<Rightarrow> nat \<Rightarrow> bool" where
  "disposed_before p i \<longleftrightarrow> (\<exists>j < i. runs_kind p DISPOSER_AGENT_KIND j)"

definition env_fault :: "'a pipeline_chain_scheme \<Rightarrow> nat \<Rightarrow> env_reason \<Rightarrow> bool" where
  "env_fault p i reason \<longleftrightarrow> i \<in> set (enabled_steps p) \<and> (case reason of
      ConsumerWithoutDeployer \<Rightarrow> pc_agentKinds p ! i \<in> set ENV_CONSUMER_AGENT_KINDS
        \<and> \<not> stands p i \<and> \<not> disposed_before p i
    | ConsumerAfterDisposer \<Rightarrow> pc_agentKinds p ! i \<in> set ENV_CONSUMER_AGENT_KINDS
        \<and> \<not> stands p i \<and> disposed_before p i
    | DisposerWithoutDeployer \<Rightarrow> pc_agentKinds p ! i = DISPOSER_AGENT_KIND \<and> \<not> stands p i
    | DeployerWithoutDisposer \<Rightarrow> pc_agentKinds p ! i = DEPLOYER_AGENT_KIND \<and> \<not> retains p i
        \<and> (\<forall>j > i. \<not> runs_kind p DISPOSER_AGENT_KIND j)
    | RetainedDeployerReclaimed \<Rightarrow> pc_agentKinds p ! i = DEPLOYER_AGENT_KIND \<and> retains p i
        \<and> (\<exists>j > i. runs_kind p DISPOSER_AGENT_KIND j))"

definition env_before :: "'a pipeline_chain_scheme \<Rightarrow> nat \<Rightarrow> env_state" where
  "env_before p i = (if stands p i then EnvLive else if disposed_before p i then EnvReclaimed else EnvNone)"

lemma kinds_apart:
  "DEPLOYER_AGENT_KIND \<noteq> DISPOSER_AGENT_KIND"
  "DEPLOYER_AGENT_KIND \<notin> set ENV_CONSUMER_AGENT_KINDS" "DISPOSER_AGENT_KIND \<notin> set ENV_CONSUMER_AGENT_KINDS"
  by code_simp+

lemma reclaimed_after_iff: "reclaimed_after p i \<longleftrightarrow> (\<exists>j > i. runs_kind p DISPOSER_AGENT_KIND j)"
  by (auto simp: reclaimed_after_def runs_kind_def list_ex_iff)

lemma stands_Suc:
  "stands p (Suc i) \<longleftrightarrow> runs_kind p DEPLOYER_AGENT_KIND i \<or> stands p i \<and> \<not> runs_kind p DISPOSER_AGENT_KIND i"
  unfolding stands_def using kinds_apart(1)
  by (auto simp: less_Suc_eq runs_kind_def)

lemma disposed_before_Suc:
  "disposed_before p (Suc i) \<longleftrightarrow> disposed_before p i \<or> runs_kind p DISPOSER_AGENT_KIND i"
  by (auto simp: disposed_before_def less_Suc_eq)


lemma env_step_state:
  assumes "i \<in> set (enabled_steps p)"
  shows "fst (env_step p i (env_before p i)) = env_before p (Suc i)"
  using assms kinds_apart(1)
  by (auto simp: env_step_def Let_def env_before_def stands_Suc disposed_before_Suc runs_kind_def)

lemma env_before_gap:
  assumes "i \<notin> set (enabled_steps p)"
  shows "env_before p (Suc i) = env_before p i"
  using assms by (simp add: env_before_def stands_Suc disposed_before_Suc runs_kind_def)

lemma env_step_fault:
  assumes "i \<in> set (enabled_steps p)"
  shows "snd (env_step p i (env_before p i)) = Some r \<longleftrightarrow> env_fault p i r"
  using assms kinds_apart
  by (cases r) (auto simp: env_step_def Let_def env_before_def env_fault_def reclaimed_after_iff)

lemma env_walk_faults:
  assumes "n = length (pc_agentKinds p)" and "m \<le> n"
  shows "env_walk p (env_before p m) (filter (step_enabled p) [m..<n]) =
    concat (map (\<lambda>i. case snd (env_step p i (env_before p i)) of None \<Rightarrow> []
        | Some r \<Rightarrow> [\<lparr>ep_reason = r, ep_index = i, ep_agentKind = pc_agentKinds p ! i\<rparr>])
      (filter (step_enabled p) [m..<n]))"
  using assms(2)
proof (induction "n - m" arbitrary: m)
  case (Suc d)
  then have m: "m < n" by simp
  note IH = Suc.hyps(1) [of "Suc m"]
  show ?case
  proof (cases "step_enabled p m")
    case True
    then have "m \<in> set (enabled_steps p)" using m assms(1) by (simp add: enabled_steps_iff)
    with env_step_state [OF this] True m IH Suc.hyps(2) show ?thesis
      by (cases "env_step p m (env_before p m)") (auto simp: upt_conv_Cons split: option.splits)
  next
    case False
    then have "m \<notin> set (enabled_steps p)" by (simp add: enabled_steps_iff)
    with env_before_gap [OF this] False m IH Suc.hyps(2) show ?thesis by (simp add: upt_conv_Cons)
  qed
qed simp

lemma environment_problems_mem:
  "pr \<in> set (pipelineEnvironmentProblems p) \<longleftrightarrow>
     env_fault p (ep_index pr) (ep_reason pr) \<and> ep_agentKind pr = pc_agentKinds p ! ep_index pr"
proof -
  have start: "env_before p 0 = EnvNone" by (simp add: env_before_def stands_def disposed_before_def)
  have walk: "pipelineEnvironmentProblems p = concat (map (\<lambda>i. case snd (env_step p i (env_before p i)) of
        None \<Rightarrow> [] | Some r \<Rightarrow> [\<lparr>ep_reason = r, ep_index = i, ep_agentKind = pc_agentKinds p ! i\<rparr>]) (enabled_steps p))"
    using env_walk_faults [OF refl, of 0 p] unfolding pipelineEnvironmentProblems_def enabled_steps_def start
    by simp
  show ?thesis
  proof
    assume "pr \<in> set (pipelineEnvironmentProblems p)"
    then obtain i r where "i \<in> set (enabled_steps p)" "snd (env_step p i (env_before p i)) = Some r"
      "pr = \<lparr>ep_reason = r, ep_index = i, ep_agentKind = pc_agentKinds p ! i\<rparr>"
      unfolding walk by (auto split: option.splits)
    then show "env_fault p (ep_index pr) (ep_reason pr) \<and> ep_agentKind pr = pc_agentKinds p ! ep_index pr"
      using env_step_fault [of i p r] by simp
  next
    assume fault: "env_fault p (ep_index pr) (ep_reason pr) \<and> ep_agentKind pr = pc_agentKinds p ! ep_index pr"
    then have i: "ep_index pr \<in> set (enabled_steps p)" by (simp add: env_fault_def)
    with fault env_step_fault have "snd (env_step p (ep_index pr) (env_before p (ep_index pr))) = Some (ep_reason pr)"
      by blast
    with i fault show "pr \<in> set (pipelineEnvironmentProblems p)"
      unfolding walk by (auto intro!: bexI [of _ "ep_index pr"])
  qed
qed

lemma environment_faults_listed:
  "env_fault p i r \<longleftrightarrow> \<lparr>ep_reason = r, ep_index = i, ep_agentKind = pc_agentKinds p ! i\<rparr> \<in> set (pipelineEnvironmentProblems p)"
  by (simp add: environment_problems_mem)

lemma enabled_steps_mono: "a < b \<Longrightarrow> b < length (enabled_steps p) \<Longrightarrow> enabled_steps p ! a < enabled_steps p ! b"
  unfolding enabled_steps_def by (rule sorted_wrt_nth_less [OF sorted_wrt_filter [OF sorted_wrt_upt]])

text \<open>
  C25. The walk reports exactly the faults of the environment lifecycle: a fault is in its result if
  and only if the step at the named position is enabled and is, by the positions of the enabled
  deployers and disposers around it, starved, unreclaimed, idle or contradictory as the reason says.
\<close>

theorem environment_problems_exact:
  "pr \<in> set (pipelineEnvironmentProblems p) \<longleftrightarrow>
     env_fault p (ep_index pr) (ep_reason pr) \<and> ep_agentKind pr = pc_agentKinds p ! ep_index pr"
  by (rule environment_problems_mem)

section \<open>Consumers find an environment\<close>

lemma no_problem_no_fault: "pipelineEnvironmentProblems p = [] \<Longrightarrow> \<not> env_fault p i r"
  using environment_faults_listed [of p i r] by simp

text \<open>
  C26. In a run of an accepted pipeline without lifecycle faults every consumer of an environment is
  preceded by a deployer that the run did not skip, with no disposer between them, whatever other
  steps the run skips. A deployment is taken to leave the deployer as the built-in it is: not
  gatable, not a companion, no reader of pull requests.
\<close>

theorem consumers_find_an_environment:
  assumes "validatePipelineShape rs p = None" and "rs_kinds rs = Some r"
    and "pipelineEnvironmentProblems p = []"
    and "\<not> isGatableKind (Some r) DEPLOYER_AGENT_KIND" and "\<not> isCompanionKind (Some r) DEPLOYER_AGENT_KIND"
    and "\<not> readsRequiredPullRequest r DEPLOYER_AGENT_KIND"
    and "run_state r (launch_steps env None p) steps k"
    and "j < length steps" and "st_agentKind (steps ! j) \<in> set ENV_CONSUMER_AGENT_KINDS"
  shows "\<exists>d < j. st_agentKind (steps ! d) = DEPLOYER_AGENT_KIND \<and> st_skipped (steps ! d) \<noteq> Some True
    \<and> (\<forall>m. d < m \<and> m < j \<longrightarrow> st_agentKind (steps ! m) \<noteq> DISPOSER_AGENT_KIND)"
proof -
  let ?plan = "launch_steps env None p" and ?es = "enabled_steps p"
  from skips_are_excused [OF assms(7) launch_steps_unskipped]
  have plan: "list_all2 same_plan ?plan steps"
    and ex: "\<And>d. d < length steps \<Longrightarrow> st_skipped (steps ! d) = Some True \<Longrightarrow> excused r ?plan d" by auto
  have len: "length steps = length ?es" using list_all2_lengthD [OF plan] by simp
  have kind: "st_agentKind (steps ! m) = pc_agentKinds p ! (?es ! m)" if "m < length ?es" for m
    using excused_same_plan(2) [OF plan, of m] that len by (simp add: launch_steps_nth)
  have j: "j < length ?es" using assms(8) len by simp
  then have i: "?es ! j \<in> set ?es" by simp
  have "stands p (?es ! j)"
    using no_problem_no_fault [OF assms(3), of "?es ! j" ConsumerWithoutDeployer]
      no_problem_no_fault [OF assms(3), of "?es ! j" ConsumerAfterDisposer] i assms(9) kind [OF j]
    by (auto simp: env_fault_def)
  then obtain x where x: "x < ?es ! j" "runs_kind p DEPLOYER_AGENT_KIND x"
    "\<And>y. x < y \<Longrightarrow> y < ?es ! j \<Longrightarrow> \<not> runs_kind p DISPOSER_AGENT_KIND y"
    by (auto simp: stands_def)
  then obtain d where d: "d < length ?es" "?es ! d = x"
    by (auto simp: runs_kind_def in_set_conv_nth)
  have dj: "d < j" using x(1) d enabled_steps_mono [of d j p] enabled_steps_mono [of j d p] j
    by (cases d j rule: linorder_cases) auto
  have "\<not> stepMaySkip p x"
    using accepted_checks(2,3) [OF assms(1), of x] x(2) assms(2,4)
    by (auto simp: runs_kind_def enabled_steps_iff stepMaySkip_def estimate_gated_def gating_check_at_def
        condition_check_at_def Let_def split: option.splits if_splits)
  then have "\<not> excused r ?plan d"
    using d x(2) assms(5,6) by (cases d) (auto simp: launch_steps_nth own_skip_def runs_kind_def)
  with ex [of d] dj j len have "st_skipped (steps ! d) \<noteq> Some True" by auto
  moreover have "st_agentKind (steps ! m) \<noteq> DISPOSER_AGENT_KIND" if m: "d < m" "m < j" for m
    using x(3) [of "?es ! m"] enabled_steps_mono [of d m p] enabled_steps_mono [of m j p] d m j kind [of m]
    by (auto simp: runs_kind_def)
  ultimately show ?thesis using dj kind [OF d(1)] d(2) x(2) by (auto simp: runs_kind_def)
qed

definition env_pipeline :: pipeline where
  "env_pipeline = plain_pipeline
     [''task-estimator'', ''coder'', ''deployer'', ''mocker'', ''tester-api'', ''disposer'']
     [] [None, None, None, Some risk_gate]"

definition env_run :: "step list" where
  "env_run = light_turns empty_registry 0 6 (launch_steps (plain_launch empty_registry) None env_pipeline)"

text \<open>The light task skips the step between the deployer and the tester.\<close>

theorem consumers_find_an_environment_witness:
  "st_skipped (env_run ! 3) = Some True
   \<and> (\<exists>d < 4. st_agentKind (env_run ! d) = DEPLOYER_AGENT_KIND \<and> st_skipped (env_run ! d) \<noteq> Some True)"
proof -
  have v: "validatePipelineShape (known_kinds empty_registry) env_pipeline = None" by code_simp
  have k: "rs_kinds (known_kinds empty_registry) = Some empty_registry" by (simp add: known_kinds_def)
  have p: "pipelineEnvironmentProblems env_pipeline = []" by code_simp
  have g: "\<not> isGatableKind (Some empty_registry) DEPLOYER_AGENT_KIND"
    "\<not> isCompanionKind (Some empty_registry) DEPLOYER_AGENT_KIND"
    "\<not> readsRequiredPullRequest empty_registry DEPLOYER_AGENT_KIND" by code_simp+
  have "length (launch_steps (plain_launch empty_registry) None env_pipeline) = 6" by code_simp
  then have r: "run_state empty_registry (launch_steps (plain_launch empty_registry) None env_pipeline) env_run 6"
    unfolding env_run_def
    using light_turns_run [OF run_state.launched, of 6 _ empty_registry] by (simp only: add_0 order_refl)
  have l: "4 < length env_run" and c: "st_agentKind (env_run ! 4) \<in> set ENV_CONSUMER_AGENT_KINDS" by code_simp+
  have "st_skipped (env_run ! 3) = Some True" by code_simp
  with consumers_find_an_environment [OF v k p g r l c] show ?thesis by blast
qed

end
