(* ===== verification/StepDecision.thy ===== *)
theory StepDecision
  imports RunSteps
begin

text \<open>
  What people decide about a parked run (\<^verbatim>\<open>execution/StepDecisionController.ts\<close>,
  \<^verbatim>\<open>step-park.logic.ts\<close>): answer a question of the agent, approve, send back or reject a gated
  proposal. Each is a mutation under the revision guard with the effects after it. The merge verbs and
  the fix request of the human-review gate are not modelled. A refusal is the \<^verbatim>\<open>DomainError\<close> of its
  machine-readable reason, or of a short name where the code has only a sentence.
\<close>

section \<open>Which surface owns a parked step\<close>

datatype park_surface =
    InputGateSurface | CredentialSurface | RequirementsReviewSurface | ClarityReviewSurface
  | BrainstormSurface | HumanTestSurface | VisualConfirmationSurface | InterviewSurface
  | CompanionCapSurface | FollowUpsSurface | ForkDecisionSurface | BinaryCandidatesSurface

text \<open>What is read of the sub-states of gates that a step does not carry here.\<close>

record park_facts =
  pf_inputGateBlocked :: "instance_rec \<Rightarrow> bool"
  pf_credentialWait :: "step \<Rightarrow> bool"
  pf_followUpsPending :: "step \<Rightarrow> bool"
  pf_forkAwaiting :: "step \<Rightarrow> bool"
  pf_candidatesAwaiting :: "step \<Rightarrow> bool"

definition INTERVIEW_GATE_TRAIT :: string where
  "INTERVIEW_GATE_TRAIT = ''interview-gate''"

definition dedicatedParkSurface ::
  "park_facts \<Rightarrow> (string \<Rightarrow> string list) \<Rightarrow> kind_registry \<Rightarrow> instance_rec \<Rightarrow> step \<Rightarrow> park_surface option" where
  "dedicatedParkSurface facts standard r i s =
     (let kind = st_agentKind s
      in if pf_inputGateBlocked facts i then Some InputGateSurface
         else if pf_credentialWait facts s then Some CredentialSurface
         else if kind = ''requirements-review'' then Some RequirementsReviewSurface
         else if kind = ''clarity-review'' then Some ClarityReviewSurface
         else if kind = ''requirements-brainstorm'' \<or> kind = ''architecture-brainstorm'' then Some BrainstormSurface
         else if kind = ''human-test'' then Some HumanTestSurface
         else if kind = ''visual-confirmation'' then Some VisualConfirmationSurface
         else if hasTrait standard kind INTERVIEW_GATE_TRAIT r then Some InterviewSurface
         else if Option.bind (st_companion s) cs_exceeded = Some True then Some CompanionCapSurface
         else if pf_followUpsPending facts s then Some FollowUpsSurface
         else if pf_forkAwaiting facts s then Some ForkDecisionSurface
         else if pf_candidatesAwaiting facts s then Some BinaryCandidatesSurface
         else None)"

definition stepAwaitsDecision :: "step \<Rightarrow> bool" where
  "stepAwaitsDecision s \<longleftrightarrow> st_state s = WaitingDecision \<and> map_option ap_status (st_approval s) = Some ApprovalPending"

definition findParkedInterviewStep ::
  "(string \<Rightarrow> string list) \<Rightarrow> kind_registry \<Rightarrow> instance_rec \<Rightarrow> (step \<times> nat) option" where
  "findParkedInterviewStep standard r i = map_option (\<lambda>k. (in_steps i ! k, k))
     (find_index (\<lambda>s. hasTrait standard (st_agentKind s) INTERVIEW_GATE_TRAIT r \<and> stepAwaitsDecision s) (in_steps i))"

text \<open>What a controller is wired with.\<close>

record decision_deps =
  dd_machine :: machine_deps
  dd_registry :: kind_registry
  dd_standard :: "string \<Rightarrow> string list"
  dd_park :: park_facts

definition wrong_surface :: "decision_deps \<Rightarrow> instance_rec \<Rightarrow> step \<Rightarrow> bool" where
  "wrong_surface d i s \<longleftrightarrow> dedicatedParkSurface (dd_park d) (dd_standard d) (dd_registry d) i s \<noteq> None"

section \<open>The mutations\<close>

definition approval_at :: "string \<Rightarrow> instance_rec \<Rightarrow> nat option" where
  "approval_at aid i = find_index (\<lambda>s. map_option ap_id (st_approval s) = Some aid) (in_steps i)"

definition gate_of :: "instance_rec \<Rightarrow> nat \<Rightarrow> approval" where
  "gate_of i k = the (st_approval (in_steps i ! k))"

definition refusal_reason :: "gate_refusal \<Rightarrow> string" where
  "refusal_reason r = (case r of
      NotAGateApprover \<Rightarrow> ''not_a_gate_approver'' | IdentityRequired \<Rightarrow> ''gate_approver_identity_required'')"

text \<open>The edit of the proposal and the vote, on the step and on its gate.\<close>

definition edit_output :: "string option \<Rightarrow> step \<Rightarrow> step" where
  "edit_output proposal s = (case proposal of None \<Rightarrow> s | Some t \<Rightarrow> s\<lparr>st_output := Some t\<rparr>)"

definition record_vote :: "string option \<Rightarrow> approval_record list \<Rightarrow> approval \<Rightarrow> approval" where
  "record_vote proposal approvals ap =
     ap\<lparr>ap_proposal := (case proposal of None \<Rightarrow> ap_proposal ap | Some t \<Rightarrow> t), ap_approvals := Some approvals\<rparr>"

definition put_gate :: "instance_rec \<Rightarrow> nat \<Rightarrow> step \<Rightarrow> approval \<Rightarrow> instance_rec" where
  "put_gate i k s ap = i\<lparr>in_steps := (in_steps i)[k := s\<lparr>st_approval := Some ap\<rparr>]\<rparr>"

datatype approve_outcome = NotRun | AlreadyApproved | AwaitingQuorum | Advanced nat

definition approve_mutation ::
  "decision_deps \<Rightarrow> int \<Rightarrow> string \<Rightarrow> string option \<Rightarrow> gate_actor \<Rightarrow> instance_rec
    \<Rightarrow> run_error + instance_rec \<times> approve_outcome" where
  "approve_mutation d now aid proposal actor i = (case approval_at aid i of
      None \<Rightarrow> Inl (NotFound aid)
    | Some k \<Rightarrow>
        (let s = in_steps i ! k; ap = gate_of i k
         in if wrong_surface d i s then Inl (DomainError ''wrong_surface'')
            else if ap_status ap = Approved then Inr (i, AlreadyApproved)
            else case refuseGateResolution (ap_approverPolicy ap) actor of
                Some r \<Rightarrow> Inl (DomainError (refusal_reason r))
              | None \<Rightarrow>
                  if ap_status ap = Rejected then Inl (DomainError ''was_rejected'')
                  else if in_status i = Failed \<or> in_status i = RunDone then Inl (DomainError ''run_settled'')
                  else (case foldGateApproval ap actor now of (approvals, satisfied) \<Rightarrow>
                    if proposal \<noteq> None \<and> st_outputIsRendered s = Some True
                    then Inl (DomainError ''proposal_not_editable'')
                    else if proposal \<noteq> None \<and> \<not> satisfied
                    then Inl (DomainError ''proposal_not_editable_until_quorum'')
                    else
                      (let s1 = edit_output proposal s; ap1 = record_vote proposal approvals ap
                       in if \<not> satisfied then Inr (put_gate i k s1 ap1, AwaitingQuorum)
                          else Inr (fst (advanceRunPastGate now (put_gate i k s1 (ap1\<lparr>ap_status := Approved\<rparr>)) k),
                               Advanced k)))))"

definition unblock :: "instance_rec \<Rightarrow> instance_rec" where
  "unblock i = (if in_status i = Blocked then i\<lparr>in_status := Running\<rparr> else i)"

definition changes_mutation ::
  "decision_deps \<Rightarrow> int \<Rightarrow> string \<Rightarrow> string option \<Rightarrow> review_comment list option \<Rightarrow> gate_actor \<Rightarrow> instance_rec
    \<Rightarrow> run_error + instance_rec" where
  "changes_mutation d now aid feedback comments actor i = (case approval_at aid i of
      None \<Rightarrow> Inl (NotFound aid)
    | Some k \<Rightarrow>
        (let s = in_steps i ! k; ap = gate_of i k
         in if wrong_surface d i s then Inl (DomainError ''wrong_surface'')
            else if ap_status ap = Approved then Inl (DomainError ''already_approved'')
            else if ap_status ap = Rejected then Inl (DomainError ''was_rejected'')
            else if ap_status ap = ChangesRequested then Inl (DomainError ''being_rerun'')
            else case refuseGateResolution (ap_approverPolicy ap) actor of
                Some r \<Rightarrow> Inl (DomainError (refusal_reason r))
              | None \<Rightarrow>
                  (let said = (case comments of None \<Rightarrow> None | Some cs \<Rightarrow> if cs = [] then None else Some cs);
                       ap1 = ap\<lparr>ap_status := ChangesRequested, ap_feedback := feedback, ap_comments := said\<rparr>;
                       i1 = put_gate i k s ap1;
                       reg = Some (dd_registry d);
                       producer = (if isCompanionKind reg (st_agentKind s)
                         then scan_back (\<lambda>j. st_agentKind (in_steps i ! j) \<in> set (companionTargets reg (st_agentKind s))) k
                         else None)
                   in case producer of
                        Some j \<Rightarrow> Inr (unblock (rerunProducerThrough now j k
                            \<lparr>re_previousProposal = (case st_output (in_steps i ! j) of None \<Rightarrow> ap_proposal ap | Some t \<Rightarrow> t),
                             re_feedback = (case feedback of None \<Rightarrow> [] | Some t \<Rightarrow> t),
                             re_comments = said, re_requestedBy = RequestedByHuman\<rparr> i1))
                      | None \<Rightarrow> Inr (unblock (i1\<lparr>in_steps := update_at k
                            (\<lambda>t. startStep now (t\<lparr>st_jobId := None, st_startedAt := None, st_finishedAt := None\<rparr>))
                            (in_steps i1)\<rparr>)))))"

definition reject_gate :: "string option \<Rightarrow> approval \<Rightarrow> approval" where
  "reject_gate reason ap = ap\<lparr>ap_status := Rejected,
     ap_feedback := (case nonempty reason of None \<Rightarrow> ap_feedback ap | Some t \<Rightarrow> Some t)\<rparr>"

datatype reject_outcome = RejectNotRun | AlreadyRejected | JustRejected

definition reject_mutation ::
  "decision_deps \<Rightarrow> string \<Rightarrow> string option \<Rightarrow> gate_actor \<Rightarrow> instance_rec
    \<Rightarrow> run_error + instance_rec \<times> reject_outcome" where
  "reject_mutation d aid reason actor i = (case approval_at aid i of
      None \<Rightarrow> Inl (NotFound aid)
    | Some k \<Rightarrow>
        (let s = in_steps i ! k; ap = gate_of i k
         in if wrong_surface d i s then Inl (DomainError ''wrong_surface'')
            else if ap_status ap = Approved then Inl (DomainError ''already_approved'')
            else if ap_status ap = ChangesRequested then Inl (DomainError ''being_rerun'')
            else if ap_status ap = Rejected then Inr (i, AlreadyRejected)
            else case refuseGateResolution (ap_approverPolicy ap) actor of
                Some r \<Rightarrow> Inl (DomainError (refusal_reason r))
              | None \<Rightarrow> Inr (put_gate i k s (reject_gate reason ap), JustRejected)))"

definition decision_mutation :: "int \<Rightarrow> string \<Rightarrow> string \<Rightarrow> instance_rec \<Rightarrow> run_error + instance_rec" where
  "decision_mutation now did choice i =
     (case find_index (\<lambda>s. map_option dc_id (st_decision s) = Some did) (in_steps i) of
        None \<Rightarrow> Inl (NotFound did)
      | Some k \<Rightarrow> Inr (unblock (i\<lparr>in_steps := update_at k (\<lambda>s. startStep now
            (s\<lparr>st_decision := map_option (\<lambda>q. q\<lparr>dc_chosen := Some choice\<rparr>) (st_decision s)\<rparr>)) (in_steps i)\<rparr>)))"

section \<open>The decisions\<close>

datatype decision_error = MutationFailed run_error | MachineFailed machine_error

type_synonym 'a decide = "(world, decision_error, 'a) action"

definition lift_act :: "'a act \<Rightarrow> 'a decide" where
  "lift_act m w = (case m w of (Inl e, w') \<Rightarrow> (Inl (MachineFailed e), w') | (Inr a, w') \<Rightarrow> (Inr a, w'))"

text \<open>
  A mutation of the stored run in a world: \<open>before\<close> is what the mutation writes besides the run, once
  per attempt and ahead of its swap; \<open>env\<close> is what other writers do between a read and its swap. The
  mutation's own result travels beside the run.
\<close>

definition read_run :: "'o \<Rightarrow> string \<Rightarrow> world \<Rightarrow> store_error + (instance_rec \<times> 'o) option" where
  "read_run none rid w = (case get_run (wd_ws w) rid (wd_runs w) of
      Inl e \<Rightarrow> Inl e | Inr r \<Rightarrow> Inr (map_option (\<lambda>i. (i, none)) r))"

definition swap_run ::
  "(instance_rec \<Rightarrow> world \<Rightarrow> world) \<Rightarrow> instance_rec \<times> 'o \<Rightarrow> world
    \<Rightarrow> store_error + bool \<times> (instance_rec \<times> 'o) \<times> world" where
  "swap_run before io w =
     (let w1 = before (fst io) w
      in case compareAndSwap (wd_ws w1) (wd_now w1) (fst io) (wd_runs w1) of
           Inl e \<Rightarrow> Inl e
         | Inr (swapped, i', t') \<Rightarrow> Inr (swapped, (i', snd io), w1\<lparr>wd_runs := t'\<rparr>))"

definition mutate_run ::
  "(instance_rec \<Rightarrow> run_error + instance_rec \<times> 'o) \<Rightarrow> (instance_rec \<Rightarrow> world \<Rightarrow> world) \<Rightarrow> 'o
    \<Rightarrow> (nat \<Rightarrow> world \<Rightarrow> world) \<Rightarrow> string \<Rightarrow> (instance_rec \<times> 'o) decide" where
  "mutate_run mutate before none env rid w =
     (case mutate_attempts (read_run none) (swap_run before) (\<lambda>io. mutate (fst io)) env (\<lambda>r. r)
             MAX_MUTATE_ATTEMPTS rid w of
        (Inl e, w') \<Rightarrow> (Inl (MutationFailed e), w')
      | (Inr io, w') \<Rightarrow> (Inr io, w'))"

definition signal_decision :: "string \<Rightarrow> string \<Rightarrow> unit decide" where
  "signal_decision rid aid = lift_act (put_effects [DecisionSignalled rid aid])"

definition approveStep ::
  "decision_deps \<Rightarrow> (nat \<Rightarrow> world \<Rightarrow> world) \<Rightarrow> string \<Rightarrow> string \<Rightarrow> string option \<Rightarrow> gate_actor \<Rightarrow> instance_rec decide" where
  "approveStep d env rid aid proposal actor = (\<lambda>w.
     act_bind (mutate_run (approve_mutation d (wd_now w) aid proposal actor) (\<lambda>i w. w) NotRun env rid)
       (\<lambda>(i, outcome). case outcome of
           Advanced k \<Rightarrow> lift_act (settleAdvancedGate (dd_machine d) i k)
         | AwaitingQuorum \<Rightarrow> lift_act (emitInstance (dd_machine d) i)
         | _ \<Rightarrow> act_return i) w)"

definition plain :: "(instance_rec \<Rightarrow> run_error + instance_rec) \<Rightarrow> instance_rec \<Rightarrow> run_error + instance_rec \<times> unit" where
  "plain f i = bind_result (f i) (\<lambda>i'. Inr (i', ()))"

definition requestStepChanges ::
  "decision_deps \<Rightarrow> (nat \<Rightarrow> world \<Rightarrow> world) \<Rightarrow> string \<Rightarrow> string \<Rightarrow> string option \<Rightarrow> review_comment list option
    \<Rightarrow> gate_actor \<Rightarrow> instance_rec decide" where
  "requestStepChanges d env rid aid feedback comments actor = (\<lambda>w.
     act_bind (mutate_run (plain (changes_mutation d (wd_now w) aid feedback comments actor)) (\<lambda>i w. w) () env rid)
       (\<lambda>(i, _). act_then (signal_decision (in_id i) aid) (lift_act (emitInstance (dd_machine d) i))) w)"

definition rejection_message :: "string option \<Rightarrow> string" where
  "rejection_message reason = (case nonempty reason of
      Some t \<Rightarrow> ''A reviewer rejected the proposal: '' @ t
    | None \<Rightarrow> ''A reviewer rejected the proposal, stopping the run.'')"

definition rejectStep ::
  "decision_deps \<Rightarrow> (nat \<Rightarrow> world \<Rightarrow> world) \<Rightarrow> string \<Rightarrow> string \<Rightarrow> string option \<Rightarrow> gate_actor \<Rightarrow> instance_rec decide" where
  "rejectStep d env rid aid reason actor =
     act_bind (mutate_run (reject_mutation d aid reason actor) (\<lambda>i w. w) RejectNotRun env rid)
       (\<lambda>(i, outcome).
          if outcome = AlreadyRejected then act_return i
          else act_then (lift_act (failRun (dd_machine d) rid
                 \<lparr>rf_message = rejection_message reason, rf_kind = RejectedByHuman, rf_detail = None, rf_reason = None\<rparr>))
            (act_then (signal_decision (in_id i) aid)
              (\<lambda>w. case get_run (wd_ws w) rid (wd_runs w) of
                  Inl e \<Rightarrow> (Inl (MutationFailed (StoreRaised e)), w)
                | Inr None \<Rightarrow> (Inl (MutationFailed (NotFound rid)), w)
                | Inr (Some r) \<Rightarrow> (Inr r, w))))"

definition resolveDecision ::
  "decision_deps \<Rightarrow> (nat \<Rightarrow> world \<Rightarrow> world) \<Rightarrow> string \<Rightarrow> string \<Rightarrow> string \<Rightarrow> instance_rec decide" where
  "resolveDecision d env rid did choice = (\<lambda>w.
     act_bind (mutate_run (plain (decision_mutation (wd_now w) did choice))
         (\<lambda>i w1. set_block (in_blockId i) (\<lambda>b. b\<lparr>bl_status := InProgress, bl_progress := block_progress i\<rparr>) w1)
         () env rid)
       (\<lambda>(i, _). act_then (signal_decision (in_id i) did) (lift_act (emitInstance (dd_machine d) i))) w)"

section \<open>What a decision rests on\<close>

interpretation decision_cas: cas_repository "read_run none" "swap_run (\<lambda>i w. w)"
  "\<lambda>io. in_id (fst io)" "\<lambda>io. in_rev (fst io)" "\<lambda>k w. stored_rev (wd_ws w) k (wd_runs w)"
proof (unfold_locales, goal_cases)
  case (1 k s v)
  then obtain i where i: "get_run (wd_ws s) k (wd_runs s) = Inr (Some i)" "v = (i, none)"
    by (auto simp: read_run_def split: sum.splits)
  with run_cas.get_stored [OF i(1)] show ?case by simp
next
  case (2 v s v' s')
  then obtain i' t' where c: "compareAndSwap (wd_ws s) (wd_now s) (fst v) (wd_runs s) = Inr (True, i', t')"
    "v' = (i', snd v)" "s' = s\<lparr>wd_runs := t'\<rparr>"
    by (auto simp: swap_run_def Let_def split: sum.splits prod.splits)
  from run_cas.cas_swapped [OF c(1)] c(2,3) show ?case by simp
next
  case (3 v s v' s')
  then obtain i' t' where c: "compareAndSwap (wd_ws s) (wd_now s) (fst v) (wd_runs s) = Inr (False, i', t')"
    "v' = (i', snd v)" "s' = s\<lparr>wd_runs := t'\<rparr>"
    by (auto simp: swap_run_def Let_def split: sum.splits prod.splits)
  from run_cas.cas_refused [OF c(1)] c(2,3) show ?case by simp
qed

lemma approval_at_Some:
  "approval_at aid i = Some k \<longleftrightarrow> k < length (in_steps i)
     \<and> map_option ap_id (st_approval (in_steps i ! k)) = Some aid
     \<and> (\<forall>j < k. map_option ap_id (st_approval (in_steps i ! j)) \<noteq> Some aid)"
  by (auto simp: approval_at_def find_index_Some)

text \<open>The parts of an approval that opens the gate, and of a rejection.\<close>

lemma approve_Advanced:
  assumes "approve_mutation d now aid proposal actor i = Inr (i', Advanced k)"
  shows "approval_at aid i = Some k" and "\<not> wrong_surface d i (in_steps i ! k)"
    and "ap_status (gate_of i k) \<notin> {Approved, Rejected}"
    and "refuseGateResolution (ap_approverPolicy (gate_of i k)) actor = None"
    and "in_status i \<notin> {Failed, RunDone}"
    and "snd (foldGateApproval (gate_of i k) actor now)"
    and "i' = fst (advanceRunPastGate now (put_gate i k (edit_output proposal (in_steps i ! k))
       ((record_vote proposal (fst (foldGateApproval (gate_of i k) actor now)) (gate_of i k))\<lparr>ap_status := Approved\<rparr>)) k)"
  using assms unfolding approve_mutation_def Let_def
  by (auto split: option.splits if_splits prod.splits)

lemma reject_JustRejected:
  assumes "reject_mutation d aid reason actor i = Inr (i', JustRejected)"
  shows "\<exists>k. approval_at aid i = Some k \<and> i' = put_gate i k (in_steps i ! k) (reject_gate reason (gate_of i k))"
  using assms unfolding reject_mutation_def Let_def
  by (auto split: option.splits if_splits)

lemma approval_at_gate: "approval_at aid i = Some k \<Longrightarrow> k < length (in_steps i) \<and> ap_id (gate_of i k) = aid"
  by (auto simp: approval_at_Some gate_of_def)

lemma approval_at_same:
  assumes "approval_at aid i = Some k" and "length (in_steps i') = length (in_steps i)"
    and "\<And>j. j < length (in_steps i) \<Longrightarrow>
      map_option ap_id (st_approval (in_steps i' ! j)) = map_option ap_id (st_approval (in_steps i ! j))"
  shows "approval_at aid i' = Some k"
  using assms by (auto simp: approval_at_Some)

lemma put_gate_simps [simp]:
  "length (in_steps (put_gate i k s ap)) = length (in_steps i)"
  "in_status (put_gate i k s ap) = in_status i" "in_id (put_gate i k s ap) = in_id i"
  "in_rev (put_gate i k s ap) = in_rev i" "in_currentStep (put_gate i k s ap) = in_currentStep i"
  "k < length (in_steps i) \<Longrightarrow> in_steps (put_gate i k s ap) ! k = s\<lparr>st_approval := Some ap\<rparr>"
  "j \<noteq> k \<Longrightarrow> in_steps (put_gate i k s ap) ! j = in_steps i ! j"
  "k < length (in_steps i) \<Longrightarrow> gate_of (put_gate i k s ap) k = ap"
  by (simp_all add: put_gate_def gate_of_def)

lemma startStep_approval [simp]: "st_approval (startStep now s) = st_approval s"
  by (simp add: startStep_def Let_def)

lemma finishStep_approval [simp]: "st_approval (finishStep now s) = st_approval s"
  by (simp add: finishStep_def Let_def)

lemma advance_approvals [simp]:
  "in_id (fst (advanceRunPastGate now i k)) = in_id i" "in_rev (fst (advanceRunPastGate now i k)) = in_rev i"
  "length (in_steps (fst (advanceRunPastGate now i k))) = length (in_steps i)"
  "j < length (in_steps i) \<Longrightarrow> st_approval (in_steps (fst (advanceRunPastGate now i k)) ! j) = st_approval (in_steps i ! j)"
  by (simp_all add: advanceRunPastGate_def Let_def nth_update_at)

lemma gate_settled:
  assumes "approval_at aid i = Some k" and "ap_id ap = aid"
    and "length (in_steps i') = length (in_steps i)"
    and "\<And>j. j < length (in_steps i) \<Longrightarrow> st_approval (in_steps i' ! j) = st_approval (in_steps (put_gate i k s ap) ! j)"
  shows "approval_at aid i' = Some k" and "gate_of i' k = ap"
proof -
  have k: "k < length (in_steps i)" "ap_id (gate_of i k) = aid" using approval_at_gate [OF assms(1)] by auto
  show "gate_of i' k = ap" using k assms(4) [OF k(1)] by (simp add: gate_of_def)
  show "approval_at aid i' = Some k"
  proof (rule approval_at_same [OF assms(1,3)])
    fix j assume "j < length (in_steps i)"
    then show "map_option ap_id (st_approval (in_steps i' ! j)) = map_option ap_id (st_approval (in_steps i ! j))"
      using assms(1,2,4) k by (cases "j = k") (auto simp: approval_at_Some)
  qed
qed

text \<open>
  C19. The resolutions of a gate exclude each other and are final: once an approval has opened a gate
  or a rejection has closed it, no later approval, change request or rejection by anybody changes the
  run; each is refused or reported as done already.
\<close>

theorem resolutions_are_final:
  assumes "approve_mutation d now aid proposal actor i = Inr (i', Advanced k)
    \<or> reject_mutation d aid reason actor i = Inr (i', JustRejected)"
  shows "(\<forall>i2 out. approve_mutation d now2 aid proposal2 actor2 i' = Inr (i2, out) \<longrightarrow> i2 = i')
    \<and> (\<forall>i2. changes_mutation d now2 aid feedback comments actor2 i' \<noteq> Inr i2)
    \<and> (\<forall>i2 out. reject_mutation d aid reason2 actor2 i' = Inr (i2, out) \<longrightarrow> i2 = i')"
proof -
  have "\<exists>k ap. approval_at aid i' = Some k \<and> gate_of i' k = ap \<and> ap_status ap \<in> {Approved, Rejected}"
    using assms
  proof
    assume a: "approve_mutation d now aid proposal actor i = Inr (i', Advanced k)"
    note adv = approve_Advanced [OF a]
    let ?ap = "(record_vote proposal (fst (foldGateApproval (gate_of i k) actor now)) (gate_of i k))\<lparr>ap_status := Approved\<rparr>"
    have "ap_id ?ap = aid" using approval_at_gate [OF adv(1)] by (simp add: record_vote_def)
    from gate_settled [OF adv(1) this, of i' "edit_output proposal (in_steps i ! k)"] adv(7)
    show ?thesis by auto
  next
    assume "reject_mutation d aid reason actor i = Inr (i', JustRejected)"
    from reject_JustRejected [OF this] obtain k where r: "approval_at aid i = Some k"
      "i' = put_gate i k (in_steps i ! k) (reject_gate reason (gate_of i k))" by blast
    from gate_settled [OF r(1), of "reject_gate reason (gate_of i k)" i' "in_steps i ! k"] approval_at_gate [OF r(1)] r
    show ?thesis by (auto simp: reject_gate_def)
  qed
  then obtain k where "approval_at aid i' = Some k" "ap_status (gate_of i' k) = Approved \<or> ap_status (gate_of i' k) = Rejected"
    by auto
  then show ?thesis
    by (auto simp: approve_mutation_def changes_mutation_def reject_mutation_def Let_def split: option.splits if_splits)
qed

lemma approve_frame:
  "approve_mutation d now aid proposal actor i = Inr (i', out) \<Longrightarrow> in_id i' = in_id i \<and> in_rev i' = in_rev i"
  unfolding approve_mutation_def Let_def
  by (auto split: option.splits if_splits prod.splits)


section \<open>Examples\<close>

definition no_park_facts :: park_facts where
  "no_park_facts = \<lparr>pf_inputGateBlocked = (\<lambda>i. False), pf_credentialWait = (\<lambda>s. False),
     pf_followUpsPending = (\<lambda>s. False), pf_forkAwaiting = (\<lambda>s. False), pf_candidatesAwaiting = (\<lambda>s. False)\<rparr>"

definition example_decisions :: decision_deps where
  "example_decisions = \<lparr>dd_machine = example_deps, dd_registry = empty_registry, dd_standard = (\<lambda>k. []),
     dd_park = no_park_facts\<rparr>"

definition a_member :: gate_actor where
  "a_member = \<lparr>act_id = ''usr_1'', act_kind = UserActor, act_role = Some MemberRole, act_label = None\<rparr>"

definition gated_run :: instance_rec where
  "gated_run = (bare_run ''r1'' ''b1''
     [(bare_step ''architect'' WaitingDecision)\<lparr>st_requiresApproval := Some True, st_output := Some ''a plan'',
        st_approval := Some (pending_approval ''appr1'' ''a plan'')\<rparr>,
      bare_step ''coder'' Pending])\<lparr>in_status := Blocked\<rparr>"

definition gated_table :: run_table where
  "gated_table = (case insertLive ''w'' 5 gated_run None [] of Inl e \<Rightarrow> [] | Inr (b, i, t) \<Rightarrow> t)"

definition approve_gated :: "(decision_error + instance_rec \<times> approve_outcome) \<times> world" where
  "approve_gated = mutate_run (approve_mutation example_decisions 9 ''appr1'' None a_member)
     (\<lambda>i w. w) NotRun (\<lambda>n w. w) ''r1'' (example_world gated_table)"


definition rejected_run :: instance_rec where
  "rejected_run = put_gate gated_run 0 (in_steps gated_run ! 0)
     (reject_gate (Some ''no'') (gate_of gated_run 0))"

theorem resolutions_are_final_witness:
  "approve_mutation example_decisions 9 ''appr1'' None a_member rejected_run \<noteq> Inr (gated_run, AlreadyApproved)
   \<and> (\<forall>i2. changes_mutation example_decisions 9 ''appr1'' None None a_member rejected_run \<noteq> Inr i2)"
proof -
  have r: "reject_mutation example_decisions ''appr1'' (Some ''no'') a_member gated_run = Inr (rejected_run, JustRejected)"
    by code_simp
  have "\<forall>i2. changes_mutation example_decisions 9 ''appr1'' None None a_member rejected_run \<noteq> Inr i2"
    "\<forall>i2 out. approve_mutation example_decisions 9 ''appr1'' None a_member rejected_run = Inr (i2, out) \<longrightarrow> i2 = rejected_run"
    using resolutions_are_final [OF disjI2 [OF r], where ?now2.0 = 9] by blast+
  moreover have "rejected_run \<noteq> gated_run" by code_simp
  ultimately show ?thesis by metis
qed

definition rerun_run :: instance_rec where
  "rerun_run = projr (changes_mutation example_decisions 9 ''appr1'' (Some ''use the cache'') None a_member gated_run)"

text \<open>
  An approval can end a rerun that is under way. After a change request the step runs again under its
  old gate; rejecting and requesting changes on that gate are refused, but approving it is not: the
  run moves past the running step with the proposal nobody wanted.
\<close>

theorem stale_approval_ends_a_rerun:
  "changes_mutation example_decisions 9 ''appr1'' (Some ''use the cache'') None a_member gated_run = Inr rerun_run
   \<and> st_state (in_steps rerun_run ! 0) = Working \<and> in_status rerun_run = Running
   \<and> reject_mutation example_decisions ''appr1'' None a_member rerun_run = Inl (DomainError ''being_rerun'')
   \<and> changes_mutation example_decisions 9 ''appr1'' None None a_member rerun_run = Inl (DomainError ''being_rerun'')
   \<and> (\<exists>i. approve_mutation example_decisions 10 ''appr1'' None a_member rerun_run = Inr (i, Advanced 0)
        \<and> st_state (in_steps i ! 0) = StepDone \<and> st_output (in_steps i ! 0) = Some ''a plan''
        \<and> in_currentStep i = 1)"
proof -
  let ?a = "approve_mutation example_decisions 10 ''appr1'' None a_member rerun_run"
  have ok: "case ?a of Inr (i, Advanced k) \<Rightarrow> k = 0 \<and> st_state (in_steps i ! 0) = StepDone
        \<and> st_output (in_steps i ! 0) = Some ''a plan'' \<and> in_currentStep i = 1 | _ \<Rightarrow> False" by code_simp
  then have "\<exists>i. ?a = Inr (i, Advanced 0) \<and> st_state (in_steps i ! 0) = StepDone
        \<and> st_output (in_steps i ! 0) = Some ''a plan'' \<and> in_currentStep i = 1"
    by (auto split: sum.splits prod.splits approve_outcome.splits)
  moreover have "isl (changes_mutation example_decisions 9 ''appr1'' (Some ''use the cache'') None a_member gated_run) = False"
    by code_simp
  then have "changes_mutation example_decisions 9 ''appr1'' (Some ''use the cache'') None a_member gated_run = Inr rerun_run"
    by (auto simp: rerun_run_def isl_def split: sum.splits)
  moreover have "st_state (in_steps rerun_run ! 0) = Working" "in_status rerun_run = Running"
    "reject_mutation example_decisions ''appr1'' None a_member rerun_run = Inl (DomainError ''being_rerun'')"
    "changes_mutation example_decisions 9 ''appr1'' None None a_member rerun_run = Inl (DomainError ''being_rerun'')"
    by code_simp+
  ultimately show ?thesis by blast
qed

end
