(* ===== verification/Initiative.thy ===== *)
theory Initiative
  imports RunModel BlockModel
begin

text \<open>
  Initiatives (\<^verbatim>\<open>orchestration/src/modules/initiative/initiative.logic.ts\<close> over the entities of
  \<^verbatim>\<open>contracts/src/initiative.ts\<close>): the plan a planner drafts, its validation and its merge into the
  tracker, the planning interview, the execution loop's reads, and the human's curation. An array
  that may be absent is a list (the code reads \<^verbatim>\<open>?? []\<close>). Errors are values. The identifiers of
  spawned blocks and interview questions are given by the caller, as in the source.
\<close>

section \<open>The tracker\<close>

datatype item_status =
    ItemPending | ItemInProgress | ItemPrOpen | ItemDone | ItemBlocked | ItemSkipped

datatype initiative_status =
    IniPlanning | IniAwaitingApproval | IniExecuting | IniPaused | IniDone | IniCancelled

record estimate =
  es_complexity :: rat
  es_risk :: rat
  es_impact :: rat

record initiative_phase =
  ph_id :: string
  ph_title :: string
  ph_goal :: string
  ph_maxConcurrent :: "nat option"
  ph_checkpoint :: "bool option"
  ph_checkpointClearedAt :: "int option"

record item_pr =
  ip_url :: string
  ip_number :: "int option"

text \<open>
  What a preset stamps on the task of an item. The values of the task's own form and the agent
  configuration are copied untouched and left out.
\<close>

record spawn_spec =
  sw_taskType :: "string option"
  sw_fragmentIds :: "string list option"
  sw_gates :: "bool list option"

record initiative_item =
  it_id :: string
  it_phaseId :: string
  it_title :: string
  it_description :: string
  it_dependsOn :: "string list"
  it_estimate :: "estimate option"
  it_pipelineId :: "string option"
  it_spawn :: "spawn_spec option"
  it_status :: item_status
  it_blockId :: "string option"
  it_pr :: "item_pr option"
  it_note :: "string option"

datatype decision_source = FromPlanning | FromHuman | FromAgent

record decision =
  de_id :: string
  de_at :: int
  de_title :: string
  de_detail :: string
  de_source :: decision_source

datatype follow_up_status = FuOpen | FuPromoted | FuDismissed

record follow_up =
  fu_id :: string
  fu_at :: int
  fu_sourceItemId :: "string option"
  fu_title :: string
  fu_detail :: string
  fu_status :: follow_up_status
  fu_promotedItemId :: "string option"

datatype qa_status = QaOpen | QaDismissed

record qa =
  qa_id :: string
  qa_question :: string
  qa_answer :: "string option"
  qa_status :: "qa_status option"
  qa_recommendation :: "string option"

datatype interview_status = InterviewAwaiting | InterviewDone

record interview =
  iv_round :: nat
  iv_maxRounds :: nat
  iv_status :: interview_status

datatype missing_estimate_policy = UseDefault | UseStrongest

record pipeline_rule =
  pu_pipelineId :: string
  pu_minComplexity :: "rat option"
  pu_minRisk :: "rat option"
  pu_minImpact :: "rat option"

record policy =
  po_maxConcurrent :: nat
  po_rules :: "pipeline_rule list"
  po_onMissingEstimate :: "missing_estimate_policy option"
  po_defaultPipelineId :: string

record initiative =
  ini_goal :: string
  ini_constraints :: "string list"
  ini_nonGoals :: "string list"
  ini_qa :: "qa list"
  ini_interview :: "interview option"
  ini_analysisSummary :: string
  ini_phases :: "initiative_phase list"
  ini_items :: "initiative_item list"
  ini_policy :: "policy option"
  ini_decisions :: "decision list"
  ini_followUps :: "follow_up list"
  ini_caveats :: "string list"
  ini_status :: initiative_status

section \<open>The draft\<close>

record draft_phase =
  dp_id :: "string option"
  dp_title :: string
  dp_goal :: "string option"
  dp_maxConcurrent :: "nat option"
  dp_checkpoint :: "bool option"

record draft_item =
  di_id :: "string option"
  di_phaseId :: string
  di_title :: string
  di_description :: "string option"
  di_dependsOn :: "string list"
  di_estimate :: "estimate option"
  di_pipelineId :: "string option"
  di_spawn :: "spawn_spec option"

record plan_draft =
  pd_goal :: "string option"
  pd_constraints :: "string list"
  pd_nonGoals :: "string list"
  pd_analysisSummary :: "string option"
  pd_phases :: "draft_phase list"
  pd_items :: "draft_item list"
  pd_policy :: policy
  pd_decisions :: "(string \<times> string option) list"
  pd_caveats :: "string list"

datatype initiative_error =
    NotOnInitiativeBlock | InitiativeBlockOnly
  | DependencyCycle string
  | DuplicatePhase string | DuplicateItem string
  | UnknownPhaseOfItem string string | UnknownDependency string string
  | LaterPhaseDependency string string string
  | MissingPhases "string list" | ExtraPhases "string list"
  | CurationClosed initiative_status
  | UnknownFollowUp string | UnknownPhase string | DependsOnUnknown string
  | UnknownItem string | ItemNotEditable string | SelfDependency string
  | ItemNotSkippable string | ItemNotBlocked string

section \<open>Identifiers\<close>

definition is_alnum :: "char \<Rightarrow> bool" where
  "is_alnum c \<longleftrightarrow> (let n = of_char c :: nat in (97 \<le> n \<and> n \<le> 122) \<or> (48 \<le> n \<and> n \<le> 57))"

text \<open>Every maximal run of other characters becomes one dash.\<close>

fun dash_runs :: "bool \<Rightarrow> string \<Rightarrow> string" where
  "dash_runs in_run [] = []"
| "dash_runs in_run (c # cs) =
     (if is_alnum c then c # dash_runs False cs
      else if in_run then dash_runs True cs else CHR ''-'' # dash_runs True cs)"

definition trim_dashes :: "string \<Rightarrow> string" where
  "trim_dashes s = rev (dropWhile (\<lambda>c. c = CHR ''-'') (rev (dropWhile (\<lambda>c. c = CHR ''-'') s)))"

definition initiativeSlug :: "string \<Rightarrow> string" where
  "initiativeSlug title =
     (let slug = take 60 (trim_dashes (dash_runs False (map lower title)))
      in if slug = [] then ''initiative'' else slug)"

text \<open>\<^verbatim>\<open>while (taken.has(candidate)) candidate = `${slug}-${n++}`\<close>, from \<open>n\<close> on.\<close>

definition numbered :: "string \<Rightarrow> nat \<Rightarrow> string" where
  "numbered slug n = slug @ ''-'' @ digits n"

lemma numbered_inject [simp]: "numbered slug m = numbered slug n \<longleftrightarrow> m = n"
  by (simp add: numbered_def)

lemma numbered_finite: "finite {m. n \<le> m \<and> numbered slug m \<in> set taken}"
proof (rule finite_subset)
  show "{m. n \<le> m \<and> numbered slug m \<in> set taken} \<subseteq> (numbered slug) -` set taken" by blast
  show "finite ((numbered slug) -` set taken)"
    by (rule finite_vimageI) (auto simp: inj_def)
qed

function next_free :: "string list \<Rightarrow> string \<Rightarrow> nat \<Rightarrow> string" where
  "next_free taken slug n =
     (if numbered slug n \<in> set taken then next_free taken slug (Suc n) else numbered slug n)"
  by pat_completeness auto
termination
proof (relation "measure (\<lambda>(taken, slug, n). card {m. n \<le> m \<and> numbered slug m \<in> set taken})",
    goal_cases)
  case 1
  then show ?case by simp
next
  case (2 taken slug n)
  then have "n \<in> {m. n \<le> m \<and> numbered slug m \<in> set taken}" by simp
  then have "{m. Suc n \<le> m \<and> numbered slug m \<in> set taken}
      \<subset> {m. n \<le> m \<and> numbered slug m \<in> set taken}"
    by (intro psubsetI subsetI notI) (simp, drule equalityD2, drule (1) subsetD, simp)
  from psubset_card_mono [OF numbered_finite this] show ?case by simp
qed

declare next_free.simps [simp del]

definition uniqueSlugId :: "string \<Rightarrow> string list \<Rightarrow> string" where
  "uniqueSlugId base taken =
     (let slug = initiativeSlug base in if slug \<in> set taken then next_free taken slug 2 else slug)"

lemma next_free_fresh: "next_free taken slug n \<notin> set taken"
  by (induction taken slug n rule: next_free.induct) (subst next_free.simps, simp)

lemma uniqueSlugId_fresh: "uniqueSlugId base taken \<notin> set taken"
  by (simp add: uniqueSlugId_def Let_def next_free_fresh)

definition assertInitiativeShapeAllowed ::
  "block \<Rightarrow> string list \<Rightarrow> (string \<Rightarrow> bool) \<Rightarrow> initiative_error option" where
  "assertInitiativeShapeAllowed b kinds isInitiativeKind =
     (let shape = list_ex isInitiativeKind kinds
      in if shape \<and> bl_level b \<noteq> InitiativeLevel then Some NotOnInitiativeBlock
         else if \<not> shape \<and> bl_level b = InitiativeLevel then Some InitiativeBlockOnly else None)"

definition interviewFollowsStep :: "string list \<Rightarrow> nat \<Rightarrow> bool" where
  "interviewFollowsStep kinds currentStep =
     list_ex (\<lambda>k. k = ''initiative-interviewer'') (drop (Suc currentStep) kinds)"

section \<open>Cycles\<close>

text \<open>\<^verbatim>\<open>new Map(items.map(...))\<close>: the dependencies of the last item of an id.\<close>

type_synonym dep_list = "(string \<times> string list) list"

definition item_deps :: "dep_list \<Rightarrow> string \<Rightarrow> string list" where
  "item_deps items i = (case map_of (rev items) i of None \<Rightarrow> [] | Some ds \<Rightarrow> ds)"

text \<open>The nested \<^verbatim>\<open>visit\<close> over a list of ids; the result is \<^verbatim>\<open>done\<close>, the error names the item.\<close>

function visit_all ::
  "dep_list \<Rightarrow> string list \<Rightarrow> string list \<Rightarrow> string list \<Rightarrow> string + string list" where
  "visit_all items [] visiting finished = Inr finished"
| "visit_all items (i # is) visiting finished =
     (if i \<in> set finished then visit_all items is visiting finished
      else if i \<in> set visiting then Inl i
      else case visit_all items (item_deps items i) (i # visiting) finished of
             Inl e \<Rightarrow> Inl e
           | Inr d \<Rightarrow> visit_all items is visiting (i # d))"
  by pat_completeness auto
termination
proof (relation "measures
    [\<lambda>(items, is, visiting, d). card (fst ` set items - set visiting),
     \<lambda>(items, is, visiting, d). length is]", goal_cases)
  case 1
  then show ?case by simp
next
  case (2 items i "is" visiting finished)
  then show ?case by simp
next
  case (3 items i "is" visiting finished)
  show ?case
  proof (cases "i \<in> fst ` set items")
    case True
    with 3 have "fst ` set items - set (i # visiting) \<subset> fst ` set items - set visiting" by auto
    then have "card (fst ` set items - set (i # visiting)) < card (fst ` set items - set visiting)"
      by (intro psubset_card_mono) auto
    then show ?thesis by simp
  next
    case False
    then have "map_of (rev items) i = None" by (simp add: map_of_eq_None_iff)
    moreover have "fst ` set items - set (i # visiting) = fst ` set items - set visiting"
      using False by auto
    ultimately show ?thesis by (simp add: item_deps_def)
  qed
next
  case (4 items i "is" visiting finished d)
  then show ?case by simp
qed

text \<open>The distinct ids in the order of their first item, without the empty one.\<close>

definition first_ids :: "string list \<Rightarrow> string list" where
  "first_ids is = filter (\<lambda>i. i \<noteq> []) (rev (remdups (rev is)))"

definition assertAcyclicItems :: "dep_list \<Rightarrow> initiative_error option" where
  "assertAcyclicItems items =
     (case visit_all items (first_ids (map fst items)) [] [] of
        Inl i \<Rightarrow> Some (DependencyCycle i) | Inr d \<Rightarrow> None)"

section \<open>Validating a draft\<close>

text \<open>The ids of the phases that have one, in order, or the first duplicate.\<close>

fun phase_order :: "(string \<times> nat) list \<Rightarrow> nat \<Rightarrow> draft_phase list \<Rightarrow>
    initiative_error + (string \<times> nat) list" where
  "phase_order seen k [] = Inr seen"
| "phase_order seen k (p # ps) = (case nonempty (dp_id p) of
      None \<Rightarrow> phase_order seen (Suc k) ps
    | Some i \<Rightarrow> if map_of seen i \<noteq> None then Inl (DuplicatePhase i)
                else phase_order ((i, k) # seen) (Suc k) ps)"

fun item_phases :: "(string \<times> string) list \<Rightarrow> draft_item list \<Rightarrow>
    initiative_error + (string \<times> string) list" where
  "item_phases seen [] = Inr seen"
| "item_phases seen (d # ds) = (case nonempty (di_id d) of
      None \<Rightarrow> item_phases seen ds
    | Some i \<Rightarrow> if map_of seen i \<noteq> None then Inl (DuplicateItem i)
                else item_phases ((i, di_phaseId d) # seen) ds)"

definition item_label :: "draft_item \<Rightarrow> string" where
  "item_label d = (case di_id d of None \<Rightarrow> di_title d | Some i \<Rightarrow> i)"

definition order_of :: "(string \<times> nat) list \<Rightarrow> string \<Rightarrow> nat option" where
  "order_of order ph = (if ph = [] then None else map_of order ph)"

definition check_dep ::
  "(string \<times> nat) list \<Rightarrow> (string \<times> string) list \<Rightarrow> draft_item \<Rightarrow> string \<Rightarrow>
     initiative_error option" where
  "check_dep order phases d dep = (case map_of phases dep of
      None \<Rightarrow> Some (UnknownDependency (item_label d) dep)
    | Some depPhase \<Rightarrow>
        (case (order_of order (di_phaseId d), order_of order depPhase) of
           (Some here, Some there) \<Rightarrow>
             if here < there then Some (LaterPhaseDependency (item_label d) dep depPhase) else None
         | _ \<Rightarrow> None))"

definition check_item ::
  "(string \<times> nat) list \<Rightarrow> (string \<times> string) list \<Rightarrow> draft_item \<Rightarrow> initiative_error option" where
  "check_item order phases d =
     (if di_phaseId d \<noteq> [] \<and> order \<noteq> [] \<and> map_of order (di_phaseId d) = None
      then Some (UnknownPhaseOfItem (item_label d) (di_phaseId d))
      else check_all (check_dep order phases d) (di_dependsOn d))"

definition validatePlanDraft :: "plan_draft \<Rightarrow> initiative_error option" where
  "validatePlanDraft draft = (case phase_order [] 0 (pd_phases draft) of
      Inl e \<Rightarrow> Some e
    | Inr order \<Rightarrow> (case item_phases [] (pd_items draft) of
        Inl e \<Rightarrow> Some e
      | Inr phases \<Rightarrow> (case check_all (check_item order phases) (pd_items draft) of
          Some e \<Rightarrow> Some e
        | None \<Rightarrow> assertAcyclicItems
            (map (\<lambda>d. (case di_id d of None \<Rightarrow> [] | Some i \<Rightarrow> i, di_dependsOn d))
              (pd_items draft)))))"

record template_phase =
  tp_id :: string
  tp_required :: "bool option"
  tp_checkpoint :: "bool option"

definition normalizeDraftAgainstPhaseTemplate ::
  "template_phase list \<Rightarrow> bool \<Rightarrow> plan_draft \<Rightarrow> initiative_error + plan_draft" where
  "normalizeDraftAgainstPhaseTemplate template allowAdditional draft =
     (let ids = map tp_id template;
          matched = concat (map (\<lambda>tp. map
             (\<lambda>p. if tp_checkpoint tp = Some True then p\<lparr>dp_checkpoint := Some True\<rparr> else p)
             (filter (\<lambda>p. dp_id p = Some (tp_id tp)) (pd_phases draft))) template);
          extras = filter (\<lambda>p. case nonempty (dp_id p) of None \<Rightarrow> True | Some i \<Rightarrow> i \<notin> set ids)
                     (pd_phases draft);
          missing = filter (\<lambda>tp. tp_required tp = Some True
                      \<and> \<not> list_ex (\<lambda>p. dp_id p = Some (tp_id tp)) (pd_phases draft)) template
      in if missing \<noteq> [] then Inl (MissingPhases (map tp_id missing))
         else if extras \<noteq> [] \<and> \<not> allowAdditional
         then Inl (ExtraPhases (map (\<lambda>p. case dp_id p of None \<Rightarrow> dp_title p | Some i \<Rightarrow> i) extras))
         else Inr (draft\<lparr>pd_phases := matched @ extras\<rparr>))"

section \<open>Merging a draft into the tracker\<close>

definition some_ids :: "string option list \<Rightarrow> string list" where
  "some_ids is = List.map_filter (\<lambda>i. i) is"

definition merge_phase :: "initiative_phase list \<Rightarrow> draft_phase \<Rightarrow> string \<Rightarrow> initiative_phase" where
  "merge_phase existing p i =
     \<lparr>ph_id = i, ph_title = dp_title p,
      ph_goal = (case dp_goal p of None \<Rightarrow> [] | Some g \<Rightarrow> g),
      ph_maxConcurrent = dp_maxConcurrent p,
      ph_checkpoint = (if dp_checkpoint p = Some True then Some True else None),
      ph_checkpointClearedAt =
        Option.bind (map_of (rev (map (\<lambda>q. (ph_id q, q)) existing)) i) ph_checkpointClearedAt\<rparr>"

text \<open>The ids taken so far grow with every id that is minted.\<close>

fun merge_phases ::
  "initiative_phase list \<Rightarrow> string list \<Rightarrow> draft_phase list \<Rightarrow> initiative_phase list" where
  "merge_phases existing taken [] = []"
| "merge_phases existing taken (p # ps) =
     (let i = (case dp_id p of Some x \<Rightarrow> x | None \<Rightarrow> uniqueSlugId (dp_title p) taken)
      in merge_phase existing p i # merge_phases existing (i # taken) ps)"

definition merge_item :: "initiative_item list \<Rightarrow> draft_item \<Rightarrow> string \<Rightarrow> initiative_item" where
  "merge_item existing d i =
     (let prior = map_of (rev (map (\<lambda>x. (it_id x, x)) existing)) i
      in \<lparr>it_id = i, it_phaseId = di_phaseId d, it_title = di_title d,
          it_description = (case di_description d of None \<Rightarrow> [] | Some t \<Rightarrow> t),
          it_dependsOn = di_dependsOn d, it_estimate = di_estimate d,
          it_pipelineId = nonempty (di_pipelineId d), it_spawn = di_spawn d,
          it_status = (case prior of None \<Rightarrow> ItemPending | Some x \<Rightarrow> it_status x),
          it_blockId = Option.bind prior it_blockId, it_pr = Option.bind prior it_pr,
          it_note = nonempty (Option.bind prior it_note)\<rparr>)"

fun merge_items ::
  "initiative_item list \<Rightarrow> string list \<Rightarrow> draft_item list \<Rightarrow> initiative_item list" where
  "merge_items existing taken [] = []"
| "merge_items existing taken (d # ds) =
     (let i = (case di_id d of Some x \<Rightarrow> x | None \<Rightarrow> uniqueSlugId (di_title d) taken)
      in merge_item existing d i # merge_items existing (i # taken) ds)"

fun merge_decisions ::
  "decision list \<Rightarrow> int \<Rightarrow> string list \<Rightarrow> (string \<times> string option) list \<Rightarrow> decision list" where
  "merge_decisions existing now taken [] = []"
| "merge_decisions existing now taken ((title, detail) # ds) =
     (let i = uniqueSlugId title taken;
          prior = map_of (rev (map (\<lambda>x. (de_id x, x)) existing)) i
      in \<lparr>de_id = i, de_at = (case prior of None \<Rightarrow> now | Some x \<Rightarrow> de_at x), de_title = title,
          de_detail = (case detail of None \<Rightarrow> [] | Some t \<Rightarrow> t),
          de_source = (case prior of None \<Rightarrow> FromPlanning | Some x \<Rightarrow> de_source x)\<rparr>
         # merge_decisions existing now (i # taken) ds)"

definition preserved_items :: "string list \<Rightarrow> initiative_item list \<Rightarrow> initiative_item list" where
  "preserved_items drafted old =
     filter (\<lambda>x. it_id x \<notin> set drafted \<and> (it_blockId x \<noteq> None \<or> it_status x \<noteq> ItemPending)) old"

definition applyPlanDraft :: "initiative \<Rightarrow> plan_draft \<Rightarrow> int \<Rightarrow> initiative" where
  "applyPlanDraft ini draft now =
     (let phases = merge_phases (ini_phases ini) (some_ids (map dp_id (pd_phases draft)))
                     (pd_phases draft);
          items = merge_items (ini_items ini) (some_ids (map di_id (pd_items draft)))
                    (pd_items draft)
      in ini\<lparr>ini_goal := (case pd_goal draft of None \<Rightarrow> [] | Some g \<Rightarrow> g),
             ini_constraints := pd_constraints draft, ini_nonGoals := pd_nonGoals draft,
             ini_analysisSummary :=
               (case pd_analysisSummary draft of None \<Rightarrow> [] | Some a \<Rightarrow> a),
             ini_phases := phases,
             ini_items := items @ preserved_items (map it_id items) (ini_items ini),
             ini_policy := Some (pd_policy draft),
             ini_decisions := merge_decisions (ini_decisions ini) now [] (pd_decisions draft),
             ini_caveats := pd_caveats draft,
             ini_status := (if ini_status ini = IniPlanning \<or> ini_status ini = IniAwaitingApproval
                            then IniAwaitingApproval else ini_status ini)\<rparr>)"

section \<open>Reading the tracker\<close>

definition item_settled :: "initiative_item \<Rightarrow> bool" where
  "item_settled x \<longleftrightarrow> it_status x = ItemDone \<or> it_status x = ItemSkipped"

definition item_active :: "initiative_item \<Rightarrow> bool" where
  "item_active x \<longleftrightarrow> it_status x = ItemInProgress \<or> it_status x = ItemPrOpen"

definition deriveCurrentPhase :: "initiative \<Rightarrow> initiative_phase option" where
  "deriveCurrentPhase ini = List.find
     (\<lambda>p. list_ex (\<lambda>x. it_phaseId x = ph_id p \<and> \<not> item_settled x) (ini_items ini))
     (ini_phases ini)"

definition initiativeProgress :: "initiative \<Rightarrow> nat \<times> nat" where
  "initiativeProgress ini =
     (length (filter item_settled (ini_items ini)), length (ini_items ini))"

definition activeItemCount :: "initiative \<Rightarrow> nat" where
  "activeItemCount ini = length (filter item_active (ini_items ini))"

definition allItemsSettled :: "initiative \<Rightarrow> bool" where
  "allItemsSettled ini \<longleftrightarrow> ini_items ini \<noteq> [] \<and> list_all item_settled (ini_items ini)"

definition phaseIsHalted :: "initiative \<Rightarrow> string \<Rightarrow> bool" where
  "phaseIsHalted ini ph =
     list_ex (\<lambda>x. it_phaseId x = ph \<and> it_status x = ItemBlocked) (ini_items ini)"

definition pendingCheckpoint :: "initiative \<Rightarrow> initiative_phase option" where
  "pendingCheckpoint ini = List.find
     (\<lambda>p. ph_checkpoint p = Some True \<and> ph_checkpointClearedAt p = None
        \<and> (let here = filter (\<lambda>x. it_phaseId x = ph_id p) (ini_items ini)
           in here \<noteq> [] \<and> list_all item_settled here))
     (ini_phases ini)"

definition applyCheckpointCleared :: "initiative \<Rightarrow> string \<Rightarrow> int \<Rightarrow> initiative" where
  "applyCheckpointCleared ini ph now = ini\<lparr>ini_phases := map
     (\<lambda>p. if ph_id p = ph then p\<lparr>ph_checkpointClearedAt := Some now\<rparr> else p) (ini_phases ini)\<rparr>"

definition effectiveMaxConcurrent :: "initiative \<Rightarrow> initiative_phase option \<Rightarrow> nat" where
  "effectiveMaxConcurrent ini ph =
     (let policyCap = (case ini_policy ini of None \<Rightarrow> 1 | Some p \<Rightarrow> po_maxConcurrent p)
      in case Option.bind ph ph_maxConcurrent of None \<Rightarrow> policyCap | Some c \<Rightarrow> min c policyCap)"

definition item_by_id :: "initiative_item list \<Rightarrow> string \<Rightarrow> initiative_item option" where
  "item_by_id items i = map_of (rev (map (\<lambda>x. (it_id x, x)) items)) i"

definition itemDependenciesMet :: "initiative \<Rightarrow> initiative_item \<Rightarrow> bool" where
  "itemDependenciesMet ini x = list_all (\<lambda>d. case item_by_id (ini_items ini) d of
      None \<Rightarrow> True | Some y \<Rightarrow> item_settled y) (it_dependsOn x)"

definition eligibleItemsToSpawn :: "initiative \<Rightarrow> initiative_item list" where
  "eligibleItemsToSpawn ini = (case deriveCurrentPhase ini of
      None \<Rightarrow> []
    | Some p \<Rightarrow>
        if phaseIsHalted ini (ph_id p) then []
        else filter (\<lambda>x. it_phaseId x = ph_id p \<and> it_status x = ItemPending
               \<and> itemDependenciesMet ini x) (ini_items ini))"

definition axis_met :: "rat option \<Rightarrow> rat \<Rightarrow> bool" where
  "axis_met threshold v = (case threshold of None \<Rightarrow> False | Some t \<Rightarrow> t \<le> v)"

definition rule_matches :: "estimate \<Rightarrow> pipeline_rule \<Rightarrow> bool" where
  "rule_matches e r \<longleftrightarrow> axis_met (pu_minComplexity r) (es_complexity e)
     \<or> axis_met (pu_minRisk r) (es_risk e) \<or> axis_met (pu_minImpact r) (es_impact e)"

definition selectInitiativePipeline :: "initiative_item \<Rightarrow> policy \<Rightarrow> string" where
  "selectInitiativePipeline x pol = (case nonempty (it_pipelineId x) of
      Some p \<Rightarrow> p
    | None \<Rightarrow> (case it_estimate x of
        None \<Rightarrow>
          if po_onMissingEstimate pol = Some UseStrongest \<and> po_rules pol \<noteq> []
          then pu_pipelineId (last (po_rules pol)) else po_defaultPipelineId pol
      | Some e \<Rightarrow> (case List.find (rule_matches e) (po_rules pol) of
          Some r \<Rightarrow> pu_pipelineId r | None \<Rightarrow> po_defaultPipelineId pol)))"

section \<open>The loop's writes\<close>

definition failed_note :: string where
  "failed_note = ''The spawned task failed, retry or skip it to unblock the phase.''"

definition reconcileItem :: "initiative_item \<Rightarrow> block option \<Rightarrow> initiative_item" where
  "reconcileItem x found =
     (if \<not> item_active x then x
      else case found of
        None \<Rightarrow> x\<lparr>it_status := ItemPending, it_blockId := None\<rparr>
      | Some b \<Rightarrow>
          (let pr = (case bl_pullRequest b of
                  Some r \<Rightarrow> Some \<lparr>ip_url = pr_url r, ip_number = pr_number r\<rparr>
                | None \<Rightarrow> it_pr x)
           in case bl_status b of
                BlockDone \<Rightarrow> x\<lparr>it_status := ItemDone, it_pr := pr\<rparr>
              | PrReady \<Rightarrow> x\<lparr>it_status := ItemPrOpen, it_pr := pr\<rparr>
              | BlockBlocked \<Rightarrow>
                  x\<lparr>it_status := ItemBlocked,
                    it_note := Some (case it_note x of None \<Rightarrow> failed_note | Some n \<Rightarrow> n)\<rparr>
              | _ \<Rightarrow> x\<lparr>it_status := ItemInProgress, it_pr := pr\<rparr>))"

definition on_item ::
  "(initiative_item \<Rightarrow> bool) \<Rightarrow> (initiative_item \<Rightarrow> initiative_item) \<Rightarrow> initiative \<Rightarrow> initiative" where
  "on_item p f ini = ini\<lparr>ini_items := map (\<lambda>x. if p x then f x else x) (ini_items ini)\<rparr>"

definition applySpawnClaim :: "initiative \<Rightarrow> string \<Rightarrow> string \<Rightarrow> initiative" where
  "applySpawnClaim ini i spawned = on_item (\<lambda>x. it_id x = i \<and> it_status x = ItemPending)
     (\<lambda>x. x\<lparr>it_status := ItemInProgress, it_blockId := Some spawned\<rparr>) ini"

definition applyRevertClaim :: "initiative \<Rightarrow> string \<Rightarrow> string \<Rightarrow> initiative" where
  "applyRevertClaim ini i spawned =
     on_item (\<lambda>x. it_id x = i \<and> it_status x = ItemInProgress \<and> it_blockId x = Some spawned)
       (\<lambda>x. x\<lparr>it_status := ItemPending, it_blockId := None\<rparr>) ini"

section \<open>The planning interview\<close>

definition INITIATIVE_MAX_INTERVIEW_ROUNDS :: nat where
  "INITIATIVE_MAX_INTERVIEW_ROUNDS = 4"

definition INITIATIVE_MAX_INTERVIEW_QUESTIONS :: nat where
  "INITIATIVE_MAX_INTERVIEW_QUESTIONS = 8"

definition INITIATIVE_TITLE_MAX :: nat where "INITIATIVE_TITLE_MAX = 200"
definition INITIATIVE_PROSE_MAX :: nat where "INITIATIVE_PROSE_MAX = 8000"
definition INITIATIVE_SHORT_MAX :: nat where "INITIATIVE_SHORT_MAX = 2000"

definition clampTitle :: "string \<Rightarrow> string" where
  "clampTitle s = take INITIATIVE_TITLE_MAX (js_trim s)"

definition clampProse :: "string \<Rightarrow> string" where
  "clampProse s = take INITIATIVE_PROSE_MAX (js_trim s)"

definition clampShort :: "string \<Rightarrow> string" where
  "clampShort s = take INITIATIVE_SHORT_MAX (js_trim s)"

datatype interview_output =
    AskQuestions "string list"
  | Converged string "string list" "string list"

text \<open>
  The interviewer's parsed reply: the strings of its \<^verbatim>\<open>questions\<close>, whether \<^verbatim>\<open>done\<close> is true, its
  goal when it is a string, and the strings of the other two lists.
\<close>

record interview_reply =
  ir_questions :: "string list"
  ir_done :: bool
  ir_goal :: "string option"
  ir_constraints :: "string list"
  ir_nonGoals :: "string list"

definition shown :: "string list \<Rightarrow> string list" where
  "shown xs = map clampShort (filter (\<lambda>x. \<not> blank x) xs)"

definition coerceInterviewOutput :: "interview_reply \<Rightarrow> bool \<Rightarrow> interview_output" where
  "coerceInterviewOutput r finalize =
     (let questions = take INITIATIVE_MAX_INTERVIEW_QUESTIONS (shown (ir_questions r))
      in if finalize \<or> ir_done r \<or> questions = []
         then Converged (case ir_goal r of None \<Rightarrow> [] | Some g \<Rightarrow> clampShort g)
                (shown (ir_constraints r)) (shown (ir_nonGoals r))
         else AskQuestions questions)"

definition qa_answered :: "qa \<Rightarrow> bool" where
  "qa_answered q \<longleftrightarrow> (case qa_answer q of None \<Rightarrow> False | Some a \<Rightarrow> \<not> blank a)"

definition isPendingQuestion :: "qa \<Rightarrow> bool" where
  "isPendingQuestion q \<longleftrightarrow> qa_status q \<noteq> Some QaDismissed \<and> \<not> qa_answered q"

definition answeredQa :: "initiative \<Rightarrow> qa list" where
  "answeredQa ini = filter qa_answered (ini_qa ini)"

definition retainedQa :: "initiative \<Rightarrow> qa list" where
  "retainedQa ini = filter (\<lambda>q. \<not> isPendingQuestion q) (ini_qa ini)"

definition max_rounds :: "initiative \<Rightarrow> nat" where
  "max_rounds ini = (case ini_interview ini of
     None \<Rightarrow> INITIATIVE_MAX_INTERVIEW_ROUNDS | Some iv \<Rightarrow> iv_maxRounds iv)"

text \<open>The ids of the new questions, one each, are drawn from the generator.\<close>

definition applyInterviewQuestions :: "initiative \<Rightarrow> string list \<Rightarrow> string list \<Rightarrow> initiative" where
  "applyInterviewQuestions ini questions ids =
     ini\<lparr>ini_qa := retainedQa ini @ map (\<lambda>(q, i).
           \<lparr>qa_id = i, qa_question = clampShort q, qa_answer = Some [], qa_status = Some QaOpen,
            qa_recommendation = None\<rparr>) (zip questions ids),
         ini_interview := Some
           \<lparr>iv_round = (case ini_interview ini of None \<Rightarrow> 0 | Some iv \<Rightarrow> iv_round iv) + 1,
            iv_maxRounds = max_rounds ini, iv_status = InterviewAwaiting\<rparr>\<rparr>"

definition applyInterviewReset :: "initiative \<Rightarrow> initiative" where
  "applyInterviewReset ini = ini\<lparr>ini_interview := None, ini_qa := retainedQa ini\<rparr>"

definition on_question :: "string \<Rightarrow> (qa \<Rightarrow> qa) \<Rightarrow> initiative \<Rightarrow> initiative" where
  "on_question i f ini = ini\<lparr>ini_qa := map (\<lambda>q. if qa_id q = i then f q else q) (ini_qa ini)\<rparr>"

definition applyQuestionStatus :: "initiative \<Rightarrow> string \<Rightarrow> qa_status \<Rightarrow> initiative" where
  "applyQuestionStatus ini i st = on_question i
     (\<lambda>q. if st = QaDismissed
          then q\<lparr>qa_status := Some st, qa_answer := Some [], qa_recommendation := None\<rparr>
          else q\<lparr>qa_status := Some st\<rparr>) ini"

definition applyQuestionRecommendation :: "initiative \<Rightarrow> string \<Rightarrow> string \<Rightarrow> initiative" where
  "applyQuestionRecommendation ini i rec =
     on_question i (\<lambda>q. q\<lparr>qa_recommendation := Some (clampShort rec)\<rparr>) ini"

definition applyInterviewAnswer :: "initiative \<Rightarrow> string \<Rightarrow> string \<Rightarrow> initiative" where
  "applyInterviewAnswer ini i answer =
     on_question i (\<lambda>q. q\<lparr>qa_answer := Some (clampShort answer)\<rparr>) ini"

definition applyInterviewOutcome ::
  "initiative \<Rightarrow> string \<Rightarrow> string list \<Rightarrow> string list \<Rightarrow> initiative" where
  "applyInterviewOutcome ini goal constraints nonGoals =
     ini\<lparr>ini_qa := answeredQa ini,
         ini_goal := (if js_trim goal = [] then ini_goal ini else js_trim goal),
         ini_constraints := constraints, ini_nonGoals := nonGoals,
         ini_interview := Some
           \<lparr>iv_round = (case ini_interview ini of None \<Rightarrow> 1 | Some iv \<Rightarrow> iv_round iv),
            iv_maxRounds = max_rounds ini, iv_status = InterviewDone\<rparr>\<rparr>"

definition interviewAtCap :: "initiative \<Rightarrow> bool" where
  "interviewAtCap ini = (case ini_interview ini of
     None \<Rightarrow> False | Some iv \<Rightarrow> iv_maxRounds iv \<le> iv_round iv)"

definition applyAnalysis :: "initiative \<Rightarrow> string \<Rightarrow> initiative" where
  "applyAnalysis ini summary = ini\<lparr>ini_analysisSummary := clampProse summary\<rparr>"

section \<open>Harvest and curation\<close>

record harvested_follow_up =
  hf_sourceId :: string
  hf_title :: string
  hf_detail :: string
  hf_suggestedAction :: "string option"

record run_harvest =
  rh_childBlockId :: string
  rh_followUps :: "harvested_follow_up list"
  rh_failure :: "(string \<times> string) option"

definition harvestFollowUpId :: "string \<Rightarrow> string \<Rightarrow> string" where
  "harvestFollowUpId childBlockId sourceId =
     ''ifu-'' @ initiativeSlug (childBlockId @ ''-'' @ sourceId)"

definition harvest_detail :: "harvested_follow_up \<Rightarrow> string" where
  "harvest_detail h =
     (let parts = filter (\<lambda>s. \<not> blank s)
            [hf_detail h, (case nonempty (hf_suggestedAction h) of
                             None \<Rightarrow> [] | Some a \<Rightarrow> ''Suggested: '' @ a)]
      in take INITIATIVE_SHORT_MAX (case parts of
           [] \<Rightarrow> [] | [a] \<Rightarrow> a | a # b # _ \<Rightarrow> a @ [CHR 10, CHR 10] @ b))"

fun harvest_additions ::
  "int \<Rightarrow> string \<Rightarrow> string option \<Rightarrow> string list \<Rightarrow> harvested_follow_up list \<Rightarrow> follow_up list" where
  "harvest_additions now child source seen [] = []"
| "harvest_additions now child source seen (h # hs) =
     (let i = harvestFollowUpId child (hf_sourceId h)
      in if i \<in> set seen then harvest_additions now child source seen hs
         else \<lparr>fu_id = i, fu_at = now, fu_sourceItemId = source,
               fu_title = clampTitle (hf_title h), fu_detail = harvest_detail h,
               fu_status = FuOpen, fu_promotedItemId = None\<rparr>
              # harvest_additions now child source (i # seen) hs)"

definition applyRunHarvest :: "initiative \<Rightarrow> run_harvest \<Rightarrow> int \<Rightarrow> initiative" where
  "applyRunHarvest ini h now =
     (let item = List.find (\<lambda>x. it_blockId x = Some (rh_childBlockId h)) (ini_items ini);
          additions = harvest_additions now (rh_childBlockId h) (map_option it_id item)
                        (map fu_id (ini_followUps ini)) (rh_followUps h);
          items = (case (item, rh_failure h) of
             (Some x, Some (kind, detail)) \<Rightarrow>
               (let note = take INITIATIVE_SHORT_MAX
                     (js_trim (''Run failed ('' @ kind @ ''): '' @ detail))
                in map (\<lambda>y. if it_id y = it_id x \<and> it_note x \<noteq> Some note
                            then y\<lparr>it_note := Some note\<rparr> else y) (ini_items ini))
           | _ \<Rightarrow> ini_items ini)
      in ini\<lparr>ini_items := items, ini_followUps := ini_followUps ini @ additions\<rparr>)"

definition assertCurationAllowed :: "initiative \<Rightarrow> initiative_error option" where
  "assertCurationAllowed ini =
     (if ini_status ini \<noteq> IniExecuting then Some (CurationClosed (ini_status ini)) else None)"

record promote_input =
  pi_phaseId :: string
  pi_title :: "string option"
  pi_description :: "string option"
  pi_dependsOn :: "string list"
  pi_estimate :: "estimate option"
  pi_pipelineId :: "string option"

definition known_deps :: "initiative \<Rightarrow> string list \<Rightarrow> initiative_error option" where
  "known_deps ini ds = check_all (\<lambda>d. if d \<in> it_id ` set (ini_items ini) then None
     else Some (DependsOnUnknown d)) ds"

definition promoted_item :: "initiative \<Rightarrow> follow_up \<Rightarrow> promote_input \<Rightarrow> initiative_item" where
  "promoted_item ini f inp =
     (let title = (case pi_title inp of None \<Rightarrow> fu_title f | Some t \<Rightarrow> t)
      in \<lparr>it_id = uniqueSlugId title (map it_id (ini_items ini)), it_phaseId = pi_phaseId inp,
          it_title = clampTitle title,
          it_description =
            clampProse (case pi_description inp of None \<Rightarrow> fu_detail f | Some t \<Rightarrow> t),
          it_dependsOn = pi_dependsOn inp, it_estimate = pi_estimate inp,
          it_pipelineId = nonempty (pi_pipelineId inp), it_spawn = None,
          it_status = ItemPending, it_blockId = None, it_pr = None, it_note = None\<rparr>)"

definition applyPromoteFollowUp ::
  "initiative \<Rightarrow> string \<Rightarrow> promote_input \<Rightarrow> initiative_error + initiative" where
  "applyPromoteFollowUp ini i inp = (case assertCurationAllowed ini of
      Some e \<Rightarrow> Inl e
    | None \<Rightarrow> (case List.find (\<lambda>f. fu_id f = i) (ini_followUps ini) of
        None \<Rightarrow> Inl (UnknownFollowUp i)
      | Some f \<Rightarrow>
          if fu_status f \<noteq> FuOpen then Inr ini
          else if pi_phaseId inp \<notin> ph_id ` set (ini_phases ini) then Inl (UnknownPhase (pi_phaseId inp))
          else (case known_deps ini (pi_dependsOn inp) of
             Some e \<Rightarrow> Inl e
           | None \<Rightarrow>
               (let x = promoted_item ini f inp
                in Inr (ini\<lparr>ini_items := ini_items ini @ [x],
                            ini_followUps := map (\<lambda>g. if fu_id g = i
                              then g\<lparr>fu_status := FuPromoted, fu_promotedItemId := Some (it_id x)\<rparr>
                              else g) (ini_followUps ini)\<rparr>)))))"

definition applyDismissFollowUp :: "initiative \<Rightarrow> string \<Rightarrow> initiative_error + initiative" where
  "applyDismissFollowUp ini i = (case assertCurationAllowed ini of
      Some e \<Rightarrow> Inl e
    | None \<Rightarrow> (case List.find (\<lambda>f. fu_id f = i) (ini_followUps ini) of
        None \<Rightarrow> Inl (UnknownFollowUp i)
      | Some f \<Rightarrow>
          if fu_status f \<noteq> FuOpen then Inr ini
          else Inr (ini\<lparr>ini_followUps := map (\<lambda>g. if fu_id g = i
                 then g\<lparr>fu_status := FuDismissed\<rparr> else g) (ini_followUps ini)\<rparr>)))"

datatype item_action = SkipItem | RetryItem

record item_edit =
  ie_title :: "string option"
  ie_description :: "string option"
  ie_estimate :: "estimate option"
  ie_pipelineId :: "string option"
  ie_dependsOn :: "string list option"
  ie_action :: "item_action option"

definition content_edit :: "item_edit \<Rightarrow> bool" where
  "content_edit inp \<longleftrightarrow> ie_title inp \<noteq> None \<or> ie_description inp \<noteq> None
     \<or> ie_estimate inp \<noteq> None \<or> ie_pipelineId inp \<noteq> None \<or> ie_dependsOn inp \<noteq> None"

definition item_editable :: "initiative_item \<Rightarrow> bool" where
  "item_editable x \<longleftrightarrow> it_status x = ItemPending \<or> it_status x = ItemBlocked"

definition edited :: "item_edit \<Rightarrow> initiative_item \<Rightarrow> initiative_item" where
  "edited inp x =
     x\<lparr>it_title := (case ie_title inp of None \<Rightarrow> it_title x | Some t \<Rightarrow> clampTitle t),
       it_description :=
         (case ie_description inp of None \<Rightarrow> it_description x | Some t \<Rightarrow> clampProse t),
       it_estimate := (case ie_estimate inp of None \<Rightarrow> it_estimate x | e \<Rightarrow> e),
       it_pipelineId := (case ie_pipelineId inp of None \<Rightarrow> it_pipelineId x | e \<Rightarrow> e),
       it_dependsOn := (case ie_dependsOn inp of None \<Rightarrow> it_dependsOn x | Some ds \<Rightarrow> ds)\<rparr>"

definition edit_action :: "item_edit \<Rightarrow> initiative_item \<Rightarrow> initiative_error + initiative_item" where
  "edit_action inp x = (case ie_action inp of
      None \<Rightarrow> Inr (edited inp x)
    | Some SkipItem \<Rightarrow>
        if \<not> item_editable x then Inl (ItemNotSkippable (it_id x))
        else Inr ((edited inp x)\<lparr>it_status := ItemSkipped\<rparr>)
    | Some RetryItem \<Rightarrow>
        if it_status x \<noteq> ItemBlocked then Inl (ItemNotBlocked (it_id x))
        else Inr ((edited inp x)\<lparr>it_status := ItemPending, it_blockId := None, it_note := None\<rparr>))"

definition dep_list_of :: "initiative_item list \<Rightarrow> dep_list" where
  "dep_list_of items = map (\<lambda>x. (it_id x, it_dependsOn x)) items"

definition edit_deps_error :: "initiative \<Rightarrow> string \<Rightarrow> string list \<Rightarrow> initiative_error option" where
  "edit_deps_error ini i ds = check_all (\<lambda>d. if d = i then Some (SelfDependency i)
     else if d \<in> it_id ` set (ini_items ini) then None else Some (DependsOnUnknown d)) ds"

definition applyItemEdit :: "initiative \<Rightarrow> string \<Rightarrow> item_edit \<Rightarrow> initiative_error + initiative" where
  "applyItemEdit ini i inp = (case assertCurationAllowed ini of
      Some e \<Rightarrow> Inl e
    | None \<Rightarrow> (case List.find (\<lambda>x. it_id x = i) (ini_items ini) of
        None \<Rightarrow> Inl (UnknownItem i)
      | Some x \<Rightarrow>
          if content_edit inp \<and> \<not> item_editable x then Inl (ItemNotEditable i)
          else (case (case ie_dependsOn inp of None \<Rightarrow> None
                      | Some ds \<Rightarrow> edit_deps_error ini i ds) of
             Some e \<Rightarrow> Inl e
           | None \<Rightarrow> (case edit_action inp x of
               Inl e \<Rightarrow> Inl e
             | Inr nxt \<Rightarrow>
                 (let items = map (\<lambda>y. if it_id y = i then nxt else y) (ini_items ini)
                  in case (if ie_dependsOn inp = None then None
                           else assertAcyclicItems (dep_list_of items)) of
                       Some e \<Rightarrow> Inl e
                     | None \<Rightarrow> Inr (ini\<lparr>ini_items := items\<rparr>))))))"

definition applyPolicyEdit :: "initiative \<Rightarrow> policy \<Rightarrow> initiative_error + initiative" where
  "applyPolicyEdit ini pol = (case assertCurationAllowed ini of
      Some e \<Rightarrow> Inl e | None \<Rightarrow> Inr (ini\<lparr>ini_policy := Some pol\<rparr>))"

section \<open>Laws of the cycle check\<close>

definition item_edges :: "dep_list \<Rightarrow> (string \<times> string) set" where
  "item_edges items = {(i, d). d \<in> set (item_deps items i)}"

lemma visit_all_cycle:
  assumes "visit_all items is visiting finished = Inl e"
    and "\<forall>v \<in> set visiting. \<forall>x \<in> set is. (v, x) \<in> (item_edges items)\<^sup>+"
  shows "(e, e) \<in> (item_edges items)\<^sup>+"
  using assms
proof (induction items "is" visiting finished rule: visit_all.induct)
  case (1 items visiting finished)
  then show ?case by simp
next
  case (2 items i "is" visiting finished)
  have tl: "\<forall>v \<in> set visiting. \<forall>x \<in> set is. (v, x) \<in> (item_edges items)\<^sup>+"
    using 2(5) by simp
  show ?case
  proof (cases "i \<in> set finished")
    case True
    with 2(4) have "visit_all items is visiting finished = Inl e" by simp
    from 2(1) [OF True this tl] show ?thesis .
  next
    case nf: False
    show ?thesis
    proof (cases "i \<in> set visiting")
      case True
      with nf 2(4) have "e = i" by simp
      with True 2(5) show ?thesis by simp
    next
      case nv: False
      show ?thesis
      proof (cases "visit_all items (item_deps items i) (i # visiting) finished")
        case (Inl e')
        with nf nv 2(4) have "e' = e" by simp
        moreover have "\<forall>v \<in> set (i # visiting). \<forall>x \<in> set (item_deps items i).
            (v, x) \<in> (item_edges items)\<^sup>+"
          using 2(5) by (auto simp: item_edges_def intro: trancl.intros)
        ultimately show ?thesis using 2(2) [OF nf nv] Inl by simp
      next
        case (Inr d)
        with nf nv 2(4) have "visit_all items is visiting (i # d) = Inl e" by simp
        from 2(3) [OF nf nv Inr this tl] show ?thesis .
      qed
    qed
  qed
qed

text \<open>A finished set is closed under dependencies and carries no cycle.\<close>

definition finished_ok :: "dep_list \<Rightarrow> string list \<Rightarrow> bool" where
  "finished_ok items d \<longleftrightarrow>
     (\<forall>x \<in> set d. set (item_deps items x) \<subseteq> set d \<and> (x, x) \<notin> (item_edges items)\<^sup>+)"

lemma closed_trancl:
  assumes "(x, y) \<in> (item_edges items)\<^sup>+" and "x \<in> S"
    and "\<And>z. z \<in> S \<Longrightarrow> set (item_deps items z) \<subseteq> S"
  shows "y \<in> S"
  using assms by (induction rule: trancl_induct) (auto simp: item_edges_def)

lemma finished_insert:
  assumes "finished_ok items d" and "set (item_deps items i) \<subseteq> set d" and "i \<notin> set d"
  shows "finished_ok items (i # d)"
proof -
  have "(i, i) \<notin> (item_edges items)\<^sup>+"
  proof
    assume "(i, i) \<in> (item_edges items)\<^sup>+"
    then obtain z where z: "(i, z) \<in> item_edges items" "(z, i) \<in> (item_edges items)\<^sup>*"
      by (meson tranclD)
    then have zd: "z \<in> set d" using assms(2) by (auto simp: item_edges_def)
    from z(2) have "i \<in> set d"
    proof (cases rule: rtranclE)
      case base
      with zd show ?thesis by simp
    next
      case (step y)
      then have "(z, i) \<in> (item_edges items)\<^sup>+" by (meson rtrancl_into_trancl1)
      from closed_trancl [OF this zd] assms(1) show ?thesis
        unfolding finished_ok_def by blast
    qed
    with assms(3) show False by simp
  qed
  with assms show ?thesis unfolding finished_ok_def by auto
qed

lemma visit_all_finished:
  assumes "visit_all items is visiting finished = Inr d" and "finished_ok items finished"
  shows "finished_ok items d \<and> set finished \<subseteq> set d \<and> set is \<subseteq> set d
    \<and> set visiting \<inter> set d \<subseteq> set finished"
  using assms
proof (induction items "is" visiting finished arbitrary: d rule: visit_all.induct)
  case (1 items visiting finished)
  then show ?case by simp
next
  case (2 items i "is" visiting finished)
  show ?case
  proof (cases "i \<in> set finished")
    case True
    with 2(4) have "visit_all items is visiting finished = Inr d" by simp
    from 2(1) [OF True this 2(5)] True show ?thesis by auto
  next
    case nf: False
    with 2(4) have nv: "i \<notin> set visiting" by (auto split: if_splits)
    from nf nv 2(4) obtain d0 where
      d0: "visit_all items (item_deps items i) (i # visiting) finished = Inr d0"
        "visit_all items is visiting (i # d0) = Inr d"
      by (auto split: sum.splits)
    from 2(2) [OF nf nv d0(1) 2(5)] have
      s0: "finished_ok items d0" "set finished \<subseteq> set d0" "set (item_deps items i) \<subseteq> set d0"
        "set (i # visiting) \<inter> set d0 \<subseteq> set finished" by blast+
    have "i \<notin> set d0" using s0(4) nf by auto
    from finished_insert [OF s0(1,3) this] have "finished_ok items (i # d0)" .
    from 2(3) [OF nf nv d0(1) d0(2) this] have
      s1: "finished_ok items d" "set (i # d0) \<subseteq> set d" "set is \<subseteq> set d"
        "set visiting \<inter> set d \<subseteq> set (i # d0)" by blast+
    with s0 nv show ?thesis by auto
  qed
qed

lemma first_ids_set: "set (first_ids is) = set is - {[]}"
  by (auto simp: first_ids_def)

lemma cycle_has_deps: "(x, x) \<in> (item_edges items)\<^sup>+ \<Longrightarrow> x \<in> fst ` set items"
proof -
  assume "(x, x) \<in> (item_edges items)\<^sup>+"
  then obtain z where "(x, z) \<in> item_edges items" by (meson tranclD)
  then have "map_of (rev items) x \<noteq> None"
    by (cases "map_of (rev items) x") (auto simp: item_edges_def item_deps_def)
  then show ?thesis by (auto simp: map_of_eq_None_iff)
qed

lemma visit_all_reaches:
  "visit_all items is visiting finished = Inl e \<Longrightarrow> \<exists>r \<in> set is. (r, e) \<in> (item_edges items)\<^sup>*"
proof (induction items "is" visiting finished rule: visit_all.induct)
  case (1 items visiting finished)
  then show ?case by simp
next
  case (2 items i "is" visiting finished)
  show ?case
  proof (cases "i \<in> set finished")
    case True
    with 2(4) have "visit_all items is visiting finished = Inl e" by simp
    from 2(1) [OF True this] show ?thesis by (meson list.set_intros(2))
  next
    case nf: False
    show ?thesis
    proof (cases "i \<in> set visiting")
      case True
      with nf 2(4) have "e = i" by simp
      then show ?thesis by simp
    next
      case nv: False
      show ?thesis
      proof (cases "visit_all items (item_deps items i) (i # visiting) finished")
        case (Inl e')
        with nf nv 2(4) have "e' = e" by simp
        from 2(2) [OF nf nv Inl [unfolded this]] obtain y where
          y: "y \<in> set (item_deps items i)" "(y, e) \<in> (item_edges items)\<^sup>*" by blast
        then have "(i, y) \<in> item_edges items" by (simp add: item_edges_def)
        from converse_rtrancl_into_rtrancl [OF this y(2)] show ?thesis by simp
      next
        case (Inr d)
        with nf nv 2(4) have "visit_all items is visiting (i # d) = Inl e" by simp
        from 2(3) [OF nf nv Inr this] show ?thesis by (meson list.set_intros(2))
      qed
    qed
  qed
qed

lemma assertAcyclicItems_exact:
  "assertAcyclicItems items = None \<longleftrightarrow>
     (\<forall>x. x \<in> (item_edges items)\<^sup>* `` (fst ` set items - {[]}) \<longrightarrow> (x, x) \<notin> (item_edges items)\<^sup>+)"
    (is "?l \<longleftrightarrow> ?r")
proof
  assume ?l
  then obtain d where d: "visit_all items (first_ids (map fst items)) [] [] = Inr d"
    by (auto simp: assertAcyclicItems_def split: sum.splits)
  from visit_all_finished [OF d] have
    *: "finished_ok items d" "fst ` set items - {[]} \<subseteq> set d"
    by (auto simp: finished_ok_def first_ids_set)
  have "x \<in> set d" if "(r, x) \<in> (item_edges items)\<^sup>*" "r \<in> fst ` set items - {[]}" for r x
    using that(1)
  proof (cases rule: rtranclE)
    case base
    with that(2) *(2) show ?thesis by auto
  next
    case (step y)
    then have "(r, x) \<in> (item_edges items)\<^sup>+" by (meson rtrancl_into_trancl1)
    from closed_trancl [OF this, of "set d"] that(2) * show ?thesis
      unfolding finished_ok_def by blast
  qed
  with *(1) show ?r unfolding finished_ok_def by blast
next
  assume r: ?r
  show ?l
  proof (rule ccontr)
    assume "\<not> ?l"
    then obtain e where e: "visit_all items (first_ids (map fst items)) [] [] = Inl e"
      by (auto simp: assertAcyclicItems_def split: sum.splits)
    from visit_all_cycle [OF this] have c: "(e, e) \<in> (item_edges items)\<^sup>+" by simp
    from visit_all_reaches [OF e] obtain r0 where "r0 \<in> fst ` set items - {[]}" "(r0, e) \<in> (item_edges items)\<^sup>*"
      by (auto simp: first_ids_set)
    with r c show False by blast
  qed
qed

section \<open>Laws of the execution loop\<close>

definition phase_index :: "initiative \<Rightarrow> initiative_item \<Rightarrow> nat option" where
  "phase_index ini x = find_index (\<lambda>p. ph_id p = it_phaseId x) (ini_phases ini)"

text \<open>
  A plan the loop can finish: unique ids, no cycle, and no open dependency in a later phase (or
  in a phase the plan does not have).
\<close>

definition plan_ok :: "initiative \<Rightarrow> bool" where
  "plan_ok ini \<longleftrightarrow> distinct (map it_id (ini_items ini))
     \<and> (\<forall>i. (i, i) \<notin> (item_edges (dep_list_of (ini_items ini)))\<^sup>+)
     \<and> (\<forall>x \<in> set (ini_items ini). \<forall>d \<in> set (it_dependsOn x). \<forall>y.
          item_by_id (ini_items ini) d = Some y \<longrightarrow> item_settled y \<or>
          (\<exists>a b. phase_index ini x = Some a \<and> phase_index ini y = Some b \<and> b \<le> a))"

lemma map_of_ids:
  assumes "distinct (map it_id items)" and "x \<in> set items"
  shows "map_of (rev (map (\<lambda>x. (it_id x, f x)) items)) (it_id x) = Some (f x)"
proof -
  have "distinct (map fst (rev (map (\<lambda>x. (it_id x, f x)) items)))"
    using assms(1) by (simp add: rev_map [symmetric] comp_def)
  then show ?thesis using assms(2) by (intro map_of_is_SomeI) auto
qed

lemma item_by_id_Some: "item_by_id items i = Some y \<Longrightarrow> y \<in> set items \<and> it_id y = i"
  by (auto simp: item_by_id_def dest!: map_of_SomeD)

lemma item_by_id_mem:
  "distinct (map it_id items) \<Longrightarrow> x \<in> set items \<Longrightarrow> item_by_id items (it_id x) = Some x"
  unfolding item_by_id_def by (rule map_of_ids)

lemma item_deps_mem:
  "distinct (map it_id items) \<Longrightarrow> x \<in> set items \<Longrightarrow>
     item_deps (dep_list_of items) (it_id x) = it_dependsOn x"
  unfolding item_deps_def dep_list_of_def by (simp add: map_of_ids)

lemma deriveCurrentPhase_Some:
  "deriveCurrentPhase ini = Some p \<longleftrightarrow> (\<exists>k < length (ini_phases ini).
     p = ini_phases ini ! k
     \<and> (\<exists>x \<in> set (ini_items ini). it_phaseId x = ph_id p \<and> \<not> item_settled x)
     \<and> (\<forall>j < k. \<forall>x \<in> set (ini_items ini).
           it_phaseId x = ph_id (ini_phases ini ! j) \<longrightarrow> item_settled x))"
  unfolding deriveCurrentPhase_def find_Some_iff list_ex_iff by blast

lemma open_item_ready:
  assumes "plan_ok ini" and "deriveCurrentPhase ini = Some p"
  shows "\<exists>x \<in> set (ini_items ini). it_phaseId x = ph_id p \<and> \<not> item_settled x
    \<and> itemDependenciesMet ini x"
proof -
  let ?items = "ini_items ini"
  let ?E = "item_edges (dep_list_of ?items)"
  let ?O = "{x \<in> set ?items. it_phaseId x = ph_id p \<and> \<not> item_settled x}"
  from assms(2) obtain k x0 where k: "k < length (ini_phases ini)" "p = ini_phases ini ! k"
    and x0: "x0 \<in> ?O"
    and before: "\<And>j x. j < k \<Longrightarrow> x \<in> set ?items \<Longrightarrow> it_phaseId x = ph_id (ini_phases ini ! j)
        \<Longrightarrow> item_settled x"
    unfolding deriveCurrentPhase_Some by blast
  have dist: "distinct (map it_id ?items)" using assms(1) by (simp add: plan_ok_def)
  have "acyclic ?E" using assms(1) by (simp add: plan_ok_def acyclic_def)
  then have "acyclic (?E \<inter> (it_id ` ?O) \<times> (it_id ` ?O))" by (rule acyclic_subset) blast
  then have "wf ((?E \<inter> (it_id ` ?O) \<times> (it_id ` ?O))\<inverse>)"
    by (intro finite_acyclic_wf_converse) (auto intro: finite_subset [of _ "(it_id ` ?O) \<times> (it_id ` ?O)"])
  then obtain i where i: "i \<in> it_id ` ?O"
    and min: "\<And>j. (j, i) \<in> (?E \<inter> (it_id ` ?O) \<times> (it_id ` ?O))\<inverse> \<Longrightarrow> j \<notin> it_id ` ?O"
    by (rule wfE_min [of _ "it_id x0" "it_id ` ?O"]) (use x0 in blast)+
  from i obtain x where x: "x \<in> ?O" "i = it_id x" by blast
  have "itemDependenciesMet ini x"
    unfolding itemDependenciesMet_def list_all_iff
  proof
    fix d assume d: "d \<in> set (it_dependsOn x)"
    have "item_settled y" if y: "item_by_id ?items d = Some y" for y
    proof (rule ccontr)
      assume open_y: "\<not> item_settled y"
      from assms(1) x(1) d y open_y obtain a b where
        ab: "phase_index ini x = Some a" "phase_index ini y = Some b" "b \<le> a"
        unfolding plan_ok_def by blast
      from item_by_id_Some [OF y] have yi: "y \<in> set ?items" "it_id y = d" by auto
      have "a \<le> k"
      proof (rule ccontr)
        assume "\<not> a \<le> k"
        then have "k < a" by simp
        with ab(1) have "ph_id (ini_phases ini ! k) \<noteq> it_phaseId x"
          unfolding phase_index_def find_index_Some by blast
        with x(1) k(2) show False by simp
      qed
      have yb: "it_phaseId y = ph_id (ini_phases ini ! b)"
        using ab(2) unfolding phase_index_def find_index_Some by simp
      have "\<not> b < k" using before [OF _ yi(1) yb] open_y by blast
      with ab(3) \<open>a \<le> k\<close> have "b = k" by simp
      with yb k(2) yi(1) open_y have "y \<in> ?O" by simp
      then have "d \<in> it_id ` ?O" using yi(2) by blast
      moreover have "(i, d) \<in> ?E"
        using d x item_deps_mem [OF dist, of x] by (simp add: item_edges_def)
      ultimately show False using min [of d] i by blast
    qed
    then show "case item_by_id ?items d of None \<Rightarrow> True | Some y \<Rightarrow> item_settled y"
      by (cases "item_by_id ?items d") auto
  qed
  with x(1) show ?thesis by blast
qed

text \<open>With no item of the phase blocked or in flight there is one to spawn.\<close>

lemma loop_not_stuck:
  assumes "plan_ok ini" and "deriveCurrentPhase ini = Some p" and "\<not> phaseIsHalted ini (ph_id p)"
    and "\<forall>x \<in> set (ini_items ini). it_phaseId x = ph_id p \<longrightarrow> \<not> item_active x"
  shows "eligibleItemsToSpawn ini \<noteq> []"
proof -
  from open_item_ready [OF assms(1,2)] obtain x where x: "x \<in> set (ini_items ini)"
    "it_phaseId x = ph_id p" "\<not> item_settled x" "itemDependenciesMet ini x" by blast
  have "it_status x = ItemPending"
    using x(1,2,3) assms(3,4)
    by (cases "it_status x")
       (auto simp: item_settled_def item_active_def phaseIsHalted_def list_ex_iff)
  with x assms(2,3) show ?thesis
    by (auto simp: eligibleItemsToSpawn_def filter_empty_conv)
qed

section \<open>A validated draft is a sound plan\<close>

lemma phase_order_index:
  assumes "phase_order seen k ps = Inr order" and "\<forall>p \<in> set ps. nonempty (dp_id p) \<noteq> None"
  shows "map_of order i = (case find_index (\<lambda>p. dp_id p = Some i) ps of
    Some j \<Rightarrow> Some (k + j) | None \<Rightarrow> map_of seen i)"
  using assms
proof (induction seen k ps rule: phase_order.induct)
  case (1 seen k)
  then show ?case by simp
next
  case (2 seen k p ps)
  then obtain x where x: "nonempty (dp_id p) = Some x" by auto
  then have px: "dp_id p = Some x" by (simp add: nonempty_Some)
  from 2(3) x have s: "map_of seen x = None" "phase_order ((x, k) # seen) (Suc k) ps = Inr order"
    by (auto split: if_splits)
  from 2(2) [OF x _ s(2)] s(1) 2(4) have
    *: "map_of order i = (case find_index (\<lambda>p. dp_id p = Some i) ps of
       Some j \<Rightarrow> Some (Suc k + j) | None \<Rightarrow> map_of ((x, k) # seen) i)" by simp
  have mono: "map_of order j = Some m" if "map_of seen' j = Some m"
      "phase_order seen' n qs = Inr order" for seen' n qs j m
    using that
    by (induction seen' n qs rule: phase_order.induct) (force split: option.splits if_splits)+
  show ?case
  proof (cases "x = i")
    case True
    have "map_of order i = Some k" by (rule mono [OF _ s(2)]) (simp add: True)
    with px True show ?thesis by simp
  next
    case False
    with * px show ?thesis by (auto split: option.splits)
  qed
qed

lemma item_phases_map:
  assumes "item_phases seen ds = Inr phases" and "\<forall>d \<in> set ds. nonempty (di_id d) \<noteq> None"
  shows "distinct (map di_id ds) \<and> (\<forall>i. map_of phases i = (case map_of seen i of
    Some q \<Rightarrow> Some q | None \<Rightarrow> map_option di_phaseId (List.find (\<lambda>d. di_id d = Some i) ds)))
    \<and> (\<forall>d \<in> set ds. \<forall>i. di_id d = Some i \<longrightarrow> map_of seen i = None)"
  using assms
proof (induction seen ds rule: item_phases.induct)
  case (1 seen)
  then show ?case by (auto split: option.splits)
next
  case (2 seen d ds)
  then obtain x where x: "nonempty (di_id d) = Some x" by auto
  then have dx: "di_id d = Some x" by (simp add: nonempty_Some)
  from 2(3) x have s: "map_of seen x = None" "item_phases ((x, di_phaseId d) # seen) ds = Inr phases"
    by (auto split: if_splits)
  have ds: "\<forall>d \<in> set ds. nonempty (di_id d) \<noteq> None" using 2(4) by simp
  from 2(2) [OF x _ s(2) ds] s(1) have
    *: "distinct (map di_id ds)"
      "\<And>i. map_of phases i = (case map_of ((x, di_phaseId d) # seen) i of
         Some q \<Rightarrow> Some q | None \<Rightarrow> map_option di_phaseId (List.find (\<lambda>d. di_id d = Some i) ds))"
      "\<forall>d' \<in> set ds. \<forall>i. di_id d' = Some i \<longrightarrow> map_of ((x, di_phaseId d) # seen) i = None" by auto
  have "Some x \<notin> di_id ` set ds"
  proof
    assume "Some x \<in> di_id ` set ds"
    then obtain d' where "d' \<in> set ds" "di_id d' = Some x" by auto
    with *(3) have "map_of ((x, di_phaseId d) # seen) x = None" by blast
    then show False by simp
  qed
  with *(1) dx have "distinct (map di_id (d # ds))" by simp
  moreover have "map_of phases i = (case map_of seen i of Some q \<Rightarrow> Some q | None \<Rightarrow>
      map_option di_phaseId (List.find (\<lambda>d. di_id d = Some i) (d # ds)))" for i
    using *(2) [of i] dx s(1) by (cases "x = i") (auto split: option.splits)
  moreover have "\<forall>d' \<in> set (d # ds). \<forall>i. di_id d' = Some i \<longrightarrow> map_of seen i = None"
    using *(3) dx s(1) by (auto split: if_splits)
  ultimately show ?case by blast
qed

lemma merge_items_ids:
  "\<forall>d \<in> set ds. di_id d \<noteq> None \<Longrightarrow>
     merge_items old taken ds = map (\<lambda>d. merge_item old d (the (di_id d))) ds"
  by (induction old taken ds rule: merge_items.induct) (auto simp: Let_def)

lemma merge_phases_ids:
  "\<forall>p \<in> set ps. dp_id p \<noteq> None \<Longrightarrow>
     merge_phases old taken ps = map (\<lambda>p. merge_phase old p (the (dp_id p))) ps"
  by (induction old taken ps rule: merge_phases.induct) (auto simp: Let_def)

lemma merge_item_simps [simp]:
  "it_id (merge_item old d i) = i"
  "it_phaseId (merge_item old d i) = di_phaseId d"
  "it_dependsOn (merge_item old d i) = di_dependsOn d"
  by (simp_all add: merge_item_def Let_def)

lemma find_index_map: "find_index p (map f xs) = find_index (\<lambda>x. p (f x)) xs"
  by (induction xs) auto

lemma find_index_cong:
  "(\<And>x. x \<in> set xs \<Longrightarrow> p x = q x) \<Longrightarrow> find_index p xs = find_index q xs"
  by (induction xs) auto

lemma find_unique_id:
  "distinct (map di_id ds) \<Longrightarrow> e \<in> set ds \<Longrightarrow> di_id e = i \<Longrightarrow> List.find (\<lambda>d. di_id d = i) ds = Some e"
  by (induction ds) (auto simp: image_iff)

text \<open>Every phase and every item of the draft names its id, as the schema lets a planner do.\<close>

definition ids_given :: "plan_draft \<Rightarrow> bool" where
  "ids_given draft \<longleftrightarrow> pd_phases draft \<noteq> []
     \<and> (\<forall>p \<in> set (pd_phases draft). nonempty (dp_id p) \<noteq> None)
     \<and> (\<forall>d \<in> set (pd_items draft). nonempty (di_id d) \<noteq> None \<and> di_phaseId d \<noteq> [])"

text \<open>
  What the planner fixed, and no write of the execution loop touches: the ids of the items with
  their phases and dependencies, and the order of the phases.
\<close>

type_synonym item_shape = "string \<times> string \<times> string list"

definition shape_of :: "initiative_item \<Rightarrow> item_shape" where
  "shape_of x = (it_id x, it_phaseId x, it_dependsOn x)"

definition sound_shape :: "item_shape list \<Rightarrow> string list \<Rightarrow> bool" where
  "sound_shape S phs \<longleftrightarrow> distinct (map fst S)
     \<and> (\<forall>i. (i, i) \<notin> (item_edges (map (\<lambda>(j, p, ds). (j, ds)) S))\<^sup>+)
     \<and> (\<forall>(i, p, ds) \<in> set S. \<forall>(j, q, es) \<in> set S. j \<in> set ds \<longrightarrow>
          (\<exists>a b. find_index (\<lambda>h. h = p) phs = Some a \<and> find_index (\<lambda>h. h = q) phs = Some b \<and> b \<le> a))"

definition plan_sound :: "initiative \<Rightarrow> bool" where
  "plan_sound ini \<longleftrightarrow> sound_shape (map shape_of (ini_items ini)) (map ph_id (ini_phases ini))"

lemma plan_sound_iff:
  "plan_sound ini \<longleftrightarrow> distinct (map it_id (ini_items ini))
     \<and> (\<forall>i. (i, i) \<notin> (item_edges (dep_list_of (ini_items ini)))\<^sup>+)
     \<and> (\<forall>x \<in> set (ini_items ini). \<forall>y \<in> set (ini_items ini). it_id y \<in> set (it_dependsOn x) \<longrightarrow>
          (\<exists>a b. phase_index ini x = Some a \<and> phase_index ini y = Some b \<and> b \<le> a))"
proof -
  have "fst \<circ> shape_of = it_id" by (simp add: fun_eq_iff shape_of_def)
  moreover have "map (\<lambda>(j, p, ds). (j, ds)) (map shape_of (ini_items ini)) = dep_list_of (ini_items ini)"
    by (simp add: shape_of_def dep_list_of_def)
  ultimately show ?thesis
    unfolding plan_sound_def sound_shape_def phase_index_def find_index_map
    by (simp add: shape_of_def)
qed

lemma plan_sound_ok: "plan_sound ini \<Longrightarrow> plan_ok ini"
  unfolding plan_sound_iff plan_ok_def by (blast dest: item_by_id_Some)

lemma validated_plan_sound:
  assumes "validatePlanDraft draft = None" and "ids_given draft" and "ini_items ini = []"
  shows "plan_sound (applyPlanDraft ini draft now)"
proof -
  let ?ds = "pd_items draft" and ?ps = "pd_phases draft"
  let ?ini = "applyPlanDraft ini draft now"
  have idp: "\<forall>p \<in> set ?ps. dp_id p \<noteq> None" and idd: "\<forall>d \<in> set ?ds. di_id d \<noteq> None"
    using assms(2) by (auto simp: ids_given_def nonempty_def split: option.splits)
  have items: "ini_items ?ini = map (\<lambda>d. merge_item [] d (the (di_id d))) ?ds"
    by (simp add: applyPlanDraft_def Let_def assms(3) preserved_items_def merge_items_ids [OF idd])
  have phases: "ini_phases ?ini = map (\<lambda>p. merge_phase (ini_phases ini) p (the (dp_id p))) ?ps"
    by (simp add: applyPlanDraft_def Let_def merge_phases_ids [OF idp])
  from assms(1) obtain order phs where
    o: "phase_order [] 0 ?ps = Inr order" and h: "item_phases [] ?ds = Inr phs" and
    chk: "check_all (check_item order phs) ?ds = None" and
    acyc: "assertAcyclicItems (map (\<lambda>d. (case di_id d of None \<Rightarrow> [] | Some i \<Rightarrow> i, di_dependsOn d)) ?ds)
      = None"
    unfolding validatePlanDraft_def by (auto split: sum.splits option.splits)
  have po: "map_of order i = find_index (\<lambda>p. dp_id p = Some i) ?ps" for i
    using phase_order_index [OF o, of i] assms(2)
    by (auto simp: ids_given_def split: option.splits)
  have ip: "distinct (map di_id ?ds)"
    "map_of phs i = map_option di_phaseId (List.find (\<lambda>d. di_id d = Some i) ?ds)" for i
    using item_phases_map [OF h] assms(2) by (auto simp: ids_given_def)
  have dist: "distinct (map it_id (ini_items ?ini))"
  proof -
    have "map di_id ?ds = map Some (map (\<lambda>d. the (di_id d)) ?ds)" using idd by auto
    with ip(1) have "distinct (map Some (map (\<lambda>d. the (di_id d)) ?ds))" by simp
    then have "distinct (map (\<lambda>d. the (di_id d)) ?ds)" unfolding distinct_map [of Some] by simp
    then show ?thesis by (simp add: items comp_def)
  qed
  have dl: "dep_list_of (ini_items ?ini) =
      map (\<lambda>d. (case di_id d of None \<Rightarrow> [] | Some i \<Rightarrow> i, di_dependsOn d)) ?ds"
    using idd by (auto simp: items dep_list_of_def)
  have ne: "i \<noteq> []" if "i \<in> fst ` set (dep_list_of (ini_items ?ini))" for i
    using that assms(2) by (auto simp: dl ids_given_def nonempty_def split: option.splits)
  have nocycle: "(i, i) \<notin> (item_edges (dep_list_of (ini_items ?ini)))\<^sup>+" for i
  proof
    assume c: "(i, i) \<in> (item_edges (dep_list_of (ini_items ?ini)))\<^sup>+"
    from cycle_has_deps [OF c] ne have
      "i \<in> (item_edges (dep_list_of (ini_items ?ini)))\<^sup>* ``
         (fst ` set (dep_list_of (ini_items ?ini)) - {[]})" by blast
    with acyc c show False unfolding dl [symmetric] assertAcyclicItems_exact by blast
  qed
  have pidx: "phase_index ?ini (merge_item [] d i) = find_index (\<lambda>p. dp_id p = Some (di_phaseId d)) ?ps"
    for d i
    unfolding phase_index_def phases find_index_map
    using idp by (intro find_index_cong) (auto simp: merge_phase_def)
  have "\<exists>a b. phase_index ?ini x = Some a \<and> phase_index ?ini y = Some b \<and> b \<le> a"
    if x: "x \<in> set (ini_items ?ini)" and dep: "dep \<in> set (it_dependsOn x)"
      and y: "item_by_id (ini_items ?ini) dep = Some y" for x dep y
  proof -
    from x obtain d where d: "d \<in> set ?ds" "x = merge_item [] d (the (di_id d))"
      by (auto simp: items)
    from item_by_id_Some [OF y] obtain e where
      e: "e \<in> set ?ds" "y = merge_item [] e (the (di_id e))" "the (di_id e) = dep"
      by (auto simp: items)
    have cd: "check_item order phs d = None" and ce: "check_item order phs e = None"
      using chk d(1) e(1) by (auto simp: check_all_None)
    have one: "order \<noteq> []"
    proof
      assume "order = []"
      with po have "find_index (\<lambda>p. dp_id p = Some i) ?ps = None" for i by simp
      then have none: "\<forall>p \<in> set ?ps. dp_id p \<noteq> Some i" for i by (auto simp: find_index_None)
      from assms(2) have "?ps \<noteq> []" by (simp add: ids_given_def)
      then obtain p where p: "p \<in> set ?ps" using last_in_set by blast
      with idp obtain i where "dp_id p = Some i" by blast
      with none [of i] p show False by blast
    qed
    have known: "\<exists>a. map_of order (di_phaseId z) = Some a"
      if "z \<in> set ?ds" "check_item order phs z = None" for z
      using that one assms(2) by (auto simp: check_item_def ids_given_def split: if_splits)
    from known [OF d(1) cd] known [OF e(1) ce] obtain a b where
      ab: "map_of order (di_phaseId d) = Some a" "map_of order (di_phaseId e) = Some b" by blast
    have "check_dep order phs d dep = None"
      using cd dep d(2) by (auto simp: check_item_def check_all_None split: if_splits)
    moreover have "map_of phs dep = Some (di_phaseId e)"
    proof -
      have "di_id e = Some dep" using e idd by auto
      with e(1) ip(1) have "List.find (\<lambda>d. di_id d = Some dep) ?ds = Some e"
        by (simp add: find_unique_id)
      then show ?thesis by (simp add: ip(2))
    qed
    ultimately have "b \<le> a"
      using ab assms(2) d(1) e(1)
      by (auto simp: check_dep_def order_of_def ids_given_def split: if_splits)
    with ab po d(2) e(2) pidx show ?thesis by auto
  qed
  then have "\<exists>a b. phase_index ?ini x = Some a \<and> phase_index ?ini y = Some b \<and> b \<le> a"
    if "x \<in> set (ini_items ?ini)" "y \<in> set (ini_items ?ini)" "it_id y \<in> set (it_dependsOn x)" for x y
    using that item_by_id_mem [OF dist] by blast
  with dist nocycle show ?thesis unfolding plan_sound_iff by blast
qed

section \<open>Laws of the interview, of claims and of the harvest\<close>

text \<open>One pass of the interviewer asks again only below the cap, and asking raises the round.\<close>

definition asks_again :: "initiative \<Rightarrow> interview_reply \<Rightarrow> bool" where
  "asks_again ini r \<longleftrightarrow>
     (\<exists>qs. coerceInterviewOutput r (interviewAtCap ini) = AskQuestions qs)"

definition interview_round :: "initiative \<Rightarrow> nat" where
  "interview_round ini = (case ini_interview ini of None \<Rightarrow> 0 | Some iv \<Rightarrow> iv_round iv)"

lemma capped_round_converges: "interviewAtCap ini \<Longrightarrow> \<not> asks_again ini r"
  by (simp add: asks_again_def coerceInterviewOutput_def Let_def)

lemma asked_interview:
  "ini_interview (applyInterviewQuestions ini qs ids) = Some
     \<lparr>iv_round = interview_round ini + 1, iv_maxRounds = max_rounds ini,
      iv_status = InterviewAwaiting\<rparr>"
  unfolding applyInterviewQuestions_def interview_round_def by (simp split: option.split)

lemma asked_rounds:
  "interview_round (applyInterviewQuestions ini qs ids) = Suc (interview_round ini)"
  "max_rounds (applyInterviewQuestions ini qs ids) = max_rounds ini"
  unfolding interview_round_def [of "applyInterviewQuestions ini qs ids"]
    max_rounds_def [of "applyInterviewQuestions ini qs ids"] asked_interview
  by simp_all

lemma below_cap: "\<not> interviewAtCap ini \<Longrightarrow> interview_round ini < max_rounds ini"
  by (cases "ini_interview ini")
     (simp_all add: interviewAtCap_def interview_round_def max_rounds_def
       INITIATIVE_MAX_INTERVIEW_ROUNDS_def)

interpretation interview_loop: budgeted_loop interview_round max_rounds asks_again
  "\<lambda>ini. applyInterviewQuestions ini questions ids"
proof (unfold_locales, goal_cases)
  case (1 s v)
  with capped_round_converges have "\<not> interviewAtCap s" by blast
  then show ?case by (rule below_cap)
qed (simp_all only: asked_rounds)

lemma on_item_id:
  assumes "\<And>x. x \<in> set (ini_items ini) \<Longrightarrow> p x \<Longrightarrow> f x = x"
  shows "on_item p f ini = ini"
proof -
  have "map (\<lambda>x. if p x then f x else x) (ini_items ini) = ini_items ini"
    using assms by (intro map_idI) simp
  then show ?thesis by (simp add: on_item_def)
qed

lemma map_twice_if:
  assumes "\<And>x. p x \<Longrightarrow> \<not> q (f x)" and "\<And>x. \<not> p x \<Longrightarrow> \<not> q x"
  shows "map (\<lambda>x. if q x then g x else x) (map (\<lambda>x. if p x then f x else x) xs)
    = map (\<lambda>x. if p x then f x else x) xs"
  using assms by (induction xs) auto

lemma on_item_twice:
  assumes "\<And>x. p x \<Longrightarrow> \<not> q (f x)" and "\<And>x. \<not> p x \<Longrightarrow> \<not> q x"
  shows "on_item q g (on_item p f ini) = on_item p f ini"
  by (simp add: on_item_def map_twice_if [where p = p and q = q and f = f, OF assms] del: map_map)

lemma claim_once:
  "applySpawnClaim (applySpawnClaim ini i a) i b = applySpawnClaim ini i a"
  unfolding applySpawnClaim_def by (rule on_item_twice) simp_all

lemma harvest_additions_seen:
  "(\<And>h. h \<in> set hs \<Longrightarrow> harvestFollowUpId child (hf_sourceId h) \<in> set seen) \<Longrightarrow>
     harvest_additions now child source seen hs = []"
  by (induction now child source seen hs rule: harvest_additions.induct) (auto simp: Let_def)

lemma harvest_additions_ids:
  "h \<in> set hs \<Longrightarrow> harvestFollowUpId child (hf_sourceId h) \<in>
     set seen \<union> fu_id ` set (harvest_additions now child source seen hs)"
  by (induction now child source seen hs rule: harvest_additions.induct) (auto simp: Let_def)

lemma harvest_additions_fresh:
  "distinct seen \<Longrightarrow>
     distinct (seen @ map fu_id (harvest_additions now child source seen hs))"
proof (induction now child source seen hs rule: harvest_additions.induct)
  case (1 now child source seen)
  then show ?case by simp
next
  case (2 now child source seen h hs)
  let ?i = "harvestFollowUpId child (hf_sourceId h)"
  show ?case
  proof (cases "?i \<in> set seen")
    case True
    with 2 show ?thesis by (simp add: Let_def)
  next
    case False
    with 2(2) [OF refl False] 2(3) show ?thesis by (auto simp: Let_def)
  qed
qed

lemma applyRunHarvest_followUps:
  "ini_followUps (applyRunHarvest ini h now) = ini_followUps ini @
     harvest_additions now (rh_childBlockId h)
       (map_option it_id (List.find (\<lambda>x. it_blockId x = Some (rh_childBlockId h)) (ini_items ini)))
       (map fu_id (ini_followUps ini)) (rh_followUps h)"
  by (simp add: applyRunHarvest_def Let_def)

section \<open>Laws of slugs\<close>

lemma dash_runs_chars: "c \<in> set (dash_runs b s) \<Longrightarrow> is_alnum c \<or> c = CHR ''-''"
  by (induction b s rule: dash_runs.induct) (auto split: if_splits)

lemma trim_dashes_subset: "set (trim_dashes s) \<subseteq> set s"
  unfolding trim_dashes_def by (auto dest!: set_dropWhileD)

lemma initiativeSlug_chars:
  "c \<in> set (initiativeSlug title) \<Longrightarrow> is_alnum c \<or> c = CHR ''-''"
proof -
  assume c: "c \<in> set (initiativeSlug title)"
  define slug where "slug = take 60 (trim_dashes (dash_runs False (map lower title)))"
  show ?thesis
  proof (cases "slug = []")
    case True
    with c have "c \<in> set ''initiative''" by (simp add: initiativeSlug_def Let_def slug_def)
    then show ?thesis by (auto simp: is_alnum_def Let_def)
  next
    case False
    with c have "c \<in> set slug" by (simp add: initiativeSlug_def Let_def slug_def)
    then have "c \<in> set (dash_runs False (map lower title))"
      unfolding slug_def using trim_dashes_subset in_set_takeD by fastforce
    then show ?thesis by (rule dash_runs_chars)
  qed
qed

lemma initiativeSlug_length: "initiativeSlug title \<noteq> [] \<and> length (initiativeSlug title) \<le> 60"
  by (simp add: initiativeSlug_def Let_def)

section \<open>Properties\<close>

text \<open>The writes of the execution loop and of the harvest, in any order.\<close>

inductive loop_write :: "initiative \<Rightarrow> initiative \<Rightarrow> bool" where
  claimed: "loop_write ini (applySpawnClaim ini i b)"
| reverted: "loop_write ini (applyRevertClaim ini i b)"
| reconciled: "loop_write ini (ini\<lparr>ini_items := map (\<lambda>x. reconcileItem x (look x)) (ini_items ini)\<rparr>)"
| cleared: "loop_write ini (applyCheckpointCleared ini p t)"
| harvested: "loop_write ini (applyRunHarvest ini h t)"

lemma shape_reconcile: "shape_of (reconcileItem x b) = shape_of x"
  by (simp add: shape_of_def reconcileItem_def Let_def split: option.split block_status.split)

lemma shape_on_item:
  "(\<And>x. shape_of (f x) = shape_of x) \<Longrightarrow>
     map shape_of (ini_items (on_item p f ini)) = map shape_of (ini_items ini)"
  by (simp add: on_item_def)

lemma loop_write_shape:
  assumes "loop_write ini ini'"
  shows "map shape_of (ini_items ini') = map shape_of (ini_items ini)
    \<and> map ph_id (ini_phases ini') = map ph_id (ini_phases ini)"
  using assms
proof cases
  case (claimed i b)
  then show ?thesis
    unfolding applySpawnClaim_def by (simp add: shape_on_item shape_of_def) (simp add: on_item_def)
next
  case (reverted i b)
  then show ?thesis
    unfolding applyRevertClaim_def by (simp add: shape_on_item shape_of_def) (simp add: on_item_def)
next
  case (reconciled look)
  then show ?thesis by (simp add: comp_def shape_reconcile)
next
  case (cleared p t)
  then show ?thesis by (simp add: applyCheckpointCleared_def)
next
  case (harvested h t)
  then show ?thesis
    by (simp add: applyRunHarvest_def Let_def shape_of_def split: option.split prod.split)
qed

lemma loop_writes_sound: "loop_write\<^sup>*\<^sup>* ini ini' \<Longrightarrow> plan_sound ini \<Longrightarrow> plan_sound ini'"
  by (induction rule: rtranclp_induct) (simp_all add: plan_sound_def loop_write_shape)

text \<open>
  C6. A plan accepted by the validation, whose phases and items all name their ids, is never stuck:
  after any writes of the execution loop, a current phase without a blocked or running item has an
  item that may be spawned.
\<close>

theorem validated_plan_never_sticks:
  assumes "validatePlanDraft draft = None" and "ids_given draft" and "ini_items ini0 = []"
    and "loop_write\<^sup>*\<^sup>* (applyPlanDraft ini0 draft now) ini"
    and "deriveCurrentPhase ini = Some p" and "\<not> phaseIsHalted ini (ph_id p)"
    and "\<forall>x \<in> set (ini_items ini). it_phaseId x = ph_id p \<longrightarrow> \<not> item_active x"
  shows "eligibleItemsToSpawn ini \<noteq> []"
  using loop_not_stuck [OF plan_sound_ok [OF loop_writes_sound [OF assms(4)
          validated_plan_sound [OF assms(1-3)]]] assms(5-7)] .

definition bare_policy :: policy where
  "bare_policy = \<lparr>po_maxConcurrent = 1, po_rules = [], po_onMissingEstimate = None,
     po_defaultPipelineId = ''pl''\<rparr>"

definition bare_phase :: "string option \<Rightarrow> string \<Rightarrow> draft_phase" where
  "bare_phase i title = \<lparr>dp_id = i, dp_title = title, dp_goal = None, dp_maxConcurrent = None,
     dp_checkpoint = None\<rparr>"

definition bare_item :: "string \<Rightarrow> string \<Rightarrow> string list \<Rightarrow> draft_item" where
  "bare_item i ph deps = \<lparr>di_id = Some i, di_phaseId = ph, di_title = i, di_description = None,
     di_dependsOn = deps, di_estimate = None, di_pipelineId = None, di_spawn = None\<rparr>"

definition bare_draft :: "draft_phase list \<Rightarrow> draft_item list \<Rightarrow> plan_draft" where
  "bare_draft phs items = \<lparr>pd_goal = None, pd_constraints = [], pd_nonGoals = [],
     pd_analysisSummary = None, pd_phases = phs, pd_items = items, pd_policy = bare_policy,
     pd_decisions = [], pd_caveats = []\<rparr>"

definition bare_initiative :: initiative where
  "bare_initiative = \<lparr>ini_goal = [], ini_constraints = [], ini_nonGoals = [], ini_qa = [],
     ini_interview = None, ini_analysisSummary = [], ini_phases = [], ini_items = [],
     ini_policy = None, ini_decisions = [], ini_followUps = [], ini_caveats = [],
     ini_status = IniPlanning\<rparr>"

definition two_phase_draft :: plan_draft where
  "two_phase_draft = bare_draft [bare_phase (Some ''p1'') ''One'', bare_phase (Some ''p2'') ''Two'']
     [bare_item ''a'' ''p1'' [], bare_item ''b'' ''p2'' [''a'']]"

theorem validated_plan_never_sticks_witness:
  "eligibleItemsToSpawn (applyPlanDraft bare_initiative two_phase_draft 1) \<noteq> []"
proof (rule validated_plan_never_sticks)
  show "validatePlanDraft two_phase_draft = None" by code_simp
  show "ids_given two_phase_draft" by code_simp
  show "ini_items bare_initiative = []" by code_simp
  show "loop_write\<^sup>*\<^sup>* (applyPlanDraft bare_initiative two_phase_draft 1)
      (applyPlanDraft bare_initiative two_phase_draft 1)" by simp
  show "deriveCurrentPhase (applyPlanDraft bare_initiative two_phase_draft 1)
      = Some (hd (ini_phases (applyPlanDraft bare_initiative two_phase_draft 1)))" by code_simp
  show "\<not> phaseIsHalted (applyPlanDraft bare_initiative two_phase_draft 1)
      (ph_id (hd (ini_phases (applyPlanDraft bare_initiative two_phase_draft 1))))" by code_simp
  show "\<forall>x \<in> set (ini_items (applyPlanDraft bare_initiative two_phase_draft 1)).
      it_phaseId x = ph_id (hd (ini_phases (applyPlanDraft bare_initiative two_phase_draft 1)))
        \<longrightarrow> \<not> item_active x" by code_simp
qed

definition unnamed_phases_draft :: plan_draft where
  "unnamed_phases_draft = bare_draft [bare_phase None ''Alpha'', bare_phase None ''Beta'']
     [bare_item ''a'' ''alpha'' [''b''], bare_item ''b'' ''beta'' []]"

text \<open>
  The ids matter: the validation accepts a draft whose phases leave their ids out, although the
  merge then mints exactly the ids the items name, and the merged plan deadlocks at once. Nothing is
  running, blocked or settled, and no item may ever be spawned.
\<close>

theorem draft_without_phase_ids_deadlocks:
  "validatePlanDraft unnamed_phases_draft = None
   \<and> (let ini = applyPlanDraft bare_initiative unnamed_phases_draft 1 in
       map ph_id (ini_phases ini) = [''alpha'', ''beta'']
       \<and> list_all (\<lambda>x. it_status x = ItemPending) (ini_items ini)
       \<and> deriveCurrentPhase ini \<noteq> None \<and> eligibleItemsToSpawn ini = [])"
  by code_simp

text \<open>An initiative executing the two-phase plan above.\<close>

definition executing_initiative :: initiative where
  "executing_initiative = (applyPlanDraft bare_initiative
     (bare_draft [bare_phase (Some ''p1'') ''One'', bare_phase (Some ''p2'') ''Two'']
       [bare_item ''a'' ''p1'' [], bare_item ''b'' ''p2'' []]) 1)\<lparr>ini_status := IniExecuting\<rparr>"

definition depend_edit :: "string list \<Rightarrow> item_edit" where
  "depend_edit ds = \<lparr>ie_title = None, ie_description = None, ie_estimate = None,
     ie_pipelineId = None, ie_dependsOn = Some ds, ie_action = None\<rparr>"

text \<open>
  An edit of an item checks its new dependencies for existence and cycles, not for their phase:
  a dependency on an item of a later phase, which the validation of a draft refuses, is accepted,
  and the initiative deadlocks. The current phase holds only the edited item, the item waits for the
  later phase, and the later phase never becomes current.
\<close>

theorem edit_can_deadlock:
  "eligibleItemsToSpawn executing_initiative \<noteq> []
   \<and> (\<exists>ini. applyItemEdit executing_initiative ''a'' (depend_edit [''b'']) = Inr ini
        \<and> list_all (\<lambda>x. it_status x = ItemPending) (ini_items ini)
        \<and> deriveCurrentPhase ini \<noteq> None \<and> eligibleItemsToSpawn ini = [])"
proof
  show "eligibleItemsToSpawn executing_initiative \<noteq> []" by code_simp
  let ?r = "applyItemEdit executing_initiative ''a'' (depend_edit [''b''])"
  have "case ?r of Inl e \<Rightarrow> False | Inr ini \<Rightarrow>
      list_all (\<lambda>x. it_status x = ItemPending) (ini_items ini)
      \<and> deriveCurrentPhase ini \<noteq> None \<and> eligibleItemsToSpawn ini = []" by code_simp
  then show "\<exists>ini. ?r = Inr ini \<and> list_all (\<lambda>x. it_status x = ItemPending) (ini_items ini)
        \<and> deriveCurrentPhase ini \<noteq> None \<and> eligibleItemsToSpawn ini = []"
    by (cases ?r) simp_all
qed

text \<open>
  The cycle check of a plan is exact: it passes if and only if no item that can be reached from
  an item with an id lies on a cycle of dependencies, and the search always ends.
\<close>

theorem plan_cycle_check_exact:
  "assertAcyclicItems items = None \<longleftrightarrow>
     (\<forall>x \<in> (item_edges items)\<^sup>* `` (fst ` set items - {[]}). (x, x) \<notin> (item_edges items)\<^sup>+)"
  unfolding assertAcyclicItems_exact by blast

text \<open>
  A run is harvested once: harvesting it again, at any later time, changes nothing, and the ids
  of the follow-ups stay distinct.
\<close>

theorem harvest_is_idempotent:
  assumes "distinct (map fu_id (ini_followUps ini))"
  shows "applyRunHarvest (applyRunHarvest ini h now) h later = applyRunHarvest ini h now
    \<and> distinct (map fu_id (ini_followUps (applyRunHarvest ini h now)))"
proof
  show "distinct (map fu_id (ini_followUps (applyRunHarvest ini h now)))"
    using harvest_additions_fresh [OF assms] by (simp add: applyRunHarvest_followUps)
  let ?i = "applyRunHarvest ini h now"
  let ?p = "\<lambda>x. it_blockId x = Some (rh_childBlockId h)"
  define nt where "nt = take INITIATIVE_SHORT_MAX
    (js_trim (''Run failed ('' @ fst (the (rh_failure h)) @ ''): '' @ snd (the (rh_failure h))))"
  define annotate where "annotate = (\<lambda>(x :: initiative_item). map (\<lambda>(y :: initiative_item). if it_id y = it_id x \<and> it_note x \<noteq> Some nt
      then y\<lparr>it_note := Some nt\<rparr> else y))"
  have items: "ini_items (applyRunHarvest j h t) =
      (case (List.find ?p (ini_items j), rh_failure h) of
         (Some x, Some f) \<Rightarrow> annotate x (ini_items j) | _ \<Rightarrow> ini_items j)" for j t
    by (simp add: applyRunHarvest_def Let_def annotate_def nt_def split: option.split prod.split)
  have find_map: "List.find ?p (map g xs) = map_option g (List.find ?p xs)"
    if "\<And>y. it_blockId (g y) = it_blockId y" for g xs
    using that by (induction xs) auto
  have again: "ini_items (applyRunHarvest ?i h later) = ini_items ?i"
  proof (cases "List.find ?p (ini_items ini)")
    case None
    then show ?thesis by (simp add: items)
  next
    case (Some x)
    show ?thesis
    proof (cases "rh_failure h")
      case None
      with Some show ?thesis by (simp add: items)
    next
      case f: (Some f)
      have i: "ini_items ?i = annotate x (ini_items ini)" by (simp add: items Some f)
      have "List.find ?p (ini_items ?i)
          = Some (if it_note x \<noteq> Some nt then x\<lparr>it_note := Some nt\<rparr> else x)"
        unfolding i annotate_def by (subst find_map) (simp_all add: Some)
      then obtain x' where x': "List.find ?p (ini_items ?i) = Some x'" "it_note x' = Some nt"
        by (cases "it_note x = Some nt") auto
      then show ?thesis by (simp add: items [of ?i] f annotate_def)
    qed
  qed
  have "harvestFollowUpId (rh_childBlockId h) (hf_sourceId f) \<in> set (map fu_id (ini_followUps ?i))"
    if "f \<in> set (rh_followUps h)" for f
    using harvest_additions_ids [OF that, of "rh_childBlockId h" "map fu_id (ini_followUps ini)" now]
    by (auto simp: applyRunHarvest_followUps)
  then have "ini_followUps (applyRunHarvest ?i h later) = ini_followUps ?i"
    unfolding applyRunHarvest_followUps [of ?i] by (simp add: harvest_additions_seen)
  moreover obtain xs fs where "applyRunHarvest ?i h later = ?i\<lparr>ini_items := xs, ini_followUps := fs\<rparr>"
    by (simp add: applyRunHarvest_def Let_def)
  ultimately show "applyRunHarvest ?i h later = ?i" using again by simp
qed

definition one_harvest :: run_harvest where
  "one_harvest = \<lparr>rh_childBlockId = ''blk-1'', rh_followUps = [\<lparr>hf_sourceId = ''f1'', hf_title = ''Fix'',
     hf_detail = ''d'', hf_suggestedAction = None\<rparr>], rh_failure = None\<rparr>"

theorem harvest_is_idempotent_witness:
  "ini_followUps bare_initiative = []
   \<and> length (ini_followUps (applyRunHarvest bare_initiative one_harvest 1)) = 1
   \<and> applyRunHarvest (applyRunHarvest bare_initiative one_harvest 1) one_harvest 2
       = applyRunHarvest bare_initiative one_harvest 1"
proof -
  have "ini_followUps bare_initiative = []" by code_simp
  moreover have "length (ini_followUps (applyRunHarvest bare_initiative one_harvest 1)) = 1" by code_simp
  ultimately show ?thesis using harvest_is_idempotent [of bare_initiative one_harvest 1 2] by simp
qed

text \<open>
  The planning interview ends: whatever the interviewer answers, it asks at most as many more
  rounds of questions as the cap leaves, and at the cap it may only converge.
\<close>

theorem interview_is_bounded:
  "rounds asks_again (\<lambda>i. applyInterviewQuestions i qs ids) ini replies
     \<le> max_rounds ini - interview_round ini"
  by (rule interview_loop.rounds_bounded)

end
