(* ===== verification/InitiativeLoop.thy ===== *)
theory InitiativeLoop
  imports Initiative Board
begin

text \<open>
  The owner of the initiative entity (\<^verbatim>\<open>InitiativeService\<close>), its rows
  (\<^verbatim>\<open>D1InitiativeRepository\<close>) and the loop that executes an approved plan
  (\<^verbatim>\<open>InitiativeLoopService\<close>), for the initiatives of one workspace. Starting a run
  (\<^verbatim>\<open>ExecutionService.start\<close>), the commit of the tracker's files and the presets are parameters
  (fields of \<open>loop_deps\<close>). What other writers do between a read and the swap that follows it is the
  field \<open>ld_env\<close>, which an execution without interference sets to the identity.
\<close>

section \<open>The entity and the world\<close>

record deviation =
  dv_id :: string
  dv_at :: int
  dv_itemId :: "string option"
  dv_description :: string

record entity =
  en_id :: string
  en_blockId :: string
  en_slug :: string
  en_title :: string
  en_core :: initiative
  en_deviations :: "deviation list"
  en_doc :: "(nat \<times> string \<times> int) option"
  en_rev :: nat
  en_createdAt :: int
  en_updatedAt :: int

datatype card_reason = ItemBlockedCard | CompleteCard | CheckpointCard

datatype loop_event =
    InitiativeChanged entity
  | BoardChanged string string
  | InitiativeCard card_reason string string string

text \<open>\<open>BoardChanged reason block\<close>, \<open>InitiativeCard reason block title body\<close>.\<close>

record loop_world =
  lw_table :: "entity list"
  lw_blocks :: "block list"
  lw_pipelines :: "string list"
  lw_runs :: "(string \<times> string) list"
  lw_events :: "loop_event list"
  lw_ids :: nat
  lw_now :: int

datatype loop_error =
    EntityModified
  | EntityRefused initiative_error
  | EntityMissing string | FrameMissing string | NotUnderFrame | PipelineUnknown string
  | SlugTaken string | DraftMalformed string

datatype start_fault = TaskLimitReached | StartError string

record loop_deps =
  ld_nextId :: "string \<Rightarrow> nat \<Rightarrow> string"
  ld_start :: "loop_world \<Rightarrow> block \<Rightarrow> string \<Rightarrow> bool list option \<Rightarrow> start_fault option"
  ld_notify :: bool
  ld_commit :: "(entity \<Rightarrow> (nat \<times> string) option) option"
  ld_env :: "nat \<Rightarrow> loop_world \<Rightarrow> loop_world"

type_synonym 'a loop_act = "(loop_world, loop_error, 'a) action"

definition on_core :: "(initiative \<Rightarrow> initiative) \<Rightarrow> entity \<Rightarrow> entity" where
  "on_core f en = en\<lparr>en_core := f (en_core en)\<rparr>"

definition en_status :: "entity \<Rightarrow> initiative_status" where
  "en_status en = ini_status (en_core en)"

definition set_ini_status :: "initiative_status \<Rightarrow> entity \<Rightarrow> entity" where
  "set_ini_status st = on_core (\<lambda>i. i\<lparr>ini_status := st\<rparr>)"

section \<open>The rows\<close>

definition getInitiative :: "entity list \<Rightarrow> string \<Rightarrow> entity option" where
  "getInitiative t i = List.find (\<lambda>en. en_id en = i) t"

definition getInitiativeByBlock :: "entity list \<Rightarrow> string \<Rightarrow> entity option" where
  "getInitiativeByBlock t b = List.find (\<lambda>en. en_blockId en = b) t"

definition listExecuting :: "entity list \<Rightarrow> entity list" where
  "listExecuting t = filter (\<lambda>en. en_status en = IniExecuting) t"

text \<open>The update of the row whose id and revision match, if there is one.\<close>

definition swapInitiative :: "entity \<Rightarrow> nat \<Rightarrow> entity list \<Rightarrow> entity list option" where
  "swapInitiative nxt expectedRev t =
     (let hit = (\<lambda>en. en_id en = en_id nxt \<and> en_rev en = expectedRev)
      in if list_ex hit t then Some (map (\<lambda>en. if hit en then nxt else en) t) else None)"

section \<open>The write path of the entity\<close>

definition sameContent :: "entity \<Rightarrow> entity \<Rightarrow> bool" where
  "sameContent a b \<longleftrightarrow>
     a\<lparr>en_rev := 0, en_updatedAt := 0\<rparr> = b\<lparr>en_rev := 0, en_updatedAt := 0\<rparr>"

definition INITIATIVE_CAS_ATTEMPTS :: nat where
  "INITIATIVE_CAS_ATTEMPTS = 3"

text \<open>
  A transform sees the entity as it is read and the variables of the closure it is written in, and
  may refuse. It runs again on every attempt, on the variables as the last attempt left them.
\<close>

type_synonym 'v transform = "entity \<Rightarrow> 'v \<Rightarrow> initiative_error + entity \<times> 'v"

fun mutate_entity ::
  "loop_deps \<Rightarrow> nat \<Rightarrow> string \<Rightarrow> 'v transform \<Rightarrow> 'v \<Rightarrow> (entity option \<times> 'v) loop_act" where
  "mutate_entity deps 0 b f v w = (Inl EntityModified, w)"
| "mutate_entity deps (Suc n) b f v w =
     (case getInitiativeByBlock (lw_table w) b of
        None \<Rightarrow> (Inr (None, v), w)
      | Some cur \<Rightarrow>
          (case f cur v of
             Inl e \<Rightarrow> (Inl (EntityRefused e), w)
           | Inr (nxt, v') \<Rightarrow>
               if sameContent cur nxt then (Inr (Some cur, v'), w)
               else (let p = nxt\<lparr>en_rev := en_rev cur + 1, en_updatedAt := lw_now w\<rparr>;
                         w1 = ld_env deps n w
                     in case swapInitiative p (en_rev cur) (lw_table w1) of
                          Some t \<Rightarrow> (Inr (Some p, v'),
                            w1\<lparr>lw_table := t, lw_events := lw_events w1 @ [InitiativeChanged p]\<rparr>)
                        | None \<Rightarrow> mutate_entity deps n b f v' w1)))"

definition mutate_with ::
  "loop_deps \<Rightarrow> string \<Rightarrow> 'v transform \<Rightarrow> 'v \<Rightarrow> (entity option \<times> 'v) loop_act" where
  "mutate_with deps = mutate_entity deps INITIATIVE_CAS_ATTEMPTS"

definition update_entity ::
  "loop_deps \<Rightarrow> string \<Rightarrow> (entity \<Rightarrow> entity) \<Rightarrow> entity option loop_act" where
  "update_entity deps b f =
     act_bind (mutate_with deps b (\<lambda>en u. Inr (f en, u)) ()) (\<lambda>(r, u). act_return r)"

section \<open>The controls\<close>

definition mark_executing :: "int \<Rightarrow> (nat \<times> string) option \<Rightarrow> entity \<Rightarrow> entity" where
  "mark_executing now doc en =
     (let st = (if en_status en = IniPlanning \<or> en_status en = IniAwaitingApproval
                then IniExecuting else en_status en);
          en1 = set_ini_status st en
      in (case doc of None \<Rightarrow> en1
          | Some (version, hash) \<Rightarrow> en1\<lparr>en_doc := Some (version, hash, now)\<rparr>))"

definition markExecuting ::
  "loop_deps \<Rightarrow> string \<Rightarrow> (nat \<times> string) option \<Rightarrow> entity option loop_act" where
  "markExecuting deps b doc w = update_entity deps b (mark_executing (lw_now w) doc) w"

definition pauseInitiative :: "loop_deps \<Rightarrow> string \<Rightarrow> entity option loop_act" where
  "pauseInitiative deps b = update_entity deps b
     (\<lambda>en. if en_status en = IniExecuting then set_ini_status IniPaused en else en)"

definition resumeInitiative :: "loop_deps \<Rightarrow> string \<Rightarrow> entity option loop_act" where
  "resumeInitiative deps b w = update_entity deps b (\<lambda>en.
     if en_status en \<noteq> IniPaused then en
     else set_ini_status IniExecuting
       (case pendingCheckpoint (en_core en) of
          None \<Rightarrow> en
        | Some p \<Rightarrow> on_core (\<lambda>i. applyCheckpointCleared i (ph_id p) (lw_now w)) en)) w"

definition cancelInitiative :: "loop_deps \<Rightarrow> string \<Rightarrow> entity option loop_act" where
  "cancelInitiative deps b = update_entity deps b
     (\<lambda>en. if en_status en = IniDone \<or> en_status en = IniCancelled then en
           else set_ini_status IniCancelled en)"

text \<open>An edit of a tracker item through the entity's id; it may be refused by the transform.\<close>

definition edit_transform :: "(initiative \<Rightarrow> initiative_error + initiative) \<Rightarrow> unit transform" where
  "edit_transform f en u = (case f (en_core en) of
      Inl e \<Rightarrow> Inl e | Inr i \<Rightarrow> Inr (en\<lparr>en_core := i\<rparr>, u))"

definition mutateById ::
  "loop_deps \<Rightarrow> string \<Rightarrow> (initiative \<Rightarrow> initiative_error + initiative) \<Rightarrow> entity loop_act" where
  "mutateById deps i f w = (case getInitiative (lw_table w) i of
      None \<Rightarrow> (Inl (EntityMissing i), w)
    | Some en \<Rightarrow> act_bind (mutate_with deps (en_blockId en) (edit_transform f) ())
        (\<lambda>(r, u). case r of None \<Rightarrow> act_throw (EntityMissing i) | Some en' \<Rightarrow> act_return en') w)"

definition assertPipelineExists :: "string option \<Rightarrow> unit loop_act" where
  "assertPipelineExists p w = (case nonempty p of
      None \<Rightarrow> (Inr (), w)
    | Some i \<Rightarrow> if i \<in> set (lw_pipelines w) then (Inr (), w) else (Inl (PipelineUnknown i), w))"

definition promoteFollowUp ::
  "loop_deps \<Rightarrow> string \<Rightarrow> string \<Rightarrow> promote_input \<Rightarrow> entity loop_act" where
  "promoteFollowUp deps i followUpId inp =
     act_then (assertPipelineExists (pi_pipelineId inp))
       (mutateById deps i (\<lambda>c. applyPromoteFollowUp c followUpId inp))"

definition dismissFollowUp :: "loop_deps \<Rightarrow> string \<Rightarrow> string \<Rightarrow> entity loop_act" where
  "dismissFollowUp deps i followUpId = mutateById deps i (\<lambda>c. applyDismissFollowUp c followUpId)"

definition updateItem :: "loop_deps \<Rightarrow> string \<Rightarrow> string \<Rightarrow> item_edit \<Rightarrow> entity loop_act" where
  "updateItem deps i itemId inp =
     act_then (assertPipelineExists (ie_pipelineId inp))
       (mutateById deps i (\<lambda>c. applyItemEdit c itemId inp))"

section \<open>Ingesting a plan\<close>

text \<open>
  What the entity's preset adds to a draft: the phase template (with whether further phases are
  allowed) and the decoration of the items, whose output is parsed again and may be refused.
\<close>

record plan_preset =
  pz_template :: "(template_phase list \<times> bool) option"
  pz_seedPlan :: "(plan_draft \<Rightarrow> string + plan_draft) option"

definition shape_draft ::
  "(template_phase list \<times> bool) option \<Rightarrow> plan_draft \<Rightarrow> loop_error + plan_draft" where
  "shape_draft template d = (case template of
      None \<Rightarrow> Inr d
    | Some (phases, allowed) \<Rightarrow> (case normalizeDraftAgainstPhaseTemplate phases allowed d of
        Inl e \<Rightarrow> Inl (EntityRefused e) | Inr d' \<Rightarrow> Inr d'))"

definition seedPlanDraft :: "plan_preset option \<Rightarrow> plan_draft \<Rightarrow> loop_error + plan_draft" where
  "seedPlanDraft preset draft =
     (let template = Option.bind preset pz_template
      in bind_result (shape_draft template draft) (\<lambda>shaped.
           case Option.bind preset pz_seedPlan of
             None \<Rightarrow> Inr shaped
           | Some seed \<Rightarrow> (case seed shaped of
               Inl e \<Rightarrow> Inl (DraftMalformed e)
             | Inr seeded \<Rightarrow> shape_draft template seeded)))"

definition draft_pipelines :: "plan_draft \<Rightarrow> string list" where
  "draft_pipelines d = po_defaultPipelineId (pd_policy d)
     # map pu_pipelineId (po_rules (pd_policy d))
     @ List.map_filter (\<lambda>x. nonempty (di_pipelineId x)) (pd_items d)"

definition assertPipelinesExist :: "plan_draft \<Rightarrow> unit loop_act" where
  "assertPipelinesExist d w =
     (case List.find (\<lambda>p. p \<notin> set (lw_pipelines w)) (draft_pipelines d) of
        None \<Rightarrow> (Inr (), w) | Some p \<Rightarrow> (Inl (PipelineUnknown p), w))"

definition ingestPlan ::
  "loop_deps \<Rightarrow> (entity \<Rightarrow> plan_preset option) \<Rightarrow> string \<Rightarrow> plan_draft \<Rightarrow> entity option loop_act" where
  "ingestPlan deps presetOf b raw w = (case getInitiativeByBlock (lw_table w) b of
      None \<Rightarrow> (Inr None, w)
    | Some en \<Rightarrow> (case seedPlanDraft (presetOf en) raw of
        Inl e \<Rightarrow> (Inl e, w)
      | Inr draft \<Rightarrow> (case validatePlanDraft draft of
          Some e \<Rightarrow> (Inl (EntityRefused e), w)
        | None \<Rightarrow> act_then (assertPipelinesExist draft)
            (update_entity deps b (on_core (\<lambda>i. applyPlanDraft i draft (lw_now w)))) w)))"

section \<open>Creating an initiative\<close>

definition fresh_initiative :: "string \<Rightarrow> qa list \<Rightarrow> initiative" where
  "fresh_initiative goal seeded =
     \<lparr>ini_goal = goal, ini_constraints = [], ini_nonGoals = [], ini_qa = seeded,
      ini_interview = None, ini_analysisSummary = [], ini_phases = [], ini_items = [],
      ini_policy = None, ini_decisions = [], ini_followUps = [], ini_caveats = [],
      ini_status = IniPlanning\<rparr>"

definition anchor_block :: "string \<Rightarrow> string \<Rightarrow> string \<Rightarrow> block \<Rightarrow> block" where
  "anchor_block i title description frame =
     (bare_block i InitiativeLevel (Some (bl_id frame)))\<lparr>bl_title := title, bl_type := bl_type frame,
        bl_description := description\<rparr>"

text \<open>
  \<open>goal\<close> and \<open>seeded\<close> are what the preset derives from its form; \<open>seeded\<close> has already drawn its ids.
\<close>

definition createInitiative ::
  "loop_deps \<Rightarrow> string \<Rightarrow> string \<Rightarrow> string \<Rightarrow> string \<Rightarrow> qa list \<Rightarrow> (entity \<times> block) loop_act" where
  "createInitiative deps frameId title description goal seeded w =
     (case block_by_id (lw_blocks w) frameId of
        None \<Rightarrow> (Inl (FrameMissing frameId), w)
      | Some frame \<Rightarrow>
          if bl_level frame \<noteq> FrameLevel then (Inl NotUnderFrame, w)
          else
            (let slug = uniqueSlugId title (map en_slug (lw_table w));
                 b = anchor_block (ld_nextId deps ''init'' (lw_ids w)) (js_trim title)
                       (js_trim description) frame;
                 en = \<lparr>en_id = ld_nextId deps ''initv'' (lw_ids w + 1), en_blockId = bl_id b,
                       en_slug = slug, en_title = js_trim title,
                       en_core = fresh_initiative goal seeded, en_deviations = [], en_doc = None,
                       en_rev = 0, en_createdAt = lw_now w, en_updatedAt = lw_now w\<rparr>;
                 w1 = ld_env deps 0 (w\<lparr>lw_ids := lw_ids w + 2\<rparr>)
             in if slug \<in> en_slug ` set (lw_table w1) then (Inl (SlugTaken slug), w1)
                else (Inr (en, b), w1\<lparr>lw_table := lw_table w1 @ [en], lw_blocks := lw_blocks w1 @ [b],
                       lw_events := lw_events w1
                         @ [BoardChanged ''initiative-added'' (bl_id b), InitiativeChanged en]\<rparr>)))"

section \<open>Reconciling the spawned tasks\<close>

definition readSpawnedBlocks :: "loop_world \<Rightarrow> entity \<Rightarrow> block list" where
  "readSpawnedBlocks w en =
     (let ids = List.map_filter (\<lambda>x. nonempty (it_blockId x)) (ini_items (en_core en))
      in filter (\<lambda>b. bl_id b \<in> set ids) (lw_blocks w))"

definition deviation_text :: "initiative_item \<Rightarrow> string" where
  "deviation_text x = (case nonempty (map_option js_trim (it_note x)) of
      Some cause \<Rightarrow> ''Task for \"'' @ it_title x @ ''\" was blocked: '' @ cause
    | None \<Rightarrow> ''Task for \"'' @ it_title x
        @ ''\" was blocked; the phase is halted until it is retried or skipped.'')"

text \<open>One deviation for every item that this pass turned blocked; each draws an id.\<close>

fun new_deviations ::
  "(nat \<Rightarrow> string) \<Rightarrow> int \<Rightarrow> nat \<Rightarrow> (initiative_item \<times> initiative_item) list \<Rightarrow>
     deviation list \<times> nat" where
  "new_deviations nextId now k [] = ([], k)"
| "new_deviations nextId now k ((before, after) # ps) =
     (if it_status after = ItemBlocked \<and> it_status before \<noteq> ItemBlocked
      then (let (ds, k') = new_deviations nextId now (Suc k) ps
            in (\<lparr>dv_id = nextId k, dv_at = now, dv_itemId = Some (it_id after),
                 dv_description = deviation_text after\<rparr> # ds, k'))
      else new_deviations nextId now k ps)"

definition reconcile_item :: "block list \<Rightarrow> initiative_item \<Rightarrow> initiative_item" where
  "reconcile_item blocks x = (case nonempty (it_blockId x) of
      None \<Rightarrow> x | Some b \<Rightarrow> reconcileItem x (block_by_id blocks b))"

text \<open>The closure's variables: whether something was newly blocked, and the id counter.\<close>

definition reconcile_transform ::
  "loop_deps \<Rightarrow> int \<Rightarrow> block list \<Rightarrow> (bool \<times> nat) transform" where
  "reconcile_transform deps now blocks en v =
     (let old = ini_items (en_core en);
          items = map (reconcile_item blocks) old;
          (ds, k) = new_deviations (ld_nextId deps ''idev'') now (snd v) (zip old items)
      in Inr (en\<lparr>en_core := (en_core en)\<lparr>ini_items := items\<rparr>,
                 en_deviations := en_deviations en @ ds\<rparr>,
              (fst v \<or> ds \<noteq> [], k)))"

definition blocked_items :: "entity \<Rightarrow> initiative_item list" where
  "blocked_items en = filter (\<lambda>x. it_status x = ItemBlocked) (ini_items (en_core en))"

definition card_text :: "card_reason \<Rightarrow> entity \<Rightarrow> initiative_phase option \<Rightarrow> string \<times> string" where
  "card_text reason en phase = (case reason of
      CompleteCard \<Rightarrow>
        (let n = length (ini_items (en_core en))
         in (''Initiative \"'' @ en_title en @ ''\" complete'',
             ''Every planned task is resolved ('' @ digits n @ '' item''
               @ (if n = 1 then [] else ''s'') @ '').''))
    | CheckpointCard \<Rightarrow>
        (''Initiative \"'' @ en_title en @ ''\" paused for review'',
         ''Phase \"'' @ (case phase of None \<Rightarrow> [] | Some p \<Rightarrow> ph_title p)
           @ ''\" is complete - review its output, then resume or cancel the initiative.'')
    | ItemBlockedCard \<Rightarrow>
        (''Initiative \"'' @ en_title en @ ''\" needs attention'',
         (case blocked_items en of
            [x] \<Rightarrow> ''A task was blocked ('' @ it_title x
                     @ ''). Retry or skip it to unblock the phase.''
          | xs \<Rightarrow> digits (length xs)
                     @ '' tasks are blocked. Retry or skip them to unblock the phase.'')))"

text \<open>A notification that cannot be raised is dropped, so the operation never throws.\<close>

definition notify :: "loop_deps \<Rightarrow> entity \<Rightarrow> card_reason \<Rightarrow> initiative_phase option \<Rightarrow> unit loop_act" where
  "notify deps en reason phase w =
     (if \<not> ld_notify deps then (Inr (), w)
      else let (title, body) = card_text reason en phase
           in (Inr (), w\<lparr>lw_events := lw_events w @ [InitiativeCard reason (en_blockId en) title body]\<rparr>))"

definition reconcile :: "loop_deps \<Rightarrow> entity \<Rightarrow> block list \<Rightarrow> entity option loop_act" where
  "reconcile deps en blocks w =
     (if \<not> list_ex (\<lambda>x. nonempty (it_blockId x) \<noteq> None \<and> item_active x) (ini_items (en_core en))
      then (Inr None, w)
      else act_bind (mutate_with deps (en_blockId en) (reconcile_transform deps (lw_now w) blocks)
                       (False, lw_ids w))
        (\<lambda>(updated, newlyBlocked, k) w1.
           let w2 = w1\<lparr>lw_ids := k\<rparr>
           in case updated of
                Some u \<Rightarrow>
                  if newlyBlocked
                  then act_then (notify deps u ItemBlockedCard None) (act_return updated) w2
                  else (Inr updated, w2)
              | None \<Rightarrow> (Inr None, w2)) w)"

section \<open>The tracker, the checkpoint and the end\<close>

text \<open>Best effort: a throw of the commit or of the write that follows it is dropped.\<close>

definition recommitTracker :: "loop_deps \<Rightarrow> string \<Rightarrow> nat option \<Rightarrow> unit loop_act" where
  "recommitTracker deps b sinceRev w = (case ld_commit deps of
      None \<Rightarrow> (Inr (), w)
    | Some commit \<Rightarrow> (case getInitiativeByBlock (lw_table w) b of
        None \<Rightarrow> (Inr (), w)
      | Some en \<Rightarrow>
          if sinceRev = Some (en_rev en) then (Inr (), w)
          else (case commit en of
             None \<Rightarrow> (Inr (), w)
           | Some doc \<Rightarrow> (Inr (), snd (markExecuting deps b (Some doc) w)))))"

definition checkpoint_transform :: "initiative_phase \<Rightarrow> bool transform" where
  "checkpoint_transform phase en v =
     (if en_status en \<noteq> IniExecuting then Inr (en, False)
      else (case pendingCheckpoint (en_core en) of
         None \<Rightarrow> Inr (en, False)
       | Some p \<Rightarrow> if ph_id p \<noteq> ph_id phase then Inr (en, False)
                   else Inr (set_ini_status IniPaused en, True)))"

definition pauseAtCheckpoint ::
  "loop_deps \<Rightarrow> entity \<Rightarrow> initiative_phase \<Rightarrow> nat \<Rightarrow> unit loop_act" where
  "pauseAtCheckpoint deps en phase startRev =
     act_bind (mutate_with deps (en_blockId en) (checkpoint_transform phase) False)
       (\<lambda>(u, didPause). if \<not> didPause then act_return ()
          else act_then (recommitTracker deps (en_blockId en) (Some startRev))
                 (notify deps en CheckpointCard (Some phase)))"

definition finish_anchor :: "string \<Rightarrow> loop_world \<Rightarrow> loop_world" where
  "finish_anchor b w = w\<lparr>lw_blocks := map (\<lambda>x. if bl_id x = b
     then x\<lparr>bl_status := BlockDone, bl_progress := 1\<rparr> else x) (lw_blocks w)\<rparr>"

definition complete_initiative :: "loop_deps \<Rightarrow> entity \<Rightarrow> unit loop_act" where
  "complete_initiative deps en =
     act_bind (update_entity deps (en_blockId en)
         (\<lambda>cur. if allItemsSettled (en_core cur) \<and> en_status cur = IniExecuting
                then set_ini_status IniDone cur else cur))
       (\<lambda>found w. case found of
          None \<Rightarrow> (Inr (), w)
        | Some fin \<Rightarrow>
            if en_status fin \<noteq> IniDone then (Inr (), w)
            else (let w1 = finish_anchor (en_blockId fin) w
                  in act_then (recommitTracker deps (en_blockId fin) None)
                       (notify deps fin CompleteCard None)
                       (w1\<lparr>lw_events := lw_events w1
                            @ [BoardChanged ''initiative-complete'' (en_blockId fin)]\<rparr>)))"

section \<open>Spawning\<close>

datatype spawn_outcome = Spawned | Skipped | SpawnConflict

definition DEFAULT_DOCUMENT_STYLE_FRAGMENT_IDS :: "string list" where
  "DEFAULT_DOCUMENT_STYLE_FRAGMENT_IDS = [''style.anti-llmisms'', ''style.concise-actionable'']"

definition spawn_fragments :: "spawn_spec option \<Rightarrow> string list" where
  "spawn_fragments spawn = (case spawn of
      None \<Rightarrow> []
    | Some sp \<Rightarrow> (case list_of (sw_fragmentIds sp) of
        [] \<Rightarrow> if sw_taskType sp = Some ''document'' then DEFAULT_DOCUMENT_STYLE_FRAGMENT_IDS else []
      | fs \<Rightarrow> fs))"

definition buildTaskBlock :: "string \<Rightarrow> initiative_item \<Rightarrow> block \<Rightarrow> string \<Rightarrow> block" where
  "buildTaskBlock b x frame initiativeBlockId =
     (bare_block b TaskLevel (Some (bl_id frame)))\<lparr>bl_title := it_title x, bl_type := bl_type frame,
        bl_description := it_description x, bl_initiativeId := Some initiativeBlockId,
        bl_taskType := nonempty (Option.bind (it_spawn x) sw_taskType),
        bl_fragmentIds := (case spawn_fragments (it_spawn x) of [] \<Rightarrow> None | fs \<Rightarrow> Some fs)\<rparr>"

definition block_item_transform ::
  "loop_deps \<Rightarrow> int \<Rightarrow> string \<Rightarrow> string \<Rightarrow> nat transform" where
  "block_item_transform deps now i msg en k = Inr
     (en\<lparr>en_core := on_item (\<lambda>x. it_id x = i)
           (\<lambda>x. x\<lparr>it_status := ItemBlocked, it_note := Some msg, it_blockId := None\<rparr>) (en_core en),
         en_deviations := en_deviations en @
           [\<lparr>dv_id = ld_nextId deps ''idev'' k, dv_at = now, dv_itemId = Some i,
             dv_description = msg\<rparr>]\<rparr>, Suc k)"

definition blockItem :: "loop_deps \<Rightarrow> string \<Rightarrow> string \<Rightarrow> string \<Rightarrow> entity option loop_act" where
  "blockItem deps b i msg w =
     act_bind (mutate_with deps b (block_item_transform deps (lw_now w) i msg) (lw_ids w))
       (\<lambda>(updated, k) w1. let w2 = w1\<lparr>lw_ids := k\<rparr>
          in case updated of
               None \<Rightarrow> (Inr None, w2)
             | Some u \<Rightarrow> act_then (notify deps u ItemBlockedCard None) (act_return updated) w2) w"

definition missing_pipeline_note :: "string \<Rightarrow> string" where
  "missing_pipeline_note p =
     ''Pipeline \"'' @ p @ ''\" no longer exists - pick another in the initiative policy.''"

definition or_entity :: "entity option \<Rightarrow> entity \<Rightarrow> entity" where
  "or_entity r en = (case r of None \<Rightarrow> en | Some u \<Rightarrow> u)"

text \<open>The claim won: the block is inserted and its run started, or everything is rolled back.\<close>

definition start_claimed ::
  "loop_deps \<Rightarrow> entity \<Rightarrow> initiative_item \<Rightarrow> block \<Rightarrow> string \<Rightarrow> (spawn_outcome \<times> entity) loop_act" where
  "start_claimed deps claimed x b pipelineId w =
     (let w1 = w\<lparr>lw_blocks := lw_blocks w @ [b]\<rparr>
      in case ld_start deps w1 b pipelineId (Option.bind (it_spawn x) sw_gates) of
           None \<Rightarrow> (Inr (Spawned, claimed),
             w1\<lparr>lw_runs := lw_runs w1 @ [(bl_id b, pipelineId)],
                lw_events := lw_events w1 @ [BoardChanged ''block-added'' (bl_id b)]\<rparr>)
         | Some fault \<Rightarrow>
             (let w2 = w1\<lparr>lw_blocks := filter (\<lambda>y. bl_id y \<noteq> bl_id b) (lw_blocks w1)\<rparr>
              in case fault of
                   TaskLimitReached \<Rightarrow>
                     act_bind (update_entity deps (en_blockId claimed)
                         (on_core (\<lambda>c. applyRevertClaim c (it_id x) (bl_id b))))
                       (\<lambda>r. act_return (SpawnConflict, or_entity r claimed)) w2
                 | StartError msg \<Rightarrow>
                     act_bind (blockItem deps (en_blockId claimed) (it_id x)
                         (''Could not start the task: '' @ msg))
                       (\<lambda>r. act_return (Skipped, or_entity r claimed)) w2))"

definition holds_claim :: "entity \<Rightarrow> string \<Rightarrow> string \<Rightarrow> bool" where
  "holds_claim en i b = (case List.find (\<lambda>x. it_id x = i) (ini_items (en_core en)) of
      None \<Rightarrow> False | Some x \<Rightarrow> it_blockId x = Some b)"

definition spawnItem ::
  "loop_deps \<Rightarrow> block \<Rightarrow> string list \<Rightarrow> entity \<Rightarrow> initiative_item \<Rightarrow>
     (spawn_outcome \<times> entity) loop_act" where
  "spawnItem deps frame known en x w = (case ini_policy (en_core en) of
      None \<Rightarrow> (Inr (Skipped, en), w)
    | Some pol \<Rightarrow>
        (let pipelineId = selectInitiativePipeline x pol
         in if pipelineId \<notin> set known
            then act_bind (blockItem deps (en_blockId en) (it_id x) (missing_pipeline_note pipelineId))
                   (\<lambda>r. act_return (Skipped, or_entity r en)) w
            else
              (let spawnedBlockId = ld_nextId deps ''blk'' (lw_ids w)
               in act_bind (update_entity deps (en_blockId en)
                     (on_core (\<lambda>c. applySpawnClaim c (it_id x) spawnedBlockId)))
                   (\<lambda>found. case found of
                      None \<Rightarrow> act_return (Skipped, en)
                    | Some claimed \<Rightarrow>
                        if \<not> holds_claim claimed (it_id x) spawnedBlockId
                        then act_return (Skipped, claimed)
                        else start_claimed deps claimed x
                               (buildTaskBlock spawnedBlockId x frame (en_blockId en)) pipelineId)
                   (w\<lparr>lw_ids := Suc (lw_ids w)\<rparr>))))"

text \<open>\<open>slots\<close> is what the caller computed once; \<open>n\<close> counts the items spawned.\<close>

fun spawn_items ::
  "loop_deps \<Rightarrow> block \<Rightarrow> string list \<Rightarrow> nat \<Rightarrow> nat \<Rightarrow> entity \<Rightarrow> initiative_item list \<Rightarrow>
     nat loop_act" where
  "spawn_items deps frame known slots n en [] w = (Inr n, w)"
| "spawn_items deps frame known 0 n en (x # xs) w = (Inr n, w)"
| "spawn_items deps frame known (Suc slots) n en (x # xs) w =
     (case spawnItem deps frame known en x w of
        (Inl e, w1) \<Rightarrow> (Inl e, w1)
      | (Inr (Spawned, en1), w1) \<Rightarrow> spawn_items deps frame known slots (Suc n) en1 xs w1
      | (Inr (SpawnConflict, en1), w1) \<Rightarrow> (Inr n, w1)
      | (Inr (Skipped, en1), w1) \<Rightarrow> spawn_items deps frame known (Suc slots) n en1 xs w1)"

definition host_frame :: "loop_world \<Rightarrow> entity \<Rightarrow> block option" where
  "host_frame w en = (case block_by_id (lw_blocks w) (en_blockId en) of
      None \<Rightarrow> None
    | Some anchor \<Rightarrow> Option.bind (nonempty (bl_parentId anchor)) (block_by_id (lw_blocks w)))"

definition spawn :: "loop_deps \<Rightarrow> entity \<Rightarrow> nat loop_act" where
  "spawn deps en w = (case deriveCurrentPhase (en_core en) of
      None \<Rightarrow> (Inr 0, w)
    | Some phase \<Rightarrow>
        (let slots = effectiveMaxConcurrent (en_core en) (Some phase) - activeItemCount (en_core en);
             eligible = eligibleItemsToSpawn (en_core en)
         in if slots = 0 \<or> eligible = [] then (Inr 0, w)
            else case host_frame w en of
                   None \<Rightarrow> (Inr 0, w)
                 | Some frame \<Rightarrow> spawn_items deps frame (lw_pipelines w) slots 0 en eligible w))"

section \<open>The tick\<close>

text \<open>
  One tick of one initiative: \<open>(spawned, completed)\<close>. The in-process guard against a second tick
  of the same initiative is the caller's; ticks of other processes interleave through \<open>ld_env\<close>.
\<close>

definition tick :: "loop_deps \<Rightarrow> entity \<Rightarrow> (nat \<times> bool) loop_act" where
  "tick deps seed w = (case getInitiativeByBlock (lw_table w) (en_blockId seed) of
      None \<Rightarrow> (Inr (0, False), w)
    | Some fresh \<Rightarrow>
        if en_status fresh \<noteq> IniExecuting then (Inr (0, False), w)
        else act_bind (reconcile deps fresh (readSpawnedBlocks w fresh))
          (\<lambda>r. let en = or_entity r fresh
               in case pendingCheckpoint (en_core en) of
                    Some phase \<Rightarrow> act_then (pauseAtCheckpoint deps en phase (en_rev fresh))
                                    (act_return (0, False))
                  | None \<Rightarrow>
                      if allItemsSettled (en_core en)
                      then act_then (complete_initiative deps en) (act_return (0, True))
                      else act_bind (spawn deps en) (\<lambda>n.
                        act_then (recommitTracker deps (en_blockId en) (Some (en_rev fresh)))
                          (act_return (n, False)))) w)"

text \<open>A tick that throws is logged and isolated: \<open>(ticked, spawned, completed)\<close>.\<close>

definition runDue :: "loop_deps \<Rightarrow> loop_world \<Rightarrow> (nat \<times> nat \<times> nat) \<times> loop_world" where
  "runDue deps w =
     (let executing = listExecuting (lw_table w);
          (spawned, completed, w') = fold
            (\<lambda>en (s, c, v). case tick deps en v of
               (Inl e, v') \<Rightarrow> (s, c, v')
             | (Inr (n, fin), v') \<Rightarrow> (s + n, if fin then c + 1 else c, v'))
            executing (0, 0, w)
      in ((length executing, spawned, completed), w'))"

definition pokeForInitiativeBlock ::
  "loop_deps \<Rightarrow> string \<Rightarrow> run_harvest option \<Rightarrow> loop_world \<Rightarrow> loop_world" where
  "pokeForInitiativeBlock deps b harvest w =
     snd (act_then
       (case harvest of
          None \<Rightarrow> act_return ()
        | Some h \<Rightarrow>
            if rh_followUps h = [] \<and> rh_failure h = None then act_return ()
            else act_then (update_entity deps b (on_core (\<lambda>c. applyRunHarvest c h (lw_now w))))
                   (act_return ()))
       (\<lambda>w1. case getInitiativeByBlock (lw_table w1) b of
          None \<Rightarrow> (Inr (), w1)
        | Some en \<Rightarrow> if en_status en = IniExecuting
                     then act_then (tick deps en) (act_return ()) w1 else (Inr (), w1)) w)"

section \<open>Laws of the write path\<close>

definition stored :: "loop_world \<Rightarrow> string \<Rightarrow> entity option" where
  "stored w b = getInitiativeByBlock (lw_table w) b"

definition rows_unique :: "loop_world \<Rightarrow> bool" where
  "rows_unique w \<longleftrightarrow> distinct (map en_id (lw_table w)) \<and> distinct (map en_blockId (lw_table w))"

text \<open>Nobody else writes between a read and its swap, and block ids are never drawn twice.\<close>

definition quiet_deps :: "loop_deps \<Rightarrow> bool" where
  "quiet_deps deps \<longleftrightarrow> ld_env deps = (\<lambda>n w. w) \<and> inj (ld_nextId deps ''blk'')"

lemma stored_Some:
  "stored w b = Some en \<Longrightarrow> en \<in> set (lw_table w) \<and> en_blockId en = b"
  unfolding stored_def getInitiativeByBlock_def find_Some_iff by (metis nth_mem)

lemma find_unique:
  "distinct (map f xs) \<Longrightarrow> x \<in> set xs \<Longrightarrow> List.find (\<lambda>y. f y = f x) xs = Some x"
  by (induction xs) (auto simp: image_iff)

lemma swap_stored:
  assumes "rows_unique w" and "stored w b = Some cur"
    and "en_id p = en_id cur" and "en_blockId p = en_blockId cur"
  shows "\<exists>t. swapInitiative p (en_rev cur) (lw_table w) = Some t
    \<and> rows_unique (w\<lparr>lw_table := t\<rparr>) \<and> stored (w\<lparr>lw_table := t\<rparr>) b = Some p"
proof -
  let ?hit = "\<lambda>en. en_id en = en_id p \<and> en_rev en = en_rev cur"
  let ?t = "map (\<lambda>en. if ?hit en then p else en) (lw_table w)"
  from stored_Some [OF assms(2)] have cur: "cur \<in> set (lw_table w)" "en_blockId cur = b" by auto
  have "inj_on en_id (set (lw_table w))" using assms(1) by (simp add: rows_unique_def distinct_map)
  then have one: "?hit en \<longleftrightarrow> en = cur" if "en \<in> set (lw_table w)" for en
    using that cur(1) assms(3) by (auto dest: inj_onD)
  have ids: "map en_id ?t = map en_id (lw_table w)" "map en_blockId ?t = map en_blockId (lw_table w)"
    using one assms(3,4) by (auto simp: comp_def)
  have "p \<in> set ?t" using cur(1) one by force
  moreover have dist: "distinct (map en_id ?t)" "distinct (map en_blockId ?t)"
    unfolding ids using assms(1) by (simp_all add: rows_unique_def)
  ultimately have "List.find (\<lambda>en. en_blockId en = en_blockId p) ?t = Some p"
    by (intro find_unique)
  moreover have "list_ex ?hit (lw_table w)" using cur(1) one by (auto simp: list_ex_iff)
  moreover have "rows_unique (w\<lparr>lw_table := ?t\<rparr>)" using dist unfolding rows_unique_def by simp
  ultimately show ?thesis
    using assms(4) cur(2)
    by (intro exI [of _ ?t]) (simp add: swapInitiative_def stored_def getInitiativeByBlock_def)
qed

lemma sameContent_core: "sameContent a b \<Longrightarrow> en_core a = en_core b"
  by (cases a; cases b) (simp add: sameContent_def)

text \<open>A write that nobody disturbs applies its transform to the stored entity.\<close>

lemma mutate_quiet:
  assumes "ld_env deps = (\<lambda>n w. w)" and "rows_unique w" and "stored w b = Some cur"
    and "f cur v = Inr (nxt, v')" and "en_id nxt = en_id cur" and "en_blockId nxt = en_blockId cur"
  shows "\<exists>p t es. mutate_with deps b f v w = (Inr (Some p, v'), w\<lparr>lw_table := t, lw_events := es\<rparr>)
    \<and> en_core p = en_core nxt \<and> en_blockId p = b
    \<and> stored (w\<lparr>lw_table := t, lw_events := es\<rparr>) b = Some p
    \<and> rows_unique (w\<lparr>lw_table := t, lw_events := es\<rparr>)"
proof (cases "sameContent cur nxt")
  case True
  have "mutate_with deps b f v w = (Inr (Some cur, v'), w)"
    using assms(3,4) True by (simp add: mutate_with_def INITIATIVE_CAS_ATTEMPTS_def numeral_3_eq_3 stored_def)
  moreover have "w = w\<lparr>lw_table := lw_table w, lw_events := lw_events w\<rparr>" by simp
  ultimately show ?thesis
    using assms(2,3) sameContent_core [OF True] stored_Some [OF assms(3)] by metis
next
  case False
  let ?p = "nxt\<lparr>en_rev := en_rev cur + 1, en_updatedAt := lw_now w\<rparr>"
  from swap_stored [OF assms(2,3), of ?p] assms(5,6) obtain t where
    t: "swapInitiative ?p (en_rev cur) (lw_table w) = Some t" "rows_unique (w\<lparr>lw_table := t\<rparr>)"
      "stored (w\<lparr>lw_table := t\<rparr>) b = Some ?p" by auto
  have "mutate_with deps b f v w
      = (Inr (Some ?p, v'), w\<lparr>lw_table := t, lw_events := lw_events w @ [InitiativeChanged ?p]\<rparr>)"
    using assms(1,3,4) False t(1)
    by (simp add: mutate_with_def INITIATIVE_CAS_ATTEMPTS_def numeral_3_eq_3 stored_def Let_def)
  moreover have "rows_unique (w\<lparr>lw_table := t, lw_events := es\<rparr>)"
    "stored (w\<lparr>lw_table := t, lw_events := es\<rparr>) b = Some ?p" for es
    using t(2,3) by (simp_all add: rows_unique_def stored_def)
  moreover have "en_blockId ?p = b" using stored_Some [OF assms(3)] assms(6) by simp
  moreover have "en_core ?p = en_core nxt" by simp
  ultimately show ?thesis by blast
qed

lemma update_gen:
  assumes "ld_env deps = (\<lambda>n w. w)" and "rows_unique w" and "stored w b = Some cur"
    and "en_id (f cur) = en_id cur" and "en_blockId (f cur) = en_blockId cur"
  shows "\<exists>p t es. update_entity deps b f w = (Inr (Some p), w\<lparr>lw_table := t, lw_events := es\<rparr>)
    \<and> en_core p = en_core (f cur) \<and> en_blockId p = b
    \<and> stored (w\<lparr>lw_table := t, lw_events := es\<rparr>) b = Some p
    \<and> rows_unique (w\<lparr>lw_table := t, lw_events := es\<rparr>)"
proof -
  have "\<exists>p t es. mutate_with deps b (\<lambda>en u. Inr (f en, u)) () w
        = (Inr (Some p, ()), w\<lparr>lw_table := t, lw_events := es\<rparr>)
    \<and> en_core p = en_core (f cur) \<and> en_blockId p = b
    \<and> stored (w\<lparr>lw_table := t, lw_events := es\<rparr>) b = Some p
    \<and> rows_unique (w\<lparr>lw_table := t, lw_events := es\<rparr>)"
    by (rule mutate_quiet [OF assms(1-3)]) (simp_all add: assms(4,5))
  then obtain p t es where
    m: "mutate_with deps b (\<lambda>en u. Inr (f en, u)) () w
        = (Inr (Some p, ()), w\<lparr>lw_table := t, lw_events := es\<rparr>)" and
    r: "en_core p = en_core (f cur)" "en_blockId p = b"
      "stored (w\<lparr>lw_table := t, lw_events := es\<rparr>) b = Some p"
      "rows_unique (w\<lparr>lw_table := t, lw_events := es\<rparr>)" by auto
  have "update_entity deps b f w = (Inr (Some p), w\<lparr>lw_table := t, lw_events := es\<rparr>)"
    unfolding update_entity_def act_bind_def m by (simp add: act_return_def)
  with r show ?thesis by blast
qed

lemma update_quiet:
  assumes "ld_env deps = (\<lambda>n w. w)" and "rows_unique w" and "stored w b = Some cur"
  shows "\<exists>p t es. update_entity deps b (on_core f) w = (Inr (Some p), w\<lparr>lw_table := t, lw_events := es\<rparr>)
    \<and> en_core p = f (en_core cur) \<and> en_blockId p = b
    \<and> stored (w\<lparr>lw_table := t, lw_events := es\<rparr>) b = Some p
    \<and> rows_unique (w\<lparr>lw_table := t, lw_events := es\<rparr>)"
  using update_gen [OF assms, of "on_core f"] by (simp add: on_core_def)

section \<open>Laws of a spawn\<close>

text \<open>
  What a spawn may do to the items: one that is not pending stays as it is, and the tasks
  \<open>bs\<close> it started are held by items that were pending and now run.
\<close>

definition advances :: "initiative_item list \<Rightarrow> initiative_item list \<Rightarrow> string list \<Rightarrow> bool" where
  "advances xs ys bs \<longleftrightarrow> length ys = length xs
     \<and> (\<forall>k < length xs. it_id (ys ! k) = it_id (xs ! k)
          \<and> (it_status (xs ! k) \<noteq> ItemPending \<longrightarrow> ys ! k = xs ! k))
     \<and> (\<forall>b \<in> set bs. \<exists>k < length xs. it_status (xs ! k) = ItemPending
          \<and> it_status (ys ! k) = ItemInProgress \<and> it_blockId (ys ! k) = Some b)
     \<and> length (filter item_active ys) \<le> length (filter item_active xs) + length bs"

lemma advances_refl: "advances xs xs []"
  by (simp add: advances_def)

lemma advances_trans:
  assumes "advances xs ys bs" and "advances ys zs cs"
  shows "advances xs zs (bs @ cs)"
proof -
  have l: "length ys = length xs" "length zs = length xs" using assms by (simp_all add: advances_def)
  have same: "it_id (zs ! k) = it_id (xs ! k)
      \<and> (it_status (xs ! k) \<noteq> ItemPending \<longrightarrow> zs ! k = xs ! k)" if "k < length xs" for k
    using that assms l by (simp add: advances_def)
  have "\<exists>k < length xs. it_status (xs ! k) = ItemPending \<and> it_status (zs ! k) = ItemInProgress
      \<and> it_blockId (zs ! k) = Some b" if "b \<in> set bs \<union> set cs" for b
  proof (cases "b \<in> set bs")
    case True
    with assms(1) obtain k where k: "k < length xs" "it_status (xs ! k) = ItemPending"
      "it_status (ys ! k) = ItemInProgress" "it_blockId (ys ! k) = Some b"
      unfolding advances_def by blast
    then have "zs ! k = ys ! k" using assms(2) l by (simp add: advances_def)
    with k show ?thesis by auto
  next
    case False
    with that assms(2) obtain k where k: "k < length ys" "it_status (ys ! k) = ItemPending"
      "it_status (zs ! k) = ItemInProgress" "it_blockId (zs ! k) = Some b"
      unfolding advances_def by blast
    then have "it_status (xs ! k) = ItemPending"
      using assms(1) l unfolding advances_def by (metis)
    with k l show ?thesis by auto
  qed
  with same l assms show ?thesis by (simp add: advances_def)
qed

lemma filter_map_mono:
  "(\<And>x. x \<in> set xs \<Longrightarrow> P (g x) \<Longrightarrow> P x) \<Longrightarrow> length (filter P (map g xs)) \<le> length (filter P xs)"
  by (induction xs) (auto intro: le_SucI)

lemma filter_map_one:
  assumes "distinct (map f xs)" and "\<And>x. x \<in> set xs \<Longrightarrow> f x \<noteq> i \<Longrightarrow> g x = x"
  shows "length (filter P (map g xs)) \<le> Suc (length (filter P xs))"
  using assms
proof (induction xs)
  case (Cons x xs)
  show ?case
  proof (cases "f x = i")
    case True
    have "f y \<noteq> i" if "y \<in> set xs" for y
      using that Cons.prems(1) True by (auto simp: image_iff)
    then have "map g xs = xs" using Cons.prems(2) by (intro map_idI) simp
    then show ?thesis by simp
  next
    case False
    then have "g x = x" using Cons.prems by simp
    moreover have "length (filter P (map g xs)) \<le> Suc (length (filter P xs))"
      using Cons by simp
    ultimately show ?thesis by simp
  qed
qed simp

lemma advances_map:
  assumes "\<And>x. x \<in> set xs \<Longrightarrow> it_id (g x) = it_id x"
    and "\<And>x. x \<in> set xs \<Longrightarrow> it_status x \<noteq> ItemPending \<Longrightarrow> g x = x"
    and "\<And>x. x \<in> set xs \<Longrightarrow> item_active (g x) \<Longrightarrow> item_active x"
  shows "advances xs (map g xs) []"
  using assms filter_map_mono [of xs item_active g] by (simp add: advances_def)

definition claim_items :: "string \<Rightarrow> string \<Rightarrow> initiative_item list \<Rightarrow> initiative_item list" where
  "claim_items i b = map (\<lambda>x. if it_id x = i \<and> it_status x = ItemPending
     then x\<lparr>it_status := ItemInProgress, it_blockId := Some b\<rparr> else x)"

lemma claim_core: "ini_items (applySpawnClaim c i b) = claim_items i b (ini_items c)"
  "ini_policy (applySpawnClaim c i b) = ini_policy c"
  by (simp_all add: applySpawnClaim_def on_item_def claim_items_def)

lemma claim_advances:
  assumes "distinct (map it_id xs)" and "x \<in> set xs" and "it_id x = i" and "it_status x = ItemPending"
  shows "advances xs (claim_items i b xs) [b]"
proof -
  obtain k where k: "k < length xs" "xs ! k = x" using assms(2) by (auto simp: in_set_conv_nth)
  have "length (filter item_active (claim_items i b xs)) \<le> Suc (length (filter item_active xs))"
    unfolding claim_items_def by (rule filter_map_one [OF assms(1), of i]) simp
  then show ?thesis
    using k assms(3,4) by (auto simp: advances_def claim_items_def intro!: exI [of _ k])
qed

lemma claim_nothing:
  assumes "\<And>x. x \<in> set xs \<Longrightarrow> it_id x = i \<Longrightarrow> it_status x \<noteq> ItemPending"
  shows "claim_items i b xs = xs"
  unfolding claim_items_def using assms by (intro map_idI) auto

lemma holds_claim_iff:
  assumes "distinct (map it_id (ini_items c))" and "\<And>x. x \<in> set (ini_items c) \<Longrightarrow> it_blockId x \<noteq> Some b"
    and "en_core en = applySpawnClaim c i b"
  shows "holds_claim en i b \<longleftrightarrow> (\<exists>x \<in> set (ini_items c). it_id x = i \<and> it_status x = ItemPending)"
proof -
  have "(case List.find (\<lambda>x. it_id x = i) (claim_items i b xs) of None \<Rightarrow> False | Some x \<Rightarrow> it_blockId x = Some b)
      \<longleftrightarrow> (\<exists>x \<in> set xs. it_id x = i \<and> it_status x = ItemPending)"
    if "distinct (map it_id xs)" "\<And>x. x \<in> set xs \<Longrightarrow> it_blockId x \<noteq> Some b" for xs
    using that
  proof (induction xs)
    case (Cons a xs)
    show ?case
    proof (cases "it_id a = i")
      case True
      have "it_id y \<noteq> i" if "y \<in> set xs" for y
        using that Cons.prems(1) True by (auto simp: image_iff)
      with True Cons.prems(2) [of a] show ?thesis by (auto simp: claim_items_def)
    next
      case False
      with Cons show ?thesis by (simp add: claim_items_def)
    qed
  qed (simp add: claim_items_def)
  from this [OF assms(1,2)] show ?thesis by (simp add: holds_claim_def assms(3) claim_core)
qed

lemma stored_fields [simp]:
  "stored (w\<lparr>lw_blocks := bs\<rparr>) b = stored w b" "stored (w\<lparr>lw_runs := rs\<rparr>) b = stored w b"
  "stored (w\<lparr>lw_events := es\<rparr>) b = stored w b" "stored (w\<lparr>lw_ids := k\<rparr>) b = stored w b"
  "rows_unique (w\<lparr>lw_blocks := bs\<rparr>) = rows_unique w" "rows_unique (w\<lparr>lw_runs := rs\<rparr>) = rows_unique w"
  "rows_unique (w\<lparr>lw_events := es\<rparr>) = rows_unique w" "rows_unique (w\<lparr>lw_ids := k\<rparr>) = rows_unique w"
  by (simp_all add: stored_def rows_unique_def)

lemma notify_returns: "\<exists>es. notify deps en reason phase w = (Inr (), w\<lparr>lw_events := es\<rparr>)"
proof (cases "ld_notify deps")
  case True
  then show ?thesis by (simp add: notify_def split_def Let_def) blast
next
  case False
  then have "notify deps en reason phase w = (Inr (), w\<lparr>lw_events := lw_events w\<rparr>)"
    by (simp add: notify_def)
  then show ?thesis by blast
qed

definition block_core :: "string \<Rightarrow> string \<Rightarrow> initiative \<Rightarrow> initiative" where
  "block_core i msg = on_item (\<lambda>x. it_id x = i)
     (\<lambda>x. x\<lparr>it_status := ItemBlocked, it_note := Some msg, it_blockId := None\<rparr>)"

lemma blockItem_quiet:
  assumes "ld_env deps = (\<lambda>n w. w)" and "rows_unique w" and "stored w b = Some cur"
  shows "\<exists>p t es. blockItem deps b i msg w
        = (Inr (Some p), w\<lparr>lw_table := t, lw_events := es, lw_ids := Suc (lw_ids w)\<rparr>)
    \<and> en_core p = block_core i msg (en_core cur) \<and> en_blockId p = b
    \<and> stored (w\<lparr>lw_table := t, lw_events := es, lw_ids := Suc (lw_ids w)\<rparr>) b = Some p
    \<and> rows_unique (w\<lparr>lw_table := t, lw_events := es, lw_ids := Suc (lw_ids w)\<rparr>)"
proof -
  let ?f = "block_item_transform deps (lw_now w) i msg"
  obtain nxt where n: "?f cur (lw_ids w) = Inr (nxt, Suc (lw_ids w))" "en_id nxt = en_id cur"
    "en_blockId nxt = en_blockId cur" "en_core nxt = block_core i msg (en_core cur)"
    by (simp add: block_item_transform_def block_core_def)
  from mutate_quiet [where f = ?f and v = "lw_ids w", OF assms n(1-3)] obtain p t es where
    m: "mutate_with deps b ?f (lw_ids w) w
        = (Inr (Some p, Suc (lw_ids w)), w\<lparr>lw_table := t, lw_events := es\<rparr>)" and
    r: "en_core p = en_core nxt" "en_blockId p = b"
      "stored (w\<lparr>lw_table := t, lw_events := es\<rparr>) b = Some p"
      "rows_unique (w\<lparr>lw_table := t, lw_events := es\<rparr>)" by blast
  let ?w2 = "w\<lparr>lw_table := t, lw_events := es, lw_ids := Suc (lw_ids w)\<rparr>"
  obtain es' where es': "notify deps p ItemBlockedCard None ?w2 = (Inr (), ?w2\<lparr>lw_events := es'\<rparr>)"
    using notify_returns by blast
  have "blockItem deps b i msg w = (Inr (Some p), ?w2\<lparr>lw_events := es'\<rparr>)"
    unfolding blockItem_def act_bind_def m by (simp add: act_then_def act_bind_def es' act_return_def)
  moreover have "stored (?w2\<lparr>lw_events := es'\<rparr>) b = Some p" "rows_unique (?w2\<lparr>lw_events := es'\<rparr>)"
    using r(3,4) by (simp_all add: stored_def rows_unique_def)
  ultimately show ?thesis
    using r(1,2) n(4) by (intro exI [of _ p] exI [of _ t] exI [of _ es']) simp
qed

definition core_items :: "loop_world \<Rightarrow> string \<Rightarrow> initiative_item list" where
  "core_items w b = (case stored w b of None \<Rightarrow> [] | Some en \<Rightarrow> ini_items (en_core en))"

definition loop_ok :: "loop_deps \<Rightarrow> string \<Rightarrow> policy \<Rightarrow> loop_world \<Rightarrow> bool" where
  "loop_ok deps b pol w \<longleftrightarrow> rows_unique w \<and> distinct (map it_id (core_items w b))
     \<and> (\<exists>en. stored w b = Some en \<and> ini_policy (en_core en) = Some pol)
     \<and> (\<forall>k \<ge> lw_ids w. \<forall>x \<in> set (core_items w b). it_blockId x \<noteq> Some (ld_nextId deps ''blk'' k))"

lemma loop_ok_step:
  assumes "loop_ok deps b pol w" and "inj (ld_nextId deps ''blk'')" and "rows_unique w'"
    and "stored w' b = Some p" and "ini_policy (en_core p) = Some pol" and "lw_ids w < lw_ids w'"
    and "map it_id (ini_items (en_core p)) = map it_id (core_items w b)"
    and "it_blockId ` set (ini_items (en_core p)) \<subseteq> it_blockId ` set (core_items w b)
           \<union> {None, Some (ld_nextId deps ''blk'' (lw_ids w))}"
  shows "loop_ok deps b pol w'"
proof -
  have items: "core_items w' b = ini_items (en_core p)" by (simp add: core_items_def assms(4))
  have "it_blockId x \<noteq> Some (ld_nextId deps ''blk'' k)"
    if "lw_ids w' \<le> k" "x \<in> set (core_items w' b)" for k x
  proof
    assume e: "it_blockId x = Some (ld_nextId deps ''blk'' k)"
    from that(2) assms(8) consider y where "y \<in> set (core_items w b)" "it_blockId y = it_blockId x"
      | "it_blockId x = None" | "it_blockId x = Some (ld_nextId deps ''blk'' (lw_ids w))"
      unfolding items by fastforce
    then show False
    proof cases
      case 1
      moreover have "lw_ids w \<le> k" using that(1) assms(6) by simp
      ultimately show False using e assms(1) by (auto simp: loop_ok_def)
    next
      case 3
      with e assms(2) have "k = lw_ids w" by (auto dest: injD)
      with that(1) assms(6) show False by simp
    qed (use e in simp)
  qed
  with assms show ?thesis unfolding loop_ok_def items by simp
qed

text \<open>A claim that is taken back, or whose start failed, leaves no running item behind.\<close>

lemma revert_claim_advances:
  assumes "\<And>x. x \<in> set (ini_items c) \<Longrightarrow> it_blockId x \<noteq> Some b"
  shows "advances (ini_items c) (ini_items (applyRevertClaim (applySpawnClaim c i b) i b)) []"
proof -
  let ?g = "\<lambda>x. if it_id x = i \<and> it_status x = ItemPending
    then x\<lparr>it_status := ItemPending, it_blockId := None\<rparr> else x"
  have "ini_items (applyRevertClaim (applySpawnClaim c i b) i b) = map ?g (ini_items c)"
    unfolding applyRevertClaim_def on_item_def applySpawnClaim_def using assms by (auto simp: comp_def)
  moreover have "advances (ini_items c) (map ?g (ini_items c)) []"
    by (rule advances_map) (auto simp: item_active_def split: if_splits)
  ultimately show ?thesis by simp
qed

lemma block_claim_advances:
  assumes "distinct (map it_id (ini_items c))"
    and "x \<in> set (ini_items c)" and "it_id x = i" and "it_status x = ItemPending"
  shows "advances (ini_items c) (ini_items (block_core i msg (applySpawnClaim c i b))) []"
proof -
  let ?g = "\<lambda>x. if it_id x = i then x\<lparr>it_status := ItemBlocked, it_note := Some msg, it_blockId := None\<rparr> else x"
  have same: "y = x" if "y \<in> set (ini_items c)" "it_id y = i" for y
    using that assms by (auto simp: distinct_map dest: inj_onD)
  have "ini_items (block_core i msg (applySpawnClaim c i b)) = map ?g (ini_items c)"
    unfolding block_core_def on_item_def applySpawnClaim_def by (auto simp: comp_def)
  moreover have "advances (ini_items c) (map ?g (ini_items c)) []"
    by (rule advances_map) (use same assms(4) in \<open>auto simp: item_active_def split: if_splits\<close>)
  ultimately show ?thesis by simp
qed

text \<open>The runs that a spawn started, with the pipeline the policy picks for the item.\<close>

definition spawned_ok ::
  "loop_deps \<Rightarrow> string \<Rightarrow> policy \<Rightarrow> loop_world \<Rightarrow> loop_world \<Rightarrow> string list \<Rightarrow> bool" where
  "spawned_ok deps b pol w w' bs \<longleftrightarrow> loop_ok deps b pol w' \<and> lw_ids w \<le> lw_ids w'
     \<and> advances (core_items w b) (core_items w' b) bs
     \<and> (\<exists>rs. lw_runs w' = lw_runs w @ rs \<and> map fst rs = bs)"

lemma spawned_ok_trans:
  "spawned_ok deps b pol w w1 bs \<Longrightarrow> spawned_ok deps b pol w1 w2 cs \<Longrightarrow>
     spawned_ok deps b pol w w2 (bs @ cs)"
  unfolding spawned_ok_def
  by (elim conjE exE) (intro conjI advances_trans [of _ "core_items w1 b"], auto)

lemma spawned_none:
  assumes "loop_ok deps b pol w" and "inj (ld_nextId deps ''blk'')" and "rows_unique w'"
    and "stored w' b = Some p" and "ini_policy (en_core p) = Some pol" and "lw_ids w < lw_ids w'"
    and "advances (core_items w b) (ini_items (en_core p)) bs"
    and "it_blockId ` set (ini_items (en_core p)) \<subseteq> it_blockId ` set (core_items w b)
           \<union> {None, Some (ld_nextId deps ''blk'' (lw_ids w))}"
    and "\<exists>rs. lw_runs w' = lw_runs w @ rs \<and> map fst rs = bs"
  shows "spawned_ok deps b pol w w' bs"
proof -
  have "map it_id (ini_items (en_core p)) = map it_id (core_items w b)"
    using assms(7) by (auto simp: advances_def intro!: nth_equalityI)
  from loop_ok_step [OF assms(1-6) this assms(8)] assms(4,6,7,9) show ?thesis
    by (simp add: spawned_ok_def core_items_def)
qed

lemma claim_blocks:
  "it_blockId ` set (claim_items i b xs) \<subseteq> it_blockId ` set xs \<union> {None, Some b}"
  by (auto simp: claim_items_def)

lemma revert_blocks:
  "it_blockId ` set (ini_items (applyRevertClaim c i b)) \<subseteq> it_blockId ` set (ini_items c) \<union> {None}"
  by (auto simp: applyRevertClaim_def on_item_def)

lemma block_core_blocks:
  "it_blockId ` set (ini_items (block_core i msg c)) \<subseteq> it_blockId ` set (ini_items c) \<union> {None}"
  by (auto simp: block_core_def on_item_def)

lemma policy_kept [simp]:
  "ini_policy (applySpawnClaim c i b) = ini_policy c"
  "ini_policy (applyRevertClaim c i b) = ini_policy c"
  "ini_policy (block_core i msg c) = ini_policy c"
  by (simp_all add: applySpawnClaim_def applyRevertClaim_def block_core_def on_item_def)

lemma blocks_sub: "A \<subseteq> B \<union> {None} \<Longrightarrow> B \<subseteq> C \<union> {None, s} \<Longrightarrow> A \<subseteq> C \<union> {None, s}"
  by blast

lemma start_claimed_quiet:
  assumes quiet: "quiet_deps deps" and ok: "loop_ok deps b pol w" and E: "stored w b = Some E"
    and x: "x0 \<in> set (core_items w b)" "it_id x0 = it_id x" "it_status x0 = ItemPending"
    and w1: "rows_unique w1" "stored w1 b = Some p1" "lw_ids w1 = Suc (lw_ids w)" "lw_runs w1 = lw_runs w"
    and p1: "en_core p1 = applySpawnClaim (en_core E) (it_id x) (ld_nextId deps ''blk'' (lw_ids w))"
      "en_blockId p1 = b"
    and blk: "bl_id blk = ld_nextId deps ''blk'' (lw_ids w)"
  shows "\<exists>r en' w' bs. start_claimed deps p1 x blk pipe w1 = (Inr (r, en'), w')
    \<and> spawned_ok deps b pol w w' bs \<and> length bs = (if r = Spawned then 1 else 0)
    \<and> en_blockId en' = b \<and> ini_policy (en_core en') = Some pol"
proof -
  let ?s = "ld_nextId deps ''blk'' (lw_ids w)" and ?i = "it_id x"
  have env: "ld_env deps = (\<lambda>n w. w)" and inj: "inj (ld_nextId deps ''blk'')"
    using quiet by (simp_all add: quiet_deps_def)
  have items: "core_items w b = ini_items (en_core E)" by (simp add: core_items_def E)
  have pol: "ini_policy (en_core E) = Some pol" and dist: "distinct (map it_id (ini_items (en_core E)))"
    and fresh: "\<And>y. y \<in> set (ini_items (en_core E)) \<Longrightarrow> it_blockId y \<noteq> Some ?s"
    using ok E by (auto simp: loop_ok_def items)
  let ?w2 = "w1\<lparr>lw_blocks := lw_blocks w1 @ [blk]\<rparr>"
  show ?thesis
  proof (cases "ld_start deps ?w2 blk pipe (Option.bind (it_spawn x) sw_gates)")
    case None
    let ?w' = "?w2\<lparr>lw_runs := lw_runs ?w2 @ [(bl_id blk, pipe)],
      lw_events := lw_events ?w2 @ [BoardChanged ''block-added'' (bl_id blk)]\<rparr>"
    have r: "start_claimed deps p1 x blk pipe w1 = (Inr (Spawned, p1), ?w')"
      using None by (simp add: start_claimed_def Let_def)
    have "spawned_ok deps b pol w ?w' [?s]"
    proof (rule spawned_none [OF ok inj])
      show "rows_unique ?w'" "stored ?w' b = Some p1" using w1 by simp_all
      show "ini_policy (en_core p1) = Some pol" "lw_ids w < lw_ids ?w'" using p1 pol w1 by simp_all
      show "advances (core_items w b) (ini_items (en_core p1)) [?s]"
        using claim_advances [OF dist, of x0] x by (simp add: items p1 claim_core)
      show "it_blockId ` set (ini_items (en_core p1)) \<subseteq> it_blockId ` set (core_items w b) \<union> {None, Some ?s}"
        unfolding p1 claim_core items by (rule claim_blocks)
      show "\<exists>rs. lw_runs ?w' = lw_runs w @ rs \<and> map fst rs = [?s]" using w1 blk by simp
    qed
    with r p1 pol show ?thesis by auto
  next
    case (Some fault)
    let ?w3 = "?w2\<lparr>lw_blocks := filter (\<lambda>y. bl_id y \<noteq> bl_id blk) (lw_blocks ?w2)\<rparr>"
    have s3: "rows_unique ?w3" "stored ?w3 b = Some p1" using w1 by simp_all
    have ids3: "lw_ids ?w3 = Suc (lw_ids w)" "lw_runs ?w3 = lw_runs w" using w1 by simp_all
    have sub: "it_blockId ` set (ini_items (en_core p1)) \<subseteq> it_blockId ` set (core_items w b) \<union> {None, Some ?s}"
      unfolding p1 claim_core items by (rule claim_blocks)
    show ?thesis
    proof (cases fault)
      case TaskLimitReached
      from update_quiet [OF env s3, of "\<lambda>c. applyRevertClaim c ?i (bl_id blk)"] obtain p t es where
        u: "update_entity deps b (on_core (\<lambda>c. applyRevertClaim c ?i (bl_id blk))) ?w3
          = (Inr (Some p), ?w3\<lparr>lw_table := t, lw_events := es\<rparr>)" and
        p: "en_core p = applyRevertClaim (en_core p1) ?i (bl_id blk)" "en_blockId p = b"
          "stored (?w3\<lparr>lw_table := t, lw_events := es\<rparr>) b = Some p"
          "rows_unique (?w3\<lparr>lw_table := t, lw_events := es\<rparr>)" by blast
      let ?w' = "?w3\<lparr>lw_table := t, lw_events := es\<rparr>"
      have r: "start_claimed deps p1 x blk pipe w1 = (Inr (SpawnConflict, p), ?w')"
        using Some TaskLimitReached u p1(2)
        by (simp add: start_claimed_def Let_def act_bind_def act_return_def or_entity_def)
      have "spawned_ok deps b pol w ?w' []"
      proof (rule spawned_none [OF ok inj p(4,3)])
        show "ini_policy (en_core p) = Some pol" using p(1) p1(1) pol by simp
        show "lw_ids w < lw_ids ?w'" using w1 by simp
        show "advances (core_items w b) (ini_items (en_core p)) []"
          using revert_claim_advances [OF fresh] by (simp add: items p(1) p1(1) blk)
        show "it_blockId ` set (ini_items (en_core p)) \<subseteq> it_blockId ` set (core_items w b) \<union> {None, Some ?s}"
          unfolding p(1) by (rule blocks_sub [OF revert_blocks sub])
        show "\<exists>rs. lw_runs ?w' = lw_runs w @ rs \<and> map fst rs = []" using w1 by simp
      qed
      with r p p1(1) pol show ?thesis by auto
    next
      case (StartError msg)
      let ?m = "''Could not start the task: '' @ msg"
      from blockItem_quiet [OF env s3, of ?i ?m] obtain p t es where
        u: "blockItem deps b ?i ?m ?w3
          = (Inr (Some p), ?w3\<lparr>lw_table := t, lw_events := es, lw_ids := Suc (lw_ids ?w3)\<rparr>)" and
        p: "en_core p = block_core ?i ?m (en_core p1)" "en_blockId p = b"
          "stored (?w3\<lparr>lw_table := t, lw_events := es, lw_ids := Suc (lw_ids ?w3)\<rparr>) b = Some p"
          "rows_unique (?w3\<lparr>lw_table := t, lw_events := es, lw_ids := Suc (lw_ids ?w3)\<rparr>)" by blast
      let ?w' = "?w3\<lparr>lw_table := t, lw_events := es, lw_ids := Suc (lw_ids ?w3)\<rparr>"
      have r: "start_claimed deps p1 x blk pipe w1 = (Inr (Skipped, p), ?w')"
        using Some StartError u p1(2)
        by (simp add: start_claimed_def Let_def act_bind_def act_return_def or_entity_def)
      have "spawned_ok deps b pol w ?w' []"
      proof (rule spawned_none [OF ok inj p(4,3)])
        show "ini_policy (en_core p) = Some pol" using p(1) p1(1) pol by simp
        show "lw_ids w < lw_ids ?w'" using w1 by simp
        show "advances (core_items w b) (ini_items (en_core p)) []"
          using block_claim_advances [OF dist, of x0 ?i] x by (simp add: items p(1) p1(1))
        show "it_blockId ` set (ini_items (en_core p)) \<subseteq> it_blockId ` set (core_items w b) \<union> {None, Some ?s}"
          unfolding p(1) by (rule blocks_sub [OF block_core_blocks sub])
        show "\<exists>rs. lw_runs ?w' = lw_runs w @ rs \<and> map fst rs = []" using w1 by simp
      qed
      with r p p1(1) pol show ?thesis by auto
    qed
  qed
qed

lemma spawnItem_quiet:
  assumes quiet: "quiet_deps deps" and ok: "loop_ok deps b pol w" and en: "en_blockId en = b"
    "ini_policy (en_core en) = Some pol" and known: "selectInitiativePipeline x pol \<in> set known"
  shows "\<exists>r en' w' bs. spawnItem deps frame known en x w = (Inr (r, en'), w')
    \<and> spawned_ok deps b pol w w' bs \<and> length bs = (if r = Spawned then 1 else 0)
    \<and> en_blockId en' = b \<and> ini_policy (en_core en') = Some pol"
proof -
  let ?s = "ld_nextId deps ''blk'' (lw_ids w)" and ?i = "it_id x" and ?w0 = "w\<lparr>lw_ids := Suc (lw_ids w)\<rparr>"
  have env: "ld_env deps = (\<lambda>n w. w)" and inj: "inj (ld_nextId deps ''blk'')"
    using quiet by (simp_all add: quiet_deps_def)
  from ok obtain E where E: "stored w b = Some E" "ini_policy (en_core E) = Some pol"
    by (auto simp: loop_ok_def)
  have items: "core_items w b = ini_items (en_core E)" by (simp add: core_items_def E)
  have dist: "distinct (map it_id (ini_items (en_core E)))"
    and fresh: "\<And>y. y \<in> set (ini_items (en_core E)) \<Longrightarrow> it_blockId y \<noteq> Some ?s"
    and rows: "rows_unique ?w0"
    using ok by (auto simp: loop_ok_def items)
  have E0: "stored ?w0 b = Some E" by (simp add: E)
  from update_quiet [OF env rows E0, of "\<lambda>c. applySpawnClaim c ?i ?s"] obtain p t es where
    u: "update_entity deps b (on_core (\<lambda>c. applySpawnClaim c ?i ?s)) ?w0
      = (Inr (Some p), ?w0\<lparr>lw_table := t, lw_events := es\<rparr>)" and
    p: "en_core p = applySpawnClaim (en_core E) ?i ?s" "en_blockId p = b"
      "stored (?w0\<lparr>lw_table := t, lw_events := es\<rparr>) b = Some p"
      "rows_unique (?w0\<lparr>lw_table := t, lw_events := es\<rparr>)" by blast
  let ?w1 = "?w0\<lparr>lw_table := t, lw_events := es\<rparr>"
  let ?blk = "buildTaskBlock ?s x frame b" and ?pipe = "selectInitiativePipeline x pol"
  have r: "spawnItem deps frame known en x w = (if holds_claim p ?i ?s
      then start_claimed deps p x ?blk ?pipe ?w1 else (Inr (Skipped, p), ?w1))"
    using en known u by (simp add: spawnItem_def Let_def act_bind_def act_return_def)
  have iff: "holds_claim p ?i ?s \<longleftrightarrow>
      (\<exists>y \<in> set (ini_items (en_core E)). it_id y = ?i \<and> it_status y = ItemPending)"
    by (rule holds_claim_iff [OF dist fresh p(1)])
  show ?thesis
  proof (cases "holds_claim p ?i ?s")
    case True
    with iff obtain x0 where x0: "x0 \<in> set (core_items w b)" "it_id x0 = ?i" "it_status x0 = ItemPending"
      unfolding items by blast
    have "bl_id ?blk = ?s" by (simp add: buildTaskBlock_def bare_block_def)
    from start_claimed_quiet [OF quiet ok E(1) x0 p(4,3) _ _ p(1,2) this, of ?pipe] r True
    show ?thesis by simp
  next
    case False
    with iff have "claim_items ?i ?s (ini_items (en_core E)) = ini_items (en_core E)"
      by (intro claim_nothing) blast
    then have same: "ini_items (en_core p) = core_items w b" by (simp add: p(1) claim_core items)
    have "spawned_ok deps b pol w ?w1 []"
    proof (rule spawned_none [OF ok inj p(4,3)])
      show "ini_policy (en_core p) = Some pol" using E(2) by (simp add: p(1))
      show "advances (core_items w b) (ini_items (en_core p)) []" unfolding same by (rule advances_refl)
    qed (simp_all add: same subset_insertI2)
    with r False p E(2) show ?thesis by auto
  qed
qed

lemma spawn_items_quiet:
  assumes "quiet_deps deps" and "loop_ok deps b pol w" and "en_blockId en = b"
    and "ini_policy (en_core en) = Some pol"
    and "\<forall>x \<in> set xs. selectInitiativePipeline x pol \<in> set known"
  shows "\<exists>n' w' bs. spawn_items deps frame known slots n en xs w = (Inr n', w')
    \<and> spawned_ok deps b pol w w' bs \<and> n' = n + length bs \<and> length bs \<le> slots"
  using assms
proof (induction deps frame known slots n en xs w rule: spawn_items.induct)
  case (1 deps frame known slots n en w)
  then show ?case by (auto simp: spawned_ok_def advances_refl)
next
  case (2 deps frame known n en x xs w)
  then show ?case by (auto simp: spawned_ok_def advances_refl)
next
  case (3 deps frame known slots n en x xs w)
  from spawnItem_quiet [OF 3(3-6), of x known frame] 3(7) obtain r en' w1 bs where
    s: "spawnItem deps frame known en x w = (Inr (r, en'), w1)" and
    ok: "spawned_ok deps b pol w w1 bs" "length bs = (if r = Spawned then 1 else 0)"
      "en_blockId en' = b" "ini_policy (en_core en') = Some pol" by auto
  have ok1: "loop_ok deps b pol w1" using ok(1) by (simp add: spawned_ok_def)
  have rest: "\<forall>y \<in> set xs. selectInitiativePipeline y pol \<in> set known" using 3(7) by simp
  show ?case
  proof (cases r)
    case Spawned
    from 3(1) [OF s [symmetric] refl refl Spawned 3(3) ok1 ok(3,4) rest] obtain n' w' cs where
      "spawn_items deps frame known slots (Suc n) en' xs w1 = (Inr n', w')"
      "spawned_ok deps b pol w1 w' cs" "n' = Suc n + length cs" "length cs \<le> slots" by auto
    with s Spawned ok show ?thesis
      using spawned_ok_trans [OF ok(1)] by (intro exI [of _ n'] exI [of _ w'] exI [of _ "bs @ cs"]) simp
  next
    case Skipped
    from 3(2) [OF s [symmetric] refl refl Skipped 3(3) ok1 ok(3,4) rest] obtain n' w' cs where
      "spawn_items deps frame known (Suc slots) n en' xs w1 = (Inr n', w')"
      "spawned_ok deps b pol w1 w' cs" "n' = n + length cs" "length cs \<le> Suc slots" by auto
    with s Skipped ok show ?thesis
      using spawned_ok_trans [OF ok(1)] by (intro exI [of _ n'] exI [of _ w'] exI [of _ "bs @ cs"]) simp
  next
    case SpawnConflict
    with s ok show ?thesis by auto
  qed
qed


lemma spawn_quiet:
  assumes "quiet_deps deps" and "loop_ok deps b pol w" and "en_blockId en = b"
    and "ini_policy (en_core en) = Some pol"
    and "\<forall>x \<in> set (ini_items (en_core en)). selectInitiativePipeline x pol \<in> set (lw_pipelines w)"
  shows "\<exists>n w' bs. spawn deps en w = (Inr n, w') \<and> spawned_ok deps b pol w w' bs \<and> n = length bs
    \<and> (\<forall>ph. deriveCurrentPhase (en_core en) = Some ph \<longrightarrow>
         length bs \<le> effectiveMaxConcurrent (en_core en) (Some ph) - activeItemCount (en_core en))"
proof -
  have none: "\<exists>n w' bs. (Inr 0 :: loop_error + nat, w) = (Inr n, w') \<and> spawned_ok deps b pol w w' bs \<and> n = length bs
    \<and> (\<forall>ph. deriveCurrentPhase (en_core en) = Some ph \<longrightarrow>
         length bs \<le> effectiveMaxConcurrent (en_core en) (Some ph) - activeItemCount (en_core en))"
    using assms(2) by (intro exI [of _ 0] exI [of _ w] exI [of _ "[]"]) (simp add: spawned_ok_def advances_refl)
  show ?thesis
  proof (cases "deriveCurrentPhase (en_core en)")
    case None
    then show ?thesis using none by (simp add: spawn_def)
  next
    case (Some ph)
    let ?slots = "effectiveMaxConcurrent (en_core en) (Some ph) - activeItemCount (en_core en)"
    show ?thesis
    proof (cases "?slots = 0 \<or> eligibleItemsToSpawn (en_core en) = [] \<or> host_frame w en = None")
      case True
      then have "spawn deps en w = (Inr 0, w)" using Some by (auto simp: spawn_def Let_def)
      with none show ?thesis by simp
    next
      case False
      then obtain frame where f: "host_frame w en = Some frame" by blast
      have "set (eligibleItemsToSpawn (en_core en)) \<subseteq> set (ini_items (en_core en))"
        by (auto simp: eligibleItemsToSpawn_def split: option.splits if_splits)
      with assms(5) have known: "\<forall>x \<in> set (eligibleItemsToSpawn (en_core en)).
          selectInitiativePipeline x pol \<in> set (lw_pipelines w)" by blast
      from spawn_items_quiet [OF assms(1-4) known, of frame ?slots 0] obtain n' w' bs where
        "spawn_items deps frame (lw_pipelines w) ?slots 0 en (eligibleItemsToSpawn (en_core en)) w = (Inr n', w')"
        "spawned_ok deps b pol w w' bs" "n' = length bs" "length bs \<le> ?slots" by auto
      with False Some f show ?thesis by (auto simp: spawn_def Let_def)
    qed
  qed
qed

section \<open>Laws of the checkpoint\<close>

definition reconciled :: "block list \<Rightarrow> initiative \<Rightarrow> initiative" where
  "reconciled blocks c = c\<lparr>ini_items := map (reconcile_item blocks) (ini_items c)\<rparr>"

lemma reconcile_quiet:
  assumes "ld_env deps = (\<lambda>n w. w)" and "rows_unique w" and "stored w b = Some en"
  shows "\<exists>r w'. reconcile deps en blocks w = (Inr r, w')
    \<and> en_core (or_entity r en) = reconciled blocks (en_core en) \<and> en_blockId (or_entity r en) = b
    \<and> stored w' b = Some (or_entity r en) \<and> rows_unique w' \<and> lw_runs w' = lw_runs w"
proof (cases "list_ex (\<lambda>x. nonempty (it_blockId x) \<noteq> None \<and> item_active x) (ini_items (en_core en))")
  case False
  have "reconcile_item blocks x = x" if "x \<in> set (ini_items (en_core en))" for x
    using that False by (auto simp: reconcile_item_def reconcileItem_def list_ex_iff split: option.split)
  then have "reconciled blocks (en_core en) = en_core en"
    unfolding reconciled_def by (subst map_idI) simp_all
  with False assms(2,3) stored_Some [OF assms(3)] show ?thesis
    by (simp add: reconcile_def or_entity_def)
next
  case True
  let ?f = "reconcile_transform deps (lw_now w) blocks"
  have b: "en_blockId en = b" using stored_Some [OF assms(3)] by simp
  obtain nxt v' where n: "?f en (False, lw_ids w) = Inr (nxt, v')" "en_id nxt = en_id en"
      "en_blockId nxt = en_blockId en" "en_core nxt = reconciled blocks (en_core en)"
    by (simp add: reconcile_transform_def Let_def split_def reconciled_def)
  from mutate_quiet [where f = ?f and v = "(False, lw_ids w)", OF assms n(1-3)] obtain p t es where
    m: "mutate_with deps b ?f (False, lw_ids w) w = (Inr (Some p, v'), w\<lparr>lw_table := t, lw_events := es\<rparr>)"
    and r: "en_core p = en_core nxt" "en_blockId p = b"
      "stored (w\<lparr>lw_table := t, lw_events := es\<rparr>) b = Some p"
      "rows_unique (w\<lparr>lw_table := t, lw_events := es\<rparr>)" by blast
  let ?w2 = "w\<lparr>lw_table := t, lw_events := es, lw_ids := snd v'\<rparr>"
  obtain es' where es': "notify deps p ItemBlockedCard None ?w2 = (Inr (), ?w2\<lparr>lw_events := es'\<rparr>)"
    using notify_returns by blast
  have "reconcile deps en blocks w
      = (Inr (Some p), if fst v' then ?w2\<lparr>lw_events := es'\<rparr> else ?w2)"
    using True m es' b
    by (cases v') (simp add: reconcile_def act_bind_def act_then_def act_return_def Let_def)
  with r n(4) show ?thesis by (simp add: or_entity_def stored_def rows_unique_def)
qed

lemma recommit_quiet:
  assumes "ld_env deps = (\<lambda>n w. w)" and "rows_unique w" and "stored w b = Some en"
    and "en_status en \<noteq> IniPlanning" and "en_status en \<noteq> IniAwaitingApproval"
  shows "\<exists>w' p. recommitTracker deps b r w = (Inr (), w') \<and> stored w' b = Some p
    \<and> en_core p = en_core en \<and> rows_unique w' \<and> lw_runs w' = lw_runs w"
proof -
  have ids: "en_id (mark_executing now doc en) = en_id en"
    "en_blockId (mark_executing now doc en) = en_blockId en"
    "en_core (mark_executing now doc en) = en_core en" for now doc
    using assms(4,5)
    by (simp_all add: mark_executing_def Let_def set_ini_status_def on_core_def en_status_def
        split: option.split)
  have mark: "\<exists>w' p. snd (markExecuting deps b d w) = w' \<and> stored w' b = Some p \<and> en_core p = en_core en
      \<and> rows_unique w' \<and> lw_runs w' = lw_runs w" for d
  proof -
    from update_gen [where f = "mark_executing (lw_now w) d", OF assms(1-3) ids(1,2)] obtain p t es where
      "update_entity deps b (mark_executing (lw_now w) d) w
        = (Inr (Some p), w\<lparr>lw_table := t, lw_events := es\<rparr>)" "en_core p = en_core en"
      "stored (w\<lparr>lw_table := t, lw_events := es\<rparr>) b = Some p"
      "rows_unique (w\<lparr>lw_table := t, lw_events := es\<rparr>)" unfolding ids(3) by blast
    then show ?thesis by (simp add: markExecuting_def)
  qed
  show ?thesis
  proof (cases "ld_commit deps")
    case None
    with assms show ?thesis by (simp add: recommitTracker_def)
  next
    case (Some commit)
    show ?thesis
    proof (cases "r = Some (en_rev en) \<or> commit en = None")
      case True
      with Some assms show ?thesis by (auto simp: recommitTracker_def stored_def)
    next
      case False
      then obtain d where "recommitTracker deps b r w = (Inr (), snd (markExecuting deps b (Some d) w))"
        using Some assms(3) by (auto simp: recommitTracker_def stored_def)
      with mark [of "Some d"] show ?thesis by simp
    qed
  qed
qed

lemma pendingCheckpoint_Some:
  "pendingCheckpoint c = Some p \<Longrightarrow> p \<in> set (ini_phases c) \<and> ph_checkpointClearedAt p = None"
  unfolding pendingCheckpoint_def by (auto simp: find_Some_iff)

lemma cleared_not_pending:
  assumes "pendingCheckpoint (applyCheckpointCleared c i now) = Some q"
  shows "ph_id q \<noteq> i"
proof -
  let ?g = "\<lambda>x. if ph_id x = i then x\<lparr>ph_checkpointClearedAt := Some now\<rparr> else x"
  have p: "q \<in> ?g ` set (ini_phases c)" "ph_checkpointClearedAt q = None"
    using pendingCheckpoint_Some [OF assms] by (simp_all add: applyCheckpointCleared_def)
  from p(1) obtain x where q: "q = ?g x" by (rule imageE)
  show ?thesis
  proof (cases "ph_id x = i")
    case True
    with q p(2) show ?thesis by simp
  next
    case False
    with q show ?thesis by simp
  qed
qed

section \<open>Properties\<close>


definition example_loop_deps :: loop_deps where
  "example_loop_deps = \<lparr>ld_nextId = (\<lambda>p k. p @ digits k), ld_start = (\<lambda>w b p g. None),
     ld_notify = True, ld_commit = None, ld_env = (\<lambda>n w. w)\<rparr>"

definition example_entity :: "draft_phase list \<Rightarrow> draft_item list \<Rightarrow> entity" where
  "example_entity phs items = \<lparr>en_id = ''i1'', en_blockId = ''ini'', en_slug = ''s'', en_title = ''T'',
     en_core = (applyPlanDraft bare_initiative (bare_draft phs items) 1)\<lparr>ini_status := IniExecuting\<rparr>,
     en_deviations = [], en_doc = None, en_rev = 3, en_createdAt = 0, en_updatedAt = 1\<rparr>"

text \<open>Two independent items of one phase under a cap of one, and a world that stores them.\<close>

definition two_item_entity :: entity where
  "two_item_entity = example_entity [bare_phase (Some ''p1'') ''One'']
     [bare_item ''a'' ''p1'' [], bare_item ''b'' ''p1'' []]"

definition loop_example :: "entity \<Rightarrow> loop_world" where
  "loop_example en = \<lparr>lw_table = [en],
     lw_blocks = [bare_block ''f'' FrameLevel None, bare_block ''ini'' InitiativeLevel (Some ''f'')],
     lw_pipelines = [''pl''], lw_runs = [], lw_events = [], lw_ids = 0, lw_now = 5\<rparr>"

lemma example_quiet: "quiet_deps example_loop_deps"
  by (simp add: quiet_deps_def example_loop_deps_def inj_def)

lemma example_stored: "stored (loop_example en) (en_blockId en) = Some en"
  by (simp add: stored_def loop_example_def getInitiativeByBlock_def)

lemma example_rows: "rows_unique (loop_example en)"
  by (simp add: rows_unique_def loop_example_def)

lemma two_items:
  "map it_id (ini_items (en_core two_item_entity)) = [''a'', ''b'']"
  "map it_blockId (ini_items (en_core two_item_entity)) = [None, None]"
  "map (\<lambda>x. selectInitiativePipeline x bare_policy) (ini_items (en_core two_item_entity)) = [''pl'', ''pl'']"
  "ini_policy (en_core two_item_entity) = Some bare_policy"
  "en_blockId two_item_entity = ''ini''"
  by code_simp+

lemma two_items_ok:
  "loop_ok example_loop_deps ''ini'' bare_policy (loop_example two_item_entity)"
  "\<forall>x \<in> set (ini_items (en_core two_item_entity)).
     selectInitiativePipeline x bare_policy \<in> set (lw_pipelines (loop_example two_item_entity))"
proof -
  have s: "stored (loop_example two_item_entity) ''ini'' = Some two_item_entity"
    using example_stored [of two_item_entity] by (simp add: two_items)
  have "set (map it_blockId (ini_items (en_core two_item_entity))) = {None}" by (simp add: two_items)
  then have "\<forall>x \<in> set (ini_items (en_core two_item_entity)). it_blockId x = None" by auto
  then show "loop_ok example_loop_deps ''ini'' bare_policy (loop_example two_item_entity)"
    unfolding loop_ok_def core_items_def s by (simp add: example_rows two_items)
  have "set (map (\<lambda>x. selectInitiativePipeline x bare_policy) (ini_items (en_core two_item_entity))) = {''pl''}"
    by (simp add: two_items)
  then show "\<forall>x \<in> set (ini_items (en_core two_item_entity)).
     selectInitiativePipeline x bare_policy \<in> set (lw_pipelines (loop_example two_item_entity))"
    by (auto simp: loop_example_def)
qed




text \<open>
  A checkpoint is a barrier: a tick that finds a finished checkpoint phase not yet acknowledged
  starts nothing and leaves the initiative paused, and only a resume, which acknowledges that very
  phase, sets it executing again; the same checkpoint never stops it a second time.
\<close>

theorem checkpoint_is_a_barrier:
  assumes "ld_env deps = (\<lambda>n w. w)" and "rows_unique w" and "stored w b = Some en"
    and "en_status en = IniExecuting"
    and "pendingCheckpoint (reconciled (readSpawnedBlocks w en) (en_core en)) = Some p"
  shows "\<exists>w1 e1 w2 e2. tick deps en w = (Inr (0, False), w1) \<and> lw_runs w1 = lw_runs w
    \<and> stored w1 b = Some e1 \<and> en_status e1 = IniPaused
    \<and> resumeInitiative deps b w1 = (Inr (Some e2), w2) \<and> stored w2 b = Some e2
    \<and> en_status e2 = IniExecuting
    \<and> (\<forall>q. pendingCheckpoint (en_core e2) = Some q \<longrightarrow> ph_id q \<noteq> ph_id p)"
proof -
  let ?blocks = "readSpawnedBlocks w en"
  have b: "en_blockId en = b" using stored_Some [OF assms(3)] by simp
  from reconcile_quiet [OF assms(1-3), of ?blocks] obtain r u where
    rc: "reconcile deps en ?blocks w = (Inr r, u)" and
    f: "en_core (or_entity r en) = reconciled ?blocks (en_core en)" "en_blockId (or_entity r en) = b"
      "stored u b = Some (or_entity r en)" "rows_unique u" "lw_runs u = lw_runs w" by blast
  let ?f = "or_entity r en"
  have exec: "en_status ?f = IniExecuting" using assms(4) f(1) by (simp add: en_status_def reconciled_def)
  have pc: "pendingCheckpoint (en_core ?f) = Some p" using assms(5) f(1) by simp
  have t: "checkpoint_transform p ?f False = Inr (set_ini_status IniPaused ?f, True)"
    using exec pc by (simp add: checkpoint_transform_def)
  have "\<exists>q t es. mutate_with deps b (checkpoint_transform p) False u
        = (Inr (Some q, True), u\<lparr>lw_table := t, lw_events := es\<rparr>)
    \<and> en_core q = en_core (set_ini_status IniPaused ?f) \<and> en_blockId q = b
    \<and> stored (u\<lparr>lw_table := t, lw_events := es\<rparr>) b = Some q
    \<and> rows_unique (u\<lparr>lw_table := t, lw_events := es\<rparr>)"
    by (rule mutate_quiet [where f = "checkpoint_transform p" and v = False, OF assms(1) f(4,3) t]) (simp_all add: set_ini_status_def on_core_def)
  then obtain q u1 where
    m: "mutate_with deps b (checkpoint_transform p) False u = (Inr (Some q, True), u1)" and
    q: "en_core q = en_core (set_ini_status IniPaused ?f)" "stored u1 b = Some q" "rows_unique u1"
      "lw_runs u1 = lw_runs w" using f(5) by fastforce
  have qp: "en_status q = IniPaused" using q(1) by (simp add: en_status_def set_ini_status_def on_core_def)
  from recommit_quiet [OF assms(1) q(3,2), of "Some (en_rev en)"] qp obtain u2 e1 where
    rt: "recommitTracker deps b (Some (en_rev en)) u1 = (Inr (), u2)" and
    e1: "stored u2 b = Some e1" "en_core e1 = en_core q" "rows_unique u2" "lw_runs u2 = lw_runs w"
    using q(4) by auto
  obtain es where nt: "notify deps ?f CheckpointCard (Some p) u2 = (Inr (), u2\<lparr>lw_events := es\<rparr>)"
    using notify_returns by blast
  let ?w1 = "u2\<lparr>lw_events := es\<rparr>"
  have "pauseAtCheckpoint deps ?f p (en_rev en) u = (Inr (), ?w1)"
    by (simp add: pauseAtCheckpoint_def f(2) act_bind_def m act_then_def rt nt)
  then have tick: "tick deps en w = (Inr (0, False), ?w1)"
    using assms(3,4) b rc pc
    by (simp add: tick_def stored_def act_bind_def act_then_def act_return_def Let_def)
  have paused: "en_status e1 = IniPaused" using e1(2) qp by (simp add: en_status_def)
  have pc1: "pendingCheckpoint (en_core e1) = Some p"
    using pc q(1) e1(2) by (simp add: pendingCheckpoint_def set_ini_status_def on_core_def)
  let ?g = "\<lambda>en. if en_status en \<noteq> IniPaused then en else set_ini_status IniExecuting
       (case pendingCheckpoint (en_core en) of None \<Rightarrow> en
        | Some p \<Rightarrow> on_core (\<lambda>i. applyCheckpointCleared i (ph_id p) (lw_now ?w1)) en)"
  have ge: "?g e1 = set_ini_status IniExecuting (on_core (\<lambda>i. applyCheckpointCleared i (ph_id p) (lw_now ?w1)) e1)"
    using paused pc1 by simp
  have s1: "stored ?w1 b = Some e1" "rows_unique ?w1" using e1 by simp_all
  have "\<exists>e2 w2. update_entity deps b ?g ?w1 = (Inr (Some e2), w2) \<and> en_core e2 = en_core (?g e1)
      \<and> stored w2 b = Some e2"
    using update_gen [where f = ?g, OF assms(1) s1(2,1)] unfolding ge
    by (fastforce simp: set_ini_status_def on_core_def)
  then obtain e2 w2 where
    e2: "resumeInitiative deps b ?w1 = (Inr (Some e2), w2)" "en_core e2 = en_core (?g e1)" "stored w2 b = Some e2"
    unfolding resumeInitiative_def by blast
  have c2: "en_core e2 = (applyCheckpointCleared (en_core e1) (ph_id p) (lw_now ?w1))\<lparr>ini_status := IniExecuting\<rparr>"
    using e2(2) unfolding ge by (simp add: set_ini_status_def on_core_def)
  have "pendingCheckpoint (en_core e2) = pendingCheckpoint (applyCheckpointCleared (en_core e1) (ph_id p) (lw_now ?w1))"
    unfolding c2 by (simp add: pendingCheckpoint_def)
  then have "\<forall>q. pendingCheckpoint (en_core e2) = Some q \<longrightarrow> ph_id q \<noteq> ph_id p"
    using cleared_not_pending by metis
  moreover have "en_status e2 = IniExecuting" by (simp add: en_status_def c2)
  ultimately show ?thesis
    using tick e2(1,3) s1(1) paused e1(4) by (intro exI conjI) simp_all
qed

definition checkpoint_entity :: entity where
  "checkpoint_entity = on_core (\<lambda>c. c\<lparr>ini_items := map (\<lambda>x. x\<lparr>it_status := ItemDone\<rparr>) (ini_items c)\<rparr>)
     (example_entity [(bare_phase (Some ''p1'') ''One'')\<lparr>dp_checkpoint := Some True\<rparr>]
        [bare_item ''a'' ''p1'' []])"

theorem checkpoint_is_a_barrier_witness:
  "\<exists>w1 e1. tick example_loop_deps checkpoint_entity (loop_example checkpoint_entity) = (Inr (0, False), w1)
     \<and> stored w1 ''ini'' = Some e1 \<and> en_status e1 = IniPaused"
proof -
  have b: "en_blockId checkpoint_entity = ''ini''" "en_status checkpoint_entity = IniExecuting" by code_simp+
  have env: "ld_env example_loop_deps = (\<lambda>n w. w)" by (simp add: example_loop_deps_def)
  have "pendingCheckpoint (reconciled (readSpawnedBlocks (loop_example checkpoint_entity) checkpoint_entity)
      (en_core checkpoint_entity)) = Some (hd (ini_phases (en_core checkpoint_entity)))" by code_simp
  moreover have "stored (loop_example checkpoint_entity) ''ini'' = Some checkpoint_entity"
    using example_stored [of checkpoint_entity] b(1) by simp
  ultimately show ?thesis
    using checkpoint_is_a_barrier [OF env example_rows _ b(2)] by blast
qed

text \<open>
  The cap and the cancellation bind only a tick that holds the stored entity. A second tick that
  read the plan before the first one's claims computes its own free slots, finds the first item
  taken, moves on to the next and starts it: two items run under a cap of one. And a tick that read
  the plan before it was cancelled still claims and starts an item of the cancelled initiative,
  since a claim looks at the item only.
\<close>

theorem stale_tick_overspawns:
  "(case spawn example_loop_deps two_item_entity (loop_example two_item_entity) of (r1, w1) \<Rightarrow>
   case spawn example_loop_deps two_item_entity w1 of (r2, w2) \<Rightarrow>
     r1 = Inr 1 \<and> r2 = Inr 1 \<and> map (\<lambda>en. activeItemCount (en_core en)) (lw_table w2) = [2]
     \<and> map_option po_maxConcurrent (ini_policy (en_core two_item_entity)) = Some 1)
   \<and> (case cancelInitiative example_loop_deps ''ini'' (loop_example two_item_entity) of (r1, w1) \<Rightarrow>
   case spawn example_loop_deps two_item_entity w1 of (r2, w2) \<Rightarrow>
     map en_status (lw_table w1) = [IniCancelled] \<and> r2 = Inr 1
     \<and> map en_status (lw_table w2) = [IniCancelled] \<and> length (lw_runs w2) = 1)"
  by code_simp

definition finished_entity :: entity where
  "finished_entity = on_core (\<lambda>c. c\<lparr>ini_items := map (\<lambda>x. x\<lparr>it_status := ItemDone\<rparr>) (ini_items c)\<rparr>)
     two_item_entity"

fun is_complete_card :: "loop_event \<Rightarrow> bool" where
  "is_complete_card (InitiativeCard CompleteCard b t x) = True"
| "is_complete_card e = False"

text \<open>
  The end of an initiative is announced once per tick that saw it unfinished, not once: the
  second of two ticks that both read it executing changes nothing, finds it done, and raises the
  completion card and the board event again, which the checkpoint's pause takes care not to do.
\<close>

theorem completion_is_announced_twice:
  "case complete_initiative example_loop_deps finished_entity (loop_example finished_entity) of (r1, w1) \<Rightarrow>
   case complete_initiative example_loop_deps finished_entity w1 of (r2, w2) \<Rightarrow>
     lw_table w2 = lw_table w1 \<and> length (filter is_complete_card (lw_events w1)) = 1
     \<and> length (filter is_complete_card (lw_events w2)) = 2"
  by code_simp

end
