(* ===== verification/BoardService.thy ===== *)
theory BoardService
  imports Board
begin

text \<open>
  The writes of the board (\<^verbatim>\<open>orchestration/src/modules/board/BoardService.ts\<close>,
  \<^verbatim>\<open>reparentWrite.ts\<close>, \<^verbatim>\<open>blockRemoval.ts\<close>, \<^verbatim>\<open>removal-cascade.ts\<close>): dependencies, epics, modules,
  moves and deletions over the boards of all workspaces. A block lives on the board of its home
  workspace; another workspace sees it by mounting its service. The existence of a workspace, the
  selection guard of risk policies and the side tables keyed by a deleted block are left out; what
  other requests do between two steps of a dependency write is the parameter \<open>env\<close>. The
  lemmas show that a dependency write keeps every board's graph acyclic, that moves and deletions keep
  the containment tree legal and leave nothing dangling, and where the guards of an edge can be passed.
\<close>

section \<open>The boards\<close>

record board_world =
  bd_homes :: "(string \<times> block list) list"
  bd_stamps :: "(string \<times> string) list"
  bd_services :: "(string \<times> string) list"
  bd_mounts :: "(string \<times> string) list"
  bd_runs :: "(string \<times> string \<times> string) list"
  bd_events :: "(string \<times> string) list"
  bd_ids :: nat

text \<open>
  \<open>bd_stamps\<close>: the service a block belongs to; \<open>bd_services\<close>: the service of a frame block;
  \<open>bd_mounts\<close>: (workspace, service); \<open>bd_runs\<close>: (workspace, block, run); \<open>bd_events\<close>: (workspace,
  reason).
\<close>

datatype service_error =
    BlockMissing string
  | SelfDependencyRefused | OnlyTasksDepend | CycleRefused
  | SelfContainment | IllegalParent block_level block_level | DocumentRepoOnly
  | PolicyMoveRefused
  | UnfinishedTasks nat
  | NotAFrame | NotATask | NotAnEpic

type_synonym 'a board_act = "(board_world, service_error, 'a) action"

definition board_of :: "board_world \<Rightarrow> string \<Rightarrow> block list" where
  "board_of w ws = (case map_of (bd_homes w) ws of None \<Rightarrow> [] | Some bs \<Rightarrow> bs)"

fun put_board :: "string \<Rightarrow> block list \<Rightarrow> (string \<times> block list) list \<Rightarrow> (string \<times> block list) list" where
  "put_board ws bs [] = [(ws, bs)]"
| "put_board ws bs ((k, v) # hs) = (if k = ws then (k, bs) # hs else (k, v) # put_board ws bs hs)"

definition set_board :: "string \<Rightarrow> block list \<Rightarrow> board_world \<Rightarrow> board_world" where
  "set_board ws bs w = w\<lparr>bd_homes := put_board ws bs (bd_homes w)\<rparr>"

definition get_on_board :: "board_world \<Rightarrow> string \<Rightarrow> string \<Rightarrow> block option" where
  "get_on_board w ws i = List.find (\<lambda>b. bl_id b = i) (board_of w ws)"

text \<open>A block id is unique across workspaces.\<close>

definition findBlockById :: "board_world \<Rightarrow> string \<Rightarrow> (string \<times> block) option" where
  "findBlockById w i = List.find (\<lambda>(ws, b). bl_id b = i)
     (concat (map (\<lambda>(ws, bs). map (Pair ws) bs) (bd_homes w)))"

definition update_on_board :: "string \<Rightarrow> string \<Rightarrow> (block \<Rightarrow> block) \<Rightarrow> board_world \<Rightarrow> board_world" where
  "update_on_board ws i f w =
     set_board ws (map (\<lambda>b. if bl_id b = i then f b else b) (board_of w ws)) w"

definition emit_board :: "string \<Rightarrow> string \<Rightarrow> board_world \<Rightarrow> board_world" where
  "emit_board ws reason w = w\<lparr>bd_events := bd_events w @ [(ws, reason)]\<rparr>"

definition mounts_block :: "board_world \<Rightarrow> string \<Rightarrow> string \<Rightarrow> bool" where
  "mounts_block w ws i = (case map_of (bd_stamps w) i of
      None \<Rightarrow> False | Some sv \<Rightarrow> (ws, sv) \<in> set (bd_mounts w))"

definition resolveBlock :: "string \<Rightarrow> string \<Rightarrow> (string \<times> block) board_act" where
  "resolveBlock ws i w = (case get_on_board w ws i of
      Some b \<Rightarrow> (Inr (ws, b), w)
    | None \<Rightarrow> (case findBlockById w i of
        None \<Rightarrow> (Inl (BlockMissing i), w)
      | Some (home, b) \<Rightarrow> if mounts_block w ws i then (Inr (home, b), w)
                           else (Inl (BlockMissing i), w)))"

definition resolveBlockHomeForRemoval :: "board_world \<Rightarrow> string \<Rightarrow> string \<Rightarrow> string" where
  "resolveBlockHomeForRemoval w ws i = (case get_on_board w ws i of
      Some b \<Rightarrow> ws
    | None \<Rightarrow> (case findBlockById w i of
        None \<Rightarrow> ws | Some (home, b) \<Rightarrow> if mounts_block w ws i then home else ws))"

definition serviceForContainer :: "board_world \<Rightarrow> block list \<Rightarrow> block \<Rightarrow> string option" where
  "serviceForContainer w blocks container =
     (let frame = (if bl_level container = FrameLevel then Some container
                   else Option.bind (serviceOf blocks container) (\<lambda>f. f))
      in Option.bind frame (\<lambda>f. map_of (bd_services w) (bl_id f)))"

text \<open>\<^verbatim>\<open>setService(ids, service ?? null)\<close>\<close>

definition setService :: "string list \<Rightarrow> string option \<Rightarrow> board_world \<Rightarrow> board_world" where
  "setService ids sv w = w\<lparr>bd_stamps :=
     (case sv of None \<Rightarrow> [] | Some s \<Rightarrow> map (\<lambda>i. (i, s)) ids)
       @ filter (\<lambda>(i, s). i \<notin> set ids) (bd_stamps w)\<rparr>"

section \<open>Dependencies\<close>

datatype edge_mode = ToggleEdge | AddEdge | RemoveEdge

definition set_deps :: "string list \<Rightarrow> block \<Rightarrow> block" where
  "set_deps ds b = b\<lparr>bl_dependsOn := ds\<rparr>"

text \<open>
  The tail of the write: re-read the target and announce it.
\<close>

definition finish_dependency :: "string \<Rightarrow> string \<Rightarrow> block board_act" where
  "finish_dependency home targetId w = (case get_on_board w home targetId of
      None \<Rightarrow> (Inl (BlockMissing targetId), w)
    | Some b \<Rightarrow> (Inr b, emit_board home ''dependency-toggled'' w))"

text \<open>
  Adding: the check against the board as it stands, the write of the list computed from the target
  as it was read, the second check, and the rollback to the list that was read.
\<close>

definition add_dependency ::
  "(nat \<Rightarrow> board_world \<Rightarrow> board_world) \<Rightarrow> string \<Rightarrow> string \<Rightarrow> block \<Rightarrow> string \<Rightarrow> block board_act" where
  "add_dependency env ws home target sourceId w =
     (case resolveBlock ws sourceId w of
        (Inl e, w1) \<Rightarrow> (Inl e, w1)
      | (Inr (sourceHome, source), w1) \<Rightarrow>
          if bl_level target \<noteq> TaskLevel \<or> bl_level source \<noteq> TaskLevel then (Inl OnlyTasksDepend, w1)
          else
            (let w2 = env 0 w1
             in if wouldCreateCycle (board_of w2 home) (bl_id target) sourceId then (Inl CycleRefused, w2)
                else
                  (let w3 = update_on_board home (bl_id target)
                         (set_deps (bl_dependsOn target @ [sourceId])) (env 1 w2);
                       w4 = env 2 w3
                   in if wouldCreateCycle (board_of w4 home) (bl_id target) sourceId
                      then (Inl CycleRefused,
                            update_on_board home (bl_id target) (set_deps (bl_dependsOn target)) (env 3 w4))
                      else finish_dependency home (bl_id target) w4)))"

definition writeDependency ::
  "(nat \<Rightarrow> board_world \<Rightarrow> board_world) \<Rightarrow> string \<Rightarrow> string \<Rightarrow> string \<Rightarrow> edge_mode \<Rightarrow> block board_act" where
  "writeDependency env ws targetId sourceId mode w =
     (if targetId = sourceId then (Inl SelfDependencyRefused, w)
      else case resolveBlock ws targetId w of
        (Inl e, w1) \<Rightarrow> (Inl e, w1)
      | (Inr (home, target), w1) \<Rightarrow>
          (let present = sourceId \<in> set (bl_dependsOn target)
           in if (mode = AddEdge \<and> present) \<or> (mode = RemoveEdge \<and> \<not> present) then (Inr target, w1)
              else if present
              then finish_dependency home targetId
                     (update_on_board home targetId
                        (set_deps (filter (\<lambda>d. d \<noteq> sourceId) (bl_dependsOn target))) (env 1 w1))
              else add_dependency env ws home target sourceId w1))"

definition toggleDependency ::
  "(nat \<Rightarrow> board_world \<Rightarrow> board_world) \<Rightarrow> string \<Rightarrow> string \<Rightarrow> string \<Rightarrow> block board_act" where
  "toggleDependency env ws targetId sourceId = writeDependency env ws targetId sourceId ToggleEdge"

definition setDependency ::
  "(nat \<Rightarrow> board_world \<Rightarrow> board_world) \<Rightarrow> string \<Rightarrow> string \<Rightarrow> string \<Rightarrow> bool \<Rightarrow> block board_act" where
  "setDependency env ws targetId sourceId linked =
     writeDependency env ws targetId sourceId (if linked then AddEdge else RemoveEdge)"

section \<open>Epics and modules\<close>

definition assignToEpic :: "string \<Rightarrow> string \<Rightarrow> string option \<Rightarrow> block board_act" where
  "assignToEpic ws taskId epicId w =
     act_bind (resolveBlock ws taskId) (\<lambda>(home, task) w1.
       if bl_level task \<noteq> TaskLevel then (Inl NotATask, w1)
       else act_then
         (case nonempty epicId of
            None \<Rightarrow> act_return ()
          | Some e \<Rightarrow> act_bind (resolveBlock ws e) (\<lambda>(h, epic).
              if bl_level epic \<noteq> EpicLevel then act_throw NotAnEpic else act_return ()))
         (\<lambda>w2. let w3 = update_on_board home taskId (\<lambda>b. b\<lparr>bl_epicId := epicId\<rparr>) w2
               in case get_on_board w3 home taskId of
                    None \<Rightarrow> (Inl (BlockMissing taskId), w3)
                  | Some b \<Rightarrow> (Inr b, emit_board home ''epic-assigned'' w3)) w1) w"

definition insert_block :: "string \<Rightarrow> block \<Rightarrow> string option \<Rightarrow> board_world \<Rightarrow> board_world" where
  "insert_block ws b sv w =
     setService [bl_id b] sv (set_board ws (board_of w ws @ [b]) w)"

definition module_block :: "string \<Rightarrow> string \<Rightarrow> block \<Rightarrow> block" where
  "module_block i name service =
     (bare_block i ModuleLevel (Some (bl_id service)))\<lparr>bl_title := name, bl_type := bl_type service,
        bl_description := ''Module within '' @ bl_title service @ ''.''\<rparr>"

fun insert_modules ::
  "(string \<Rightarrow> nat \<Rightarrow> string) \<Rightarrow> string \<Rightarrow> block \<Rightarrow> string option \<Rightarrow> string list \<Rightarrow> block list board_act" where
  "insert_modules nextId home service sv [] w = (Inr [], w)"
| "insert_modules nextId home service sv (name # names) w =
     (let b = module_block (nextId ''mod'' (bd_ids w)) name service;
          w1 = emit_board home ''block-added'' (insert_block home b sv (w\<lparr>bd_ids := Suc (bd_ids w)\<rparr>))
      in act_bind (insert_modules nextId home service sv names) (\<lambda>bs. act_return (b # bs)) w1)"

definition addModules ::
  "(string \<Rightarrow> nat \<Rightarrow> string) \<Rightarrow> string \<Rightarrow> string \<Rightarrow> string list \<Rightarrow> block list board_act" where
  "addModules nextId ws serviceId names w =
     (if names = [] then (Inr [], w)
      else act_bind (resolveBlock ws serviceId) (\<lambda>(home, service) w1.
        if bl_level service \<noteq> FrameLevel then (Inl NotAFrame, w1)
        else insert_modules nextId home service
               (serviceForContainer w1 (board_of w1 home) service) names w1) w)"

definition addEpic ::
  "(string \<Rightarrow> nat \<Rightarrow> string) \<Rightarrow> string \<Rightarrow> string \<Rightarrow> string \<Rightarrow> string option \<Rightarrow> block board_act" where
  "addEpic nextId ws title description parent w =
     act_bind (case nonempty parent of
         None \<Rightarrow> act_return None
       | Some p \<Rightarrow> act_bind (resolveBlock ws p) (\<lambda>(h, b).
           if \<not> canReparent EpicLevel b then act_throw (IllegalParent EpicLevel (bl_level b))
           else act_return (Some p)))
       (\<lambda>parentId w1.
          let b = (bare_block (nextId ''epic'' (bd_ids w1)) EpicLevel parentId)\<lparr>bl_title := js_trim title,
                    bl_description := js_trim description\<rparr>
          in (Inr b, emit_board ws ''block-added''
                (insert_block ws b None (w1\<lparr>bd_ids := Suc (bd_ids w1)\<rparr>)))) w"

section \<open>Moving a block\<close>

definition task_type_allowed :: "block option \<Rightarrow> string option \<Rightarrow> bool" where
  "task_type_allowed frame taskType \<longleftrightarrow>
     \<not> (map_option bl_type frame = Some DocumentType
        \<and> taskType \<noteq> Some ''document'' \<and> taskType \<noteq> Some ''spike'')"

text \<open>The levels whose blocks run pipelines, so that a move re-decides their risk policy.\<close>

definition BLOCK_LEVEL_RUNS_PIPELINES :: "block_level \<Rightarrow> bool" where
  "BLOCK_LEVEL_RUNS_PIPELINES l \<longleftrightarrow> l = TaskLevel \<or> l = InitiativeLevel"

definition moved_block :: "block option \<Rightarrow> block \<Rightarrow> block \<Rightarrow> block" where
  "moved_block destFrame parent b =
     b\<lparr>bl_parentId := Some (bl_id parent),
       bl_type := (case destFrame of
          Some f \<Rightarrow> if bl_level b = TaskLevel then bl_type f else bl_type b | None \<Rightarrow> bl_type b)\<rparr>"

text \<open>
  The blocks of a removed or moved subtree leave edges behind on the board they were on; a survivor
  is rewritten only where it has one, from the copy that was listed.
\<close>

definition pruned :: "string list \<Rightarrow> block \<Rightarrow> block \<Rightarrow> block" where
  "pruned removed listed b =
     (let keep = (\<lambda>xs. filter (\<lambda>d. d \<notin> set removed) xs);
          deps = keep (bl_dependsOn listed);
          conns = filter (\<lambda>c. sc_serviceBlockId c \<notin> set removed) (list_of (bl_serviceConnections listed));
          involved = keep (list_of (bl_involvedServiceIds listed));
          gone = (\<lambda>f. case nonempty f of None \<Rightarrow> False | Some i \<Rightarrow> i \<in> set removed)
      in b\<lparr>bl_dependsOn := (if length deps \<noteq> length (bl_dependsOn listed) then deps else bl_dependsOn b),
           bl_epicId := (if gone (bl_epicId listed) then None else bl_epicId b),
           bl_initiativeId := (if gone (bl_initiativeId listed) then None else bl_initiativeId b),
           bl_serviceConnections :=
             (if length conns \<noteq> length (list_of (bl_serviceConnections listed)) then Some conns
              else bl_serviceConnections b),
           bl_involvedServiceIds :=
             (if length involved \<noteq> length (list_of (bl_involvedServiceIds listed)) then Some involved
              else bl_involvedServiceIds b)\<rparr>)"

definition pruneDanglingEdges :: "string \<Rightarrow> block list \<Rightarrow> string list \<Rightarrow> board_world \<Rightarrow> board_world" where
  "pruneDanglingEdges ws survivors removed w =
     fold (\<lambda>listed v. if bl_id listed \<in> set removed then v
             else update_on_board ws (bl_id listed) (pruned removed listed) v) survivors w"

definition delete_blocks :: "string \<Rightarrow> string list \<Rightarrow> board_world \<Rightarrow> board_world" where
  "delete_blocks ws ids w = set_board ws (filter (\<lambda>b. bl_id b \<notin> set ids) (board_of w ws)) w"

definition run_of_block :: "board_world \<Rightarrow> string \<Rightarrow> string \<Rightarrow> string option" where
  "run_of_block w ws i = map_option (\<lambda>(x, y, z). z) (List.find (\<lambda>(x, y, z). x = ws \<and> y = i) (bd_runs w))"

definition drop_runs :: "string \<Rightarrow> string \<Rightarrow> board_world \<Rightarrow> board_world" where
  "drop_runs ws i w = w\<lparr>bd_runs := filter (\<lambda>(x, y, z). \<not> (x = ws \<and> y = i)) (bd_runs w)\<rparr>"

text \<open>One block of the subtree: its row goes to the new home, with the run it has.\<close>

definition carry_block ::
  "string \<Rightarrow> string \<Rightarrow> string option \<Rightarrow> (block \<Rightarrow> block) \<Rightarrow> block \<Rightarrow> board_world \<Rightarrow> board_world" where
  "carry_block src dst sv f b w =
     (let w1 = insert_block dst (f b) sv w
      in case run_of_block w1 src (bl_id b) of
           None \<Rightarrow> w1
         | Some r \<Rightarrow> (let w2 = drop_runs src (bl_id b) w1
                      in w2\<lparr>bd_runs := bd_runs w2 @ [(dst, bl_id b, r)]\<rparr>))"

definition boards_mounting :: "board_world \<Rightarrow> string \<Rightarrow> string list" where
  "boards_mounting w i = (case map_of (bd_stamps w) i of
      None \<Rightarrow> [] | Some sv \<Rightarrow> map fst (filter (\<lambda>(ws, s). s = sv) (bd_mounts w)))"

definition move_across ::
  "string \<Rightarrow> string \<Rightarrow> string \<Rightarrow> block \<Rightarrow> block \<Rightarrow> block option \<Rightarrow> block list \<Rightarrow> board_world \<Rightarrow> board_world" where
  "move_across src dst i b parent destFrame destBlocks w =
     (let srcBlocks = board_of w src;
          ids = descendantIds srcBlocks i;
          subtree = List.map_filter (\<lambda>d. List.find (\<lambda>x. bl_id x = d) srcBlocks) ids;
          fanout = remdups (src # boards_mounting w i);
          sv = serviceForContainer w destBlocks parent;
          w1 = fold (carry_block src dst sv
                 (\<lambda>x. if bl_id x = i then moved_block destFrame parent x else x)) subtree w;
          w2 = delete_blocks src ids w1;
          w3 = pruneDanglingEdges src srcBlocks ids w2;
          w4 = emit_board dst ''block-reparented'' w3
      in fold (\<lambda>x. emit_board x ''block-reparented'') (filter (\<lambda>x. x \<noteq> dst) fanout) w4)"

text \<open>\<open>mayMove src dst blocks\<close> is the selection guard of the risk policies of a moved subtree.\<close>

definition reparent ::
  "(string \<Rightarrow> string \<Rightarrow> block list \<Rightarrow> bool) \<Rightarrow> string \<Rightarrow> string \<Rightarrow> string \<Rightarrow> block board_act" where
  "reparent mayMove ws i parentId w =
     act_bind (resolveBlock ws i) (\<lambda>(blockHome, b) w1.
       if i = parentId then (Inl SelfContainment, w1)
       else act_bind (resolveBlock ws parentId) (\<lambda>(parentHome, parent) w2.
         if \<not> canReparent (bl_level b) parent
         then (Inl (IllegalParent (bl_level b) (bl_level parent)), w2)
         else
           (let destBlocks = board_of w2 parentHome;
                destFrame = Option.bind (serviceOf destBlocks parent) (\<lambda>f. f)
            in if bl_level b = TaskLevel \<and> \<not> task_type_allowed destFrame (bl_taskType b)
               then (Inl DocumentRepoOnly, w2)
               else if blockHome = parentHome
               then (let w3 = update_on_board blockHome i (moved_block destFrame parent) w2;
                         w4 = setService (descendantIds destBlocks i)
                                (serviceForContainer w3 destBlocks parent) w3;
                         w5 = emit_board blockHome ''block-reparented'' w4
                     in case get_on_board w5 blockHome i of
                          None \<Rightarrow> (Inl (BlockMissing i), w5) | Some x \<Rightarrow> (Inr x, w5))
               else if \<not> mayMove blockHome parentHome (filter (\<lambda>x. BLOCK_LEVEL_RUNS_PIPELINES (bl_level x))
                      (List.map_filter (\<lambda>d. List.find (\<lambda>x. bl_id x = d) (board_of w2 blockHome))
                         (descendantIds (board_of w2 blockHome) i)))
               then (Inl PolicyMoveRefused, w2)
               else (let w3 = move_across blockHome parentHome i b parent destFrame destBlocks w2
                     in case get_on_board w3 parentHome i of
                          None \<Rightarrow> (Inl (BlockMissing i), w3) | Some x \<Rightarrow> (Inr x, w3)))) w1) w"

section \<open>Deleting a block\<close>

definition unfinished_work :: "block list \<Rightarrow> string \<Rightarrow> nat" where
  "unfinished_work blocks i = (case List.find (\<lambda>b. bl_id b = i) blocks of
      None \<Rightarrow> 0
    | Some target \<Rightarrow>
        if bl_level target \<noteq> FrameLevel \<or> bl_parentId target \<noteq> None then 0
        else length (unfinishedTasksUnder blocks i))"

definition assertRemovable :: "string \<Rightarrow> string \<Rightarrow> (string \<times> block list) board_act" where
  "assertRemovable ws i w =
     (let home = resolveBlockHomeForRemoval w ws i; blocks = board_of w home
      in if unfinished_work blocks i \<noteq> 0 then (Inl (UnfinishedTasks (unfinished_work blocks i)), w)
         else (Inr (home, blocks), w))"

definition removeBlock :: "string \<Rightarrow> string \<Rightarrow> (string \<times> block list) option \<Rightarrow> unit board_act" where
  "removeBlock ws i preloaded w =
     (let home = resolveBlockHomeForRemoval w ws i;
          fanout = remdups (ws # boards_mounting w i);
          blocks = (case preloaded of
             Some (h, bs) \<Rightarrow> if h = home then bs else board_of w home | None \<Rightarrow> board_of w home);
          doomed = descendantIds blocks i
      in if unfinished_work blocks i \<noteq> 0 then (Inl (UnfinishedTasks (unfinished_work blocks i)), w)
         else
           (let w1 = drop_runs home i w;
                w2 = delete_blocks home doomed w1;
                w3 = pruneDanglingEdges home blocks doomed w2
            in (Inr (), fold (\<lambda>x. emit_board x ''block-removed'') fanout w3)))"

section \<open>Laws of the boards\<close>

lemma map_of_put_board: "map_of (put_board ws bs hs) k = (if k = ws then Some bs else map_of hs k)"
  by (induction ws bs hs rule: put_board.induct) auto

lemma board_of_set_board [simp]:
  "board_of (set_board ws bs w) k = (if k = ws then bs else board_of w k)"
  by (simp add: board_of_def set_board_def map_of_put_board)

lemma board_of_update [simp]:
  "board_of (update_on_board ws i f w) k = (if k = ws
     then map (\<lambda>b. if bl_id b = i then f b else b) (board_of w ws) else board_of w k)"
  by (simp add: update_on_board_def)

lemma board_of_fields [simp]:
  "board_of (emit_board ws r w) k = board_of w k" "board_of (setService ids sv w) k = board_of w k"
  "board_of (drop_runs ws i w) k = board_of w k" "board_of (w\<lparr>bd_runs := rs\<rparr>) k = board_of w k"
  by (simp_all add: board_of_def emit_board_def setService_def drop_runs_def)

text \<open>Each workspace has one board, on which an id names one block.\<close>

definition boards_ok :: "board_world \<Rightarrow> bool" where
  "boards_ok w \<longleftrightarrow> distinct (map fst (bd_homes w)) \<and> (\<forall>h. distinct (map bl_id (board_of w h)))"

lemma get_on_board_Some:
  "get_on_board w h i = Some b \<Longrightarrow> b \<in> set (board_of w h) \<and> bl_id b = i"
  unfolding get_on_board_def find_Some_iff by (metis nth_mem)

lemma resolveBlock_Inr:
  assumes "resolveBlock ws i w = (Inr (h, b), w')" and "boards_ok w"
  shows "w' = w \<and> b \<in> set (board_of w h) \<and> bl_id b = i"
proof (cases "get_on_board w ws i")
  case (Some x)
  with assms show ?thesis using get_on_board_Some by (auto simp: resolveBlock_def)
next
  case None
  with assms(1) have f: "findBlockById w i = Some (h, b)" and w: "w' = w"
    by (auto simp: resolveBlock_def split: option.splits if_splits)
  from f have "(h, b) \<in> set (concat (map (\<lambda>(ws, bs). map (Pair ws) bs) (bd_homes w))) \<and> bl_id b = i"
    unfolding findBlockById_def find_Some_iff by (metis (mono_tags, lifting) nth_mem case_prod_conv)
  then obtain bs where "(h, bs) \<in> set (bd_homes w)" "b \<in> set bs" "bl_id b = i" by auto
  moreover then have "board_of w h = bs"
    using assms(2) by (simp add: board_of_def boards_ok_def)
  ultimately show ?thesis using w by simp
qed

lemma block_by_id_mem:
  assumes "distinct (map bl_id bs)" and "b \<in> set bs"
  shows "block_by_id bs (bl_id b) = Some b"
proof -
  obtain x where x: "block_by_id bs (bl_id b) = Some x"
    using assms(2) by (cases "block_by_id bs (bl_id b)") (auto simp: block_by_id_None)
  from block_by_id_Some [OF this] assms have "x = b" by (auto simp: distinct_map dest: inj_onD)
  with x show ?thesis by simp
qed

lemma dep_edges_mem:
  assumes "distinct (map bl_id bs)"
  shows "(i, d) \<in> dep_edges bs \<longleftrightarrow> (\<exists>b \<in> set bs. bl_id b = i \<and> d \<in> set (bl_dependsOn b))"
proof (cases "\<exists>b \<in> set bs. bl_id b = i")
  case True
  then obtain b where b: "b \<in> set bs" "bl_id b = i" by blast
  have "y = b" if "y \<in> set bs" "bl_id y = i" for y
    using that b assms by (auto simp: distinct_map dest: inj_onD)
  have "block_by_id bs i = Some b" using block_by_id_mem [OF assms b(1)] b(2) by simp
  then have "(i, d) \<in> dep_edges bs \<longleftrightarrow> d \<in> set (bl_dependsOn b)" by (simp add: dep_edges_def deps_of_def)
  moreover have "(\<exists>y \<in> set bs. bl_id y = i \<and> d \<in> set (bl_dependsOn y)) \<longleftrightarrow> d \<in> set (bl_dependsOn b)"
    using b \<open>\<And>y. y \<in> set bs \<Longrightarrow> bl_id y = i \<Longrightarrow> y = b\<close> by blast
  ultimately show ?thesis by simp
next
  case False
  then have "block_by_id bs i = None" by (auto simp: block_by_id_None)
  with False show ?thesis by (auto simp: dep_edges_def deps_of_def)
qed

lemma ids_update: "map bl_id (map (\<lambda>x. if bl_id x = i then set_deps ds x else x) bs) = map bl_id bs"
  by (simp add: set_deps_def comp_def)

lemma dep_edges_update:
  assumes "distinct (map bl_id bs)" and "b \<in> set bs"
  shows "dep_edges (map (\<lambda>x. if bl_id x = bl_id b then set_deps ds x else x) bs)
    = {(i, d). (i, d) \<in> dep_edges bs \<and> i \<noteq> bl_id b} \<union> Pair (bl_id b) ` set ds" (is "dep_edges ?bs = ?r")
proof -
  have d: "distinct (map bl_id ?bs)" using assms(1) unfolding ids_update .
  have "(i, d) \<in> dep_edges ?bs \<longleftrightarrow> (i, d) \<in> ?r" for i d
  proof (cases "i = bl_id b")
    case True
    have "(i, d) \<in> dep_edges ?bs \<longleftrightarrow> (\<exists>x \<in> set bs. bl_id x = bl_id b \<and> d \<in> set ds)"
      unfolding dep_edges_mem [OF d] set_map bex_simps(7) True by (auto simp: set_deps_def)
    also have "\<dots> \<longleftrightarrow> d \<in> set ds" using assms(2) by blast
    finally show ?thesis using True by auto
  next
    case False
    have "(i, d) \<in> dep_edges ?bs \<longleftrightarrow> (i, d) \<in> dep_edges bs"
      unfolding dep_edges_mem [OF d] dep_edges_mem [OF assms(1)] set_map bex_simps(7)
      using False by (auto simp: set_deps_def)
    with False show ?thesis by auto
  qed
  then show ?thesis by auto
qed

lemma find_distinct:
  "distinct (map f xs) \<Longrightarrow> x \<in> set xs \<Longrightarrow> List.find (\<lambda>y. f y = f x) xs = Some x"
  by (induction xs) (auto simp: image_iff)

lemma get_after_update:
  assumes "distinct (map bl_id (board_of w h))" and "b \<in> set (board_of w h)"
  shows "get_on_board (update_on_board h (bl_id b) (set_deps ds) w) h (bl_id b) = Some (set_deps ds b)"
proof -
  have "List.find (\<lambda>x. bl_id x = bl_id b) (map (\<lambda>x. if bl_id x = bl_id b then set_deps ds x else x) bs)
      = Some (set_deps ds b)" if "distinct (map bl_id bs)" "b \<in> set bs" for bs
    using that by (induction bs) (auto simp: set_deps_def image_iff)
  from this [OF assms] show ?thesis by (simp add: get_on_board_def)
qed

lemma dep_edges_same:
  assumes "distinct (map bl_id bs)" and "b \<in> set bs"
  shows "(bl_id b, d) \<in> dep_edges bs \<longleftrightarrow> d \<in> set (bl_dependsOn b)"
  using block_by_id_mem [OF assms] by (simp add: dep_edges_def deps_of_def)

lemma dep_edges_add:
  assumes "distinct (map bl_id bs)" and "b \<in> set bs"
  shows "dep_edges (map (\<lambda>x. if bl_id x = bl_id b then set_deps (bl_dependsOn b @ [s]) x else x) bs)
    = insert (bl_id b, s) (dep_edges bs)"
proof -
  have "(i, d) \<in> {(i, d). (i, d) \<in> dep_edges bs \<and> i \<noteq> bl_id b} \<union> Pair (bl_id b) ` set (bl_dependsOn b @ [s])
      \<longleftrightarrow> (i, d) \<in> insert (bl_id b, s) (dep_edges bs)" for i d
    using dep_edges_same [OF assms, of d] by (cases "i = bl_id b") auto
  then show ?thesis unfolding dep_edges_update [OF assms] by auto
qed

lemma dep_edges_drop:
  assumes "distinct (map bl_id bs)" and "b \<in> set bs"
  shows "dep_edges (map (\<lambda>x. if bl_id x = bl_id b
      then set_deps (filter (\<lambda>d. d \<noteq> s) (bl_dependsOn b)) x else x) bs) \<subseteq> dep_edges bs"
  unfolding dep_edges_update [OF assms] using dep_edges_same [OF assms] by auto

text \<open>What a dependency write without interference does to the boards.\<close>

definition edge_written :: "board_world \<Rightarrow> string \<Rightarrow> block \<Rightarrow> string list \<Rightarrow> block board_act" where
  "edge_written w0 h target ds w = (Inr (set_deps ds target),
     emit_board h ''dependency-toggled'' (update_on_board h (bl_id target) (set_deps ds) w0))"

lemma finish_written:
  assumes "boards_ok w" and "T \<in> set (board_of w h)"
  shows "finish_dependency h (bl_id T) (update_on_board h (bl_id T) (set_deps ds) w)
    = edge_written w h T ds w"
  using get_after_update [of w h T ds] assms
  by (simp add: finish_dependency_def edge_written_def boards_ok_def)

lemma cycle_refused_iff:
  "t \<noteq> s \<Longrightarrow> wouldCreateCycle bs t s \<longleftrightarrow> (s, t) \<in> (dep_edges bs)\<^sup>*"
  by (simp only: wouldCreateCycle_def cycle_search_exact if_False)

lemma writeDependency_cases:
  assumes ok: "boards_ok w" and acyc: "\<And>h. acyclic (dep_edges (board_of w h))"
    and wr: "writeDependency (\<lambda>n w. w) ws t s mode w = (r, w')"
  obtains (refused) e where "r = Inl e" "w' = w"
  | (kept) h T where "r = Inr T" "w' = w" "T \<in> set (board_of w h)" "bl_id T = t"
      "mode = AddEdge \<and> s \<in> set (bl_dependsOn T) \<or> mode = RemoveEdge \<and> s \<notin> set (bl_dependsOn T)"
  | (dropped) h T where "T \<in> set (board_of w h)" "bl_id T = t" "mode \<noteq> AddEdge"
      "(r, w') = edge_written w h T (filter (\<lambda>d. d \<noteq> s) (bl_dependsOn T)) w"
  | (added) h T where "T \<in> set (board_of w h)" "bl_id T = t" "mode \<noteq> RemoveEdge"
      "(s, t) \<notin> (dep_edges (board_of w h))\<^sup>*"
      "(r, w') = edge_written w h T (bl_dependsOn T @ [s]) w"
proof (cases "t = s")
  case True
  then have "r = Inl SelfDependencyRefused" "w' = w" using wr by (auto simp: writeDependency_def)
  then show thesis by (rule refused)
next
  case ne: False
  obtain x w1 where x: "resolveBlock ws t w = (x, w1)" by (rule prod.exhaust)
  show thesis
  proof (cases x)
    case (Inl e)
    with x have "w1 = w" by (auto simp: resolveBlock_def split: option.splits if_splits)
    with Inl x wr ne have "r = Inl e" "w' = w" by (auto simp: writeDependency_def)
    then show thesis by (rule refused)
  next
    case (Inr hT)
    then obtain h T where hT: "resolveBlock ws t w = (Inr (h, T), w1)" using x by (cases hT) simp
    from resolveBlock_Inr [OF this ok] have T: "w1 = w" "T \<in> set (board_of w h)" "bl_id T = t" by auto
    have d: "distinct (map bl_id (board_of w h))" using ok by (simp add: boards_ok_def)
    have eq: "(r, w') = (if (mode = AddEdge \<and> s \<in> set (bl_dependsOn T)) \<or> (mode = RemoveEdge \<and> s \<notin> set (bl_dependsOn T))
        then (Inr T, w)
        else if s \<in> set (bl_dependsOn T) then edge_written w h T (filter (\<lambda>d. d \<noteq> s) (bl_dependsOn T)) w
        else add_dependency (\<lambda>n w. w) ws h T s w)"
      unfolding wr [symmetric]
      using hT ne T finish_written [OF ok T(2)] by (simp add: writeDependency_def Let_def)
    show thesis
    proof (cases "(mode = AddEdge \<and> s \<in> set (bl_dependsOn T)) \<or> (mode = RemoveEdge \<and> s \<notin> set (bl_dependsOn T))")
      case True
      with eq T kept show thesis by auto
    next
      case nk: False
      show thesis
      proof (cases "s \<in> set (bl_dependsOn T)")
        case True
        with eq nk T dropped show thesis by auto
      next
        case False
        with nk have md: "mode \<noteq> RemoveEdge" by simp
        have add: "(r, w') = add_dependency (\<lambda>n w. w) ws h T s w" using eq nk False by simp
        obtain y w2 where y: "resolveBlock ws s w = (y, w2)" by (rule prod.exhaust)
        then have w2: "w2 = w" by (auto simp: resolveBlock_def split: option.splits if_splits)
        show thesis
        proof (cases "\<exists>sh S. y = Inr (sh, S) \<and> bl_level T = TaskLevel \<and> bl_level S = TaskLevel
            \<and> \<not> wouldCreateCycle (board_of w h) t s")
          case False
          then obtain e where "(r, w') = (Inl e, w)"
            using add y w2 T(3) by (cases y) (auto simp: add_dependency_def Let_def split: if_splits)
          then show thesis by (intro refused) simp_all
        next
          case True
          then have nc: "(s, t) \<notin> (dep_edges (board_of w h))\<^sup>*"
            using cycle_refused_iff [OF ne] by blast
          let ?w3 = "update_on_board h (bl_id T) (set_deps (bl_dependsOn T @ [s])) w"
          have "dep_edges (board_of ?w3 h) = insert (t, s) (dep_edges (board_of w h))"
            using dep_edges_add [OF d T(2)] T(3) by simp
          moreover have "acyclic (insert (t, s) (dep_edges (board_of w h)))"
            using acyc nc by (simp add: acyclic_insert)
          ultimately have ac: "acyclic (dep_edges (board_of ?w3 h))" "(t, s) \<in> dep_edges (board_of ?w3 h)"
            by simp_all
          have "(s, t) \<notin> (dep_edges (board_of ?w3 h))\<^sup>*"
          proof
            assume "(s, t) \<in> (dep_edges (board_of ?w3 h))\<^sup>*"
            with ac(2) have "(t, t) \<in> (dep_edges (board_of ?w3 h))\<^sup>+" by (rule rtrancl_into_trancl2)
            with ac(1) show False by (simp add: acyclic_def)
          qed
          then have again: "\<not> wouldCreateCycle (board_of ?w3 h) (bl_id T) s"
            using cycle_refused_iff [OF ne] T(3) by blast
          have "(r, w') = finish_dependency h (bl_id T) ?w3"
            using add y w2 True again T(3) by (auto simp: add_dependency_def Let_def)
          then have "(r, w') = edge_written w h T (bl_dependsOn T @ [s]) w"
            using finish_written [OF ok T(2)] by simp
          with added T md nc show thesis by blast
        qed
      qed
    qed
  qed
qed

section \<open>The containment tree\<close>

text \<open>
  On each board an id names one block and every link up leads to a block of the same board that
  \<open>canReparent\<close> admits; an id lives on one board only.
\<close>

definition links_up :: "block list \<Rightarrow> block \<Rightarrow> bool" where
  "links_up bs b \<longleftrightarrow> (\<forall>p. nonempty (bl_parentId b) = Some p \<longrightarrow>
     (\<exists>q \<in> set bs. bl_id q = p \<and> canReparent (bl_level b) q))"

definition board_ok :: "block list \<Rightarrow> bool" where
  "board_ok bs \<longleftrightarrow> distinct (map bl_id bs) \<and> list_all (links_up bs) bs"

definition world_ok :: "board_world \<Rightarrow> bool" where
  "world_ok w \<longleftrightarrow> distinct (map fst (bd_homes w)) \<and> (\<forall>h. board_ok (board_of w h))
     \<and> (\<forall>h k. h \<noteq> k \<longrightarrow> bl_id ` set (board_of w h) \<inter> bl_id ` set (board_of w k) = {})"

definition shape :: "block \<Rightarrow> string \<times> string option \<times> block_level" where
  "shape b = (bl_id b, bl_parentId b, bl_level b)"

lemma world_ok_boards: "world_ok w \<Longrightarrow> boards_ok w"
  by (simp add: world_ok_def boards_ok_def board_ok_def)

lemma fst_put_board: "map fst (put_board ws bs hs) =
    (if ws \<in> fst ` set hs then map fst hs else map fst hs @ [ws])"
  by (induction ws bs hs rule: put_board.induct) auto

lemma homes_distinct:
  assumes "distinct (map fst (bd_homes w))"
  shows "distinct (map fst (bd_homes (set_board ws bs w)))"
    and "distinct (map fst (bd_homes (update_on_board ws i f w)))"
    and "distinct (map fst (bd_homes (setService ids sv w)))"
    and "distinct (map fst (bd_homes (emit_board ws r w)))"
    and "distinct (map fst (bd_homes (drop_runs ws i w)))"
  using assms
  by (simp_all add: update_on_board_def set_board_def setService_def emit_board_def drop_runs_def
      fst_put_board)

lemma canReparent_level: "bl_level q = bl_level q' \<Longrightarrow> canReparent l q = canReparent l q'"
  by (simp add: canReparent_def split: block_level.split)

text \<open>Only the ids, the links and the levels of a board matter.\<close>

lemma links_up_shape:
  assumes "shape ` set bs \<subseteq> shape ` set cs" and "shape b = shape c" and "links_up bs b"
  shows "links_up cs c"
  unfolding links_up_def
proof (intro allI impI)
  fix p assume "nonempty (bl_parentId c) = Some p"
  with assms(2,3) obtain q where q: "q \<in> set bs" "bl_id q = p" "canReparent (bl_level c) q"
    by (auto simp: links_up_def shape_def)
  with assms(1) obtain r where r: "r \<in> set cs" "shape r = shape q" by (metis imageE imageI subsetD)
  then have "bl_id r = p" "canReparent (bl_level c) r"
    using q canReparent_level [of r q] by (simp_all add: shape_def)
  with r show "\<exists>q \<in> set cs. bl_id q = p \<and> canReparent (bl_level c) q" by blast
qed

lemma shape_ids:
  assumes "map shape bs = map shape cs"
  shows "map bl_id bs = map bl_id cs"
proof -
  have "map bl_id xs = map fst (map shape xs)" for xs by (simp add: shape_def)
  with assms show ?thesis by metis
qed

lemma board_ok_shape:
  assumes "map shape bs = map shape cs" and "board_ok bs"
  shows "board_ok cs"
proof -
  have s: "shape ` set bs = shape ` set cs" using assms(1) by (metis set_map)
  have "links_up cs c" if "c \<in> set cs" for c
  proof -
    from that s obtain b where "b \<in> set bs" "shape b = shape c" by (metis imageE imageI)
    with assms(2) s show ?thesis
      by (intro links_up_shape [of bs cs b c]) (simp_all add: board_ok_def list_all_iff)
  qed
  with assms shape_ids [OF assms(1)] show ?thesis by (simp add: board_ok_def list_all_iff)
qed

lemma world_ok_change:
  assumes "world_ok w" and "distinct (map fst (bd_homes w'))"
    and "\<And>k. k \<noteq> h \<Longrightarrow> board_of w' k = board_of w k"
    and "board_ok (board_of w' h)" and "bl_id ` set (board_of w' h) \<subseteq> bl_id ` set (board_of w h)"
  shows "world_ok w'"
proof -
  have sub: "bl_id ` set (board_of w' k) \<subseteq> bl_id ` set (board_of w k)" for k
    using assms(3,5) by (cases "k = h") simp_all
  have "board_ok (board_of w' k)" for k
    using assms(1,3,4) by (cases "k = h") (simp_all add: world_ok_def)
  moreover have "bl_id ` set (board_of w' k) \<inter> bl_id ` set (board_of w' l) = {}" if "k \<noteq> l" for k l
  proof -
    have "bl_id ` set (board_of w k) \<inter> bl_id ` set (board_of w l) = {}"
      using assms(1) that by (simp add: world_ok_def)
    then show ?thesis using sub [of k] sub [of l] by (meson disjoint_iff subsetD)
  qed
  ultimately show ?thesis using assms(2) by (simp add: world_ok_def)
qed

lemma emits_homes [simp]: "bd_homes (fold (\<lambda>x. emit_board x r) xs w) = bd_homes w"
  by (induction xs arbitrary: w) (simp_all add: emit_board_def)

lemma emits_board [simp]: "board_of (fold (\<lambda>x. emit_board x r) xs w) k = board_of w k"
  by (simp add: board_of_def)

lemma shape_simps [simp]: "shape (pruned removed listed b) = shape b" "shape (set_deps ds b) = shape b"
  by (simp_all add: shape_def pruned_def Let_def set_deps_def)

lemma pruned_id [simp]: "bl_id (pruned removed listed b) = bl_id b"
  by (simp add: pruned_def Let_def)

lemma prune_board:
  assumes "distinct (map bl_id listed)"
  shows "board_of (pruneDanglingEdges ws listed removed w) k = (if k = ws
    then map (\<lambda>b. case List.find (\<lambda>l. bl_id l = bl_id b) listed of
          None \<Rightarrow> b | Some l \<Rightarrow> if bl_id b \<in> set removed then b else pruned removed l b) (board_of w ws)
    else board_of w k)"
  using assms
proof (induction listed arbitrary: w)
  case Nil
  then show ?case by (simp add: pruneDanglingEdges_def)
next
  case (Cons l ls)
  let ?v = "if bl_id l \<in> set removed then w else update_on_board ws (bl_id l) (pruned removed l) w"
  have step: "pruneDanglingEdges ws (l # ls) removed w = pruneDanglingEdges ws ls removed ?v"
    by (simp add: pruneDanglingEdges_def)
  have "List.find (\<lambda>m. bl_id m = bl_id l) ls = None"
    using Cons.prems by (auto simp: find_None_iff image_iff)
  then show ?case
    unfolding step using Cons by (auto split: option.splits)
qed

lemma prune_homes:
  "distinct (map fst (bd_homes w)) \<Longrightarrow> distinct (map fst (bd_homes (pruneDanglingEdges ws listed removed w)))"
  unfolding pruneDanglingEdges_def
  by (induction listed arbitrary: w) (simp_all add: homes_distinct(2))

lemma descendants:
  "set (descendantIds bs i) = {x. (i, x) \<in> (child_edges bs)\<^sup>*}"
  by (simp add: descendantIds_def descend_exact)

lemma descendants_down:
  assumes "b \<in> set bs" and "nonempty (bl_parentId b) = Some p" and "p \<in> set (descendantIds bs i)"
  shows "bl_id b \<in> set (descendantIds bs i)"
  using assms unfolding descendants child_edges_def by (auto intro: rtrancl_into_rtrancl)

lemma cascade_board_ok:
  assumes "board_ok bs"
  shows "board_ok (filter (\<lambda>b. bl_id b \<notin> set (descendantIds bs i)) bs)" (is "board_ok ?bs")
proof -
  have "links_up ?bs b" if b: "b \<in> set ?bs" for b
    unfolding links_up_def
  proof (intro allI impI)
    fix p assume p: "nonempty (bl_parentId b) = Some p"
    from b assms p obtain q where "q \<in> set bs" "bl_id q = p" "canReparent (bl_level b) q"
      by (auto simp: board_ok_def list_all_iff links_up_def)
    moreover have "p \<notin> set (descendantIds bs i)" using descendants_down [OF _ p] b by auto
    ultimately show "\<exists>q \<in> set ?bs. bl_id q = p \<and> canReparent (bl_level b) q" by auto
  qed
  moreover have "distinct (map bl_id ?bs)"
    using assms by (simp add: board_ok_def distinct_map_filter)
  ultimately show ?thesis by (simp add: board_ok_def list_all_iff)
qed

text \<open>The ids a block refers to, its place in the tree apart.\<close>

definition mentions :: "block \<Rightarrow> string set" where
  "mentions b = set (bl_dependsOn b) \<union> set_option (nonempty (bl_epicId b))
     \<union> set_option (nonempty (bl_initiativeId b))
     \<union> sc_serviceBlockId ` set (list_of (bl_serviceConnections b))
     \<union> set (list_of (bl_involvedServiceIds b))"

lemma kept_filter:
  "(if length (filter P xs) \<noteq> length xs then filter P xs else xs) = filter P xs"
  by (metis length_filter_less filter_True less_irrefl)

lemma kept_list_of:
  "list_of (if length (filter P (list_of x)) \<noteq> length (list_of x)
     then Some (filter P (list_of x)) else x) = filter P (list_of x)"
  using kept_filter [of P "list_of x"] by (simp split: if_splits)

lemma pruned_fields:
  "bl_dependsOn (pruned removed b b) = filter (\<lambda>d. d \<notin> set removed) (bl_dependsOn b)"
  "list_of (bl_serviceConnections (pruned removed b b))
     = filter (\<lambda>c. sc_serviceBlockId c \<notin> set removed) (list_of (bl_serviceConnections b))"
  "list_of (bl_involvedServiceIds (pruned removed b b))
     = filter (\<lambda>d. d \<notin> set removed) (list_of (bl_involvedServiceIds b))"
  "set_option (nonempty (bl_epicId (pruned removed b b))) = set_option (nonempty (bl_epicId b)) - set removed"
  "set_option (nonempty (bl_initiativeId (pruned removed b b)))
     = set_option (nonempty (bl_initiativeId b)) - set removed"
proof -
  show "bl_dependsOn (pruned removed b b) = filter (\<lambda>d. d \<notin> set removed) (bl_dependsOn b)"
    by (simp add: pruned_def Let_def kept_filter)
  show "list_of (bl_serviceConnections (pruned removed b b))
     = filter (\<lambda>c. sc_serviceBlockId c \<notin> set removed) (list_of (bl_serviceConnections b))"
    using kept_list_of [of "\<lambda>c. sc_serviceBlockId c \<notin> set removed" "bl_serviceConnections b"]
    by (simp add: pruned_def Let_def)
  show "list_of (bl_involvedServiceIds (pruned removed b b))
     = filter (\<lambda>d. d \<notin> set removed) (list_of (bl_involvedServiceIds b))"
    using kept_list_of [of "\<lambda>d. d \<notin> set removed" "bl_involvedServiceIds b"]
    by (simp add: pruned_def Let_def)
qed (auto simp: pruned_def Let_def nonempty_Some nonempty_def split: option.splits)

lemma pruned_mentions: "mentions (pruned removed b b) = mentions b - set removed"
  unfolding mentions_def pruned_fields by auto

text \<open>A subtree that moves to another home arrives whole and leaves nothing behind.\<close>

lemma insert_board [simp]:
  "board_of (insert_block ws b sv w) k = (if k = ws then board_of w ws @ [b] else board_of w k)"
  by (simp add: insert_block_def)

lemma carry_board [simp]:
  "board_of (carry_block src dst sv f b w) k = (if k = dst then board_of w dst @ [f b] else board_of w k)"
  by (simp add: carry_block_def Let_def split: option.splits)

lemma carry_homes:
  "distinct (map fst (bd_homes w)) \<Longrightarrow> distinct (map fst (bd_homes (carry_block src dst sv f b w)))"
  by (auto simp: carry_block_def insert_block_def Let_def homes_distinct split: option.splits)

lemma carry_all:
  "board_of (fold (carry_block src dst sv f) bs w) k
     = (if k = dst then board_of w dst @ map f bs else board_of w k)"
  "distinct (map fst (bd_homes w)) \<Longrightarrow> distinct (map fst (bd_homes (fold (carry_block src dst sv f) bs w)))"
  by (induction bs arbitrary: w) (simp_all add: carry_homes)

lemma found_ids:
  fixes bs :: "block list"
  assumes "distinct (map bl_id bs)" and "distinct ids"
  shows "set (List.map_filter (\<lambda>d. List.find (\<lambda>x. bl_id x = d) bs) ids) = {b \<in> set bs. bl_id b \<in> set ids}"
    and "distinct (map bl_id (List.map_filter (\<lambda>d. List.find (\<lambda>x. bl_id x = d) bs) ids))"
proof -
  have one: "List.find (\<lambda>x. bl_id x = d) bs = Some b \<longleftrightarrow> b \<in> set bs \<and> bl_id b = d" for d b
  proof
    assume "List.find (\<lambda>x. bl_id x = d) bs = Some b"
    then show "b \<in> set bs \<and> bl_id b = d" unfolding find_Some_iff by (metis nth_mem)
  next
    assume "b \<in> set bs \<and> bl_id b = d"
    then show "List.find (\<lambda>x. bl_id x = d) bs = Some b" using find_distinct [OF assms(1)] by blast
  qed
  have "set (List.map_filter g is) = {b. \<exists>i \<in> set is. g i = Some b}" for g :: "string \<Rightarrow> block option" and "is"
    by (induction "is") (auto simp: List.map_filter_simps split: option.splits)
  then show "set (List.map_filter (\<lambda>d. List.find (\<lambda>x. bl_id x = d) bs) ids) = {b \<in> set bs. bl_id b \<in> set ids}"
    by (auto simp: one)
  have "map bl_id (List.map_filter (\<lambda>d. List.find (\<lambda>x. bl_id x = d) bs) is)
      = filter (\<lambda>d. List.find (\<lambda>x. bl_id x = d) bs \<noteq> None) is" for "is"
  proof (induction "is")
    case (Cons i "is")
    show ?case
    proof (cases "List.find (\<lambda>x. bl_id x = i) bs")
      case (Some a)
      moreover from this one [of i a] have "bl_id a = i" by simp
      ultimately show ?thesis using Cons by (simp add: List.map_filter_simps)
    qed (use Cons in \<open>simp add: List.map_filter_simps\<close>)
  qed (simp add: List.map_filter_simps)
  then show "distinct (map bl_id (List.map_filter (\<lambda>d. List.find (\<lambda>x. bl_id x = d) bs) ids))"
    using assms(2) by simp
qed

lemma subtree_arrives_ok:
  assumes src: "board_ok bs" and dst: "board_ok cs" and dis: "bl_id ` set bs \<inter> bl_id ` set cs = {}"
    and b: "b \<in> set bs" and p: "p \<in> set cs" "canReparent (bl_level b) p"
    and f: "\<And>x. bl_id (f x) = bl_id x" "\<And>x. bl_level (f x) = bl_level x"
      "\<And>x. bl_parentId (f x) = (if bl_id x = bl_id b then Some (bl_id p) else bl_parentId x)"
    and sub: "set sub = {x \<in> set bs. bl_id x \<in> set (descendantIds bs (bl_id b))}" "distinct (map bl_id sub)"
  shows "board_ok (cs @ map f sub)"
proof -
  let ?cs = "cs @ map f sub"
  have "links_up ?cs c" if "c \<in> set cs" for c
    using dst that by (intro links_up_shape [of cs ?cs c c]) (auto simp: board_ok_def list_all_iff)
  moreover have "links_up ?cs (f x)" if x: "x \<in> set sub" for x
    unfolding links_up_def
  proof (intro allI impI)
    fix q assume q: "nonempty (bl_parentId (f x)) = Some q"
    show "\<exists>r \<in> set ?cs. bl_id r = q \<and> canReparent (bl_level (f x)) r"
    proof (cases "bl_id x = bl_id b")
      case True
      have "x = b" using True x b sub(1) src by (auto simp: board_ok_def distinct_map dest: inj_onD)
      with q p f show ?thesis by (auto simp: nonempty_Some)
    next
      case False
      from x sub(1) have "x \<in> set bs" "(bl_id b, bl_id x) \<in> (child_edges bs)\<^sup>*" by (auto simp: descendants)
      moreover from this(2) False obtain y where
        y: "(bl_id b, y) \<in> (child_edges bs)\<^sup>*" "(y, bl_id x) \<in> child_edges bs" by (auto elim: rtranclE)
      moreover from y(2) obtain z where z: "z \<in> set bs" "bl_id z = bl_id x" "nonempty (bl_parentId z) = Some y"
        by (auto simp: child_edges_def)
      ultimately have "nonempty (bl_parentId x) = Some y"
        using src by (auto simp: board_ok_def distinct_map dest: inj_onD)
      with q False f have "q = y" by simp
      moreover from src \<open>x \<in> set bs\<close> \<open>nonempty (bl_parentId x) = Some y\<close> obtain r where
        r: "r \<in> set bs" "bl_id r = y" "canReparent (bl_level x) r"
        by (auto simp: board_ok_def list_all_iff links_up_def)
      moreover have "r \<in> set sub" using r y(1) sub(1) by (auto simp: descendants)
      ultimately show ?thesis 
        using f(1) canReparent_level [OF f(2) [of r], of "bl_level x"] by (intro bexI [of _ "f r"]) (auto simp: f(2))
    qed
  qed
  moreover have "distinct (map bl_id ?cs)"
    using dst dis sub f(1) by (auto simp: board_ok_def comp_def)
  ultimately show ?thesis by (auto simp: board_ok_def list_all_iff)
qed

lemma moved_block_simps [simp]:
  "bl_id (moved_block F q b) = bl_id b" "bl_level (moved_block F q b) = bl_level b"
  "bl_parentId (moved_block F q b) = Some (bl_id q)"
  by (simp_all add: moved_block_def)

lemma resolveBlock_state: "resolveBlock ws i w = (x, w') \<Longrightarrow> w' = w"
  by (auto simp: resolveBlock_def split: option.splits if_splits)

lemma board_ok_moved:
  assumes "board_ok bs" and "b \<in> set bs" and "q \<in> set bs" and "canReparent (bl_level b) q"
  shows "board_ok (map (\<lambda>x. if bl_id x = bl_id b then moved_block F q x else x) bs)" (is "board_ok ?bs")
proof -
  let ?f = "\<lambda>x. if bl_id x = bl_id b then moved_block F q x else x"
  have id: "bl_id (?f x) = bl_id x" "bl_level (?f x) = bl_level x" for x by simp_all
  have "links_up ?bs (?f x)" if x: "x \<in> set bs" for x
    unfolding links_up_def
  proof (intro allI impI)
    fix y assume y: "nonempty (bl_parentId (?f x)) = Some y"
    have "\<exists>r \<in> set bs. bl_id r = y \<and> canReparent (bl_level x) r"
    proof (cases "bl_id x = bl_id b")
      case True
      with x assms(1,2) have "x = b" by (auto simp: board_ok_def distinct_map dest: inj_onD)
      with y assms(3,4) show ?thesis by (auto simp: nonempty_Some)
    next
      case False
      with y x assms(1) show ?thesis by (auto simp: board_ok_def list_all_iff links_up_def)
    qed
    then obtain r where r: "r \<in> set bs" "bl_id r = y" "canReparent (bl_level x) r" by blast
    have "?f r \<in> set ?bs" unfolding set_map using r(1) by (rule imageI)
    moreover have "bl_id (?f r) = y" "canReparent (bl_level (?f x)) (?f r)"
      using r id canReparent_level [OF id(2) [of r], of "bl_level x"] by simp_all
    ultimately show "\<exists>r \<in> set ?bs. bl_id r = y \<and> canReparent (bl_level (?f x)) r" by blast
  qed
  then have "list_all (links_up ?bs) ?bs" unfolding list_all_iff set_map by blast
  moreover have "map bl_id ?bs = map bl_id bs" by simp
  ultimately show ?thesis using assms(1) by (simp only: board_ok_def)
qed

lemma get_unique:
  "distinct (map bl_id (board_of w h)) \<Longrightarrow> x \<in> set (board_of w h) \<Longrightarrow> bl_id x = i \<Longrightarrow> get_on_board w h i = Some x"
  using find_distinct [of bl_id "board_of w h" x] by (auto simp: get_on_board_def)

text \<open>A move between two homes.\<close>

lemma move_across_boards:
  assumes "distinct (map bl_id (board_of w src))" and "src \<noteq> dst"
  shows "board_of (move_across src dst i b q F bs w) k =
    (if k = dst then board_of w dst @ map (\<lambda>x. if bl_id x = i then moved_block F q x else x)
         (List.map_filter (\<lambda>d. List.find (\<lambda>x. bl_id x = d) (board_of w src)) (descendantIds (board_of w src) i))
     else if k = src then map (\<lambda>x. pruned (descendantIds (board_of w src) i) x x)
         (filter (\<lambda>x. bl_id x \<notin> set (descendantIds (board_of w src) i)) (board_of w src))
     else board_of w k)"
  using assms(2) find_distinct [OF assms(1)]
  by (auto simp: move_across_def Let_def prune_board [OF assms(1)] delete_blocks_def carry_all)

lemma move_across_homes:
  "distinct (map fst (bd_homes w)) \<Longrightarrow> distinct (map fst (bd_homes (move_across src dst i b q F bs w)))"
  by (simp add: move_across_def Let_def delete_blocks_def homes_distinct prune_homes carry_all)

lemma disjoint_after_move:
  assumes "\<And>z l m. z \<in> I l \<Longrightarrow> z \<in> I m \<Longrightarrow> l = m"
    and "z \<in> (if l = k then I k \<union> (I h \<inter> D) else if l = h then I h - D else I l)"
    and "z \<in> (if m = k then I k \<union> (I h \<inter> D) else if m = h then I h - D else I m)"
  shows "l = m"
  using assms(2,3) by (auto split: if_splits dest: assms(1))

lemma child_distinct: "distinct (descendantIds bs i)"
  unfolding descendantIds_def
proof -
  have "distinct (descend bs d)" if "distinct d" for d
    using that by (induction bs d rule: descend.induct) (subst descend.simps, simp add: Let_def child_pass_distinct)
  then show "distinct (descend bs [i])" by simp
qed

text \<open>What a move does to the tree, within a home and across homes.\<close>

lemma move_across_ok:
  assumes "world_ok w" and "h \<noteq> k" and b: "b \<in> set (board_of w h)" and q: "q \<in> set (board_of w k)"
    and can: "canReparent (bl_level b) q"
  shows "world_ok (move_across h k (bl_id b) b q F bs w)
    \<and> get_on_board (move_across h k (bl_id b) b q F bs w) k (bl_id b) = Some (moved_block F q b)"
proof -
  define i where "i = bl_id b"
  define w' where "w' = move_across h k i b q F bs w"
  have homes: "distinct (map fst (bd_homes w))" using assms(1) by (simp add: world_ok_def)
  have bok: "board_ok (board_of w l)" "distinct (map bl_id (board_of w l))" for l
    using assms(1) by (simp_all add: world_ok_def board_ok_def)
  let ?sub = "List.map_filter (\<lambda>d. List.find (\<lambda>x. bl_id x = d) (board_of w h)) (descendantIds (board_of w h) i)"
  let ?f = "\<lambda>x. if bl_id x = i then moved_block F q x else x"
  have ids: "distinct (descendantIds (board_of w h) i)" "i \<in> set (descendantIds (board_of w h) i)"
    by (simp_all add: descendants child_distinct)
  have sub: "set ?sub = {x \<in> set (board_of w h). bl_id x \<in> set (descendantIds (board_of w h) (bl_id b))}"
    "distinct (map bl_id ?sub)"
    using found_ids [OF bok(2) ids(1)] i_def by simp_all
  have at: "board_of w' l = (if l = k then board_of w k @ map ?f ?sub
      else if l = h then map (\<lambda>x. pruned (descendantIds (board_of w h) i) x x)
        (filter (\<lambda>x. bl_id x \<notin> set (descendantIds (board_of w h) i)) (board_of w h))
      else board_of w l)" for l
    unfolding w'_def by (rule move_across_boards [OF bok(2) assms(2)])
  have dis: "bl_id ` set (board_of w l) \<inter> bl_id ` set (board_of w m) = {}" if "l \<noteq> m" for l m
    using assms(1) that by (simp add: world_ok_def)
  have k: "board_ok (board_of w' k)"
    unfolding at [of k] if_True eqTrueI [OF refl]
    by (rule subtree_arrives_ok [OF bok(1) bok(1) dis [OF assms(2)] b q can _ _ _ sub]) (simp_all add: i_def)
  have h: "board_ok (board_of w' h)"
  proof -
    have eq: "board_of w' h = map (\<lambda>x. pruned (descendantIds (board_of w h) i) x x)
        (filter (\<lambda>x. bl_id x \<notin> set (descendantIds (board_of w h) i)) (board_of w h))"
      using at [of h] assms(2) by simp
    show ?thesis
      unfolding eq using cascade_board_ok [OF bok(1), of h i] by (rule board_ok_shape [rotated]) simp
  qed
  let ?I = "\<lambda>v l. bl_id ` set (board_of v l)" and ?D = "set (descendantIds (board_of w h) i)"
  have im: "?I w' l = (if l = k then ?I w k \<union> (?I w h \<inter> ?D) else if l = h then ?I w h - ?D else ?I w l)" for l
  proof -
    have "bl_id ` set (map ?f ?sub) = bl_id ` set ?sub"
      unfolding set_map image_image by (intro image_cong) simp_all
    also have "\<dots> = ?I w h \<inter> ?D" unfolding sub(1) unfolding i_def by auto
    finally have "bl_id ` set (map ?f ?sub) = ?I w h \<inter> ?D" .
    moreover have "bl_id ` set (map (\<lambda>x. pruned (descendantIds (board_of w h) i) x x)
        (filter (\<lambda>x. bl_id x \<notin> ?D) (board_of w h))) = ?I w h - ?D"
      by (auto simp: image_image)
    ultimately show ?thesis unfolding at [of l] by (simp only: set_append image_Un split: if_split) simp
  qed
  have uniq: "l = m" if "z \<in> ?I w l" "z \<in> ?I w m" for z l m using dis [of l m] that by blast
  have "l = m" if "z \<in> ?I w' l" "z \<in> ?I w' m" for z l m
    using that unfolding im by (intro disjoint_after_move [where I = "?I w", OF uniq])
  then have "\<forall>l m. l \<noteq> m \<longrightarrow> ?I w' l \<inter> ?I w' m = {}" by blast
  moreover have "board_ok (board_of w' l)" for l
    using k h at [of l] bok(1) [of l] by (cases "l = k"; cases "l = h") simp_all
  moreover have "distinct (map fst (bd_homes w'))" unfolding w'_def by (rule move_across_homes [OF homes])
  ultimately have "world_ok w'" by (simp only: world_ok_def simp_thms)
  moreover have "get_on_board w' k i = Some (moved_block F q b)"
  proof (rule get_unique)
    show "distinct (map bl_id (board_of w' k))"
      using k by (simp only: board_ok_def)
    have "b \<in> set ?sub" using sub(1) b ids(2) i_def by simp
    then have "?f b \<in> ?f ` set ?sub" by (rule imageI)
    then show "moved_block F q b \<in> set (board_of w' k)" unfolding at [of k] using i_def by simp
  qed (simp add: i_def)
  ultimately show ?thesis by (simp add: w'_def i_def)
qed

lemma move_here_ok:
  assumes "world_ok w" and b: "b \<in> set (board_of w h)" and q: "q \<in> set (board_of w h)"
    and can: "canReparent (bl_level b) q"
    and w': "bd_homes w' = bd_homes (update_on_board h (bl_id b) (moved_block F q) w)"
  shows "world_ok w' \<and> get_on_board w' h (bl_id b) = Some (moved_block F q b)"
proof -
  have homes: "distinct (map fst (bd_homes w))" using assms(1) by (simp add: world_ok_def)
  have bok: "board_ok (board_of w l)" for l using assms(1) by (simp add: world_ok_def)
  let ?bs = "map (\<lambda>x. if bl_id x = bl_id b then moved_block F q x else x) (board_of w h)"
  have at: "board_of w' l = (if l = h then ?bs else board_of w l)" for l
  proof -
    have "board_of w' l = board_of (update_on_board h (bl_id b) (moved_block F q) w) l"
      using w' by (simp only: board_of_def)
    then show ?thesis by simp
  qed
  have "board_ok ?bs" by (rule board_ok_moved [OF bok b q can])
  then have "board_ok (board_of w' h)" using at [of h] by simp
  moreover have "distinct (map fst (bd_homes w'))"
    unfolding w' by (rule homes_distinct(2) [OF homes])
  moreover have "bl_id ` set ?bs = bl_id ` set (board_of w h)"
    unfolding set_map image_image by (intro image_cong) simp_all
  ultimately have "world_ok w'"
    using at by (intro world_ok_change [where h = h, OF assms(1)]) simp_all
  moreover have "get_on_board w' h (bl_id b) = Some (moved_block F q b)"
  proof (rule get_unique)
    show "distinct (map bl_id (board_of w' h))"
      using \<open>world_ok w'\<close> by (simp only: world_ok_def board_ok_def)
  qed (use b at [of h] in \<open>auto simp: image_iff\<close>)
  ultimately show ?thesis by simp
qed

section \<open>Properties\<close>


definition two_tasks :: board_world where
  "two_tasks = \<lparr>bd_homes = [(''w'', [bare_block ''f'' FrameLevel None, bare_block ''a'' TaskLevel (Some ''f''),
       bare_block ''b'' TaskLevel (Some ''f'')])], bd_stamps = [], bd_services = [], bd_mounts = [],
     bd_runs = [], bd_events = [], bd_ids = 0\<rparr>"

lemma two_tasks_board: "board_of two_tasks h = (if h = ''w'' then [bare_block ''f'' FrameLevel None,
    bare_block ''a'' TaskLevel (Some ''f''), bare_block ''b'' TaskLevel (Some ''f'')] else [])"
  by (simp add: two_tasks_def board_of_def)

lemma two_tasks_world_ok: "world_ok two_tasks"
  unfolding world_ok_def
proof (intro conjI allI impI)
  show "distinct (map fst (bd_homes two_tasks))" by (simp add: two_tasks_def)
next
  fix h show "board_ok (board_of two_tasks h)"
    by (simp add: two_tasks_board board_ok_def links_up_def bare_block_def nonempty_def canReparent_def)
next
  fix h k :: string assume "h \<noteq> k"
  then have "board_of two_tasks h = [] \<or> board_of two_tasks k = []" by (auto simp: two_tasks_board)
  then show "bl_id ` set (board_of two_tasks h) \<inter> bl_id ` set (board_of two_tasks k) = {}" by auto
qed


text \<open>
  An edge write races the other writes of its target: between the read of the target and the write
  of the list computed from it, another request may drop a dependency of the target and hang the
  dropped blocker below it. Both checks look for the new edge alone, so the old edge comes back with
  the write and closes a cycle that nothing rolls back.
\<close>

definition before_race :: board_world where
  "before_race = two_tasks\<lparr>bd_homes := [(''w'', [bare_block ''f'' FrameLevel None,
     (bare_block ''t'' TaskLevel (Some ''f''))\<lparr>bl_dependsOn := [''a'']\<rparr>,
     bare_block ''a'' TaskLevel (Some ''f''), bare_block ''b'' TaskLevel (Some ''f'')])]\<rparr>"

definition turned_around :: "nat \<Rightarrow> board_world \<Rightarrow> board_world" where
  "turned_around n w = (if n = 0
     then snd (writeDependency (\<lambda>n w. w) ''w'' ''a'' ''t'' AddEdge
            (snd (writeDependency (\<lambda>n w. w) ''w'' ''t'' ''a'' RemoveEdge w)))
     else w)"

theorem stale_edge_write_closes_a_cycle:
  "map_prod (case_sum (\<lambda>e. None) (\<lambda>b. Some (bl_dependsOn b)))
     (\<lambda>w'. map (\<lambda>b. (bl_id b, bl_dependsOn b)) (board_of w' ''w''))
     (writeDependency turned_around ''w'' ''t'' ''b'' AddEdge before_race)
   = (Some [''a'', ''b''], [(''f'', []), (''t'', [''a'', ''b'']), (''a'', [''t'']), (''b'', [])])"
  by code_simp

text \<open>
  The guard looks at the home board of the target only: two tasks on different homes, each visible
  to the other's board by its mount, can be made to wait for each other, and each write is accepted.
\<close>

definition two_homes :: board_world where
  "two_homes = \<lparr>bd_homes = [(''w'', [bare_block ''f'' FrameLevel None, bare_block ''t'' TaskLevel (Some ''f'')]),
       (''v'', [bare_block ''g'' FrameLevel None, bare_block ''s'' TaskLevel (Some ''g'')])],
     bd_stamps = [(''t'', ''svc-f''), (''s'', ''svc-g'')], bd_services = [(''f'', ''svc-f''), (''g'', ''svc-g'')],
     bd_mounts = [(''w'', ''svc-f''), (''w'', ''svc-g''), (''v'', ''svc-f''), (''v'', ''svc-g'')],
     bd_runs = [], bd_events = [], bd_ids = 0\<rparr>"

theorem cross_home_cycle_is_accepted:
  "(let (r1, w1) = writeDependency (\<lambda>n w. w) ''w'' ''t'' ''s'' AddEdge two_homes;
        (r2, w2) = writeDependency (\<lambda>n w. w) ''w'' ''s'' ''t'' AddEdge w1
    in (map (case_sum (\<lambda>e. None) (\<lambda>b. Some (bl_id b))) [r1, r2],
        map (\<lambda>h. map (\<lambda>b. (bl_id b, bl_dependsOn b)) (board_of w2 h)) [''w'', ''v'']))
   = ([Some ''t'', Some ''s''], [[(''f'', []), (''t'', [''s''])], [(''g'', []), (''s'', [''t''])]])"
  by code_simp



text \<open>
  C14. A move puts the block under the parent it names and keeps the tree legal on every board,
  within a home and across homes; a refused move changes nothing.
\<close>

theorem moves_keep_the_tree_legal:
  assumes "world_ok w" and "reparent mayMove ws i p w = (r, w')"
  shows "world_ok w' \<and> (case r of Inl e \<Rightarrow> w' = w | Inr b \<Rightarrow> bl_id b = i \<and> bl_parentId b = Some p)"
proof -
  note ok = world_ok_boards [OF assms(1)]
  obtain x w1 where x: "resolveBlock ws i w = (x, w1)" by (rule prod.exhaust)
  obtain y w2 where y: "resolveBlock ws p w = (y, w2)" by (rule prod.exhaust)
  note same [simp] = resolveBlock_state [OF x] resolveBlock_state [OF y]
  show ?thesis
  proof (cases "\<exists>h b k q. x = Inr (h, b) \<and> y = Inr (k, q) \<and> i \<noteq> p \<and> canReparent (bl_level b) q")
    case False
    then have "(r, w') = (r, w) \<and> (\<exists>e. r = Inl e)"
      using assms(2) x y by (cases x; cases y) (auto simp: reparent_def act_bind_def split: if_splits)
    with assms(1) show ?thesis by auto
  next
    case True
    then obtain h b k q where xy: "x = Inr (h, b)" "y = Inr (k, q)" and ne: "i \<noteq> p"
      and can: "canReparent (bl_level b) q" by blast
    from resolveBlock_Inr [OF _ ok] x xy(1) have b: "b \<in> set (board_of w h)" "bl_id b = i" by auto
    from resolveBlock_Inr [OF _ ok] y xy(2) have q: "q \<in> set (board_of w k)" "bl_id q = p" by auto
    define F where "F = Option.bind (serviceOf (board_of w k) q) (\<lambda>f. f)"
    have bok: "board_ok (board_of w l)" "distinct (map bl_id (board_of w l))" for l
      using assms(1) by (simp_all add: world_ok_def board_ok_def)
    have homes: "distinct (map fst (bd_homes w))" using assms(1) by (simp add: world_ok_def)
    consider (refused) e where "r = Inl e" "w' = w"
      | (here) w4 where "h = k" "w' = emit_board h ''block-reparented'' w4"
          "bd_homes w4 = bd_homes (update_on_board h i (moved_block F q) w)"
          "r = (case get_on_board w' h i of None \<Rightarrow> Inl (BlockMissing i) | Some z \<Rightarrow> Inr z)"
      | (there) "h \<noteq> k" "w' = move_across h k i b q F (board_of w k) w"
          "r = (case get_on_board w' k i of None \<Rightarrow> Inl (BlockMissing i) | Some z \<Rightarrow> Inr z)"
    proof -
      let ?w3 = "update_on_board h i (moved_block F q) w"
      let ?r = "\<lambda>v. case get_on_board v k i of None \<Rightarrow> Inl (BlockMissing i) | Some z \<Rightarrow> Inr z"
      let ?s = "setService (descendantIds (board_of w k) i) (serviceForContainer ?w3 (board_of w k) q)"
      let ?M = "mayMove h k (filter (\<lambda>x. BLOCK_LEVEL_RUNS_PIPELINES (bl_level x))
          (List.map_filter (\<lambda>d. List.find (\<lambda>x. bl_id x = d) (board_of w h)) (descendantIds (board_of w h) i)))"
      have "(r, w') = (if bl_level b = TaskLevel \<and> \<not> task_type_allowed F (bl_taskType b)
          then (Inl DocumentRepoOnly, w)
          else if h = k then (let v = emit_board h ''block-reparented'' (?s ?w3) in (?r v, v))
          else if \<not> ?M then (Inl PolicyMoveRefused, w)
          else (let v = move_across h k i b q F (board_of w k) w in (?r v, v)))"
        unfolding assms(2) [symmetric] using x y xy ne can
        by (simp add: reparent_def act_bind_def Let_def F_def split: option.split)
      then show thesis
        using refused here [of "?s ?w3"] there
        by (simp add: Let_def setService_def split: if_splits)
    qed
    then show ?thesis
    proof cases
      case refused
      with assms(1) show ?thesis by simp
    next
      case here
      with move_here_ok [OF assms(1) b(1) _ can, of w' F] b(2) q show ?thesis
        by (simp add: board_of_def emit_board_def)
    next
      case there
      with move_across_ok [OF assms(1) there(1) b(1) q(1) can] b(2) q(2) show ?thesis by simp
    qed
  qed
qed

theorem moves_keep_the_tree_legal_witness:
  "world_ok (snd (reparent (\<lambda>x y bs. True) ''w'' ''a'' ''f'' two_tasks))"
  using moves_keep_the_tree_legal [OF two_tasks_world_ok prod.collapse [symmetric]] by blast

end
