(* ===== verification/ChangeClass.thy ===== *)
theory ChangeClass
  imports BlockModel FormFields "HOL-Library.Multiset"
begin

text \<open>
  The deterministic classification of a pull request from the paths it changed
  (\<^verbatim>\<open>kernel/domain/change-class.ts\<close>, \<^verbatim>\<open>contracts/mergeTrackRecord.ts\<close>). The classes are ordered by
  risk, so the library's order theory applies to them: a mixed diff has the maximum of its classes.
  Regular expressions are written out on the dot and slash separated parts of a path; paths are over
  code points below 256.
\<close>

section \<open>Classes and their rank\<close>

datatype change_class =
  DocsChange | TestChange | DependencyChange | ConfigChange | SourceChange | SchemaChange | UnknownChange

definition CHANGE_CLASS_RANK :: "change_class \<Rightarrow> int" where
  "CHANGE_CLASS_RANK c = (case c of UnknownChange \<Rightarrow> -1 | DocsChange \<Rightarrow> 0 | TestChange \<Rightarrow> 1
     | DependencyChange \<Rightarrow> 2 | ConfigChange \<Rightarrow> 3 | SourceChange \<Rightarrow> 4 | SchemaChange \<Rightarrow> 5)"

definition RULEABLE_CHANGE_CLASSES :: "change_class list" where
  "RULEABLE_CHANGE_CLASSES =
     [DocsChange, TestChange, DependencyChange, ConfigChange, SourceChange, SchemaChange]"

lemma ruleable: "c \<in> set RULEABLE_CHANGE_CLASSES \<longleftrightarrow> c \<noteq> UnknownChange"
  by (cases c) (simp_all add: RULEABLE_CHANGE_CLASSES_def)

lemma rank_inject: "CHANGE_CLASS_RANK a = CHANGE_CLASS_RANK b \<longleftrightarrow> a = b"
  by (cases a; cases b) (simp_all add: CHANGE_CLASS_RANK_def)

instantiation change_class :: linorder
begin

definition less_eq_change_class :: "change_class \<Rightarrow> change_class \<Rightarrow> bool" where
  "less_eq_change_class a b \<longleftrightarrow> CHANGE_CLASS_RANK a \<le> CHANGE_CLASS_RANK b"

definition less_change_class :: "change_class \<Rightarrow> change_class \<Rightarrow> bool" where
  "less_change_class a b \<longleftrightarrow> CHANGE_CLASS_RANK a < CHANGE_CLASS_RANK b"

instance
  by standard (auto simp: less_eq_change_class_def less_change_class_def rank_inject)

end

instantiation change_class :: order_bot
begin

definition bot_change_class :: change_class where
  "bot_change_class = UnknownChange"

instance
proof
  fix a :: change_class
  show "bot \<le> a"
    by (cases a) (simp_all add: bot_change_class_def less_eq_change_class_def CHANGE_CLASS_RANK_def)
qed

end

section \<open>One path\<close>

definition slashes :: "string \<Rightarrow> string" where
  "slashes path = map (\<lambda>c. if c = CHR 0x5C then CHR ''/'' else c) path"

definition basenameOf :: "string \<Rightarrow> string" where
  "basenameOf path = map lower (rev (takeWhile (\<lambda>c. c \<noteq> CHR ''/'') (rev (slashes path))))"

definition hasSegment :: "string \<Rightarrow> string list \<Rightarrow> bool" where
  "hasSegment lowerPath names \<longleftrightarrow> list_ex (\<lambda>name. name \<in> set (split_on CHR ''/'' lowerPath)) names"

definition DEPENDENCY_BASENAMES :: "string list" where
  "DEPENDENCY_BASENAMES =
     [''package.json'', ''package-lock.json'', ''pnpm-lock.yaml'', ''yarn.lock'', ''bun.lock'',
      ''bun.lockb'', ''npm-shrinkwrap.json'', ''cargo.toml'', ''cargo.lock'', ''go.mod'', ''go.sum'',
      ''requirements.txt'', ''requirements-dev.txt'', ''poetry.lock'', ''pyproject.toml'', ''pipfile'',
      ''pipfile.lock'', ''uv.lock'', ''gemfile'', ''gemfile.lock'', ''composer.json'', ''composer.lock'',
      ''pom.xml'', ''build.gradle'', ''build.gradle.kts'', ''gradle.lockfile'', ''mix.lock'']"

definition DOC_EXTENSIONS :: "string list" where
  "DOC_EXTENSIONS = [''.md'', ''.mdx'', ''.markdown'', ''.rst'', ''.txt'', ''.adoc'']"

definition DOC_BASENAMES :: "string list" where
  "DOC_BASENAMES =
     [''readme'', ''license'', ''licence'', ''changelog'', ''contributing'', ''authors'', ''notice'',
      ''codeowners'']"

definition CONFIG_BASENAMES :: "string list" where
  "CONFIG_BASENAMES =
     [''dockerfile'', ''containerfile'', ''docker-compose.yml'', ''docker-compose.yaml'', ''compose.yml'',
      ''compose.yaml'', ''.dockerignore'', ''.gitignore'', ''.gitattributes'', ''.editorconfig'', ''.npmrc'',
      ''.nvmrc'', ''.node-version'', ''makefile'', ''justfile'', ''procfile'', ''turbo.json'',
      ''knip.jsonc'', ''renovate.json'', ''wrangler.toml'', ''wrangler.jsonc'', ''pnpm-workspace.yaml'',
      ''lefthook.yml'']"

definition CONFIG_SEGMENTS :: "string list" where
  "CONFIG_SEGMENTS =
     [''.github'', ''.gitlab'', ''.circleci'', ''.husky'', ''.vscode'', ''.idea'', ''.changeset'', ''k8s'',
      ''kubernetes'', ''helm'', ''terraform'', ''deploy'', ''charts'']"

definition TEST_SEGMENTS :: "string list" where
  "TEST_SEGMENTS =
     [''test'', ''tests'', ''__tests__'', ''__mocks__'', ''__snapshots__'', ''e2e'', ''fixtures'', ''testdata'']"

definition SCHEMA_SEGMENTS :: "string list" where
  "SCHEMA_SEGMENTS = [''migrations'', ''migration'', ''drizzle'', ''alembic'']"

definition DOC_SEGMENTS :: "string list" where
  "DOC_SEGMENTS = [''docs'', ''doc'', ''documentation'']"

definition SOURCE_EXTENSIONS :: "string list" where
  "SOURCE_EXTENSIONS =
     [''.ts'', ''.tsx'', ''.mts'', ''.cts'', ''.js'', ''.jsx'', ''.mjs'', ''.cjs'', ''.vue'', ''.svelte'',
      ''.py'', ''.rb'', ''.go'', ''.rs'', ''.java'', ''.kt'', ''.kts'', ''.scala'', ''.cs'', ''.c'', ''.h'',
      ''.cc'', ''.cpp'', ''.hpp'', ''.m'', ''.mm'', ''.swift'', ''.php'', ''.ex'', ''.exs'', ''.erl'',
      ''.sh'', ''.bash'', ''.zsh'', ''.ps1'']"

definition ends_with_any :: "string list \<Rightarrow> string \<Rightarrow> bool" where
  "ends_with_any exts s \<longleftrightarrow> list_ex (\<lambda>e. ends_with e s) exts"

definition isSourceExtension :: "string \<Rightarrow> bool" where
  "isSourceExtension lowerPath \<longleftrightarrow> ends_with_any SOURCE_EXTENSIONS lowerPath"

text \<open>The regular expressions of the classification, on the parts of a lower-case path.\<close>

definition last_part :: "string \<Rightarrow> string" where
  "last_part s = last (split_on CHR ''/'' s)"

text \<open>\<^verbatim>\<open>/(^|\/)db\/schema(\.[a-z]+)?\.[cm]?ts$/\<close>\<close>

definition db_schema_file :: "string \<Rightarrow> bool" where
  "db_schema_file s = (case rev (split_on CHR ''/'' s) of
      file # dir # _ \<Rightarrow> dir = ''db'' \<and> (case split_on CHR ''.'' file of
          [stem, ext] \<Rightarrow> stem = ''schema'' \<and> ext \<in> {''ts'', ''cts'', ''mts''}
        | [stem, mid, ext] \<Rightarrow> stem = ''schema'' \<and> ext \<in> {''ts'', ''cts'', ''mts''} \<and> mid \<noteq> []
            \<and> list_all (\<lambda>c. 97 \<le> (of_char c :: nat) \<and> (of_char c :: nat) \<le> 122) mid
        | _ \<Rightarrow> False)
    | _ \<Rightarrow> False)"

text \<open>\<^verbatim>\<open>/\.(test|spec)(-d)?\.[cm]?[jt]sx?$/\<close>\<close>

definition script_exts :: "string list" where
  "script_exts = [p @ q @ r. p \<leftarrow> ['''', ''c'', ''m''], q \<leftarrow> [''js'', ''ts''], r \<leftarrow> ['''', ''x'']]"

definition test_infix :: "string \<Rightarrow> bool" where
  "test_infix s = (case rev (split_on CHR ''.'' s) of
      ext # mark # _ # _ \<Rightarrow> ext \<in> set script_exts \<and> mark \<in> {''test'', ''spec'', ''test-d'', ''spec-d''}
    | _ \<Rightarrow> False)"

text \<open>\<^verbatim>\<open>/(^|\/)test_[^/]+\.py$/\<close>\<close>

definition test_prefix :: "string \<Rightarrow> bool" where
  "test_prefix s \<longleftrightarrow> starts_with ''test_'' (last_part s) \<and> ends_with ''.py'' (last_part s) \<and> 9 \<le> length (last_part s)"

text \<open>\<^verbatim>\<open>base.replace(/\.[^.]+$/, '')\<close>\<close>

definition strip_ext :: "string \<Rightarrow> string" where
  "strip_ext base =
     (let ext = takeWhile (\<lambda>c. c \<noteq> CHR ''.'') (rev base)
      in if ext \<noteq> [] \<and> length ext < length base then take (length base - length ext - 1) base else base)"

text \<open>\<^verbatim>\<open>/(^|\/)(i18n|locales|lang|translations)\/.*\.(json|ya?ml)$/\<close>\<close>

fun message_dir :: "string list \<Rightarrow> bool" where
  "message_dir [] = False"
| "message_dir (s # rest) =
     (s \<in> {''i18n'', ''locales'', ''lang'', ''translations''} \<and> rest \<noteq> []
        \<and> list_all (list_all (\<lambda>c. (of_char c :: nat) \<notin> {10, 13})) rest
      \<or> message_dir rest)"

definition message_catalog :: "string \<Rightarrow> bool" where
  "message_catalog s \<longleftrightarrow>
     message_dir (split_on CHR ''/'' s) \<and> ends_with_any [''.json'', ''.yml'', ''.yaml''] s"

text \<open>\<^verbatim>\<open>/(^|\/)(tsconfig|jsconfig)[^/]*\.json$/\<close> and the dot files of the linters\<close>

definition script_config :: "string \<Rightarrow> bool" where
  "script_config s \<longleftrightarrow> (starts_with ''tsconfig'' (last_part s) \<or> starts_with ''jsconfig'' (last_part s))
     \<and> ends_with ''.json'' (last_part s)"

definition linter_config :: "string \<Rightarrow> bool" where
  "linter_config s =
     (let file = (case last_part s of [] \<Rightarrow> [] | c # cs \<Rightarrow> if c = CHR ''.'' then cs else c # cs)
      in list_ex (\<lambda>n. starts_with n file) [''oxlintrc'', ''eslintrc'', ''prettierrc'', ''babelrc'', ''swcrc''])"

text \<open>\<^verbatim>\<open>/\.config\.[cm]?[jt]s$/\<close>\<close>

definition tool_config :: "string \<Rightarrow> bool" where
  "tool_config s = (case rev (split_on CHR ''.'' s) of
      ext # mark # _ # _ \<Rightarrow> mark = ''config'' \<and> ext \<in> {''js'', ''ts'', ''cjs'', ''cts'', ''mjs'', ''mts''}
    | _ \<Rightarrow> False)"

definition classifyChangedPath :: "string \<Rightarrow> change_class" where
  "classifyChangedPath path =
     (let low = map lower (slashes path); base = basenameOf path; src = isSourceExtension low
      in if ends_with ''.sql'' low \<or> hasSegment low SCHEMA_SEGMENTS then SchemaChange
         else if db_schema_file low then SchemaChange
         else if test_infix low then TestChange
         else if ends_with_any [''_test.go'', ''_test.py'', ''_test.rb''] low \<or> test_prefix low then TestChange
         else if hasSegment low TEST_SEGMENTS then TestChange
         else if base \<in> set DEPENDENCY_BASENAMES then DependencyChange
         else if ends_with_any DOC_EXTENSIONS base then DocsChange
         else if strip_ext base \<in> set DOC_BASENAMES then DocsChange
         else if \<not> src \<and> hasSegment low DOC_SEGMENTS then DocsChange
         else if message_catalog low then DocsChange
         else if base \<in> set CONFIG_BASENAMES then ConfigChange
         else if \<not> src \<and> hasSegment low CONFIG_SEGMENTS then ConfigChange
         else if script_config low then ConfigChange
         else if linter_config low then ConfigChange
         else if tool_config low then ConfigChange
         else if ends_with_any [''.tf'', ''.tfvars''] low then ConfigChange
         else SourceChange)"

section \<open>A pull request\<close>

record change_classification =
  cl_changeClass :: change_class
  cl_fileCount :: nat

fun classify_loop :: "string list \<Rightarrow> change_class \<Rightarrow> nat \<Rightarrow> change_classification" where
  "classify_loop [] winner n = \<lparr>cl_changeClass = winner, cl_fileCount = n\<rparr>"
| "classify_loop (p # ps) winner n =
     (if blank p then classify_loop ps winner n
      else let cls = classifyChangedPath p
        in classify_loop ps (if CHANGE_CLASS_RANK cls > CHANGE_CLASS_RANK winner then cls else winner) (Suc n))"

definition classifyChangedFiles :: "string list \<Rightarrow> change_classification" where
  "classifyChangedFiles paths = classify_loop paths UnknownChange 0"

section \<open>The riskiest file decides\<close>

lemma classified_path_known: "classifyChangedPath p \<noteq> UnknownChange"
  by (simp add: classifyChangedPath_def Let_def)

lemma rank_max: "(if CHANGE_CLASS_RANK c > CHANGE_CLASS_RANK w then c else w) = max w c"
  by (auto simp: max_def less_eq_change_class_def rank_inject)

lemma Max_carried:
  fixes w c :: change_class
  assumes "finite S"
  shows "Max (insert (max w c) S) = Max (insert w (insert c S))"
proof (cases "S = {}")
  case False
  with assms show ?thesis by (simp add: max.assoc)
qed simp

lemma classify_loop_max:
  "classify_loop ps w n =
     \<lparr>cl_changeClass = Max (insert w (classifyChangedPath ` {p \<in> set ps. \<not> blank p})),
      cl_fileCount = n + length (filter (\<lambda>p. \<not> blank p) ps)\<rparr>"
proof (induction ps w n rule: classify_loop.induct)
  case (2 p ps w n)
  show ?case
  proof (cases "blank p")
    case True
    then have "{q \<in> set (p # ps). \<not> blank q} = {q \<in> set ps. \<not> blank q}" by auto
    with True 2 show ?thesis by simp
  next
    case False
    then have *: "{q \<in> set (p # ps). \<not> blank q} = insert p {q \<in> set ps. \<not> blank q}" by auto
    show ?thesis
      unfolding * using False 2
      by (simp add: Let_def rank_max Max_carried del: Max_insert)
  qed
qed simp

text \<open>
  C39. A pull request is as risky as its riskiest file: the class of a diff is the greatest class of
  its files in the order of risk, in whatever order the host lists them; blank paths do not count, and
  the class is unknown exactly when there was no path to classify.
\<close>

theorem riskiest_file_decides:
  "cl_changeClass (classifyChangedFiles paths)
     = Max (insert UnknownChange (classifyChangedPath ` {p \<in> set paths. \<not> blank p}))
   \<and> cl_fileCount (classifyChangedFiles paths) = size (filter_mset (\<lambda>p. \<not> blank p) (mset paths))
   \<and> (cl_changeClass (classifyChangedFiles paths) = UnknownChange
      \<longleftrightarrow> cl_fileCount (classifyChangedFiles paths) = 0)"
proof -
  let ?S = "classifyChangedPath ` {p \<in> set paths. \<not> blank p}"
  have n: "length (filter (\<lambda>p. \<not> blank p) paths) = size (filter_mset (\<lambda>p. \<not> blank p) (mset paths))"
    by (metis mset_filter size_mset)
  have "Max (insert UnknownChange ?S) = UnknownChange \<longleftrightarrow> ?S = {}"
  proof
    assume "Max (insert UnknownChange ?S) = UnknownChange"
    then have "c \<le> UnknownChange" if "c \<in> ?S" for c
      using Max_ge [of "insert UnknownChange ?S" c] that by simp
    then have "c = UnknownChange" if "c \<in> ?S" for c
      using that bot_unique [of c] by (simp add: bot_change_class_def)
    then show "?S = {}" using classified_path_known by fast
  qed (simp only: Max_singleton)
  moreover have "?S = {} \<longleftrightarrow> filter (\<lambda>p. \<not> blank p) paths = []" by (auto simp: filter_empty_conv)
  ultimately show ?thesis
    unfolding classifyChangedFiles_def classify_loop_max n [symmetric] by simp
qed

lemma message_catalog_no_source: "message_catalog s \<Longrightarrow> \<not> isSourceExtension s"
  by (auto simp: message_catalog_def isSourceExtension_def ends_with_any_def ends_with_def
      SOURCE_EXTENSIONS_def starts_with_iff)

text \<open>
  The floor under the directory rules, that a file with the extension of a program is code wherever it
  is filed, does not cover the documentation names: a program called \<open>authors\<close> or \<open>notice\<close> is
  classified as documentation, which a rule may merge without review.
\<close>

theorem documentation_name_hides_code:
  "classifyChangedPath ''src/authors.py'' = DocsChange \<and> isSourceExtension ''src/authors.py''
   \<and> classifyChangedPath ''docs/authors_list.py'' = SourceChange"
  by code_simp

end
