(* ===== verification/MergePolicy.thy ===== *)
theory MergePolicy
  imports ChangeClass RunModel
begin

text \<open>
  Who may land what: the merge policies of a workspace, the rules they carry per class of change and
  per role, the ladder that decides whether a pull request merges on its own, the rule about pointing
  a task at another policy, and the resolution of the policy that governs a run
  (\<^verbatim>\<open>contracts/merge.ts\<close>, \<^verbatim>\<open>contracts/risk-policy-selection.ts\<close>, \<^verbatim>\<open>modules/merge/mergePrecedence.ts\<close>,
  \<^verbatim>\<open>execution/runMode.logic.ts\<close>, \<^verbatim>\<open>kernel/domain/risk-policy-tiers.ts\<close>,
  \<^verbatim>\<open>modules/merge/riskPolicyResolution.ts\<close>, \<^verbatim>\<open>modules/merge/WorkspaceRiskPolicyLibrary.ts\<close>). The fields of
  a policy that are budgets of other components are left out.
\<close>

section \<open>Rules per class of change\<close>

datatype class_rule = Thresholds | Always | Never

definition RULE_STRICTNESS :: "class_rule \<Rightarrow> nat" where
  "RULE_STRICTNESS r = (case r of Always \<Rightarrow> 0 | Thresholds \<Rightarrow> 1 | Never \<Rightarrow> 2)"

lemma strictness_inject: "RULE_STRICTNESS a = RULE_STRICTNESS b \<longleftrightarrow> a = b"
  by (cases a; cases b) (simp_all add: RULE_STRICTNESS_def)

text \<open>The stricter rule is the greater one.\<close>

instantiation class_rule :: linorder
begin

definition less_eq_class_rule :: "class_rule \<Rightarrow> class_rule \<Rightarrow> bool" where
  "less_eq_class_rule a b \<longleftrightarrow> RULE_STRICTNESS a \<le> RULE_STRICTNESS b"

definition less_class_rule :: "class_rule \<Rightarrow> class_rule \<Rightarrow> bool" where
  "less_class_rule a b \<longleftrightarrow> RULE_STRICTNESS a < RULE_STRICTNESS b"

instance
  by standard (auto simp: less_eq_class_rule_def less_class_rule_def strictness_inject)

end

type_synonym class_rules = "change_class \<rightharpoonup> class_rule"
type_synonym rules_by_role = "workspace_role \<rightharpoonup> class_rules"
type_synonym submission_by_role = "workspace_role \<rightharpoonup> change_class list"

definition narrowMergeClassRule :: "class_rule \<Rightarrow> class_rule \<Rightarrow> class_rule" where
  "narrowMergeClassRule base role = (if RULE_STRICTNESS role > RULE_STRICTNESS base then role else base)"

definition mergeClassRuleRelaxes :: "class_rule \<Rightarrow> class_rule \<Rightarrow> bool" where
  "mergeClassRuleRelaxes held nxt \<longleftrightarrow> nxt \<noteq> held \<and> narrowMergeClassRule nxt held = held"

definition resolveMergeClassRule :: "class_rules option \<Rightarrow> change_class \<Rightarrow> class_rule" where
  "resolveMergeClassRule rules c =
     (if c = UnknownChange then Thresholds
      else case Option.bind rules (\<lambda>m. m c) of None \<Rightarrow> Thresholds | Some r \<Rightarrow> r)"

record scoped_rule =
  sr_base :: class_rule
  sr_effective :: class_rule
  sr_narrowedByRole :: bool

definition resolveRoleScopedMergeClassRule ::
  "class_rules option \<Rightarrow> rules_by_role option \<Rightarrow> workspace_role option \<Rightarrow> change_class \<Rightarrow> scoped_rule" where
  "resolveRoleScopedMergeClassRule rules byRole role c =
     (let base = resolveMergeClassRule rules c;
          plain = \<lparr>sr_base = base, sr_effective = base, sr_narrowedByRole = False\<rparr>
      in case role of
           None \<Rightarrow> plain
         | Some r \<Rightarrow>
             if c = UnknownChange then plain
             else case Option.bind (Option.bind byRole (\<lambda>m. m r)) (\<lambda>m. m c) of
                 None \<Rightarrow> plain
               | Some roleRule \<Rightarrow>
                   (let eff = narrowMergeClassRule base roleRule
                    in \<lparr>sr_base = base, sr_effective = eff, sr_narrowedByRole = (eff \<noteq> base)\<rparr>))"

definition dryRunForcedForRole :: "workspace_role list option \<Rightarrow> workspace_role option \<Rightarrow> bool" where
  "dryRunForcedForRole roles role =
     (case role of None \<Rightarrow> False | Some r \<Rightarrow> (case roles of None \<Rightarrow> False | Some rs \<Rightarrow> r \<in> set rs))"

definition submissionAllowlistForRole ::
  "submission_by_role option \<Rightarrow> workspace_role option \<Rightarrow> change_class list option" where
  "submissionAllowlistForRole byRole role =
     (case role of None \<Rightarrow> None | Some r \<Rightarrow> Option.bind byRole (\<lambda>m. m r))"

definition submissionAllowedForRole ::
  "submission_by_role option \<Rightarrow> workspace_role option \<Rightarrow> change_class \<Rightarrow> bool" where
  "submissionAllowedForRole byRole role c =
     (if c = UnknownChange then True
      else case submissionAllowlistForRole byRole role of None \<Rightarrow> True | Some cs \<Rightarrow> c \<in> set cs)"

section \<open>The mode of a run\<close>

datatype mode_source = ModeRequested | ModeRolePolicy | ModeDefault

definition isDryRun :: "run_mode option \<Rightarrow> bool" where
  "isDryRun m \<longleftrightarrow> m = Some DryRun"

definition resolveRunMode ::
  "run_mode option \<Rightarrow> workspace_role option \<Rightarrow> workspace_role list option \<Rightarrow> run_mode \<times> mode_source" where
  "resolveRunMode requested role dryRunRoles =
     (if dryRunForcedForRole dryRunRoles role then (DryRun, ModeRolePolicy)
      else if requested = Some DryRun then (DryRun, ModeRequested)
      else (Live, ModeDefault))"

definition runModeStartNotes :: "mode_source \<Rightarrow> string list" where
  "runModeStartNotes source = (if source \<noteq> ModeRolePolicy then []
     else [''Sandboxed run: this task's merge policy holds your role to dry runs, so the pipeline will ''
           @ ''open a pull request but nothing will be merged.''])"

definition settleRunModeForStart ::
  "run_mode option \<Rightarrow> workspace_role option \<Rightarrow> workspace_role list option \<Rightarrow> string list \<Rightarrow> run_mode \<times> string list" where
  "settleRunModeForStart requested role sandboxed baseNotes =
     (case resolveRunMode requested role (if role \<noteq> None then sandboxed else None) of
        (mode, source) \<Rightarrow> (mode, baseNotes @ runModeStartNotes source))"

datatype default_scope = InteractiveScope | UnattendedScope

definition runDefaultScopeFor :: "intake_origin option \<Rightarrow> default_scope" where
  "runDefaultScopeFor origin = (case origin of
      Some (OtherIntake t) \<Rightarrow>
        (if t \<in> {''public-api'', ''tracker'', ''schedule''} then UnattendedScope else InteractiveScope)
    | _ \<Rightarrow> InteractiveScope)"

section \<open>Policies\<close>

datatype run_autonomy = Attended | UnattendedRun

record role_policy_view =
  rv_classRules :: "class_rules option"
  rv_classRulesByRole :: "rules_by_role option"
  rv_dryRunRoles :: "workspace_role list option"
  rv_submissionClassesByRole :: "submission_by_role option"
  rv_autonomy :: "run_autonomy option"

record risk_policy = role_policy_view +
  rp_id :: "string option"
  rp_name :: string
  rp_maxComplexity :: rat
  rp_maxRisk :: rat
  rp_maxImpact :: rat
  rp_autoMergeEnabled :: bool

definition FALLBACK_RISK_POLICY :: risk_policy where
  "FALLBACK_RISK_POLICY =
     \<lparr>rv_classRules = None, rv_classRulesByRole = None, rv_dryRunRoles = None,
      rv_submissionClassesByRole = None, rv_autonomy = Some Attended,
      rp_id = None, rp_name = ''No merge policy configured'', rp_maxComplexity = 0, rp_maxRisk = 0,
      rp_maxImpact = 0, rp_autoMergeEnabled = False\<rparr>"

section \<open>The ladder\<close>

datatype merge_axis = ComplexityAxis | RiskAxis | ImpactAxis

datatype merge_reason =
    WithinThresholds | ExceededThresholds | AutoMergeDisabled | NoPolicyConfigured | NoRationale
  | NoAssessment | MergeFailed | MergePartial | ClassAutoMerge | ClassRequiresReview
  | RoleRequiresReview | SubmissionNotAllowed | DryRunReason

record merge_assessment =
  ma_complexity :: rat
  ma_risk :: rat
  ma_impact :: rat
  ma_rationale :: string

text \<open>What the agent returned: a field is absent when it is missing or not of its type.\<close>

record raw_assessment =
  ra_complexity :: "rat option"
  ra_risk :: "rat option"
  ra_impact :: "rat option"
  ra_rationale :: "string option"

definition score_ok :: "rat \<Rightarrow> bool" where
  "score_ok x \<longleftrightarrow> 0 \<le> x \<and> x \<le> 1"

definition parseMergeAssessment :: "raw_assessment \<Rightarrow> merge_assessment option" where
  "parseMergeAssessment raw = (case (ra_complexity raw, ra_risk raw, ra_impact raw, ra_rationale raw) of
      (Some c, Some r, Some i, Some t) \<Rightarrow>
        (if score_ok c \<and> score_ok r \<and> score_ok i
         then Some \<lparr>ma_complexity = c, ma_risk = r, ma_impact = i, ma_rationale = t\<rparr> else None)
    | _ \<Rightarrow> None)"

definition exceededAxesOf :: "merge_assessment \<Rightarrow> risk_policy \<Rightarrow> merge_axis list" where
  "exceededAxesOf a p =
     (if ma_complexity a > rp_maxComplexity p then [ComplexityAxis] else [])
     @ (if ma_risk a > rp_maxRisk p then [RiskAxis] else [])
     @ (if ma_impact a > rp_maxImpact p then [ImpactAxis] else [])"

definition isCredibleAssessment :: "merge_assessment option \<Rightarrow> bool" where
  "isCredibleAssessment a = (case a of None \<Rightarrow> False | Some x \<Rightarrow> \<not> blank (ma_rationale x))"

record precedence_input =
  pi_dryRun :: bool
  pi_submissionAllowed :: bool
  pi_autoMergeEnabled :: bool
  pi_policyConfigured :: bool
  pi_effectiveRule :: class_rule
  pi_narrowedByRole :: bool
  pi_hasAssessment :: bool
  pi_credible :: bool
  pi_withinThresholds :: bool

record precedence_verdict =
  pv_merge :: bool
  pv_mergeReason :: merge_reason
  pv_reviewReason :: merge_reason

definition reviewReasonFor :: "precedence_input \<Rightarrow> merge_reason" where
  "reviewReasonFor x =
     (if pi_dryRun x then DryRunReason
      else if \<not> pi_submissionAllowed x then SubmissionNotAllowed
      else if \<not> pi_autoMergeEnabled x then
        (if pi_policyConfigured x then AutoMergeDisabled else NoPolicyConfigured)
      else if pi_effectiveRule x = Never then
        (if pi_narrowedByRole x then RoleRequiresReview else ClassRequiresReview)
      else if \<not> pi_hasAssessment x then NoAssessment
      else if pi_credible x then ExceededThresholds else NoRationale)"

definition resolveMergePrecedence :: "precedence_input \<Rightarrow> precedence_verdict" where
  "resolveMergePrecedence x =
     \<lparr>pv_merge = (\<not> pi_dryRun x \<and> pi_submissionAllowed x \<and> pi_autoMergeEnabled x
         \<and> (pi_effectiveRule x = Always
            \<or> pi_effectiveRule x \<noteq> Never \<and> pi_credible x \<and> pi_withinThresholds x)),
      pv_mergeReason = (if pi_effectiveRule x = Always then ClassAutoMerge else WithinThresholds),
      pv_reviewReason = reviewReasonFor x\<rparr>"

text \<open>What the resolver asks the ladder for a run of a mode and a role (\<^verbatim>\<open>MergeResolver.resolveMergerStep\<close>).\<close>

definition precedence_for ::
  "risk_policy \<Rightarrow> run_mode option \<Rightarrow> workspace_role option \<Rightarrow> change_class \<Rightarrow> merge_assessment option
     \<Rightarrow> precedence_input" where
  "precedence_for p mode role c a =
     (let rule = resolveRoleScopedMergeClassRule (rv_classRules p) (rv_classRulesByRole p) role c;
          exceeded = (case a of None \<Rightarrow> [] | Some x \<Rightarrow> exceededAxesOf x p)
      in \<lparr>pi_dryRun = isDryRun mode,
          pi_submissionAllowed = submissionAllowedForRole (rv_submissionClassesByRole p) role c,
          pi_autoMergeEnabled = rp_autoMergeEnabled p, pi_policyConfigured = (rp_id p \<noteq> None),
          pi_effectiveRule = sr_effective rule, pi_narrowedByRole = sr_narrowedByRole rule,
          pi_hasAssessment = (a \<noteq> None), pi_credible = isCredibleAssessment a,
          pi_withinThresholds = (exceeded = [])\<rparr>)"

section \<open>Pointing a task at another policy\<close>

record block_edit_actor =
  be_role :: "workspace_role option"
  be_managesPolicy :: bool

definition UNATTRIBUTED_BLOCK_EDITOR :: block_edit_actor where
  "UNATTRIBUTED_BLOCK_EDITOR = \<lparr>be_role = None, be_managesPolicy = False\<rparr>"

datatype selection_refusal =
  RelaxesRunOversight | RelaxesRoleSandbox | RelaxesRoleSubmissionAllowlist | RelaxesRoleClassRule

definition relaxes_allowlist :: "change_class list option \<Rightarrow> change_class list option \<Rightarrow> bool" where
  "relaxes_allowlist held nxt = (case held of
      None \<Rightarrow> False
    | Some hs \<Rightarrow> (case nxt of None \<Rightarrow> True | Some ns \<Rightarrow> list_ex (\<lambda>c. c \<notin> set hs) ns))"

definition relaxes_class ::
  "'a role_policy_view_scheme \<Rightarrow> workspace_role option \<Rightarrow> 'b role_policy_view_scheme \<Rightarrow> workspace_role option
     \<Rightarrow> change_class \<Rightarrow> bool" where
  "relaxes_class from heldRole to nextRole c =
     (let held = resolveRoleScopedMergeClassRule (rv_classRules from) (rv_classRulesByRole from) heldRole c
      in sr_narrowedByRole held \<and> mergeClassRuleRelaxes (sr_effective held)
           (sr_effective (resolveRoleScopedMergeClassRule (rv_classRules to) (rv_classRulesByRole to) nextRole c)))"

definition refuseRiskPolicySelection ::
  "'a role_policy_view_scheme \<Rightarrow> block_edit_actor \<Rightarrow> 'b role_policy_view_scheme \<Rightarrow> block_edit_actor
     \<Rightarrow> selection_refusal option" where
  "refuseRiskPolicySelection from holder to taker =
     (if be_role holder = None \<or> be_role taker = None then None
      else if be_managesPolicy holder \<or> be_managesPolicy taker then None
      else if rv_autonomy from \<noteq> Some UnattendedRun \<and> rv_autonomy to = Some UnattendedRun
      then Some RelaxesRunOversight
      else if dryRunForcedForRole (rv_dryRunRoles from) (be_role holder)
        \<and> \<not> dryRunForcedForRole (rv_dryRunRoles to) (be_role taker)
      then Some RelaxesRoleSandbox
      else if relaxes_allowlist
        (submissionAllowlistForRole (rv_submissionClassesByRole from) (be_role holder))
        (submissionAllowlistForRole (rv_submissionClassesByRole to) (be_role taker))
      then Some RelaxesRoleSubmissionAllowlist
      else if list_ex (relaxes_class from (be_role holder) to (be_role taker)) RULEABLE_CHANGE_CLASSES
      then Some RelaxesRoleClassRule
      else None)"

section \<open>The library of a board\<close>

record policy_row = risk_policy +
  pr_isDefault :: bool
  pr_isUnattendedDefault :: bool

datatype policy_tier = AccountTier | WorkspaceTier

record library_entry = policy_row +
  pe_tier :: policy_tier

definition library_row :: "policy_tier \<Rightarrow> bool \<Rightarrow> bool \<Rightarrow> 'a risk_policy_scheme \<Rightarrow> library_entry" where
  "library_row tier interactive unattended p =
     \<lparr>rv_classRules = rv_classRules p, rv_classRulesByRole = rv_classRulesByRole p,
      rv_dryRunRoles = rv_dryRunRoles p, rv_submissionClassesByRole = rv_submissionClassesByRole p,
      rv_autonomy = rv_autonomy p, rp_id = rp_id p, rp_name = rp_name p,
      rp_maxComplexity = rp_maxComplexity p, rp_maxRisk = rp_maxRisk p, rp_maxImpact = rp_maxImpact p,
      rp_autoMergeEnabled = rp_autoMergeEnabled p, pr_isDefault = interactive,
      pr_isUnattendedDefault = unattended, pe_tier = tier\<rparr>"

definition accountEntry :: "risk_policy \<Rightarrow> library_entry" where
  "accountEntry p = library_row AccountTier False False p"

definition workspaceEntry :: "policy_row \<Rightarrow> library_entry" where
  "workspaceEntry p = library_row WorkspaceTier (pr_isDefault p) (pr_isUnattendedDefault p) p"

lemma entry_id [simp]: "rp_id (accountEntry p) = rp_id p" "rp_id (workspaceEntry q) = rp_id q"
  by (simp_all add: accountEntry_def workspaceEntry_def library_row_def)

lemma entry_defaults [simp]:
  "pr_isDefault (accountEntry p) = False" "pr_isUnattendedDefault (accountEntry p) = False"
  "pr_isDefault (workspaceEntry q) = pr_isDefault q"
  "pr_isUnattendedDefault (workspaceEntry q) = pr_isUnattendedDefault q"
  by (simp_all add: accountEntry_def workspaceEntry_def library_row_def)

definition by_id :: "string \<Rightarrow> 'a risk_policy_scheme list \<Rightarrow> 'a risk_policy_scheme option" where
  "by_id i ps = List.find (\<lambda>p. rp_id p = Some i) ps"

definition mergeRiskPolicyTiers ::
  "risk_policy list \<Rightarrow> policy_row list \<Rightarrow> string list \<Rightarrow> library_entry list" where
  "mergeRiskPolicyTiers account ws suppressed =
     map accountEntry (filter (\<lambda>p. rp_id p \<notin> Some ` set suppressed \<and> rp_id p \<notin> rp_id ` set ws) account)
     @ map workspaceEntry ws"

definition resolveRiskPolicyTier ::
  "policy_row option \<Rightarrow> risk_policy option \<Rightarrow> bool \<Rightarrow> library_entry option" where
  "resolveRiskPolicyTier own inherited suppressed = (case own of
      Some p \<Rightarrow> Some (workspaceEntry p)
    | None \<Rightarrow> (case inherited of
          None \<Rightarrow> None | Some a \<Rightarrow> if suppressed then None else Some (accountEntry a)))"

record suppression =
  su_id :: string
  su_name :: string
  su_inherited :: bool

definition describeRiskPolicySuppressions :: "string list \<Rightarrow> risk_policy list \<Rightarrow> suppression list" where
  "describeRiskPolicySuppressions suppressed account =
     map (\<lambda>i. case by_id i (rev account) of
         None \<Rightarrow> \<lparr>su_id = i, su_name = i, su_inherited = False\<rparr>
       | Some a \<Rightarrow> \<lparr>su_id = i, su_name = rp_name a, su_inherited = True\<rparr>) suppressed"

text \<open>
  The stores a board's library reads: its own rows oldest first, and, where an account tier is wired
  and the board has an account, the account's rows and what the board hides of them.
\<close>

record policy_stores =
  ps_workspace :: "policy_row list"
  ps_account :: "risk_policy list option"
  ps_suppressed :: "string list"

definition library_list :: "policy_stores \<Rightarrow> library_entry list" where
  "library_list st = (case ps_account st of
      None \<Rightarrow> mergeRiskPolicyTiers [] (ps_workspace st) []
    | Some account \<Rightarrow> mergeRiskPolicyTiers account (ps_workspace st) (ps_suppressed st))"

definition library_get :: "policy_stores \<Rightarrow> string \<Rightarrow> library_entry option" where
  "library_get st i = (case by_id i (ps_workspace st) of
      Some own \<Rightarrow> resolveRiskPolicyTier (Some own) None False
    | None \<Rightarrow> (case ps_account st of
          None \<Rightarrow> None
        | Some account \<Rightarrow> resolveRiskPolicyTier None (by_id i account) (i \<in> set (ps_suppressed st))))"

definition is_default_for :: "default_scope \<Rightarrow> 'a policy_row_scheme \<Rightarrow> bool" where
  "is_default_for scope p = (case scope of
      InteractiveScope \<Rightarrow> pr_isDefault p | UnattendedScope \<Rightarrow> pr_isUnattendedDefault p)"

definition library_getDefault :: "policy_stores \<Rightarrow> default_scope \<Rightarrow> policy_row option" where
  "library_getDefault st scope = List.find (is_default_for scope) (ps_workspace st)"

definition inheritedPolicy :: "policy_stores \<Rightarrow> string \<Rightarrow> risk_policy option" where
  "inheritedPolicy st i = (case Option.bind (ps_account st) (by_id i) of
      Some p \<Rightarrow> if i \<in> set (ps_suppressed st) then None else Some p | None \<Rightarrow> None)"

section \<open>Which policy governs a run\<close>

datatype policy_target = Picked string | DefaultFor default_scope

text \<open>A read answers a target from the stores, or from the library read in full before.\<close>

definition direct_read :: "policy_stores \<Rightarrow> policy_target \<Rightarrow> risk_policy option" where
  "direct_read st target = (case target of
      Picked i \<Rightarrow> map_option risk_policy.truncate (library_get st i)
    | DefaultFor scope \<Rightarrow> map_option risk_policy.truncate (library_getDefault st scope))"

definition preloadedRiskPolicyRead :: "library_entry list \<Rightarrow> policy_target \<Rightarrow> risk_policy option" where
  "preloadedRiskPolicyRead library target = (case target of
      Picked i \<Rightarrow> map_option risk_policy.truncate (by_id i (rev library))
    | DefaultFor scope \<Rightarrow> map_option risk_policy.truncate (List.find (is_default_for scope) library))"

definition resolveRiskPolicy ::
  "(policy_target \<Rightarrow> risk_policy option) option \<Rightarrow> string option \<Rightarrow> default_scope \<Rightarrow> risk_policy" where
  "resolveRiskPolicy reader picked scope = (case reader of
      None \<Rightarrow> FALLBACK_RISK_POLICY
    | Some rd \<Rightarrow>
        (case Option.bind (nonempty picked) (\<lambda>i. rd (Picked i)) of
           Some p \<Rightarrow> p
         | None \<Rightarrow> (case rd (DefaultFor scope) of Some p \<Rightarrow> p | None \<Rightarrow> FALLBACK_RISK_POLICY)))"

section \<open>The rules narrow\<close>

lemma narrow_max: "narrowMergeClassRule base role = max base role"
  by (auto simp: narrowMergeClassRule_def max_def less_eq_class_rule_def strictness_inject)

lemma relaxes_less: "mergeClassRuleRelaxes held nxt \<longleftrightarrow> nxt < held"
  by (auto simp: mergeClassRuleRelaxes_def narrow_max max_def)

lemma rule_kept: "x \<le> y \<Longrightarrow> y = Always \<or> y \<noteq> Never \<and> P \<Longrightarrow> x = Always \<or> x \<noteq> Never \<and> P"
  by (cases x; cases y) (simp_all add: less_eq_class_rule_def RULE_STRICTNESS_def)

lemma scoped_base [simp]:
  "sr_base (resolveRoleScopedMergeClassRule rules byRole role c) = resolveMergeClassRule rules c"
  by (simp add: resolveRoleScopedMergeClassRule_def Let_def split: option.split)

lemma scoped_narrows:
  "resolveMergeClassRule rules c \<le> sr_effective (resolveRoleScopedMergeClassRule rules byRole role c)"
  by (simp add: resolveRoleScopedMergeClassRule_def Let_def narrow_max split: option.split)

lemma scoped_narrowed:
  "sr_narrowedByRole (resolveRoleScopedMergeClassRule rules byRole role c) \<longleftrightarrow>
     sr_effective (resolveRoleScopedMergeClassRule rules byRole role c) \<noteq> resolveMergeClassRule rules c"
  by (simp add: resolveRoleScopedMergeClassRule_def Let_def split: option.split)

lemma scoped_unknown:
  "sr_effective (resolveRoleScopedMergeClassRule rules byRole role UnknownChange) = Thresholds"
  by (simp add: resolveRoleScopedMergeClassRule_def resolveMergeClassRule_def Let_def split: option.split)

section \<open>A selection relaxes nothing\<close>

lemma allowlist_kept:
  assumes "\<not> relaxes_allowlist (submissionAllowlistForRole f r) (submissionAllowlistForRole t r')"
    and "submissionAllowedForRole t r' c"
  shows "submissionAllowedForRole f r c"
  using assms
  by (auto simp: relaxes_allowlist_def submissionAllowedForRole_def list_ex_iff split: option.splits if_splits)

lemma class_rule_kept:
  assumes "\<not> list_ex (relaxes_class from r to r') RULEABLE_CHANGE_CLASSES"
    and "resolveMergeClassRule (rv_classRules from) c \<le> resolveMergeClassRule (rv_classRules to) c"
  shows "sr_effective (resolveRoleScopedMergeClassRule (rv_classRules from) (rv_classRulesByRole from) r c)
    \<le> sr_effective (resolveRoleScopedMergeClassRule (rv_classRules to) (rv_classRulesByRole to) r' c)"
proof (cases "sr_narrowedByRole (resolveRoleScopedMergeClassRule (rv_classRules from) (rv_classRulesByRole from) r c)
    \<and> c \<noteq> UnknownChange")
  case True
  then have "c \<in> set RULEABLE_CHANGE_CLASSES" by (simp add: ruleable)
  with assms(1) have "\<not> relaxes_class from r to r' c" by (auto simp: list_ex_iff)
  with True show ?thesis by (simp add: relaxes_class_def Let_def relaxes_less not_less)
next
  case False
  then consider "c = UnknownChange"
    | "sr_effective (resolveRoleScopedMergeClassRule (rv_classRules from) (rv_classRulesByRole from) r c)
        = resolveMergeClassRule (rv_classRules from) c"
    by (auto simp: scoped_narrowed)
  then show ?thesis
  proof cases
    case 1
    then show ?thesis by (simp add: scoped_unknown)
  next
    case 2
    then show ?thesis using assms(2) scoped_narrows order_trans by metis
  qed
qed

lemma accepted_selection:
  assumes "refuseRiskPolicySelection from holder to taker = None"
    and "be_role holder \<noteq> None" "be_role taker \<noteq> None"
    and "\<not> be_managesPolicy holder" "\<not> be_managesPolicy taker"
  shows "rv_autonomy to = Some UnattendedRun \<longrightarrow> rv_autonomy from = Some UnattendedRun"
    and "dryRunForcedForRole (rv_dryRunRoles from) (be_role holder)
      \<longrightarrow> dryRunForcedForRole (rv_dryRunRoles to) (be_role taker)"
    and "\<not> relaxes_allowlist
      (submissionAllowlistForRole (rv_submissionClassesByRole from) (be_role holder))
      (submissionAllowlistForRole (rv_submissionClassesByRole to) (be_role taker))"
    and "\<not> list_ex (relaxes_class from (be_role holder) to (be_role taker)) RULEABLE_CHANGE_CLASSES"
  using assms by (auto simp: refuseRiskPolicySelection_def split: if_splits)


section \<open>The readers of a library agree\<close>

lemma by_id_simps [simp]:
  "by_id i [] = None" "by_id i (p # ps) = (if rp_id p = Some i then Some p else by_id i ps)"
  by (simp_all add: by_id_def)

lemma by_id_append: "by_id i (xs @ ys) = (case by_id i xs of None \<Rightarrow> by_id i ys | Some p \<Rightarrow> Some p)"
  by (induction xs) (auto simp: by_id_def)

lemma by_id_map: "(\<And>p. rp_id (f p) = rp_id p) \<Longrightarrow> by_id i (map f ps) = map_option f (by_id i ps)"
  by (induction ps) (auto simp: by_id_def)

lemma by_id_Some: "by_id i ps = Some p \<Longrightarrow> p \<in> set ps \<and> rp_id p = Some i"
  by (auto simp: by_id_def find_Some_iff)

lemma by_id_None: "by_id i ps = None \<longleftrightarrow> Some i \<notin> rp_id ` set ps"
  by (force simp: by_id_def find_None_iff image_iff)

lemma by_id_unless:
  assumes "\<And>p. p \<in> set ps \<Longrightarrow> q p \<longleftrightarrow> rp_id p \<notin> bad"
  shows "by_id i (filter q ps) = (if Some i \<in> bad then None else by_id i ps)"
  using assms by (induction ps) (auto simp: by_id_def)

lemma library_lookup: "by_id i (library_list st) = library_get st i"
proof (cases "ps_account st")
  case None
  then show ?thesis
    by (cases "by_id i (ps_workspace st)")
       (simp_all add: library_list_def library_get_def mergeRiskPolicyTiers_def by_id_map
         resolveRiskPolicyTier_def)
next
  case (Some account)
  let ?bad = "Some ` set (ps_suppressed st) \<union> rp_id ` set (ps_workspace st)"
  have "by_id i (library_list st) = (case (if Some i \<in> ?bad then None else map_option accountEntry (by_id i account)) of
      None \<Rightarrow> map_option workspaceEntry (by_id i (ps_workspace st)) | Some p \<Rightarrow> Some p)"
    using Some by_id_unless [where bad = ?bad and ps = account and i = i]
    by (simp add: library_list_def mergeRiskPolicyTiers_def by_id_append by_id_map split: option.split)
  then show ?thesis
    using Some by_id_None [of i "ps_workspace st"]
    by (cases "by_id i (ps_workspace st)"; cases "by_id i account")
       (auto simp: library_get_def resolveRiskPolicyTier_def dest: by_id_Some)
qed

lemma by_id_rev: "distinct (map rp_id ps) \<Longrightarrow> by_id i (rev ps) = by_id i ps"
proof (induction ps)
  case (Cons p ps)
  show ?case
  proof (cases "rp_id p = Some i")
    case True
    with Cons.prems have "by_id i ps = None" using by_id_None [of i ps] by auto
    with True Cons show ?thesis by (simp add: by_id_append)
  next
    case False
    with Cons show ?thesis by (simp add: by_id_append split: option.split)
  qed
qed simp

lemma library_ids_distinct:
  assumes "distinct (map rp_id (ps_workspace st))" and "\<forall>a. ps_account st = Some a \<longrightarrow> distinct (map rp_id a)"
  shows "distinct (map rp_id (library_list st))"
proof -
  have m: "map rp_id (map accountEntry xs) = map rp_id xs" "map rp_id (map workspaceEntry ys) = map rp_id ys"
    for xs ys by simp_all
  show ?thesis
    using assms
    by (auto simp: library_list_def mergeRiskPolicyTiers_def comp_def distinct_map_filter
        split: option.split)
qed

lemma library_default:
  "map_option risk_policy.truncate (List.find (is_default_for scope) (library_list st))
     = map_option risk_policy.truncate (library_getDefault st scope)"
proof -
  have none: "List.find (is_default_for scope) (map accountEntry xs @ ys) = List.find (is_default_for scope) ys" for xs ys
    by (induction xs) (auto simp: is_default_for_def split: default_scope.split)
  have ws: "map_option risk_policy.truncate (List.find (is_default_for scope) (map workspaceEntry ys))
      = map_option risk_policy.truncate (List.find (is_default_for scope) ys)" for ys
    by (induction ys)
       (auto simp: is_default_for_def risk_policy.truncate_def workspaceEntry_def library_row_def
          split: default_scope.split)
  show ?thesis
    by (auto simp: library_list_def mergeRiskPolicyTiers_def library_getDefault_def none ws simp del: map_append
        split: option.split)
qed

text \<open>
  The two readers of a board's policies answer alike: the policy that governs a task is the same
  whether it is resolved row by row, as the engine does it, or out of the library read in full, as
  the guard of a selection does it, whatever the board hides, shadows or lost; and an id resolves
  exactly when the library lists it.
\<close>

theorem policy_readers_agree:
  assumes "distinct (map rp_id (ps_workspace st))" and "\<forall>a. ps_account st = Some a \<longrightarrow> distinct (map rp_id a)"
  shows "resolveRiskPolicy (Some (preloadedRiskPolicyRead (library_list st))) picked scope
      = resolveRiskPolicy (Some (direct_read st)) picked scope
    \<and> (library_get st i \<noteq> None \<longleftrightarrow> Some i \<in> rp_id ` set (library_list st))"
proof -
  have "preloadedRiskPolicyRead (library_list st) t = direct_read st t" for t
    by (cases t) (simp_all add: preloadedRiskPolicyRead_def direct_read_def library_default library_lookup
        by_id_rev [OF library_ids_distinct [OF assms]])
  then have "preloadedRiskPolicyRead (library_list st) = direct_read st" by (rule ext)
  then show ?thesis using by_id_None [of i "library_list st"] library_lookup [of i st] by simp
qed

text \<open>A policy that holds members to review on source, a stricter one, and an account's policy.\<close>

definition team_policy :: risk_policy where
  "team_policy = FALLBACK_RISK_POLICY
     \<lparr>rp_id := Some ''mp_team'', rp_name := ''Team'', rp_autoMergeEnabled := True,
      rp_maxComplexity := 1 / 2, rp_maxRisk := 1 / 2, rp_maxImpact := 1 / 2,
      rv_dryRunRoles := Some [ViewerRole],
      rv_classRulesByRole := Some [MemberRole \<mapsto> [SourceChange \<mapsto> Never]]\<rparr>"

definition strict_policy :: risk_policy where
  "strict_policy = team_policy
     \<lparr>rp_id := Some ''mp_strict'', rv_submissionClassesByRole := Some [MemberRole \<mapsto> [DocsChange]]\<rparr>"

definition a_team_member :: block_edit_actor where
  "a_team_member = \<lparr>be_role = Some MemberRole, be_managesPolicy = False\<rparr>"

definition calm_assessment :: merge_assessment where
  "calm_assessment = \<lparr>ma_complexity = 0, ma_risk = 1 / 4, ma_impact = 0, ma_rationale = ''small''\<rparr>"

definition team_row :: policy_row where
  "team_row =
     \<lparr>rv_classRules = None, rv_classRulesByRole = Some [MemberRole \<mapsto> [SourceChange \<mapsto> Never]],
      rv_dryRunRoles = Some [ViewerRole], rv_submissionClassesByRole = None, rv_autonomy = Some Attended,
      rp_id = Some ''mp_team'', rp_name = ''Team'', rp_maxComplexity = 1 / 2, rp_maxRisk = 1 / 2,
      rp_maxImpact = 1 / 2, rp_autoMergeEnabled = True, pr_isDefault = True,
      pr_isUnattendedDefault = False\<rparr>"

definition team_stores :: policy_stores where
  "team_stores = \<lparr>ps_workspace = [team_row], ps_account = Some [team_policy, strict_policy],
     ps_suppressed = [''mp_strict'']\<rparr>"


theorem policy_readers_agree_witness:
  "resolveRiskPolicy (Some (preloadedRiskPolicyRead (library_list team_stores))) (Some ''mp_strict'') InteractiveScope
     = resolveRiskPolicy (Some (direct_read team_stores)) (Some ''mp_strict'') InteractiveScope
   \<and> library_get team_stores ''mp_strict'' = None
   \<and> rp_id (resolveRiskPolicy (Some (direct_read team_stores)) (Some ''mp_strict'') InteractiveScope)
      = Some ''mp_team''"
proof -
  have "distinct (map rp_id (ps_workspace team_stores))"
    "\<forall>a. ps_account team_stores = Some a \<longrightarrow> distinct (map rp_id a)"
    by (simp_all add: team_stores_def team_policy_def strict_policy_def)
  from policy_readers_agree [OF this]
  have "resolveRiskPolicy (Some (preloadedRiskPolicyRead (library_list team_stores))) (Some ''mp_strict'') InteractiveScope
     = resolveRiskPolicy (Some (direct_read team_stores)) (Some ''mp_strict'') InteractiveScope" by blast
  moreover have "library_get team_stores ''mp_strict'' = None" by code_simp
  moreover have "rp_id (resolveRiskPolicy (Some (direct_read team_stores)) (Some ''mp_strict'') InteractiveScope)
      = Some ''mp_team''" by code_simp
  ultimately show ?thesis by blast
qed

end
