(* ===== verification/MergeRecord.thy ===== *)
theory MergeRecord
  imports MergePolicy BlockModel
begin

text \<open>
  The track record of merges: one row per decision of a run, settled once by whoever merges or
  declines, tagged with the effort of the review, and rolled up per class of change
  (\<^verbatim>\<open>modules/merge/MergeTrackRecordService.ts\<close>, \<^verbatim>\<open>D1MergeTrackRecordRepository.ts\<close>,
  \<^verbatim>\<open>contracts/mergeTrackRecord.ts\<close>). A table holds the rows of one workspace in the order of their
  insertion. The service swallows the faults of its store; an operation whose store fails leaves the
  table as it was and is not modelled.
\<close>

section \<open>Rows\<close>

datatype review_effort = EffortNone | EffortMinor | EffortMajor

datatype track_decision = PendingReview | AutoMerged | HumanMerged | ExternalMerged | DecisionRejected

record track_record =
  tr_id :: string
  tr_blockId :: string
  tr_executionId :: "string option"
  tr_changeClass :: change_class
  tr_changedFileCount :: "nat option"
  tr_assessment :: "(rat \<times> rat \<times> rat) option"
  tr_riskPolicyId :: "string option"
  tr_riskPolicyName :: "string option"
  tr_decision :: track_decision
  tr_reviewEffort :: "review_effort option"
  tr_prNumber :: "int option"
  tr_prUrl :: "string option"
  tr_repoId :: "string option"
  tr_createdAt :: int
  tr_resolvedAt :: "int option"
  tr_taggedAt :: "int option"

type_synonym record_table = "track_record list"

definition get_record :: "string \<Rightarrow> record_table \<Rightarrow> track_record option" where
  "get_record rid t = List.find (\<lambda>r. tr_id r = rid) t"

definition insertIfAbsent :: "track_record \<Rightarrow> record_table \<Rightarrow> track_record \<times> record_table" where
  "insertIfAbsent r t = (case get_record (tr_id r) t of
      Some stored \<Rightarrow> (stored, t) | None \<Rightarrow> (r, t @ [r]))"

definition getByExecution :: "string \<Rightarrow> record_table \<Rightarrow> track_record option" where
  "getByExecution e t = List.find (\<lambda>r. tr_executionId r = Some e) t"

text \<open>\<^verbatim>\<open>ORDER BY created_at DESC LIMIT 1\<close>; of rows of the same instant the older one.\<close>

fun newest :: "track_record list \<Rightarrow> track_record option" where
  "newest [] = None"
| "newest (r # rs) = (case newest rs of
      None \<Rightarrow> Some r | Some s \<Rightarrow> Some (if tr_createdAt s > tr_createdAt r then s else r))"

definition getLatestByBlock :: "string \<Rightarrow> record_table \<Rightarrow> track_record option" where
  "getLatestByBlock b t = newest (filter (\<lambda>r. tr_blockId r = b) t)"

definition getByPullRequest :: "string \<Rightarrow> int \<Rightarrow> record_table \<Rightarrow> track_record option" where
  "getByPullRequest repo pr t =
     newest (filter (\<lambda>r. tr_repoId r = Some repo \<and> tr_prNumber r = Some pr) t)"

record record_patch =
  pt_decision :: "track_decision option"
  pt_reviewEffort :: "review_effort option option"
  pt_resolvedAt :: "int option"
  pt_taggedAt :: "int option option"

definition patched :: "record_patch \<Rightarrow> track_record \<Rightarrow> track_record" where
  "patched p r =
     r\<lparr>tr_decision := (case pt_decision p of None \<Rightarrow> tr_decision r | Some d \<Rightarrow> d),
       tr_reviewEffort := (case pt_reviewEffort p of None \<Rightarrow> tr_reviewEffort r | Some e \<Rightarrow> e),
       tr_resolvedAt := (case pt_resolvedAt p of None \<Rightarrow> tr_resolvedAt r | Some a \<Rightarrow> Some a),
       tr_taggedAt := (case pt_taggedAt p of None \<Rightarrow> tr_taggedAt r | Some a \<Rightarrow> a)\<rparr>"

definition patch_record :: "string \<Rightarrow> record_patch \<Rightarrow> record_table \<Rightarrow> record_table" where
  "patch_record rid p t = map (\<lambda>r. if tr_id r = rid then patched p r else r) t"

section \<open>The service\<close>

record run_classification = change_classification +
  rc_repoId :: "string option"

definition unclassified :: run_classification where
  "unclassified = \<lparr>cl_changeClass = UnknownChange, cl_fileCount = 0, rc_repoId = None\<rparr>"

text \<open>
  The classification of a block's pull request: the repository of the run, when it resolves, and the
  paths the host lists, when it can.
\<close>

definition classify_block :: "(string \<times> string list option) option \<Rightarrow> block \<Rightarrow> run_classification" where
  "classify_block ctx b = (case Option.bind (bl_pullRequest b) pr_number of
      None \<Rightarrow> unclassified
    | Some n \<Rightarrow> (case ctx of
          None \<Rightarrow> unclassified
        | Some (repo, files) \<Rightarrow> (case files of
              None \<Rightarrow> unclassified\<lparr>rc_repoId := Some repo\<rparr>
            | Some paths \<Rightarrow>
                (let c = classifyChangedFiles paths
                 in \<lparr>cl_changeClass = cl_changeClass c, cl_fileCount = cl_fileCount c,
                     rc_repoId = Some repo\<rparr>))))"

record decision_input =
  di_block :: block
  di_executionId :: string
  di_decision :: track_decision
  di_assessment :: "merge_assessment option"
  di_riskPolicyId :: "string option"
  di_riskPolicyName :: "string option"
  di_classification :: run_classification

definition decided_record :: "int \<Rightarrow> decision_input \<Rightarrow> track_record" where
  "decided_record now x =
     \<lparr>tr_id = ''mtr_'' @ di_executionId x, tr_blockId = bl_id (di_block x),
      tr_executionId = Some (di_executionId x),
      tr_changeClass = cl_changeClass (di_classification x),
      tr_changedFileCount =
        (if cl_fileCount (di_classification x) > 0 then Some (cl_fileCount (di_classification x)) else None),
      tr_assessment = map_option (\<lambda>a. (ma_complexity a, ma_risk a, ma_impact a)) (di_assessment x),
      tr_riskPolicyId = di_riskPolicyId x, tr_riskPolicyName = di_riskPolicyName x,
      tr_decision = di_decision x, tr_reviewEffort = None,
      tr_prNumber = Option.bind (bl_pullRequest (di_block x)) pr_number,
      tr_prUrl = map_option pr_url (bl_pullRequest (di_block x)),
      tr_repoId = rc_repoId (di_classification x), tr_createdAt = now,
      tr_resolvedAt = (if di_decision x \<noteq> PendingReview then Some now else None),
      tr_taggedAt = None\<rparr>"

definition recordDecision :: "int \<Rightarrow> decision_input \<Rightarrow> record_table \<Rightarrow> track_record \<times> record_table" where
  "recordDecision now x t = insertIfAbsent (decided_record now x) t"

text \<open>The patch of a resolution, from the row as it was read.\<close>

definition resolution_patch ::
  "int \<Rightarrow> track_decision \<Rightarrow> review_effort option option \<Rightarrow> track_record \<Rightarrow> record_patch option" where
  "resolution_patch now decision effort existing =
     (let settled = (tr_decision existing \<noteq> PendingReview)
      in if settled \<and> effort = None then None
         else Some
           \<lparr>pt_decision = (if settled then None else Some decision),
            pt_reviewEffort = effort,
            pt_resolvedAt = (if settled then None else Some now),
            pt_taggedAt = map_option (\<lambda>e. if e \<noteq> None then Some now else None) effort\<rparr>)"

definition resolveRecord ::
  "int \<Rightarrow> string \<Rightarrow> track_decision \<Rightarrow> review_effort option option \<Rightarrow> record_table
     \<Rightarrow> string option \<times> record_table" where
  "resolveRecord now e decision effort t = (case getByExecution e t of
      None \<Rightarrow> (None, t)
    | Some existing \<Rightarrow> (Some (tr_id existing),
        case resolution_patch now decision effort existing of
          None \<Rightarrow> t | Some p \<Rightarrow> patch_record (tr_id existing) p t))"

definition external_patch :: "int \<Rightarrow> record_patch" where
  "external_patch now =
     \<lparr>pt_decision = Some ExternalMerged, pt_reviewEffort = None, pt_resolvedAt = Some now, pt_taggedAt = None\<rparr>"

definition recordExternalMerge ::
  "int \<Rightarrow> string \<Rightarrow> int \<Rightarrow> record_table \<Rightarrow> track_record option \<times> record_table" where
  "recordExternalMerge now repo pr t = (case getByPullRequest repo pr t of
      None \<Rightarrow> (None, t)
    | Some existing \<Rightarrow>
        if tr_decision existing \<noteq> PendingReview then (None, t)
        else (Some (patched (external_patch now) existing), patch_record (tr_id existing) (external_patch now) t))"

definition tag_patch :: "int \<Rightarrow> review_effort option \<Rightarrow> record_patch" where
  "tag_patch now effort =
     \<lparr>pt_decision = None, pt_reviewEffort = Some effort, pt_resolvedAt = None,
      pt_taggedAt = Some (if effort \<noteq> None then Some now else None)\<rparr>"

definition tagRecord ::
  "int \<Rightarrow> string \<Rightarrow> review_effort option \<Rightarrow> record_table \<Rightarrow> string + track_record \<times> record_table" where
  "tagRecord now rid effort t = (case get_record rid t of
      None \<Rightarrow> Inl rid
    | Some existing \<Rightarrow> Inr (patched (tag_patch now effort) existing, patch_record rid (tag_patch now effort) t))"

text \<open>\<^verbatim>\<open>RunMergePolicy.recordHumanMerge\<close> and \<^verbatim>\<open>recordRejection\<close>.\<close>

definition recordHumanMerge ::
  "int \<Rightarrow> string \<Rightarrow> review_effort option option \<Rightarrow> record_table \<Rightarrow> record_table" where
  "recordHumanMerge now block effort t = (case Option.bind (getLatestByBlock block t) tr_executionId of
      None \<Rightarrow> t
    | Some e \<Rightarrow> if e = [] then t else snd (resolveRecord now e HumanMerged effort t))"

definition recordRejection :: "int \<Rightarrow> string \<Rightarrow> record_table \<Rightarrow> record_table" where
  "recordRejection now e t = snd (resolveRecord now e DecisionRejected None t)"

section \<open>Rollups\<close>

record class_rollup =
  ro_changeClass :: change_class
  ro_total :: nat
  ro_merged :: nat
  ro_autoMerged :: nat
  ro_humanMerged :: nat
  ro_externalMerged :: nat
  ro_rejected :: nat
  ro_pendingReview :: nat
  ro_effortNone :: nat
  ro_effortMinor :: nat
  ro_effortMajor :: nat
  ro_untagged :: nat

definition emptyMergeClassRollup :: "change_class \<Rightarrow> class_rollup" where
  "emptyMergeClassRollup c =
     \<lparr>ro_changeClass = c, ro_total = 0, ro_merged = 0, ro_autoMerged = 0, ro_humanMerged = 0,
      ro_externalMerged = 0, ro_rejected = 0, ro_pendingReview = 0, ro_effortNone = 0,
      ro_effortMinor = 0, ro_effortMajor = 0, ro_untagged = 0\<rparr>"

definition rows_with :: "(track_record \<Rightarrow> bool) \<Rightarrow> record_table \<Rightarrow> nat" where
  "rows_with p t = length (filter p t)"

definition rollup_of :: "change_class \<Rightarrow> record_table \<Rightarrow> class_rollup" where
  "rollup_of c t =
     (let rows = filter (\<lambda>r. tr_changeClass r = c) t;
          by = (\<lambda>d. rows_with (\<lambda>r. tr_decision r = d) rows);
          effort = (\<lambda>e. rows_with (\<lambda>r. tr_reviewEffort r = e) rows)
      in \<lparr>ro_changeClass = c, ro_total = length rows,
          ro_merged = by AutoMerged + by HumanMerged + by ExternalMerged,
          ro_autoMerged = by AutoMerged, ro_humanMerged = by HumanMerged,
          ro_externalMerged = by ExternalMerged, ro_rejected = by DecisionRejected,
          ro_pendingReview = by PendingReview, ro_effortNone = effort (Some EffortNone),
          ro_effortMinor = effort (Some EffortMinor), ro_effortMajor = effort (Some EffortMajor),
          ro_untagged = effort None\<rparr>)"

definition rollupByClass :: "record_table \<Rightarrow> class_rollup list" where
  "rollupByClass t = map (\<lambda>c. rollup_of c t) (remdups (map tr_changeClass t))"

definition CHANGE_CLASSES :: "change_class list" where
  "CHANGE_CLASSES =
     [DocsChange, TestChange, DependencyChange, ConfigChange, SourceChange, SchemaChange, UnknownChange]"

definition rollups :: "record_table \<Rightarrow> class_rollup list" where
  "rollups t =
     (let rows = rollupByClass t
      in map (\<lambda>c. case List.find (\<lambda>r. ro_changeClass r = c) rows of
           None \<Rightarrow> emptyMergeClassRollup c | Some r \<Rightarrow> r) CHANGE_CLASSES)"

definition autoMergeShare :: "class_rollup \<Rightarrow> rat option" where
  "autoMergeShare r = (if ro_merged r = 0 then None else Some (of_nat (ro_autoMerged r) / of_nat (ro_merged r)))"

definition frictionlessShare :: "class_rollup \<Rightarrow> rat option" where
  "frictionlessShare r =
     (let tagged = ro_effortNone r + ro_effortMinor r + ro_effortMajor r
      in if tagged = 0 then None else Some (of_nat (ro_effortNone r) / of_nat tagged))"

section \<open>Histories\<close>

datatype record_event =
    Decided int decision_input
  | Resolved int string track_decision "review_effort option option"
  | MergedOnHost int string int
  | Tagged int string "review_effort option"

fun apply_record_event :: "record_event \<Rightarrow> record_table \<Rightarrow> record_table" where
  "apply_record_event (Decided now x) t = snd (recordDecision now x t)"
| "apply_record_event (Resolved now e d effort) t = (if d = PendingReview then t else snd (resolveRecord now e d effort t))"
| "apply_record_event (MergedOnHost now repo pr) t = snd (recordExternalMerge now repo pr t)"
| "apply_record_event (Tagged now rid effort) t = (case tagRecord now rid effort t of Inl e \<Rightarrow> t | Inr (r, t') \<Rightarrow> t')"

definition record_ok :: "track_record \<Rightarrow> bool" where
  "record_ok r \<longleftrightarrow> (tr_resolvedAt r \<noteq> None \<longleftrightarrow> tr_decision r \<noteq> PendingReview)
     \<and> (tr_taggedAt r \<noteq> None \<longleftrightarrow> tr_reviewEffort r \<noteq> None)
     \<and> (\<exists>e. tr_executionId r = Some e \<and> tr_id r = ''mtr_'' @ e)"

definition table_sound :: "record_table \<Rightarrow> bool" where
  "table_sound t \<longleftrightarrow> distinct (map tr_id t) \<and> (\<forall>r \<in> set t. record_ok r)"

text \<open>A row that stays keeps its identity, and its decision once it has one.\<close>

definition record_grows :: "track_record \<Rightarrow> track_record \<Rightarrow> bool" where
  "record_grows r r' \<longleftrightarrow> tr_id r' = tr_id r \<and> tr_executionId r' = tr_executionId r
     \<and> tr_changeClass r' = tr_changeClass r \<and> tr_assessment r' = tr_assessment r
     \<and> tr_createdAt r' = tr_createdAt r
     \<and> (tr_decision r \<noteq> PendingReview \<longrightarrow>
          tr_decision r' = tr_decision r \<and> tr_resolvedAt r' = tr_resolvedAt r)"

definition table_grows :: "record_table \<Rightarrow> record_table \<Rightarrow> bool" where
  "table_grows t t' \<longleftrightarrow> (\<forall>r \<in> set t. \<exists>r' \<in> set t'. record_grows r r')"

lemma record_grows_refl [simp]: "record_grows r r"
  by (simp add: record_grows_def)

lemma record_grows_trans: "record_grows a b \<Longrightarrow> record_grows b c \<Longrightarrow> record_grows a c"
  by (auto simp: record_grows_def)

lemma table_grows_refl [simp]: "table_grows t t"
  unfolding table_grows_def using record_grows_refl by blast

lemma table_grows_trans: "table_grows a b \<Longrightarrow> table_grows b c \<Longrightarrow> table_grows a c"
  unfolding table_grows_def using record_grows_trans by blast

lemma patch_sound:
  assumes "table_sound t"
    and "\<And>r. r \<in> set t \<Longrightarrow> tr_id r = rid \<Longrightarrow> record_ok (patched p r) \<and> record_grows r (patched p r)"
  shows "table_sound (patch_record rid p t) \<and> table_grows t (patch_record rid p t)"
proof -
  have id: "tr_id (if tr_id r = rid then patched p r else r) = tr_id r" for r
    by (simp add: patched_def)
  have "map tr_id (patch_record rid p t) = map tr_id t"
    by (simp add: patch_record_def comp_def id)
  moreover have "record_ok r'" if "r' \<in> set (patch_record rid p t)" for r'
    using that assms by (auto simp: patch_record_def table_sound_def)
  moreover have "table_grows t (patch_record rid p t)"
    unfolding table_grows_def patch_record_def
  proof
    fix r assume "r \<in> set t"
    then show "\<exists>r' \<in> set (map (\<lambda>r. if tr_id r = rid then patched p r else r) t). record_grows r r'"
      using assms(2) [of r] by (intro bexI [of _ "if tr_id r = rid then patched p r else r"]) auto
  qed
  ultimately show ?thesis using assms(1) by (simp add: table_sound_def)
qed

lemma find_in: "List.find p xs = Some x \<Longrightarrow> x \<in> set xs \<and> p x"
  by (auto simp: find_Some_iff)

lemma newest_in: "newest rs = Some r \<Longrightarrow> r \<in> set rs"
  by (induction rs arbitrary: r) (auto split: option.splits if_splits)

lemma filter_key_unique: "distinct (map f xs) \<Longrightarrow> x \<in> set xs \<Longrightarrow> filter (\<lambda>y. f y = f x) xs = [x]"
  by (induction xs) (auto simp: filter_empty_conv image_iff)

lemma sound_unique: "table_sound t \<Longrightarrow> r \<in> set t \<Longrightarrow> s \<in> set t \<Longrightarrow> tr_id r = tr_id s \<Longrightarrow> r = s"
  by (auto simp: table_sound_def distinct_map inj_on_def)

lemma resolution_patch_ok:
  assumes "record_ok r" and "resolution_patch now d effort r = Some p" and "d \<noteq> PendingReview"
  shows "record_ok (patched p r) \<and> record_grows r (patched p r)"
  using assms
  by (auto simp: record_ok_def record_grows_def resolution_patch_def patched_def Let_def
      split: if_splits option.splits)

lemma decided_sound:
  assumes "table_sound t"
  shows "table_sound (snd (recordDecision now x t)) \<and> table_grows t (snd (recordDecision now x t))"
proof (cases "get_record (tr_id (decided_record now x)) t")
  case None
  then have fresh: "tr_id (decided_record now x) \<notin> tr_id ` set t"
    by (auto simp: get_record_def find_None_iff)
  have "record_ok (decided_record now x)" by (simp add: record_ok_def decided_record_def)
  with fresh assms have "table_sound (t @ [decided_record now x])" by (auto simp: table_sound_def)
  moreover have "table_grows t (t @ [decided_record now x])"
    unfolding table_grows_def by (intro ballI bexI, rule record_grows_refl) simp
  ultimately show ?thesis using None by (simp add: recordDecision_def insertIfAbsent_def)
next
  case (Some r)
  then show ?thesis using assms by (simp add: recordDecision_def insertIfAbsent_def)
qed

text \<open>A patch computed from the stored row it is applied to.\<close>

lemma patch_of_row_sound:
  assumes "table_sound t" and "r \<in> set t" and "record_ok (patched p r) \<and> record_grows r (patched p r)"
  shows "table_sound (patch_record (tr_id r) p t) \<and> table_grows t (patch_record (tr_id r) p t)"
  using assms sound_unique [OF assms(1) _ assms(2)] by (intro patch_sound) auto

lemma resolved_sound:
  assumes "table_sound t" and "d \<noteq> PendingReview"
  shows "table_sound (snd (resolveRecord now k d effort t)) \<and> table_grows t (snd (resolveRecord now k d effort t))"
proof (cases "getByExecution k t")
  case None
  then show ?thesis using assms by (simp add: resolveRecord_def)
next
  case (Some r)
  then have r: "r \<in> set t" unfolding getByExecution_def by (rule find_in [THEN conjunct1])
  then have "record_ok r" using assms(1) by (simp add: table_sound_def)
  with Some r assms show ?thesis
    by (auto simp: resolveRecord_def split: option.split
        dest!: resolution_patch_ok [rotated] intro: patch_of_row_sound [THEN conjunct1] patch_of_row_sound [THEN conjunct2])
qed

lemma external_sound:
  assumes "table_sound t"
  shows "table_sound (snd (recordExternalMerge now repo pr t)) \<and> table_grows t (snd (recordExternalMerge now repo pr t))"
proof (cases "getByPullRequest repo pr t")
  case None
  then show ?thesis using assms by (simp add: recordExternalMerge_def)
next
  case (Some r)
  then have r: "r \<in> set t" using newest_in by (fastforce simp: getByPullRequest_def)
  have "record_ok (patched (external_patch now) r) \<and> record_grows r (patched (external_patch now) r)"
    if "tr_decision r = PendingReview"
    using that r assms
    by (auto simp: table_sound_def record_ok_def record_grows_def patched_def external_patch_def)
  then show ?thesis using Some assms patch_of_row_sound [OF assms r]
    by (simp add: recordExternalMerge_def)
qed

lemma tagged_sound:
  assumes "table_sound t"
  shows "table_sound (apply_record_event (Tagged now rid effort) t)
    \<and> table_grows t (apply_record_event (Tagged now rid effort) t)"
proof -
  have "table_sound (patch_record rid (tag_patch now effort) t)
      \<and> table_grows t (patch_record rid (tag_patch now effort) t)"
    using assms
    by (intro patch_sound)
       (auto simp: table_sound_def record_ok_def record_grows_def patched_def tag_patch_def)
  then show ?thesis using assms by (simp add: tagRecord_def split: option.split)
qed

lemma event_sound:
  "table_sound t \<Longrightarrow> table_sound (apply_record_event e t) \<and> table_grows t (apply_record_event e t)"
  using decided_sound resolved_sound external_sound tagged_sound by (cases e) auto

lemma events_sound:
  "table_sound t \<Longrightarrow> table_sound (fold apply_record_event es t) \<and> table_grows t (fold apply_record_event es t)"
proof (induction es arbitrary: t)
  case (Cons e es)
  from event_sound [OF Cons.prems, of e] Cons.IH [of "apply_record_event e t"]
  show ?case using table_grows_trans by auto
qed simp

lemma history_sound: "table_sound (fold apply_record_event es [])"
  using events_sound [of "[]" es] by (simp add: table_sound_def)

section \<open>Properties\<close>


definition merged_task :: block where
  "merged_task = (bare_block ''t1'' TaskLevel None)
     \<lparr>bl_pullRequest := Some \<lparr>pr_url = ''u'', pr_number = Some 7, pr_branch = None\<rparr>\<rparr>"

definition merged_history :: "record_event list" where
  "merged_history =
     [Decided 1 \<lparr>di_block = merged_task, di_executionId = ''e1'', di_decision = PendingReview,
        di_assessment = None, di_riskPolicyId = None, di_riskPolicyName = None,
        di_classification = classify_block (Some (''r'', Some [''src/a.ts''])) merged_task\<rparr>,
      MergedOnHost 5 ''r'' 7]"

lemma merged_history_run:
  "map tr_decision (fold apply_record_event merged_history []) = [ExternalMerged]"
  by code_simp


section \<open>Rollups and the race\<close>

lemma rows_by_decision:
  "length rows = rows_with (\<lambda>r. tr_decision r = AutoMerged) rows
     + rows_with (\<lambda>r. tr_decision r = HumanMerged) rows
     + rows_with (\<lambda>r. tr_decision r = ExternalMerged) rows
     + rows_with (\<lambda>r. tr_decision r = DecisionRejected) rows
     + rows_with (\<lambda>r. tr_decision r = PendingReview) rows"
proof (induction rows)
  case (Cons r rows)
  then show ?case by (cases "tr_decision r") (simp_all add: rows_with_def)
qed (simp add: rows_with_def)

lemma rows_by_effort:
  "length rows = rows_with (\<lambda>r. tr_reviewEffort r = Some EffortNone) rows
     + rows_with (\<lambda>r. tr_reviewEffort r = Some EffortMinor) rows
     + rows_with (\<lambda>r. tr_reviewEffort r = Some EffortMajor) rows
     + rows_with (\<lambda>r. tr_reviewEffort r = None) rows"
proof (induction rows)
  case (Cons r rows)
  show ?case
  proof (cases "tr_reviewEffort r")
    case None
    with Cons show ?thesis by (simp add: rows_with_def)
  next
    case (Some e)
    with Cons show ?thesis by (cases e) (simp_all add: rows_with_def)
  qed
qed (simp add: rows_with_def)

lemma rows_by_class: "sum_list (map (\<lambda>c. length (filter (\<lambda>r. tr_changeClass r = c) t)) CHANGE_CLASSES) = length t"
proof (induction t)
  case (Cons r t)
  then show ?case by (cases "tr_changeClass r") (simp_all add: CHANGE_CLASSES_def)
qed (simp add: CHANGE_CLASSES_def)

lemma rollup_found:
  "List.find (\<lambda>r. ro_changeClass r = c) (rollupByClass t)
     = (if c \<in> tr_changeClass ` set t then Some (rollup_of c t) else None)"
proof -
  have "List.find (\<lambda>r. ro_changeClass r = c) (map (\<lambda>c. rollup_of c t) cs)
      = (if c \<in> set cs then Some (rollup_of c t) else None)" for cs
    by (induction cs) (auto simp: rollup_of_def Let_def)
  then show ?thesis by (simp add: rollupByClass_def)
qed

lemma rollups_exact: "rollups t = map (\<lambda>c. rollup_of c t) CHANGE_CLASSES"
proof -
  have "rollup_of c t = emptyMergeClassRollup c" if "c \<notin> tr_changeClass ` set t" for c
  proof -
    have "filter (\<lambda>r. tr_changeClass r = c) t = []" using that by (auto simp: filter_empty_conv)
    then show ?thesis by (simp add: rollup_of_def emptyMergeClassRollup_def rows_with_def)
  qed
  then show ?thesis by (auto simp: rollups_def Let_def rollup_found)
qed

definition share_ok :: "rat option \<Rightarrow> bool" where
  "share_ok x = pred_option (\<lambda>q. 0 \<le> q \<and> q \<le> 1) x"

lemma rollup_class: "ro_changeClass (rollup_of c t) = c"
  by (simp add: rollup_of_def Let_def)

lemma rollup_total: "ro_total (rollup_of c t) = length (filter (\<lambda>r. tr_changeClass r = c) t)"
  by (simp add: rollup_of_def Let_def)

lemma rollup_adds_up:
  fixes t c
  defines "q \<equiv> rollup_of c t"
  shows "ro_total q = ro_merged q + ro_rejected q + ro_pendingReview q
    \<and> ro_merged q = ro_autoMerged q + ro_humanMerged q + ro_externalMerged q
    \<and> ro_total q = ro_effortNone q + ro_effortMinor q + ro_effortMajor q + ro_untagged q
    \<and> share_ok (autoMergeShare q) \<and> share_ok (frictionlessShare q)"
proof -
  have sums: "ro_total q = ro_merged q + ro_rejected q + ro_pendingReview q"
    "ro_merged q = ro_autoMerged q + ro_humanMerged q + ro_externalMerged q"
    "ro_total q = ro_effortNone q + ro_effortMinor q + ro_effortMajor q + ro_untagged q"
    using rows_by_decision [of "filter (\<lambda>r. tr_changeClass r = c) t"]
      rows_by_effort [of "filter (\<lambda>r. tr_changeClass r = c) t"]
    by (simp_all add: q_def rollup_of_def Let_def)
  have share: "0 \<le> (of_nat m / of_nat n :: rat)" "m \<le> n \<Longrightarrow> (of_nat m / of_nat n :: rat) \<le> 1" for m n
    by (cases "n = 0"; simp add: divide_le_eq_1)+
  have "share_ok (autoMergeShare q)" "share_ok (frictionlessShare q)"
    using sums(2) share by (auto simp: share_ok_def autoMergeShare_def frictionlessShare_def Let_def simp del: of_nat_add)
  with sums show ?thesis by simp
qed

text \<open>
  The rollups account for every row: one rollup per class in the fixed order, the totals add up to
  the number of rows, a class's rows are merged, rejected or pending and tagged or not with nothing
  counted twice, and both shares, where they exist, lie between nothing and everything.
\<close>

theorem rollups_account_for_every_row:
  "map ro_changeClass (rollups t) = CHANGE_CLASSES \<and> sum_list (map ro_total (rollups t)) = length t
   \<and> list_all (\<lambda>q. ro_total q = ro_merged q + ro_rejected q + ro_pendingReview q
        \<and> ro_merged q = ro_autoMerged q + ro_humanMerged q + ro_externalMerged q
        \<and> ro_total q = ro_effortNone q + ro_effortMinor q + ro_effortMajor q + ro_untagged q
        \<and> share_ok (autoMergeShare q) \<and> share_ok (frictionlessShare q)) (rollups t)"
proof (intro conjI)
  show "map ro_changeClass (rollups t) = CHANGE_CLASSES"
    by (simp add: rollups_exact comp_def rollup_class)
  show "sum_list (map ro_total (rollups t)) = length t"
    using rows_by_class [of t] by (simp add: rollups_exact comp_def rollup_total)
  show "list_all (\<lambda>q. ro_total q = ro_merged q + ro_rejected q + ro_pendingReview q
      \<and> ro_merged q = ro_autoMerged q + ro_humanMerged q + ro_externalMerged q
      \<and> ro_total q = ro_effortNone q + ro_effortMinor q + ro_effortMajor q + ro_untagged q
      \<and> share_ok (autoMergeShare q) \<and> share_ok (frictionlessShare q)) (rollups t)"
    unfolding rollups_exact list_all_iff set_map ball_simps by (intro ballI rollup_adds_up)
qed

text \<open>
  The two writers of a resolution read first and patch by id: when a dismissal and the host's webhook
  both read the row while it is pending, the later patch wins, and a merged pull request is recorded
  as rejected.
\<close>

definition pending_table :: record_table where
  "pending_table = fold apply_record_event (take 1 merged_history) []"

definition late_dismissal :: "record_table \<Rightarrow> record_table" where
  "late_dismissal t = (case getByExecution ''e1'' pending_table of
      None \<Rightarrow> t
    | Some r \<Rightarrow> (case resolution_patch 6 DecisionRejected None r of
          None \<Rightarrow> t | Some p \<Rightarrow> patch_record (tr_id r) p t))"

lemma dismissal_overwrites_a_merge:
  "map tr_decision (snd (recordExternalMerge 5 ''r'' 7 pending_table)) = [ExternalMerged]
   \<and> map tr_decision (late_dismissal (snd (recordExternalMerge 5 ''r'' 7 pending_table))) = [DecisionRejected]"
  by (intro conjI) code_simp+

end
