(* ===== verification/MergeStep.thy ===== *)
theory MergeStep
  imports RunMachine Board MergeRecord "HOL-Library.List_Lexorder" "HOL-Library.Char_ord"
begin

text \<open>
  Merging the pull requests of a task: the resolution of a \<^verbatim>\<open>merger\<close> step (\<^verbatim>\<open>MergeResolver.ts\<close>), the
  merge itself over all repositories in order (\<^verbatim>\<open>ExecutionService.finalizeMerge\<close>,
  \<^verbatim>\<open>mergeOrder.logic.ts\<close>, \<^verbatim>\<open>GitHubPullRequestMerger.ts\<close>), the merge a person asks for
  (\<^verbatim>\<open>StepDecisionController.mergePr\<close>) and the dependents a merged task starts
  (\<^verbatim>\<open>PostMergeBoardController.ts\<close>).

  The world is that of \<open>RunMachine\<close> with the track record, the pull requests merged on the host in order,
  and the requests sent after a merge. Parameters: the host's answer to a merge, which may depend on
  what is merged already, the own repository of a block, the files a host lists, the materialisation of
  a module, the start of a run, and the collation of \<^verbatim>\<open>localeCompare\<close> as a key. Prose of the
  cards is left out, and the failures of the best-effort calls are swallowed as in the code.
\<close>

section \<open>The world of a merge\<close>

type_synonym merge_pr_entry = "string option \<times> string list \<times> pull_request_ref"

type_synonym host_pr = "string \<times> int"

record merge_world =
  mw_run :: world
  mw_records :: record_table
  mw_merged :: "host_pr list"
  mw_deleted :: "(string \<times> string) list"
  mw_writebacks :: "string list"
  mw_started :: "(string \<times> string) list"
  mw_poked :: "string list"

datatype merge_error =
    NoRepository string
  | HostRefused string
  | Machine machine_error
  | NoPrToMerge string
  | DryRunNotMergeable
  | SubmissionRefused workspace_role change_class
  | NoSuchBlock string

type_synonym 'a merge_act = "(merge_world, merge_error, 'a) action"

record merge_pipeline =
  mp_id :: string
  mp_agentKinds :: "string list"

record merge_deps =
  me_machine :: machine_deps
  me_host :: "(host_pr list \<Rightarrow> host_pr \<Rightarrow> string option) option"
  me_ownRepo :: "string \<Rightarrow> string option"
  me_policy :: "(policy_target \<Rightarrow> risk_policy option) option"
  me_track :: bool
  me_files :: "string \<Rightarrow> (string \<times> string list option) option"
  me_collate :: "string \<Rightarrow> rat"
  me_writeback :: bool
  me_poke :: bool
  me_assignModule :: "string \<Rightarrow> unit act"
  me_foreign :: "string list \<Rightarrow> block list"
  me_pipelines :: "merge_pipeline list"
  me_adoptable :: "string \<Rightarrow> merge_pipeline option"
  me_individual :: "block \<Rightarrow> string list \<Rightarrow> bool"
  me_start :: "string \<Rightarrow> string \<Rightarrow> unit act"

definition on_run :: "'a act \<Rightarrow> 'a merge_act" where
  "on_run m w = (case m (mw_run w) of
      (Inl e, r) \<Rightarrow> (Inl (Machine e), w\<lparr>mw_run := r\<rparr>) | (Inr a, r) \<Rightarrow> (Inr a, w\<lparr>mw_run := r\<rparr>))"

definition best_effort :: "unit merge_act \<Rightarrow> unit merge_act" where
  "best_effort m w = (Inr (), snd (m w))"

definition act_catch :: "('w, 'e, 'a) action \<Rightarrow> ('e \<Rightarrow> ('w, 'f, 'a) action) \<Rightarrow> ('w, 'f, 'a) action" where
  "act_catch m h w = (case m w of (Inl e, w1) \<Rightarrow> h e w1 | (Inr a, w1) \<Rightarrow> (Inr a, w1))"

section \<open>All pull requests of a task\<close>

text \<open>The repository of an entry; an empty name reads as the own service.\<close>

definition entry_repo :: "merge_pr_entry \<Rightarrow> string option" where
  "entry_repo e = nonempty (fst e)"

definition merge_key :: "merge_pr_entry \<Rightarrow> string" where
  "merge_key e = (case e of (repo, frames, _) \<Rightarrow>
     if frames \<noteq> [] then hd (sort frames) else case repo of None \<Rightarrow> [] | Some r \<Rightarrow> r)"

definition orderPrsForMerge :: "(string \<Rightarrow> rat) \<Rightarrow> merge_pr_entry list \<Rightarrow> merge_pr_entry list" where
  "orderPrsForMerge collate es =
     (if length es \<le> 1 then es
      else sort_key (\<lambda>e. collate (merge_key e)) (filter (\<lambda>e. entry_repo e \<noteq> None) es)
           @ filter (\<lambda>e. entry_repo e = None) es)"

record merge_outcome =
  mo_merged :: "merge_pr_entry list"
  mo_failed :: "(merge_pr_entry \<times> string) option"
  mo_skipped :: "merge_pr_entry list"

definition platform_branch :: "pull_request_ref \<Rightarrow> string option" where
  "platform_branch r = (case pr_branch r of
      None \<Rightarrow> None | Some b \<Rightarrow> if starts_with ''cat-factory/'' b then Some b else None)"

definition pr_on_host :: "string \<Rightarrow> merge_pr_entry \<Rightarrow> host_pr option" where
  "pr_on_host own e = map_option (\<lambda>n. (or_else (entry_repo e) own, n)) (pr_number (snd (snd e)))"

fun merge_loop ::
  "(host_pr list \<Rightarrow> host_pr \<Rightarrow> string option) \<Rightarrow> string \<Rightarrow> merge_pr_entry list \<Rightarrow> merge_pr_entry list
     \<Rightarrow> merge_world \<Rightarrow> merge_outcome \<times> merge_world" where
  "merge_loop host own acc [] w = (\<lparr>mo_merged = acc, mo_failed = None, mo_skipped = []\<rparr>, w)"
| "merge_loop host own acc (e # es) w = (case pr_on_host own e of
      None \<Rightarrow> (\<lparr>mo_merged = acc, mo_failed = Some (e, ''no number to merge''), mo_skipped = es\<rparr>, w)
    | Some pr \<Rightarrow> (case host (mw_merged w) pr of
          Some err \<Rightarrow> (\<lparr>mo_merged = acc, mo_failed = Some (e, err), mo_skipped = es\<rparr>, w)
        | None \<Rightarrow> merge_loop host own (acc @ [e]) es
            (w\<lparr>mw_merged := mw_merged w @ [pr],
               mw_deleted := mw_deleted w @ (case platform_branch (snd (snd e)) of
                  None \<Rightarrow> [] | Some b \<Rightarrow> [(fst pr, b)])\<rparr>)))"

definition mergePullRequests ::
  "(host_pr list \<Rightarrow> host_pr \<Rightarrow> string option) \<Rightarrow> string option \<Rightarrow> string \<Rightarrow> merge_pr_entry list \<Rightarrow> merge_outcome merge_act" where
  "mergePullRequests host ownRepo blockId prs w = (case ownRepo of
      None \<Rightarrow> (Inl (NoRepository blockId), w)
    | Some own \<Rightarrow> (case merge_loop host own [] prs w of (o1, w1) \<Rightarrow> (Inr o1, w1)))"

section \<open>After a merge\<close>

definition augmentWithCrossWorkspaceDeps :: "(string list \<Rightarrow> block list) \<Rightarrow> block list \<Rightarrow> string list \<Rightarrow> block list" where
  "augmentWithCrossWorkspaceDeps found blocks deps =
     (let missing = filter (\<lambda>d. d \<notin> bl_id ` set blocks) (remdups deps)
      in if missing = [] then blocks else blocks @ found missing)"

text \<open>The pipeline a dependent starts: its pinned one, stored or adoptable, or the first of the board.\<close>

definition dependent_pipeline :: "merge_deps \<Rightarrow> block \<Rightarrow> merge_pipeline option" where
  "dependent_pipeline deps b = (case nonempty (bl_pipelineId b) of
      Some p \<Rightarrow> (case List.find (\<lambda>q. mp_id q = p) (rev (me_pipelines deps)) of
          Some q \<Rightarrow> Some q | None \<Rightarrow> me_adoptable deps p)
    | None \<Rightarrow> (case me_pipelines deps of [] \<Rightarrow> None | q # _ \<Rightarrow> Some q))"

definition dependents_of :: "string \<Rightarrow> block list \<Rightarrow> block list" where
  "dependents_of merged blocks = filter (\<lambda>b. bl_level b = TaskLevel \<and> merged \<in> set (bl_dependsOn b)) blocks"

definition startable :: "merge_deps \<Rightarrow> block list \<Rightarrow> block \<Rightarrow> (string \<times> string) option" where
  "startable deps blocks b =
     (if \<not> dependenciesMet blocks (bl_id b) then None
      else if bl_status b \<noteq> Planned \<and> bl_status b \<noteq> Ready then None
      else case dependent_pipeline deps b of
          None \<Rightarrow> None
        | Some p \<Rightarrow> if me_individual deps b (mp_agentKinds p) then None else Some (bl_id b, mp_id p))"

definition start_dependent :: "merge_deps \<Rightarrow> (string \<times> string) \<Rightarrow> unit merge_act" where
  "start_dependent deps s =
     best_effort (\<lambda>w. on_run (me_start deps (fst s) (snd s)) (w\<lparr>mw_started := mw_started w @ [s]\<rparr>))"

fun start_all :: "merge_deps \<Rightarrow> (string \<times> string) list \<Rightarrow> unit merge_act" where
  "start_all deps [] w = (Inr (), w)"
| "start_all deps (s # ss) w = act_then (start_dependent deps s) (start_all deps ss) w"

definition autoStartDependents :: "merge_deps \<Rightarrow> string \<Rightarrow> unit merge_act" where
  "autoStartDependents deps merged w =
     (let blocks = wd_blocks (mw_run w); dependents = dependents_of merged blocks
      in if dependents = [] then (Inr (), w)
         else (let all = augmentWithCrossWorkspaceDeps (me_foreign deps) blocks
                       (concat (map bl_dependsOn dependents))
               in start_all deps (List.map_filter (startable deps all) dependents) w))"

section \<open>Merging a task\<close>

datatype merge_result = Merged | Partial "string list" "string list"

definition entry_label :: "merge_pr_entry \<Rightarrow> string" where
  "entry_label e = or_else (entry_repo e) ''own service''"

definition raise_review :: "merge_deps \<Rightarrow> block \<Rightarrow> string option \<Rightarrow> unit merge_act" where
  "raise_review deps b execution = on_run (raise_card (me_machine deps)
     \<lparr>cd_type = MergeReview, cd_blockId = Some (bl_id b), cd_executionId = execution\<rparr>)"

definition raisePartialMergeNotification :: "merge_deps \<Rightarrow> block \<Rightarrow> unit merge_act" where
  "raisePartialMergeNotification deps b = raise_review deps b (bl_executionId b)"

definition settle_task :: "merge_deps \<Rightarrow> block \<Rightarrow> unit merge_act" where
  "settle_task deps b =
     act_then (on_run (me_assignModule deps (bl_id b)))
       (act_then (act_when (bl_autoStartDependents b = Some True)
                    (best_effort (autoStartDependents deps (bl_id b))))
          (\<lambda>w. (Inr (), case nonempty (bl_initiativeId b) of
             None \<Rightarrow> w | Some i \<Rightarrow> if me_poke deps then w\<lparr>mw_poked := mw_poked w @ [i]\<rparr> else w)))"

text \<open>What follows the merge of every pull request.\<close>

definition settle_merged :: "merge_deps \<Rightarrow> block \<Rightarrow> merge_result merge_act" where
  "settle_merged deps b =
     act_then (on_run (update_block (bl_id b) (set_status BlockDone 1)))
       (act_then (\<lambda>w. (Inr (), if me_writeback deps \<and> bl_pullRequest b \<noteq> None
                              then w\<lparr>mw_writebacks := mw_writebacks w @ [bl_id b]\<rparr> else w))
          (act_then (act_when (bl_level b = TaskLevel) (settle_task deps b)) (act_return Merged)))"

definition split_merge :: "merge_deps \<Rightarrow> block \<Rightarrow> merge_outcome \<Rightarrow> merge_pr_entry \<Rightarrow> merge_result merge_act" where
  "split_merge deps b out failed =
     act_then (on_run (update_block (bl_id b) (\<lambda>x. x\<lparr>bl_status := BlockBlocked\<rparr>)))
       (act_then (raisePartialMergeNotification deps b)
          (act_return (Partial (map entry_label (mo_merged out)) (map entry_label (failed # mo_skipped out)))))"

definition merge_all :: "merge_deps \<Rightarrow> block \<Rightarrow> merge_result merge_act" where
  "merge_all deps b =
     (let ordered = orderPrsForMerge (me_collate deps) (allPullRequests b)
      in case me_host deps of
           None \<Rightarrow> settle_merged deps b
         | Some host \<Rightarrow>
             if ordered = [] then settle_merged deps b
             else act_bind (mergePullRequests host (me_ownRepo deps (bl_id b)) (bl_id b) ordered) (\<lambda>out.
               case mo_failed out of
                 None \<Rightarrow> settle_merged deps b
               | Some (e, err) \<Rightarrow>
                   if mo_merged out = [] then act_throw (HostRefused err) else split_merge deps b out e))"

definition finalizeMerge :: "merge_deps \<Rightarrow> string \<Rightarrow> merge_result merge_act" where
  "finalizeMerge deps blockId = act_bind (on_run (get_block blockId)) (\<lambda>found. case found of
      None \<Rightarrow> act_return Merged
    | Some b \<Rightarrow>
        if bl_status b = BlockDone then act_return Merged
        else if bl_status b = BlockBlocked then act_return (Partial [] [])
        else merge_all deps b)"

section \<open>The merger step\<close>

datatype merge_decided = AutoMergedOutcome | AwaitingReview

record merge_decision =
  dn_outcome :: merge_decided
  dn_reason :: merge_reason
  dn_exceeded :: "merge_axis list"
  dn_assessment :: "merge_assessment option"
  dn_changeClass :: change_class
  dn_policy :: risk_policy

definition run_policy :: "merge_deps \<Rightarrow> block \<Rightarrow> intake_origin option \<Rightarrow> risk_policy" where
  "run_policy deps b origin = resolveRiskPolicy (me_policy deps) (bl_riskPolicyId b) (runDefaultScopeFor origin)"

definition classified :: "merge_deps \<Rightarrow> block \<Rightarrow> run_classification" where
  "classified deps b = (if me_track deps then classify_block (me_files deps (bl_id b)) b else unclassified)"

definition record_merge ::
  "merge_deps \<Rightarrow> instance_rec \<Rightarrow> block \<Rightarrow> merge_assessment option \<Rightarrow> track_decision \<Rightarrow> unit merge_act" where
  "record_merge deps i b a d w =
     (let p = run_policy deps b (in_intakeOrigin i)
      in (Inr (), if me_track deps
          then w\<lparr>mw_records := snd (recordDecision (wd_now (mw_run w))
                  \<lparr>di_block = b, di_executionId = in_id i, di_decision = d, di_assessment = a,
                   di_riskPolicyId = rp_id p, di_riskPolicyName = Some (rp_name p),
                   di_classification = classified deps b\<rparr> (mw_records w))\<rparr>
          else w))"

text \<open>The card first, then the board.\<close>

definition raiseReviewAndBlock :: "merge_deps \<Rightarrow> instance_rec \<Rightarrow> block \<Rightarrow> unit merge_act" where
  "raiseReviewAndBlock deps i b =
     act_then (raise_review deps b (Some (in_id i)))
       (on_run (update_block (bl_id b) (set_status PrReady 1)))"

definition await_review ::
  "merge_deps \<Rightarrow> instance_rec \<Rightarrow> block \<Rightarrow> merge_decision \<Rightarrow> merge_decision option merge_act" where
  "await_review deps i b d =
     act_then (record_merge deps i b (dn_assessment d) PendingReview)
       (act_then (raiseReviewAndBlock deps i b) (act_return (Some d)))"

definition merge_now ::
  "merge_deps \<Rightarrow> instance_rec \<Rightarrow> block \<Rightarrow> merge_decision \<Rightarrow> merge_decision option merge_act" where
  "merge_now deps i b d =
     act_catch
       (act_bind (finalizeMerge deps (bl_id b)) (\<lambda>res. case res of
           Partial merged unmerged \<Rightarrow>
             act_then (record_merge deps i b (dn_assessment d) PendingReview)
               (act_return (Some (d\<lparr>dn_outcome := AwaitingReview, dn_reason := MergePartial, dn_exceeded := []\<rparr>)))
         | Merged \<Rightarrow>
             act_then (record_merge deps i b (dn_assessment d) AutoMerged)
               (act_return (Some (d\<lparr>dn_outcome := AutoMergedOutcome, dn_exceeded := []\<rparr>)))))
       (\<lambda>_. await_review deps i b (d\<lparr>dn_reason := MergeFailed\<rparr>))"

definition resolveMergerStep ::
  "merge_deps \<Rightarrow> instance_rec \<Rightarrow> raw_assessment option \<Rightarrow> merge_decision option merge_act" where
  "resolveMergerStep deps i raw = act_bind (on_run (get_block (in_blockId i))) (\<lambda>found. case found of
      None \<Rightarrow> act_return None
    | Some b \<Rightarrow>
        if bl_status b = BlockDone then act_return None
        else
          (let a = Option.bind raw parseMergeAssessment;
               p = run_policy deps b (in_intakeOrigin i);
               c = cl_changeClass (classified deps b);
               v = resolveMergePrecedence (precedence_for p (in_mode i) (in_initiatedByRole i) c a);
               d = \<lparr>dn_outcome = AwaitingReview,
                    dn_reason = (if pv_merge v then pv_mergeReason v else pv_reviewReason v),
                    dn_exceeded = (case a of None \<Rightarrow> [] | Some x \<Rightarrow> exceededAxesOf x p),
                    dn_assessment = a, dn_changeClass = c, dn_policy = p\<rparr>
           in if pv_merge v then merge_now deps i b d else await_review deps i b d))"

section \<open>The merge a person asks for\<close>

definition assertNotDryRun :: "instance_rec option \<Rightarrow> merge_error option" where
  "assertNotDryRun i = (if isDryRun (Option.bind i in_mode) then Some DryRunNotMergeable else None)"

definition assertSubmissionAllowed :: "merge_deps \<Rightarrow> block \<Rightarrow> instance_rec option \<Rightarrow> merge_error option" where
  "assertSubmissionAllowed deps b found = (case found of
      None \<Rightarrow> None
    | Some i \<Rightarrow> (case in_initiatedByRole i of
        None \<Rightarrow> None
      | Some role \<Rightarrow>
          (let p = run_policy deps b (in_intakeOrigin i); c = cl_changeClass (classified deps b)
           in if submissionAllowlistForRole (rv_submissionClassesByRole p) (Some role) = None then None
              else if submissionAllowedForRole (rv_submissionClassesByRole p) (Some role) c then None
              else Some (SubmissionRefused role c))))"

definition assertPlatformMayMerge :: "merge_deps \<Rightarrow> block \<Rightarrow> unit merge_act" where
  "assertPlatformMayMerge deps b w =
     (case (case nonempty (bl_executionId b) of
              None \<Rightarrow> Inr None | Some e \<Rightarrow> get_run (wd_ws (mw_run w)) e (wd_runs (mw_run w))) of
        Inl e \<Rightarrow> (Inl (Machine (StoreFailed e)), w)
      | Inr found \<Rightarrow> (case assertNotDryRun found of
            Some e \<Rightarrow> (Inl e, w)
          | None \<Rightarrow> (case assertSubmissionAllowed deps b found of
                Some e \<Rightarrow> (Inl e, w) | None \<Rightarrow> (Inr (), w))))"

definition requireBlock :: "string \<Rightarrow> block merge_act" where
  "requireBlock blockId w = (case block_in (mw_run w) blockId of
      None \<Rightarrow> (Inl (NoSuchBlock blockId), w) | Some b \<Rightarrow> (Inr b, w))"

definition mergePr :: "merge_deps \<Rightarrow> string \<Rightarrow> review_effort option option \<Rightarrow> block merge_act" where
  "mergePr deps blockId effort = act_bind (requireBlock blockId) (\<lambda>b.
     if bl_status b \<noteq> PrReady then act_throw (NoPrToMerge blockId)
     else act_then (assertPlatformMayMerge deps b)
       (act_then (finalizeMerge deps blockId)
         (act_then (\<lambda>w. (Inr (), if me_track deps
              then w\<lparr>mw_records := recordHumanMerge (wd_now (mw_run w)) blockId effort (mw_records w)\<rparr> else w))
           (requireBlock blockId))))"

section \<open>What an action leaves alone\<close>

text \<open>An action that leaves a view of the world as it was, whether it returns or throws.\<close>

definition keeps :: "('w \<Rightarrow> 'k) \<Rightarrow> ('w, 'e, 'a) action \<Rightarrow> bool" where
  "keeps f m \<longleftrightarrow> (\<forall>w. f (snd (m w)) = f w)"

named_theorems keeps_intros "actions that leave a view alone"

lemma keepsD: "keeps f m \<Longrightarrow> f (snd (m w)) = f w"
  by (simp add: keeps_def)

lemma keeps_return [keeps_intros]: "keeps f (act_return a)"
  by (simp add: keeps_def act_return_def)

lemma keeps_throw [keeps_intros]: "keeps f (act_throw e)"
  by (simp add: keeps_def act_throw_def)

lemma keeps_bind [keeps_intros]:
  assumes "keeps f m" and "\<And>a. keeps f (n a)"
  shows "keeps f (act_bind m n)"
  unfolding keeps_def
proof
  fix w
  obtain res w1 where m: "m w = (res, w1)" by fastforce
  with keepsD [OF assms(1), of w] have "f w1 = f w" by simp
  with m show "f (snd (act_bind m n w)) = f w"
    by (cases res) (simp_all add: act_bind_def keepsD [OF assms(2)])
qed

lemma keeps_then [keeps_intros]: "keeps f m \<Longrightarrow> keeps f n \<Longrightarrow> keeps f (act_then m n)"
  unfolding act_then_def by (rule keeps_bind)

lemma keeps_when [keeps_intros]: "keeps f m \<Longrightarrow> keeps f (act_when b m)"
  by (simp add: act_when_def keeps_return)

lemma keeps_best_effort [keeps_intros]: "keeps f m \<Longrightarrow> keeps f (best_effort m)"
  by (simp add: keeps_def best_effort_def)

lemma keeps_on_run [keeps_intros]: "keeps mw_merged (on_run m)"
  by (simp add: keeps_def on_run_def split: prod.split sum.split)

lemma keeps_start_all [keeps_intros]: "keeps mw_merged (start_all deps ss)"
proof (induction ss)
  case (Cons s ss)
  have "keeps mw_merged (start_dependent deps s)"
    by (simp add: start_dependent_def keeps_def best_effort_def keepsD [OF keeps_on_run])
  then have "keeps mw_merged (act_then (start_dependent deps s) (start_all deps ss))"
    using Cons by (rule keeps_then)
  then show ?case by (simp add: keeps_def)
qed (simp add: keeps_def)

lemma keeps_autoStart [keeps_intros]: "keeps mw_merged (autoStartDependents deps b)"
  using keeps_start_all by (simp add: keeps_def autoStartDependents_def Let_def)

lemma keeps_settle_task [keeps_intros]: "keeps mw_merged (settle_task deps b)"
  unfolding settle_task_def
  by (intro keeps_intros) (simp add: keeps_def split: option.split)

lemma keeps_settle_merged [keeps_intros]: "keeps mw_merged (settle_merged deps b)"
  unfolding settle_merged_def
  by (intro keeps_intros) (simp add: keeps_def)

lemma keeps_review [keeps_intros]: "keeps mw_merged (raise_review deps b e)"
  unfolding raise_review_def by (rule keeps_on_run)

lemma keeps_split [keeps_intros]: "keeps mw_merged (split_merge deps b out e)"
  unfolding split_merge_def raisePartialMergeNotification_def by (intro keeps_intros)

lemma keeps_record [keeps_intros]: "keeps mw_merged (record_merge deps i b a d)"
  by (simp add: keeps_def record_merge_def Let_def)

lemma keeps_await [keeps_intros]: "keeps mw_merged (await_review deps i b d)"
  unfolding await_review_def raiseReviewAndBlock_def by (intro keeps_intros)

section \<open>The order of the merges\<close>

lemma order_permutes: "mset (orderPrsForMerge collate es) = mset es"
proof -
  have "filter (\<lambda>e. entry_repo e = None) es = filter (\<lambda>e. \<not> entry_repo e \<noteq> None) es" by simp
  then have "mset (filter (\<lambda>e. entry_repo e \<noteq> None) es) + mset (filter (\<lambda>e. entry_repo e = None) es) = mset es"
    by (simp only: mset_filter multiset_partition [symmetric])
  then show ?thesis by (simp add: orderPrsForMerge_def)
qed

text \<open>The loop lands a prefix of the entries, and the first entry it cannot land ends it.\<close>

definition landed_prs :: "string \<Rightarrow> merge_pr_entry list \<Rightarrow> host_pr list" where
  "landed_prs own es = List.map_filter (pr_on_host own) es"

lemma merge_loop_prefix:
  assumes "merge_loop host own acc es w = (out, w')"
  shows "\<exists>landed rest. es = landed @ rest \<and> mo_merged out = acc @ landed
    \<and> mw_merged w' = mw_merged w @ landed_prs own landed \<and> mw_run w' = mw_run w
    \<and> list_all (\<lambda>e. pr_on_host own e \<noteq> None) landed
    \<and> (case mo_failed out of None \<Rightarrow> rest = [] | Some (e, err) \<Rightarrow> rest = e # mo_skipped out)"
  using assms
proof (induction es arbitrary: acc w)
  case Nil
  then show ?case by (auto simp: landed_prs_def map_filter_simps)
next
  case (Cons e es)
  show ?case
  proof (cases "case pr_on_host own e of None \<Rightarrow> False | Some pr \<Rightarrow> host (mw_merged w) pr = None")
    case False
    then have "out = \<lparr>mo_merged = acc, mo_failed = mo_failed out, mo_skipped = es\<rparr> \<and> w' = w
        \<and> (\<exists>err. mo_failed out = Some (e, err))"
      using Cons.prems by (auto split: option.splits)
    then have "mo_merged out = acc \<and> mo_skipped out = es \<and> w' = w \<and> (\<exists>err. mo_failed out = Some (e, err))"
      by (metis merge_outcome.select_convs(1,3))
    then show ?thesis by (intro exI [of _ "[]"] exI [of _ "e # es"]) (auto simp: landed_prs_def map_filter_simps)
  next
    case True
    then obtain pr where pr: "pr_on_host own e = Some pr" "host (mw_merged w) pr = None"
      by (auto split: option.splits)
    from Cons.IH [OF Cons.prems [simplified pr merge_loop.simps option.case]] obtain landed rest where
      "es = landed @ rest" "mo_merged out = (acc @ [e]) @ landed"
      "mw_merged w' = (mw_merged w @ [pr]) @ landed_prs own landed" "mw_run w' = mw_run w"
      "list_all (\<lambda>e. pr_on_host own e \<noteq> None) landed"
      "case mo_failed out of None \<Rightarrow> rest = [] | Some (e, err) \<Rightarrow> rest = e # mo_skipped out"
      by auto
    then show ?thesis using pr
      by (intro exI [of _ "e # landed"] exI [of _ rest]) (simp add: landed_prs_def map_filter_simps)
  qed
qed

text \<open>Settling a merged task returns \<open>Merged\<close> or throws what the materialisation of its module threw.\<close>

lemma settle_merged_result:
  "fst (settle_merged deps b w) = Inr Merged \<or> (\<exists>e. fst (settle_merged deps b w) = Inl (Machine e))"
  by (auto simp: settle_merged_def settle_task_def act_then_def act_bind_def act_when_def act_return_def
      on_run_def best_effort_def split: prod.splits sum.splits)

lemma raise_card_blocks: "wd_blocks (snd (raise_card deps c w)) = wd_blocks w"
  by (simp add: raise_card_def)

lemma split_merge_blocked:
  assumes "block_in (mw_run w) (bl_id b) \<noteq> None"
  shows "map_option bl_status (block_in (mw_run (snd (split_merge deps b out e w))) (bl_id b)) = Some BlockBlocked"
    and "fst (split_merge deps b out e w)
      = Inr (Partial (map entry_label (mo_merged out)) (map entry_label (e # mo_skipped out)))
     \<or> (\<exists>c. fst (split_merge deps b out e w) = Inl (Machine (RaiseFailed c)))"
proof -
  let ?c = "\<lparr>cd_type = MergeReview, cd_blockId = Some (bl_id b), cd_executionId = bl_executionId b\<rparr>"
  let ?r = "set_block (bl_id b) (\<lambda>x. x\<lparr>bl_status := BlockBlocked\<rparr>) (mw_run w)"
  obtain res r' where raise: "raise_card (me_machine deps) ?c ?r = (res, r')" by fastforce
  then have "wd_blocks r' = wd_blocks ?r" using raise_card_blocks [of "me_machine deps" ?c ?r] by simp
  then have blocks: "block_in r' (bl_id b) = block_in ?r (bl_id b)" by (simp add: block_in_def)
  have "block_in ?r (bl_id b) = map_option (\<lambda>x. x\<lparr>bl_status := BlockBlocked\<rparr>) (block_in (mw_run w) (bl_id b))"
    by (simp add: block_in_set_block)
  with blocks assms raise
  show "map_option bl_status (block_in (mw_run (snd (split_merge deps b out e w))) (bl_id b)) = Some BlockBlocked"
    by (cases res) (auto simp: split_merge_def raisePartialMergeNotification_def raise_review_def on_run_def
        act_simps)
  show "fst (split_merge deps b out e w)
      = Inr (Partial (map entry_label (mo_merged out)) (map entry_label (e # mo_skipped out)))
     \<or> (\<exists>c. fst (split_merge deps b out e w) = Inl (Machine (RaiseFailed c)))"
    by (simp add: split_merge_def raisePartialMergeNotification_def raise_review_def on_run_def
        act_simps raise_card_def)
qed

lemma merge_all_lands:
  assumes "me_host deps = Some host" and "me_ownRepo deps (bl_id b) = Some own"
    and "merge_all deps b w = (r, w')"
  shows "\<exists>landed rest. orderPrsForMerge (me_collate deps) (allPullRequests b) = landed @ rest
    \<and> mw_merged w' = mw_merged w @ landed_prs own landed
    \<and> list_all (\<lambda>e. pr_on_host own e \<noteq> None) landed
    \<and> (case rest of
         [] \<Rightarrow> \<exists>w1. settle_merged deps b w1 = (r, w')
       | e # es \<Rightarrow> \<exists>out w1. mw_run w1 = mw_run w \<and> mo_merged out = landed \<and> mo_skipped out = es
           \<and> (if landed = [] then w' = w1 \<and> (\<exists>err. r = Inl (HostRefused err))
              else split_merge deps b out e w1 = (r, w')))"
proof (cases "orderPrsForMerge (me_collate deps) (allPullRequests b) = []")
  case True
  with assms have "settle_merged deps b w = (r, w')" by (simp add: merge_all_def)
  with True keepsD [OF keeps_settle_merged, of deps b w] show ?thesis
    by (intro exI [of _ "[]"]) (auto simp: landed_prs_def map_filter_simps)
next
  case False
  let ?ordered = "orderPrsForMerge (me_collate deps) (allPullRequests b)"
  obtain out w1 where loop: "merge_loop host own [] ?ordered w = (out, w1)" by fastforce
  then obtain landed rest where split: "?ordered = landed @ rest" "mo_merged out = landed"
    "mw_merged w1 = mw_merged w @ landed_prs own landed" "mw_run w1 = mw_run w"
    "list_all (\<lambda>e. pr_on_host own e \<noteq> None) landed"
    "case mo_failed out of None \<Rightarrow> rest = [] | Some (e, err) \<Rightarrow> rest = e # mo_skipped out"
    using merge_loop_prefix [OF loop] by auto
  have run: "(r, w') = (case mo_failed out of
      None \<Rightarrow> settle_merged deps b
    | Some (e, err) \<Rightarrow> if mo_merged out = [] then act_throw (HostRefused err) else split_merge deps b out e) w1"
    using assms False loop by (simp add: merge_all_def Let_def mergePullRequests_def act_bind_def)
  show ?thesis
  proof (cases "mo_failed out")
    case None
    with run have "settle_merged deps b w1 = (r, w')" by simp
    moreover from this have "mw_merged w' = mw_merged w1" using keepsD [OF keeps_settle_merged, of deps b w1] by simp
    ultimately show ?thesis using None split by (intro exI [of _ landed] exI [of _ rest]) auto
  next
    case (Some f)
    obtain e err where f: "f = (e, err)" by fastforce
    have "mw_merged w' = mw_merged w1"
    proof (cases "mo_merged out = []")
      case False
      with run Some f have "split_merge deps b out e w1 = (r, w')" by simp
      then show ?thesis using keepsD [OF keeps_split, of deps b out e w1] by simp
    qed (use run Some f in \<open>simp add: act_throw_def\<close>)
    with run Some f split show ?thesis
      by (intro exI [of _ landed] exI [of _ rest]) (auto simp: act_throw_def split: if_splits)
  qed
qed

section \<open>Properties\<close>

text \<open>
  C10. A task's pull requests are merged in one order, all or up to the first that fails, and the board
  says so. The order lists every pull request of the task once. What reached the host is a prefix of
  that order; the merge is reported as complete, and the task can read as done, only if the prefix is
  everything. A proper prefix leaves the task blocked and names exactly what landed and what did not;
  when nothing landed, the error is the host's and neither the board nor the inbox has changed.
\<close>

theorem merges_land_in_order:
  assumes "block_in (mw_run w) bid = Some b" and "bl_status b \<noteq> BlockDone" and "bl_status b \<noteq> BlockBlocked"
    and "me_host deps = Some host" and "me_ownRepo deps bid = Some own"
    and "finalizeMerge deps bid w = (r, w')"
  shows "\<exists>landed rest. mset (landed @ rest) = mset (allPullRequests b)
    \<and> orderPrsForMerge (me_collate deps) (allPullRequests b) = landed @ rest
    \<and> mw_merged w' = mw_merged w @ landed_prs own landed \<and> list_all (\<lambda>e. pr_on_host own e \<noteq> None) landed
    \<and> (r = Inr Merged \<longrightarrow> rest = [])
    \<and> (rest \<noteq> [] \<longrightarrow> map_option bl_status (block_in (mw_run w') bid) \<noteq> Some BlockDone)
    \<and> (rest \<noteq> [] \<and> landed \<noteq> [] \<longrightarrow> map_option bl_status (block_in (mw_run w') bid) = Some BlockBlocked)
    \<and> (\<forall>xs ys. r = Inr (Partial xs ys) \<longrightarrow>
         landed \<noteq> [] \<and> rest \<noteq> [] \<and> xs = map entry_label landed \<and> ys = map entry_label rest)
    \<and> (rest \<noteq> [] \<and> landed = [] \<longrightarrow> (\<exists>err. r = Inl (HostRefused err)) \<and> mw_run w' = mw_run w)"
proof -
  have b: "bl_id b = bid" using block_in_id [OF assms(1)] .
  have "merge_all deps b w = (r, w')"
    using assms by (simp add: finalizeMerge_def act_bind_def on_run_def get_block_def)
  from merge_all_lands [OF assms(4) assms(5) [folded b] this] obtain landed rest where
    order: "orderPrsForMerge (me_collate deps) (allPullRequests b) = landed @ rest"
    and merged: "mw_merged w' = mw_merged w @ landed_prs own landed"
      "list_all (\<lambda>e. pr_on_host own e \<noteq> None) landed"
    and cases: "case rest of
         [] \<Rightarrow> \<exists>w1. settle_merged deps b w1 = (r, w')
       | e # es \<Rightarrow> \<exists>out w1. mw_run w1 = mw_run w \<and> mo_merged out = landed \<and> mo_skipped out = es
           \<and> (if landed = [] then w' = w1 \<and> (\<exists>err. r = Inl (HostRefused err))
              else split_merge deps b out e w1 = (r, w'))" by blast
  have all: "mset (landed @ rest) = mset (allPullRequests b)"
    using order_permutes [of "me_collate deps" "allPullRequests b"] order by simp
  show ?thesis
  proof (cases rest)
    case Nil
    with cases obtain w1 where "settle_merged deps b w1 = (r, w')" by auto
    then have "r = Inr Merged \<or> (\<exists>e. r = Inl (Machine e))" using settle_merged_result [of deps b w1] by simp
    then show ?thesis using Nil order merged all by (intro exI [of _ landed] exI [of _ rest]) auto
  next
    case (Cons e es)
    with cases obtain out w1 where out: "mw_run w1 = mw_run w" "mo_merged out = landed" "mo_skipped out = es"
      "if landed = [] then w' = w1 \<and> (\<exists>err. r = Inl (HostRefused err)) else split_merge deps b out e w1 = (r, w')"
      by auto
    show ?thesis
    proof (cases "landed = []")
      case True
      with out assms(1,2) Cons order merged all show ?thesis
        by (intro exI [of _ landed] exI [of _ rest]) auto
    next
      case False
      with out have split: "split_merge deps b out e w1 = (r, w')" by simp
      have "map_option bl_status (block_in (mw_run w') bid) = Some BlockBlocked"
        using split_merge_blocked(1) [of w1 b deps out e] out(1) assms(1) split b by simp
      moreover have "r = Inr (Partial (map entry_label landed) (map entry_label rest)) \<or> (\<exists>c. r = Inl (Machine (RaiseFailed c)))"
        using split_merge_blocked(2) [of w1 b deps out e] out(1-3) assms(1) split b Cons by simp
      ultimately show ?thesis using False Cons order merged all
        by (intro exI [of _ landed] exI [of _ rest]) auto
    qed
  qed
qed

lemma exceeded_none:
  "exceededAxesOf a p = [] \<longleftrightarrow> ma_complexity a \<le> rp_maxComplexity p \<and> ma_risk a \<le> rp_maxRisk p \<and> ma_impact a \<le> rp_maxImpact p"
  by (auto simp: exceededAxesOf_def)

text \<open>
  C9. Nothing merges on its own without every consent. When resolving a merger step lands any pull
  request, the run was not a dry run, its initiator's role may land this class of change, the governing
  policy merges automatically, and either the class rule, as narrowed by the role, says always, or it
  does not say never and the agent's assessment is well formed, explains itself and stays within every
  ceiling of the policy.
\<close>

theorem nothing_merges_without_consent:
  assumes "resolveMergerStep deps i raw w = (r, w')" and "mw_merged w' \<noteq> mw_merged w"
  shows "\<exists>b. block_in (mw_run w) (in_blockId i) = Some b \<and> in_mode i \<noteq> Some DryRun
    \<and> (let p = run_policy deps b (in_intakeOrigin i); c = cl_changeClass (classified deps b);
           rule = sr_effective (resolveRoleScopedMergeClassRule (rv_classRules p) (rv_classRulesByRole p) (in_initiatedByRole i) c)
       in submissionAllowedForRole (rv_submissionClassesByRole p) (in_initiatedByRole i) c \<and> rp_autoMergeEnabled p
        \<and> (rule = Always
           \<or> rule = Thresholds \<and> (\<exists>x a. raw = Some x \<and> parseMergeAssessment x = Some a \<and> \<not> blank (ma_rationale a)
               \<and> ma_complexity a \<le> rp_maxComplexity p \<and> ma_risk a \<le> rp_maxRisk p \<and> ma_impact a \<le> rp_maxImpact p)))"
proof -
  have "block_in (mw_run w) (in_blockId i) \<noteq> None"
    using assms by (cases "block_in (mw_run w) (in_blockId i)")
      (simp_all add: resolveMergerStep_def act_bind_def on_run_def get_block_def act_return_def)
  then obtain b where b: "block_in (mw_run w) (in_blockId i) = Some b" by blast
  define a where "a = Option.bind raw parseMergeAssessment"
  define p where "p = run_policy deps b (in_intakeOrigin i)"
  define c where "c = cl_changeClass (classified deps b)"
  define x where "x = precedence_for p (in_mode i) (in_initiatedByRole i) c a"
  have "pv_merge (resolveMergePrecedence x)"
  proof (rule ccontr)
    assume "\<not> pv_merge (resolveMergePrecedence x)"
    with assms b obtain d where "bl_status b = BlockDone \<and> w' = w \<or> await_review deps i b d w = (r, w')"
      by (cases "bl_status b = BlockDone") (auto simp: resolveMergerStep_def act_bind_def on_run_def get_block_def
          act_return_def Let_def x_def a_def p_def c_def)
    then show False using assms(2) keepsD [OF keeps_await, of deps i b d w] by auto
  qed
  moreover have "sr_effective rule \<noteq> Always \<Longrightarrow> sr_effective rule \<noteq> Never \<Longrightarrow> sr_effective rule = Thresholds" for rule
    by (cases "sr_effective rule") auto
  ultimately show ?thesis using b
    by (auto simp: resolveMergePrecedence_def x_def precedence_for_def Let_def isDryRun_def exceeded_none
        isCredibleAssessment_def a_def Option.bind_eq_Some_conv split: option.splits simp flip: p_def c_def)
qed

text \<open>
  C11. The manual exit refuses what the automatic one refuses. When a merge a person asked for lands any
  pull request, the task was waiting for it, and the run that opened it, where it still exists, was not
  a dry run and its initiator's role may land this class of change under the policy in force.
\<close>

theorem manual_merge_respects_the_policies:
  assumes "mergePr deps bid effort w = (r, w')" and "mw_merged w' \<noteq> mw_merged w"
  shows "\<exists>b. block_in (mw_run w) bid = Some b \<and> bl_status b = PrReady
    \<and> (\<forall>e i. nonempty (bl_executionId b) = Some e \<and> get_run (wd_ws (mw_run w)) e (wd_runs (mw_run w)) = Inr (Some i) \<longrightarrow>
         in_mode i \<noteq> Some DryRun
         \<and> submissionAllowedForRole (rv_submissionClassesByRole (run_policy deps b (in_intakeOrigin i)))
             (in_initiatedByRole i) (cl_changeClass (classified deps b)))"
proof -
  obtain b where b: "block_in (mw_run w) bid = Some b" "bl_status b = PrReady"
    using assms by (auto simp: mergePr_def act_bind_def requireBlock_def act_throw_def split: option.splits if_splits)
  have "fst (assertPlatformMayMerge deps b w) = Inr () \<and> snd (assertPlatformMayMerge deps b w) = w"
  proof (rule ccontr)
    assume "\<not> ?thesis"
    then obtain e where "assertPlatformMayMerge deps b w = (Inl e, w)"
      by (auto simp: assertPlatformMayMerge_def split: sum.splits option.splits)
    with assms b show False by (auto simp: mergePr_def act_bind_def act_then_def requireBlock_def)
  qed
  then show ?thesis using b
    by (auto simp: assertPlatformMayMerge_def assertNotDryRun_def isDryRun_def assertSubmissionAllowed_def
        submissionAllowedForRole_def submissionAllowlistForRole_def Let_def
        split: sum.splits option.splits if_splits)
qed

section \<open>Examples and departures\<close>

text \<open>
  A task with a pull request of its own and one of a provider. A host refuses what is merged already,
  and here the task's own pull request.
\<close>

definition half_task :: block where
  "half_task = (bare_block ''t1'' TaskLevel None)
     \<lparr>bl_status := InProgress, bl_executionId := Some ''e1'',
      bl_pullRequest := Some \<lparr>pr_url = ''u7'', pr_number = Some 7, pr_branch = Some ''cat-factory/t1''\<rparr>,
      bl_peerPullRequests := Some [\<lparr>pp_repo = ''acme/email'', pp_frameIds = Some [''f2''],
        pp_ref = \<lparr>pr_url = ''u3'', pr_number = Some 3, pr_branch = Some ''cat-factory/t1''\<rparr>\<rparr>]\<rparr>"

definition half_run :: instance_rec where
  "half_run = bare_run ''e1'' ''t1'' [bare_step ''merger'' Working]"

definition merging_host :: "host_pr list \<Rightarrow> host_pr list \<Rightarrow> host_pr \<Rightarrow> string option" where
  "merging_host refused merged pr =
     (if pr \<in> set merged then Some ''already merged''
      else if pr \<in> set refused then Some ''conflict'' else None)"

definition merging_deps :: "host_pr list \<Rightarrow> unit act \<Rightarrow> merge_deps" where
  "merging_deps refused assign =
     \<lparr>me_machine = example_deps, me_host = Some (merging_host refused), me_ownRepo = (\<lambda>_. Some ''acme/auth''),
      me_policy = Some (\<lambda>_. Some team_policy), me_track = True, me_files = (\<lambda>_. None),
      me_collate = (\<lambda>_. 0), me_writeback = False, me_poke = False, me_assignModule = (\<lambda>_. assign),
      me_foreign = (\<lambda>_. []), me_pipelines = [], me_adoptable = (\<lambda>_. None), me_individual = (\<lambda>_ _. False),
      me_start = (\<lambda>_ _. act_return ())\<rparr>"

definition half_deps :: merge_deps where
  "half_deps = merging_deps [(''acme/auth'', 7)] (act_return ())"

definition merging_world :: "block_status \<Rightarrow> merge_world" where
  "merging_world st =
     \<lparr>mw_run = \<lparr>wd_ws = ''w'', wd_now = 9, wd_runs = [], wd_blocks = [half_task\<lparr>bl_status := st\<rparr>],
                 wd_cards = [], wd_effects = [], wd_ids = 0\<rparr>,
      mw_records = [], mw_merged = [], mw_deleted = [], mw_writebacks = [], mw_started = [], mw_poked = []\<rparr>"

definition calm_raw :: "raw_assessment option" where
  "calm_raw = Some \<lparr>ra_complexity = Some 0, ra_risk = Some 0, ra_impact = Some 0, ra_rationale = Some ''docs only''\<rparr>"

definition task_status :: "merge_world \<Rightarrow> block_status option" where
  "task_status w = map_option bl_status (block_in (mw_run w) ''t1'')"

lemma half_merge:
  "fst (finalizeMerge half_deps ''t1'' (merging_world InProgress)) = Inr (Partial [''acme/email''] [''own service''])"
  "mw_merged (snd (finalizeMerge half_deps ''t1'' (merging_world InProgress))) = [(''acme/email'', 3)]"
  by code_simp+

theorem merges_land_in_order_witness:
  "\<exists>landed rest. mset (landed @ rest) = mset (allPullRequests (half_task\<lparr>bl_status := InProgress\<rparr>))
    \<and> landed_prs ''acme/auth'' landed = [(''acme/email'', 3)] \<and> landed \<noteq> [] \<and> rest \<noteq> []"
proof -
  let ?w = "merging_world InProgress"
  have b: "block_in (mw_run ?w) ''t1'' = Some (half_task\<lparr>bl_status := InProgress\<rparr>)" by code_simp
  have deps: "me_host half_deps = Some (merging_host [(''acme/auth'', 7)])" "me_ownRepo half_deps ''t1'' = Some ''acme/auth''"
    by (simp_all add: half_deps_def merging_deps_def)
  have open_status: "bl_status (half_task\<lparr>bl_status := InProgress\<rparr>) \<noteq> BlockDone"
    "bl_status (half_task\<lparr>bl_status := InProgress\<rparr>) \<noteq> BlockBlocked" by simp_all
  obtain landed rest where *: "mset (landed @ rest) = mset (allPullRequests (half_task\<lparr>bl_status := InProgress\<rparr>))"
    "mw_merged (snd (finalizeMerge half_deps ''t1'' ?w)) = mw_merged ?w @ landed_prs ''acme/auth'' landed"
    "landed \<noteq> [] \<and> rest \<noteq> []"
    using merges_land_in_order [OF b open_status deps prod.collapse [symmetric]] half_merge(1) by blast
  have "mw_merged ?w = []" by (simp add: merging_world_def)
  with *(2) have "landed_prs ''acme/auth'' landed = [(''acme/email'', 3)]" using half_merge(2) by simp
  with *(1,3) show ?thesis by blast
qed

text \<open>
  A task left half merged reads as waiting for a merge once its run ends with the merger step, although
  nothing can merge it any more: the merge starts over with what has landed, which the host refuses.
\<close>

definition half_resolved :: merge_world where
  "half_resolved = snd (resolveMergerStep half_deps half_run calm_raw (merging_world InProgress))"

definition half_finished :: merge_world where
  "half_finished = half_resolved\<lparr>mw_run := snd (finalizeBlock example_deps half_run (mw_run half_resolved))\<rparr>"

lemma half_merge_cannot_be_finished:
  "task_status half_resolved = Some BlockBlocked \<and> task_status half_finished = Some PrReady
   \<and> mw_merged half_finished = [(''acme/email'', 3)]
   \<and> fst (mergePr half_deps ''t1'' None half_finished) = Inl (HostRefused ''already merged'')"
  by (intro conjI) code_simp+

text \<open>The result of a merge a person asked for is not read: a half is recorded as merged by them.\<close>

definition half_pending :: merge_world where
  "half_pending = (merging_world PrReady)
     \<lparr>mw_records := mw_records (snd (record_merge half_deps half_run half_task None PendingReview (merging_world PrReady)))\<rparr>"

lemma half_merge_is_recorded_as_whole:
  "map_option bl_status (case fst (mergePr half_deps ''t1'' None half_pending) of Inl e \<Rightarrow> None | Inr b \<Rightarrow> Some b) = Some BlockBlocked
   \<and> map tr_decision (mw_records (snd (mergePr half_deps ''t1'' None half_pending))) = [HumanMerged]"
  by (intro conjI) code_simp+

text \<open>
  A module that cannot be materialised undoes the board's memory of the merge: the error is taken for
  a failed merge, the merged task is put back for review and its row stays pending.
\<close>

definition module_failed :: merge_world where
  "module_failed = snd (resolveMergerStep (merging_deps [] (act_throw (StoreFailed UniqueViolation))) half_run calm_raw
     (merging_world InProgress))"

lemma failed_module_reopens_a_merged_task:
  "mw_merged module_failed = [(''acme/email'', 3), (''acme/auth'', 7)] \<and> task_status module_failed = Some PrReady
   \<and> map tr_decision (mw_records module_failed) = [PendingReview]"
  by (intro conjI) code_simp+

lemma half_resolved_merged: "mw_merged half_resolved \<noteq> mw_merged (merging_world InProgress)"
  by code_simp

theorem nothing_merges_without_consent_witness:
  "\<exists>b. block_in (mw_run (merging_world InProgress)) ''t1'' = Some b
     \<and> rp_autoMergeEnabled (run_policy half_deps b None)"
proof -
  obtain r where "resolveMergerStep half_deps half_run calm_raw (merging_world InProgress) = (r, half_resolved)"
    unfolding half_resolved_def by (metis prod.collapse)
  from nothing_merges_without_consent [OF this half_resolved_merged] show ?thesis
    by (auto simp: half_run_def bare_run_def Let_def)
qed

theorem manual_merge_respects_the_policies_witness:
  "\<exists>b. block_in (mw_run half_pending) ''t1'' = Some b \<and> bl_status b = PrReady"
proof -
  have "mw_merged (snd (mergePr half_deps ''t1'' None half_pending)) \<noteq> mw_merged half_pending" by code_simp
  from manual_merge_respects_the_policies [OF prod.collapse [symmetric] this] show ?thesis by blast
qed

end
