(* ===== verification/SpendPricing.thy ===== *)
theory SpendPricing
  imports Prelude
begin

text \<open>
  What a call costs and which calendar month it belongs to (\<^verbatim>\<open>spend/src/pricing.ts\<close>,
  \<^verbatim>\<open>kernel/src/domain/llm-rollup.ts\<close>). Prices and costs are exact rationals where the code has binary
  floating point; an infinite limit is \<open>None\<close>. The table of list prices is data and a field of the
  pricing. An instant is a number of milliseconds, and the calendar is that of \<^verbatim>\<open>Date.UTC\<close>, computed
  from years that begin in March.
\<close>

section \<open>Prices\<close>

record band_rates =
  br_input :: rat
  br_output :: rat
  br_cacheRead :: "rat option"
  br_cacheWrite :: "rat option"

record long_band = band_rates +
  lb_minPromptTokens :: nat

record model_price = band_rates +
  pc_longBand :: "long_band option"

record spend_pricing =
  sp_currency :: string
  sp_monthlyLimit :: rat
  sp_prices :: "string \<Rightarrow> model_price option"
  sp_defaultPrice :: model_price
  sp_accountCap :: "rat option"
  sp_userCap :: "rat option"

record resolved_rates =
  rt_input :: rat
  rt_output :: rat
  rt_cacheRead :: rat
  rt_cacheWrite :: rat

definition CACHE_READ_MULTIPLIER :: rat where
  "CACHE_READ_MULTIPLIER = 1 / 10"

definition CACHE_WRITE_MULTIPLIER :: rat where
  "CACHE_WRITE_MULTIPLIER = 5 / 4"

definition effectiveTierLimit :: "rat option \<Rightarrow> rat option \<Rightarrow> rat option" where
  "effectiveTierLimit configured cap = (case (configured, cap) of
      (None, None) \<Rightarrow> None
    | (Some a, None) \<Rightarrow> Some a
    | (None, Some b) \<Rightarrow> Some b
    | (Some a, Some b) \<Rightarrow> Some (min a b))"

record dynamic_model =
  dy_id :: string
  dy_input :: rat
  dy_output :: rat
  dy_cachedInput :: "rat option"
  dy_cacheWrite :: "rat option"

definition positive_rate :: "rat option \<Rightarrow> rat option" where
  "positive_rate r = (case r of None \<Rightarrow> None | Some x \<Rightarrow> if x > 0 then Some x else None)"

definition overlay_model :: "dynamic_model \<Rightarrow> (string \<Rightarrow> model_price option) \<Rightarrow> string \<Rightarrow> model_price option" where
  "overlay_model m prices =
     (if dy_input m \<le> 0 \<and> dy_output m \<le> 0 then prices
      else prices(''openrouter:'' @ dy_id m \<mapsto>
        \<lparr>br_input = dy_input m, br_output = dy_output m, br_cacheRead = positive_rate (dy_cachedInput m),
         br_cacheWrite = positive_rate (dy_cacheWrite m), pc_longBand = None\<rparr>))"

definition withDynamicPrices :: "spend_pricing \<Rightarrow> dynamic_model list \<Rightarrow> spend_pricing" where
  "withDynamicPrices p models =
     (if models = [] then p else p\<lparr>sp_prices := fold overlay_model models (sp_prices p)\<rparr>)"

text \<open>The overrides of a workspace: its currency and its limit.\<close>

definition mergeSpendPricing :: "spend_pricing \<Rightarrow> (string option \<times> rat option) option \<Rightarrow> spend_pricing" where
  "mergeSpendPricing base overrides = (case overrides of
      None \<Rightarrow> base
    | Some (currency, limit) \<Rightarrow>
        base\<lparr>sp_currency := or_else currency (sp_currency base),
             sp_monthlyLimit := or_else limit (sp_monthlyLimit base)\<rparr>)"

record model_ref =
  mf_provider :: string
  mf_model :: string

definition parseModel :: "string \<Rightarrow> model_ref" where
  "parseModel s =
     (let p = takeWhile (\<lambda>c. c \<noteq> CHR '':'') s
      in if CHR '':'' \<notin> set s then \<lparr>mf_provider = s, mf_model = []\<rparr>
         else \<lparr>mf_provider = p, mf_model = drop (Suc (length p)) s\<rparr>)"

definition priceFor :: "spend_pricing \<Rightarrow> model_ref \<Rightarrow> model_price" where
  "priceFor p r = (case sp_prices p (mf_provider r @ '':'' @ mf_model r) of
      Some x \<Rightarrow> x
    | None \<Rightarrow> (case sp_prices p (mf_provider r) of Some x \<Rightarrow> x | None \<Rightarrow> sp_defaultPrice p))"

definition bandFor :: "model_price \<Rightarrow> nat option \<Rightarrow> band_rates" where
  "bandFor x tokens = (case pc_longBand x of
      None \<Rightarrow> band_rates.truncate x
    | Some band \<Rightarrow> (case tokens of
          None \<Rightarrow> band_rates.truncate band
        | Some n \<Rightarrow> if n < lb_minPromptTokens band then band_rates.truncate x else band_rates.truncate band))"

definition ratesFor :: "spend_pricing \<Rightarrow> model_ref \<Rightarrow> nat option \<Rightarrow> resolved_rates" where
  "ratesFor p r tokens =
     (let band = bandFor (priceFor p r) tokens
      in \<lparr>rt_input = br_input band, rt_output = br_output band,
          rt_cacheRead = or_else (br_cacheRead band) (br_input band * CACHE_READ_MULTIPLIER),
          rt_cacheWrite = or_else (br_cacheWrite band) (br_input band * CACHE_WRITE_MULTIPLIER)\<rparr>)"

record token_classes =
  tc_prompt :: nat
  tc_cacheRead :: nat
  tc_cacheWrite :: nat

record token_usage =
  tu_input :: nat
  tu_output :: nat
  tu_classes :: "token_classes option"

definition class_total :: "token_classes \<Rightarrow> nat" where
  "class_total c = tc_prompt c + tc_cacheRead c + tc_cacheWrite c"

definition costOfTokenClasses :: "resolved_rates \<Rightarrow> token_classes \<Rightarrow> nat \<Rightarrow> rat" where
  "costOfTokenClasses r c completion =
     (of_nat (tc_prompt c) / 1000000) * rt_input r + (of_nat (tc_cacheRead c) / 1000000) * rt_cacheRead r
     + (of_nat (tc_cacheWrite c) / 1000000) * rt_cacheWrite r + (of_nat completion / 1000000) * rt_output r"

definition estimateClassedCost :: "spend_pricing \<Rightarrow> model_ref \<Rightarrow> token_classes \<Rightarrow> nat \<Rightarrow> rat" where
  "estimateClassedCost p r c output = costOfTokenClasses (ratesFor p r (Some (class_total c))) c output"

definition estimateCost :: "spend_pricing \<Rightarrow> model_ref \<Rightarrow> token_usage \<Rightarrow> rat" where
  "estimateCost p r u = (case tu_classes u of
      Some c \<Rightarrow> estimateClassedCost p r c (tu_output u)
    | None \<Rightarrow>
        (let rates = ratesFor p r (Some (tu_input u))
         in (of_nat (tu_input u) / 1000000) * rt_input rates + (of_nat (tu_output u) / 1000000) * rt_output rates))"

definition modelCostResolver :: "spend_pricing \<Rightarrow> model_ref \<Rightarrow> rat \<times> rat \<times> string" where
  "modelCostResolver p r = (br_input (priceFor p r), br_output (priceFor p r), sp_currency p)"

text \<open>Each cap that is a number and not negative.\<close>

definition budgetCapsOverlay :: "rat option \<Rightarrow> rat option \<Rightarrow> spend_pricing \<Rightarrow> spend_pricing" where
  "budgetCapsOverlay account user p =
     (let valid = (\<lambda>c. case c of Some x \<Rightarrow> x \<ge> 0 | None \<Rightarrow> False)
      in p\<lparr>sp_accountCap := (if valid account then account else sp_accountCap p),
           sp_userCap := (if valid user then user else sp_userCap p)\<rparr>)"

section \<open>Calendar months\<close>

definition DAY_MS :: int where
  "DAY_MS = 86400000"

text \<open>Days from the first of March of the year 0 to the first of March of the year \<open>y\<close>.\<close>

definition year_start :: "int \<Rightarrow> int" where
  "year_start y = 365 * y + y div 4 - y div 100 + y div 400"

definition year_of :: "int \<Rightarrow> int" where
  "year_of z =
     (let y = 400 * z div 146097
      in if year_start (y + 1) \<le> z then y + 1 else if z < year_start y then y - 1 else y)"

text \<open>Days from the first of March to the first of the month \<open>m\<close>, March being the month 0.\<close>

definition month_start :: "int \<Rightarrow> int" where
  "month_start m = (153 * m + 2) div 5"

definition month_of :: "int \<Rightarrow> int" where
  "month_of doy = (5 * doy + 2) div 153"

definition EPOCH_DAY :: int where
  "EPOCH_DAY = 719468"

text \<open>The day of an instant, its year and its month, all counted from March of the year 0.\<close>

definition utc_month :: "int \<Rightarrow> int \<times> int" where
  "utc_month t =
     (let z = t div DAY_MS + EPOCH_DAY; y = year_of z in (y, month_of (z - year_start y)))"

definition first_of_month :: "int \<times> int \<Rightarrow> int" where
  "first_of_month ym = (case ym of (y, m) \<Rightarrow> (year_start y + month_start m - EPOCH_DAY) * DAY_MS)"

definition next_month :: "int \<times> int \<Rightarrow> int \<times> int" where
  "next_month ym = (case ym of (y, m) \<Rightarrow> if m = 11 then (y + 1, 0) else (y, m + 1))"

definition startOfMonthUtc :: "int \<Rightarrow> int" where
  "startOfMonthUtc t = first_of_month (utc_month t)"

definition startOfNextMonthUtc :: "int \<Rightarrow> int" where
  "startOfNextMonthUtc t = first_of_month (next_month (utc_month t))"

lemma year_start_scaled:
  "400 * year_start y = 146097 * y - 100 * (y mod 4) + 4 * (y mod 100) - y mod 400"
proof -
  have "400 * (y div 4) = 100 * y - 100 * (y mod 4)" "400 * (y div 100) = 4 * y - 4 * (y mod 100)"
    "400 * (y div 400) = y - y mod 400"
    using minus_mod_eq_mult_div [of y 4] minus_mod_eq_mult_div [of y 100] minus_mod_eq_mult_div [of y 400] by simp_all
  then show ?thesis by (simp add: year_start_def algebra_simps)
qed

lemma year_start_bounds: "146097 * y - 699 \<le> 400 * year_start y" "400 * year_start y \<le> 146097 * y + 396"
proof -
  have "0 \<le> y mod 4" "y mod 4 \<le> 3" "0 \<le> y mod 100" "y mod 100 \<le> 99" "0 \<le> y mod 400" "y mod 400 \<le> 399"
    by (simp_all add: zle_diff1_eq [symmetric] algebra_simps)
  then show "146097 * y - 699 \<le> 400 * year_start y" "400 * year_start y \<le> 146097 * y + 396"
    unfolding year_start_scaled by linarith+
qed

lemma year_length: "363 \<le> year_start (y + 1) - year_start y" "year_start (y + 1) - year_start y \<le> 367"
proof -
  have "362 < year_start (y + 1) - year_start y" "year_start (y + 1) - year_start y < 368"
    using year_start_bounds(2) [of y] year_start_bounds(1) [of "y + 1"]
      year_start_bounds(1) [of y] year_start_bounds(2) [of "y + 1"] by simp_all
  then show "363 \<le> year_start (y + 1) - year_start y" "year_start (y + 1) - year_start y \<le> 367" by simp_all
qed

lemma year_start_less: "y < y' \<Longrightarrow> year_start (y + 1) \<le> year_start y'"
proof (cases "y' = y + 1")
  case False
  assume "y < y'"
  with False have "y + 2 \<le> y'" by simp
  then show ?thesis using year_start_bounds(2) [of "y + 1"] year_start_bounds(1) [of y'] by simp
qed simp

lemma le_div_iff: "0 < k \<Longrightarrow> b \<le> a div k \<longleftrightarrow> b * k \<le> a" for a b k :: int
proof
  assume "0 < k" "b \<le> a div k"
  then have "b * k \<le> a div k * k" by (intro mult_right_mono) simp_all
  also have "\<dots> \<le> a" using \<open>0 < k\<close> by (simp add: minus_mod_eq_div_mult [symmetric])
  finally show "b * k \<le> a" .
next
  assume "0 < k" "b * k \<le> a"
  then show "b \<le> a div k" using zdiv_mono1 [of "b * k" a k] by simp
qed

lemma div_less_iff: "0 < k \<Longrightarrow> a div k < b \<longleftrightarrow> a < b * k" for a b k :: int
  using le_div_iff [of k b a] by linarith

lemma year_of_bracket: "year_start (year_of z) \<le> z \<and> z < year_start (year_of z + 1)"
proof -
  define y where "y = 400 * z div 146097"
  have "146097 * y \<le> 400 * z" "400 * z < 146097 * (y + 1)"
    using le_div_iff [of 146097 y "400 * z"] div_less_iff [of 146097 "400 * z" "y + 1"] by (simp_all add: y_def)
  then have "year_start (y - 1) \<le> z" "z < year_start (y + 2)"
    using year_start_bounds(2) [of "y - 1"] year_start_bounds(1) [of "y + 2"] by simp_all
  then show ?thesis by (simp add: year_of_def Let_def y_def [symmetric] add.commute)
qed

lemma year_unique: "year_start y \<le> z \<Longrightarrow> z < year_start (y + 1) \<Longrightarrow> year_of z = y"
  using year_of_bracket [of z] year_start_less [of y "year_of z"] year_start_less [of "year_of z" y] by linarith

lemma month_start_le: "month_start m \<le> d \<longleftrightarrow> 153 * m \<le> 5 * d + 2"
  unfolding month_start_def using div_less_iff [of 5 "153 * m + 2" "d + 1"] by auto

lemma month_of_le: "m \<le> month_of d \<longleftrightarrow> month_start m \<le> d"
  unfolding month_start_le month_of_def using le_div_iff [of 153 m "5 * d + 2"] by (simp add: mult.commute)

lemma month_bracket: "month_start (month_of d) \<le> d" "d < month_start (month_of d + 1)"
  using month_of_le [of "month_of d" d] month_of_le [of "month_of d + 1" d] by simp_all

lemma month_unique: "month_start m \<le> d \<Longrightarrow> d < month_start (m + 1) \<Longrightarrow> month_of d = m"
  using month_of_le [of m d] month_of_le [of "m + 1" d] by linarith

text \<open>The months from March to February; the last may be cut short.\<close>

lemma month_starts: "month_start 0 = 0" "month_start 11 = 337" "month_start 12 = 367"
  by (simp_all add: month_start_def)

lemma month_start_mono: "m \<le> m' \<Longrightarrow> month_start m \<le> month_start m'"
  unfolding month_start_def by (intro zdiv_mono1) simp_all

lemma first_of_month_day: "first_of_month (y, m) \<le> t \<longleftrightarrow> year_start y + month_start m \<le> t div DAY_MS + EPOCH_DAY"
  by (auto simp: first_of_month_def DAY_MS_def; linarith)

text \<open>The month of an instant is the one it lies in.\<close>

lemma month_of_instant:
  assumes "utc_month t = (y, m)"
  shows "0 \<le> m" "m \<le> 11" "first_of_month (y, m) \<le> t" "t < first_of_month (next_month (y, m))"
proof -
  define z where "z = t div DAY_MS + EPOCH_DAY"
  have y: "y = year_of z" and m: "m = month_of (z - year_start y)"
    using assms by (auto simp: utc_month_def Let_def z_def)
  have z: "year_start y \<le> z" "z < year_start (y + 1)" using year_of_bracket [of z] y by simp_all
  show "0 \<le> m" using z month_of_le [of 0 "z - year_start y"] by (simp add: m month_starts)
  have "\<not> 12 \<le> m" using z year_length(2) [of y] month_of_le [of 12 "z - year_start y"] by (simp add: m month_starts)
  then show "m \<le> 11" by simp
  show "first_of_month (y, m) \<le> t"
    using month_bracket(1) [of "z - year_start y"] by (simp add: first_of_month_day m z_def [symmetric])
  have "\<not> first_of_month (next_month (y, m)) \<le> t"
    using z month_bracket(2) [of "z - year_start y"]
    by (simp add: next_month_def first_of_month_day z_def [symmetric] m month_starts)
  then show "t < first_of_month (next_month (y, m))" by simp
qed

lemma instant_in_month:
  assumes "0 \<le> m" "m \<le> 11" "first_of_month (y, m) \<le> t" "t < first_of_month (next_month (y, m))"
  shows "utc_month t = (y, m)"
proof -
  define z where "z = t div DAY_MS + EPOCH_DAY"
  have lo: "year_start y + month_start m \<le> z" using assms(3) by (simp add: first_of_month_day z_def)
  have hi: "if m = 11 then z < year_start (y + 1) else z < year_start y + month_start (m + 1)"
    using assms(4) first_of_month_day [of "y + 1" 0 t] first_of_month_day [of y "m + 1" t]
    by (auto simp: next_month_def z_def month_starts split: if_splits)
  have "0 \<le> month_start m" "m \<noteq> 11 \<Longrightarrow> month_start (m + 1) \<le> 337"
    using assms(1,2) month_start_mono [of 0 m] month_start_mono [of "m + 1" 11] by (simp_all add: month_starts)
  then have "year_of z = y"
    using lo hi year_length(1) [of y] by (intro year_unique) (auto split: if_splits)
  moreover from this have "month_of (z - year_start y) = m"
    using lo hi year_length(2) [of y] month_starts(3) by (intro month_unique) (auto split: if_splits)
  ultimately show ?thesis by (simp add: utc_month_def Let_def z_def [symmetric])
qed

lemma month_of_period:
  assumes "startOfMonthUtc t \<le> u" "u < startOfNextMonthUtc t"
  shows "startOfMonthUtc u = startOfMonthUtc t"
proof -
  obtain y m where t: "utc_month t = (y, m)" by fastforce
  then have "utc_month u = (y, m)"
    using assms month_of_instant(1,2) [OF t] by (intro instant_in_month) (simp_all add: startOfMonthUtc_def startOfNextMonthUtc_def)
  with t show ?thesis by (simp add: startOfMonthUtc_def)
qed

section \<open>Properties\<close>

text \<open>
  C32. Billing periods partition time: every instant lies in its calendar month, the instants of the same
  period are exactly those between its start and the next period's, and the next period begins where
  this one ends.
\<close>

theorem billing_periods_partition_time:
  "startOfMonthUtc t \<le> t \<and> t < startOfNextMonthUtc t
   \<and> (startOfMonthUtc t \<le> u \<and> u < startOfNextMonthUtc t
      \<longleftrightarrow> startOfMonthUtc u = startOfMonthUtc t \<and> startOfNextMonthUtc u = startOfNextMonthUtc t)
   \<and> startOfMonthUtc (startOfNextMonthUtc t) = startOfNextMonthUtc t"
proof -
  obtain y m where t: "utc_month t = (y, m)" by fastforce
  note in_t = month_of_instant [OF t]
  obtain y' m' where u: "utc_month u = (y', m')" by fastforce
  have same: "utc_month u = utc_month t" if "first_of_month (y, m) \<le> u" "u < first_of_month (next_month (y, m))"
    using instant_in_month [OF in_t(1,2) that] t by simp
  obtain y2 m2 where nxt: "next_month (y, m) = (y2, m2)" by fastforce
  have "0 \<le> m2" "m2 \<le> 11" using nxt in_t(1,2) by (auto simp: next_month_def split: if_splits)
  moreover have "first_of_month (y2, m2) < first_of_month (next_month (y2, m2))"
    using nxt in_t(1,2) year_length(1) [of y2] year_length(1) [of y]
    by (auto simp: next_month_def first_of_month_def month_start_def DAY_MS_def split: if_splits; linarith)
  ultimately have "utc_month (first_of_month (next_month (y, m))) = (y2, m2)"
    unfolding nxt by (intro instant_in_month) simp_all
  then have "startOfMonthUtc (startOfNextMonthUtc t) = startOfNextMonthUtc t"
    by (simp add: startOfMonthUtc_def startOfNextMonthUtc_def t nxt)
  moreover have "startOfMonthUtc u \<le> u \<and> u < startOfNextMonthUtc u"
    using month_of_instant [OF u] by (simp add: startOfMonthUtc_def startOfNextMonthUtc_def u)
  ultimately show ?thesis using in_t same t
    by (auto simp: startOfMonthUtc_def startOfNextMonthUtc_def)
qed

section \<open>Classes against one count\<close>

text \<open>
  Pricing all input at the fresh rate against pricing its classes, at the derived cache rates: the one
  count is at most ten times and at least four fifths of the cost of the classes, and it covers them
  when nothing was written to a cache.
\<close>

lemma lump_brackets_classes:
  fixes p r c out
  defines "band \<equiv> bandFor (priceFor p r) (Some (class_total c))"
    and "lump \<equiv> estimateCost p r \<lparr>tu_input = class_total c, tu_output = out, tu_classes = None\<rparr>"
    and "classed \<equiv> estimateCost p r \<lparr>tu_input = class_total c, tu_output = out, tu_classes = Some c\<rparr>"
  assumes "br_cacheRead band = None" "br_cacheWrite band = None" "0 \<le> br_input band" "0 \<le> br_output band"
  shows "classed \<le> 5 / 4 * lump \<and> lump \<le> 10 * classed \<and> (tc_cacheWrite c = 0 \<longrightarrow> classed \<le> lump)"
proof -
  define i where "i = br_input band / 1000000"
  define q where "q = of_nat out * br_output band / 1000000"
  have nonneg: "0 \<le> i" "0 \<le> q" using assms(6,7) by (simp_all add: i_def q_def)
  have rates: "ratesFor p r (Some (class_total c)) =
      \<lparr>rt_input = br_input band, rt_output = br_output band, rt_cacheRead = br_input band / 10,
       rt_cacheWrite = br_input band * 5 / 4\<rparr>"
    using assms(4,5) by (simp add: ratesFor_def Let_def band_def CACHE_READ_MULTIPLIER_def CACHE_WRITE_MULTIPLIER_def)
  have lump: "lump = of_nat (class_total c) * i + q"
    by (simp add: lump_def estimateCost_def rates i_def q_def field_simps)
  have classed: "classed = (of_nat (tc_prompt c) + of_nat (tc_cacheRead c) / 10 + of_nat (tc_cacheWrite c) * 5 / 4) * i + q"
    by (simp add: classed_def estimateCost_def estimateClassedCost_def costOfTokenClasses_def rates i_def q_def field_simps)
  have terms: "0 \<le> of_nat (tc_prompt c) * i" "0 \<le> of_nat (tc_cacheRead c) * i" "0 \<le> of_nat (tc_cacheWrite c) * i"
    using nonneg(1) by simp_all
  show ?thesis unfolding lump classed class_total_def using terms nonneg(2) by (auto simp: algebra_simps)
qed

definition plain_pricing :: spend_pricing where
  "plain_pricing = \<lparr>sp_currency = ''EUR'', sp_monthlyLimit = 100, sp_prices = (\<lambda>_. None),
     sp_defaultPrice = \<lparr>br_input = 1, br_output = 4, br_cacheRead = None, br_cacheWrite = None, pc_longBand = None\<rparr>,
     sp_accountCap = None, sp_userCap = None\<rparr>"

text \<open>A call that writes a cache costs more than its one count says.\<close>

lemma lump_understates_cache_writes:
  "estimateCost plain_pricing \<lparr>mf_provider = ''p'', mf_model = ''m''\<rparr>
       \<lparr>tu_input = 1000000, tu_output = 0, tu_classes = None\<rparr> = 1
   \<and> estimateCost plain_pricing \<lparr>mf_provider = ''p'', mf_model = ''m''\<rparr>
       \<lparr>tu_input = 1000000, tu_output = 0,
        tu_classes = Some \<lparr>tc_prompt = 0, tc_cacheRead = 0, tc_cacheWrite = 1000000\<rparr>\<rparr> = 5 / 4"
  by (simp add: plain_pricing_def estimateCost_def estimateClassedCost_def costOfTokenClasses_def ratesFor_def
      priceFor_def bandFor_def class_total_def Let_def CACHE_WRITE_MULTIPLIER_def band_rates.truncate_def)

end
