(* ===== verification/Spend.thy ===== *)
theory Spend
  imports SpendPricing "HOL-Library.Multiset"
begin

text \<open>
  The budget of a deployment (\<^verbatim>\<open>spend/src/SpendService.ts\<close>, \<^verbatim>\<open>spend/src/forecast.logic.ts\<close>,
  \<^verbatim>\<open>D1TokenUsageRepository.ts\<close>, \<^verbatim>\<open>server/src/runtime/spendAlerts.ts\<close>): a ledger of metered calls, the
  tiers a run is held to, the forecast of a period and the cards that warn of it. A ledger is the list
  of its rows. The caches in front of the settings are read-through and coherent after an edit, so a
  read is a read of the settings; repositories that may be unwired are optional.
\<close>

section \<open>The ledger\<close>

datatype usage_billing = Metered | Subscription

record usage_row =
  ur_id :: string
  ur_workspaceId :: string
  ur_accountId :: "string option"
  ur_userId :: "string option"
  ur_executionId :: "string option"
  ur_agentKind :: string
  ur_provider :: string
  ur_model :: string
  ur_inputTokens :: nat
  ur_outputTokens :: nat
  ur_cost :: rat
  ur_billing :: usage_billing
  ur_vendor :: "string option"
  ur_createdAt :: int

type_synonym usage_ledger = "usage_row list"

datatype spend_scope = Everywhere | InWorkspace string | OfAccount string | OfUser string

fun in_spend_scope :: "spend_scope \<Rightarrow> usage_row \<Rightarrow> bool" where
  "in_spend_scope Everywhere r = True"
| "in_spend_scope (InWorkspace i) r = (ur_workspaceId r = i)"
| "in_spend_scope (OfAccount i) r = (ur_accountId r = Some i)"
| "in_spend_scope (OfUser i) r = (ur_userId r = Some i)"

record usage_totals =
  ut_inputTokens :: nat
  ut_outputTokens :: nat
  ut_cost :: rat

definition counted :: "spend_scope \<Rightarrow> int \<Rightarrow> usage_row \<Rightarrow> bool" where
  "counted scope since r \<longleftrightarrow> in_spend_scope scope r \<and> ur_createdAt r \<ge> since \<and> ur_billing r = Metered"

definition totalsSince :: "spend_scope \<Rightarrow> int \<Rightarrow> usage_ledger \<Rightarrow> usage_totals" where
  "totalsSince scope since ledger =
     (let rows = filter (counted scope since) ledger
      in \<lparr>ut_inputTokens = sum_list (map ur_inputTokens rows),
          ut_outputTokens = sum_list (map ur_outputTokens rows), ut_cost = sum_list (map ur_cost rows)\<rparr>)"

record breakdown_row =
  bw_billing :: usage_billing
  bw_vendor :: "string option"
  bw_provider :: string
  bw_model :: string
  bw_inputTokens :: nat
  bw_outputTokens :: nat
  bw_cost :: rat
  bw_calls :: nat

definition breakdown_key :: "usage_row \<Rightarrow> usage_billing \<times> string option \<times> string \<times> string" where
  "breakdown_key r = (ur_billing r, ur_vendor r, ur_provider r, ur_model r)"

definition breakdown_of :: "usage_row list \<Rightarrow> usage_billing \<times> string option \<times> string \<times> string \<Rightarrow> breakdown_row" where
  "breakdown_of rows k =
     (let g = filter (\<lambda>r. breakdown_key r = k) rows
      in case k of (billing, vendor, provider, model) \<Rightarrow>
        \<lparr>bw_billing = billing, bw_vendor = vendor, bw_provider = provider, bw_model = model,
         bw_inputTokens = sum_list (map ur_inputTokens g), bw_outputTokens = sum_list (map ur_outputTokens g),
         bw_cost = sum_list (map ur_cost g), bw_calls = length g\<rparr>)"

text \<open>The groups by falling volume; the order of groups of one volume is that of their first rows.\<close>

definition usageBreakdownForWorkspace :: "string \<Rightarrow> int \<Rightarrow> usage_ledger \<Rightarrow> breakdown_row list" where
  "usageBreakdownForWorkspace ws since ledger =
     (let rows = filter (\<lambda>r. ur_workspaceId r = ws \<and> ur_createdAt r \<ge> since) ledger
      in sort_key (\<lambda>b. - int (bw_inputTokens b + bw_outputTokens b))
           (map (breakdown_of rows) (remdups (map breakdown_key rows))))"

record spend_window =
  sw_cost :: rat
  sw_firstSeenAt :: int

definition meteredSpendByScope :: "(string \<Rightarrow> spend_scope) \<Rightarrow> string list \<Rightarrow> int \<Rightarrow> usage_ledger \<Rightarrow> string \<Rightarrow> spend_window option" where
  "meteredSpendByScope scope ids since ledger i =
     (case filter (counted (scope i) since) ledger of
        [] \<Rightarrow> None
      | r # rs \<Rightarrow> if i \<notin> set ids then None
          else Some \<lparr>sw_cost = sum_list (map ur_cost (r # rs)),
                     sw_firstSeenAt = fold min (map ur_createdAt rs) (ur_createdAt r)\<rparr>)"

definition deleteOlderThan :: "int \<Rightarrow> usage_ledger \<Rightarrow> nat \<times> usage_ledger" where
  "deleteOlderThan t ledger =
     (length (filter (\<lambda>r. ur_createdAt r < t) ledger), filter (\<lambda>r. \<not> ur_createdAt r < t) ledger)"

section \<open>The service\<close>

record spend_env =
  se_pricing :: spend_pricing
  se_settings :: "(string \<Rightarrow> (string option \<times> rat option) option) option"
  se_accounts :: "(string \<Rightarrow> rat option) option"
  se_users :: "(string \<Rightarrow> rat option) option"
  se_dynamic :: "(string \<Rightarrow> dynamic_model list) option"

definition resolvePricing :: "spend_env \<Rightarrow> string \<Rightarrow> spend_pricing" where
  "resolvePricing env ws = (case se_settings env of
      None \<Rightarrow> se_pricing env | Some f \<Rightarrow> mergeSpendPricing (se_pricing env) (f ws))"

definition resolveAccountLimit :: "spend_env \<Rightarrow> string \<Rightarrow> rat option" where
  "resolveAccountLimit env i =
     effectiveTierLimit (Option.bind (se_accounts env) (\<lambda>f. f i)) (sp_accountCap (se_pricing env))"

definition resolveUserLimit :: "spend_env \<Rightarrow> string \<Rightarrow> rat option" where
  "resolveUserLimit env i =
     effectiveTierLimit (Option.bind (se_users env) (\<lambda>f. f i)) (sp_userCap (se_pricing env))"

definition vendorFor :: "usage_billing \<Rightarrow> string option \<Rightarrow> string \<Rightarrow> string option" where
  "vendorFor billing declared provider =
     (if billing \<noteq> Subscription then None
      else Some (or_else (nonempty (map_option js_trim declared)) provider))"

record usage_input =
  ui_workspaceId :: string
  ui_accountId :: "string option"
  ui_userId :: "string option"
  ui_executionId :: "string option"
  ui_agentKind :: string
  ui_model :: string
  ui_usage :: token_usage
  ui_billing :: "usage_billing option"
  ui_vendor :: "string option"

definition call_cost :: "spend_env \<Rightarrow> usage_input \<Rightarrow> rat" where
  "call_cost env x =
     (let ref = parseModel (ui_model x); base = resolvePricing env (ui_workspaceId x);
          pricing = (if mf_provider ref = ''openrouter''
                     then case se_dynamic env of None \<Rightarrow> base | Some f \<Rightarrow> withDynamicPrices base (f (ui_workspaceId x))
                     else base)
      in estimateCost pricing ref (ui_usage x))"

definition record_usage :: "spend_env \<Rightarrow> string \<Rightarrow> int \<Rightarrow> usage_input \<Rightarrow> usage_ledger \<Rightarrow> rat \<times> usage_ledger" where
  "record_usage env tok now x ledger =
     (let ref = parseModel (ui_model x); billing = or_else (ui_billing x) Metered
      in (call_cost env x, ledger @
        [\<lparr>ur_id = tok, ur_workspaceId = ui_workspaceId x, ur_accountId = ui_accountId x,
          ur_userId = ui_userId x, ur_executionId = ui_executionId x, ur_agentKind = ui_agentKind x,
          ur_provider = mf_provider ref, ur_model = mf_model ref, ur_inputTokens = tu_input (ui_usage x),
          ur_outputTokens = tu_output (ui_usage x), ur_cost = call_cost env x, ur_billing = billing,
          ur_vendor = vendorFor billing (ui_vendor x) (mf_provider ref), ur_createdAt = now\<rparr>]))"

text \<open>
  Metering a settled job (\<^verbatim>\<open>job-facts.ts\<close>): the billing it stamps on the step, if any, and the row.
\<close>

record job_usage =
  ju_usage :: "token_usage option"
  ju_billing :: "usage_billing option"
  ju_vendor :: "string option"
  ju_model :: "string option"

definition job_call :: "string \<Rightarrow> string \<Rightarrow> string \<Rightarrow> job_usage \<Rightarrow> token_usage \<Rightarrow> usage_input" where
  "job_call ws runId kind job usage =
     \<lparr>ui_workspaceId = ws, ui_accountId = None, ui_userId = None, ui_executionId = Some runId, ui_agentKind = kind,
      ui_model = or_else (ju_model job) ''unknown'', ui_usage = usage,
      ui_billing = Some (or_else (ju_billing job) Metered), ui_vendor = ju_vendor job\<rparr>"

definition meterJobUsage ::
  "spend_env \<Rightarrow> string \<Rightarrow> int \<Rightarrow> string \<Rightarrow> string \<Rightarrow> string \<Rightarrow> job_usage \<Rightarrow> usage_ledger \<Rightarrow> usage_billing option \<times> usage_ledger" where
  "meterJobUsage env tok now ws runId kind job ledger = (case ju_usage job of
      None \<Rightarrow> (None, ledger)
    | Some usage \<Rightarrow>
        (Some (or_else (ju_billing job) Metered), snd (record_usage env tok now (job_call ws runId kind job usage) ledger)))"

record spend_status =
  ss_periodStart :: int
  ss_inputTokens :: nat
  ss_outputTokens :: nat
  ss_costSpent :: rat
  ss_costLimit :: rat
  ss_currency :: string
  ss_exceeded :: bool

definition status_of :: "spend_scope \<Rightarrow> rat \<Rightarrow> string \<Rightarrow> int \<Rightarrow> usage_ledger \<Rightarrow> spend_status" where
  "status_of scope limit currency now ledger =
     (let start = startOfMonthUtc now; totals = totalsSince scope start ledger
      in \<lparr>ss_periodStart = start, ss_inputTokens = ut_inputTokens totals,
          ss_outputTokens = ut_outputTokens totals, ss_costSpent = ut_cost totals, ss_costLimit = limit,
          ss_currency = currency, ss_exceeded = (ut_cost totals \<ge> limit)\<rparr>)"

definition workspaceStatus :: "spend_env \<Rightarrow> int \<Rightarrow> usage_ledger \<Rightarrow> string \<Rightarrow> spend_status" where
  "workspaceStatus env now ledger ws =
     (let p = resolvePricing env ws in status_of (InWorkspace ws) (sp_monthlyLimit p) (sp_currency p) now ledger)"

definition accountStatus :: "spend_env \<Rightarrow> int \<Rightarrow> usage_ledger \<Rightarrow> string \<Rightarrow> spend_status option" where
  "accountStatus env now ledger i = (case resolveAccountLimit env i of
      None \<Rightarrow> None
    | Some limit \<Rightarrow> Some (status_of (OfAccount i) limit (sp_currency (se_pricing env)) now ledger))"

text \<open>A caller that holds the user's settings passes the configured limit.\<close>

definition userStatus :: "spend_env \<Rightarrow> int \<Rightarrow> usage_ledger \<Rightarrow> string \<Rightarrow> rat option option \<Rightarrow> spend_status option" where
  "userStatus env now ledger i preloaded =
     (case (case preloaded of None \<Rightarrow> resolveUserLimit env i
            | Some configured \<Rightarrow> effectiveTierLimit configured (sp_userCap (se_pricing env))) of
        None \<Rightarrow> None
      | Some limit \<Rightarrow> Some (status_of (OfUser i) limit (sp_currency (se_pricing env)) now ledger))"

definition periodUsage :: "spend_env \<Rightarrow> int \<Rightarrow> usage_ledger \<Rightarrow> string \<Rightarrow> spend_status \<times> breakdown_row list" where
  "periodUsage env now ledger ws =
     (workspaceStatus env now ledger ws, usageBreakdownForWorkspace ws (startOfMonthUtc now) ledger)"

record budget_tiers =
  bt_accountId :: "string option"
  bt_userId :: "string option"

definition isOverBudget :: "spend_env \<Rightarrow> int \<Rightarrow> usage_ledger \<Rightarrow> string \<Rightarrow> budget_tiers \<Rightarrow> bool" where
  "isOverBudget env now ledger ws tiers =
     (let start = startOfMonthUtc now;
          over = (\<lambda>scope limit. case limit of None \<Rightarrow> False | Some l \<Rightarrow> ut_cost (totalsSince scope start ledger) \<ge> l)
      in if ut_cost (totalsSince (InWorkspace ws) start ledger) \<ge> sp_monthlyLimit (resolvePricing env ws) then True
         else if (case nonempty (bt_accountId tiers) of None \<Rightarrow> False | Some a \<Rightarrow> over (OfAccount a) (resolveAccountLimit env a))
         then True
         else (case nonempty (bt_userId tiers) of None \<Rightarrow> False | Some u \<Rightarrow> over (OfUser u) (resolveUserLimit env u)))"

section \<open>The forecast\<close>

definition BURN_RATE_WINDOW_MS :: int where
  "BURN_RATE_WINDOW_MS = 7 * DAY_MS"

definition MIN_OBSERVED_SPAN_MS :: int where
  "MIN_OBSERVED_SPAN_MS = 6 * 60 * 60 * 1000"

definition DEFAULT_SPEND_ALERT_THRESHOLDS :: "rat list" where
  "DEFAULT_SPEND_ALERT_THRESHOLDS = [4 / 5]"

record forecast_input =
  fi_costSpent :: rat
  fi_costLimit :: "rat option"
  fi_windowCost :: rat
  fi_windowFirstSeenAt :: "int option"
  fi_windowStart :: int
  fi_periodEnd :: int
  fi_now :: int

record spend_forecast =
  sf_burnRatePerDay :: rat
  sf_projectedTotal :: "rat option"
  sf_projectedExhaustionAt :: "rat option"
  sf_consumedFraction :: rat
  sf_confident :: bool

definition exhaustionAt :: "rat \<Rightarrow> rat option \<Rightarrow> rat \<Rightarrow> int \<Rightarrow> int \<Rightarrow> rat option" where
  "exhaustionAt spent limit burn now periodEnd = (case limit of
      None \<Rightarrow> None
    | Some l \<Rightarrow>
        if spent \<ge> l \<or> burn \<le> 0 then None
        else (let reached = of_int now + ((l - spent) / burn) * of_int DAY_MS
              in if reached < of_int periodEnd then Some reached else None))"

definition forecastSpend :: "forecast_input \<Rightarrow> spend_forecast" where
  "forecastSpend x =
     (let consumed = (case fi_costLimit x of None \<Rightarrow> 0 | Some l \<Rightarrow> if l > 0 then fi_costSpent x / l else 0);
          seen = (case fi_windowFirstSeenAt x of None \<Rightarrow> fi_windowStart x | Some f \<Rightarrow> max (fi_windowStart x) f);
          observed = max 0 (fi_now x - seen);
          burn = (if observed > 0 then (fi_windowCost x / of_int observed) * of_int DAY_MS else 0);
          short = (fi_windowFirstSeenAt x \<noteq> None \<and> observed < MIN_OBSERVED_SPAN_MS);
          remaining = of_int (max 0 (fi_periodEnd x - fi_now x)) / of_int DAY_MS
      in if short
         then \<lparr>sf_burnRatePerDay = burn, sf_projectedTotal = None, sf_projectedExhaustionAt = None,
               sf_consumedFraction = consumed, sf_confident = False\<rparr>
         else \<lparr>sf_burnRatePerDay = burn, sf_projectedTotal = Some (fi_costSpent x + burn * remaining),
               sf_projectedExhaustionAt = exhaustionAt (fi_costSpent x) (fi_costLimit x) burn (fi_now x) (fi_periodEnd x),
               sf_consumedFraction = consumed, sf_confident = True\<rparr>)"

record spend_alert =
  sa_periodStart :: int
  sa_threshold :: "rat option"
  sa_projectedOverrun :: bool

definition greatest :: "rat list \<Rightarrow> rat option" where
  "greatest xs = (case xs of [] \<Rightarrow> None | x # rest \<Rightarrow> Some (fold max rest x))"

definition spendAlertState :: "spend_forecast \<Rightarrow> int \<Rightarrow> rat option \<Rightarrow> rat list \<Rightarrow> spend_alert" where
  "spendAlertState f periodStart limit thresholds = (case limit of
      None \<Rightarrow> \<lparr>sa_periodStart = periodStart, sa_threshold = None, sa_projectedOverrun = False\<rparr>
    | Some l \<Rightarrow>
        if l \<le> 0 then \<lparr>sa_periodStart = periodStart, sa_threshold = None, sa_projectedOverrun = False\<rparr>
        else \<lparr>sa_periodStart = periodStart,
              sa_threshold = greatest (filter (\<lambda>t. t > 0 \<and> sf_consumedFraction f \<ge> t) thresholds),
              sa_projectedOverrun = (sf_confident f \<and> sf_consumedFraction f < 1
                \<and> (case sf_projectedTotal f of None \<Rightarrow> False | Some p \<Rightarrow> p > l))\<rparr>)"

record scoped_forecast =
  sc_costSpent :: rat
  sc_costLimit :: rat
  sc_currency :: string
  sc_forecast :: spend_forecast
  sc_alert :: spend_alert

definition buildForecast :: "rat \<Rightarrow> rat \<Rightarrow> string \<Rightarrow> spend_window option \<Rightarrow> int \<Rightarrow> scoped_forecast" where
  "buildForecast spent limit currency window now =
     (let start = startOfMonthUtc now;
          f = forecastSpend \<lparr>fi_costSpent = spent, fi_costLimit = Some limit,
                fi_windowCost = (case window of None \<Rightarrow> 0 | Some w \<Rightarrow> sw_cost w),
                fi_windowFirstSeenAt = map_option sw_firstSeenAt window,
                fi_windowStart = now - BURN_RATE_WINDOW_MS, fi_periodEnd = startOfNextMonthUtc start, fi_now = now\<rparr>
      in \<lparr>sc_costSpent = spent, sc_costLimit = limit, sc_currency = currency, sc_forecast = f,
          sc_alert = spendAlertState f start (Some limit) DEFAULT_SPEND_ALERT_THRESHOLDS\<rparr>)"

definition forecastWorkspaces :: "spend_env \<Rightarrow> string list \<Rightarrow> int \<Rightarrow> usage_ledger \<Rightarrow> string \<Rightarrow> scoped_forecast option" where
  "forecastWorkspaces env ids now ledger i =
     map_option (\<lambda>spent. let p = resolvePricing env i
         in buildForecast (sw_cost spent) (sp_monthlyLimit p) (sp_currency p)
              (meteredSpendByScope InWorkspace ids (now - BURN_RATE_WINDOW_MS) ledger i) now)
       (meteredSpendByScope InWorkspace ids (startOfMonthUtc now) ledger i)"

definition forecastAccounts :: "spend_env \<Rightarrow> string list \<Rightarrow> int \<Rightarrow> usage_ledger \<Rightarrow> string \<Rightarrow> scoped_forecast option" where
  "forecastAccounts env ids now ledger i =
     Option.bind (meteredSpendByScope OfAccount ids (startOfMonthUtc now) ledger i) (\<lambda>spent.
       map_option (\<lambda>limit. buildForecast (sw_cost spent) limit (sp_currency (se_pricing env))
           (meteredSpendByScope OfAccount ids (now - BURN_RATE_WINDOW_MS) ledger i) now)
         (resolveAccountLimit env i))"

section \<open>The cards that warn\<close>

definition spendAlertFiring :: "spend_alert \<Rightarrow> bool" where
  "spendAlertFiring s \<longleftrightarrow> sa_threshold s \<noteq> None \<or> sa_projectedOverrun s"

type_synonym alert_signals = "rat option \<times> bool"

fun merge_signals :: "rat option \<Rightarrow> bool \<Rightarrow> alert_signals list \<Rightarrow> alert_signals" where
  "merge_signals t ov [] = (t, ov)"
| "merge_signals t ov ((x, o1) # rest) =
     merge_signals (case x of None \<Rightarrow> t
        | Some v \<Rightarrow> (case t of None \<Rightarrow> Some v | Some u \<Rightarrow> if v > u then Some v else t)) (ov \<or> o1) rest"

definition mergeSpendAlertStates :: "int \<Rightarrow> alert_signals list \<Rightarrow> spend_alert" where
  "mergeSpendAlertStates periodStart tiers =
     (case merge_signals None False tiers of (t, ov) \<Rightarrow>
        \<lparr>sa_periodStart = periodStart, sa_threshold = t, sa_projectedOverrun = ov\<rparr>)"

definition spendAlertEscalated :: "spend_alert option \<Rightarrow> spend_alert \<Rightarrow> bool" where
  "spendAlertEscalated previous nxt =
     (if \<not> spendAlertFiring nxt then False
      else case previous of
          None \<Rightarrow> True
        | Some p \<Rightarrow>
            if sa_periodStart p \<noteq> sa_periodStart nxt then True
            else if or_else (sa_threshold nxt) 0 > or_else (sa_threshold p) 0 then True
            else sa_projectedOverrun nxt \<and> \<not> sa_projectedOverrun p)"

text \<open>What a card keeps: the period, when it states one, and the signals of every firing tier.\<close>

type_synonym alert_card = "int option \<times> alert_signals list"

definition readNotifiedState :: "alert_card option \<Rightarrow> spend_alert option" where
  "readNotifiedState notified = (case notified of
      Some (Some period, tiers) \<Rightarrow> Some (mergeSpendAlertStates period tiers) | _ \<Rightarrow> None)"

definition firing_tiers :: "scoped_forecast option \<Rightarrow> scoped_forecast option \<Rightarrow> scoped_forecast list" where
  "firing_tiers ws account =
     filter (\<lambda>f. spendAlertFiring (sc_alert f)) (List.map_filter (\<lambda>x. x) [ws, account])"

text \<open>The worst tier first; of two tiers at the same threshold the workspace's.\<close>

definition worst_tier :: "scoped_forecast list \<Rightarrow> scoped_forecast" where
  "worst_tier fs = hd (sort_key (\<lambda>f. - or_else (sa_threshold (sc_alert f)) 0) fs)"

definition signals_of :: "scoped_forecast \<Rightarrow> alert_signals" where
  "signals_of f = (sa_threshold (sc_alert f), sa_projectedOverrun (sc_alert f))"

text \<open>The card a pass raises on a workspace, if it raises one.\<close>

definition settleWorkspace ::
  "scoped_forecast option \<Rightarrow> scoped_forecast option \<Rightarrow> alert_card option \<Rightarrow> alert_card option" where
  "settleWorkspace ws account notified =
     (let firing = firing_tiers ws account
      in if firing = [] then None
         else (let period = sa_periodStart (sc_alert (worst_tier firing));
                   nxt = mergeSpendAlertStates period (map signals_of firing)
               in if spendAlertEscalated (readNotifiedState notified) nxt
                  then Some (Some period, map signals_of firing) else None))"

text \<open>
  One pass over the workspaces, each with its account. The last cards are read before the first raise;
  a raise that fails changes nothing.
\<close>

fun sweep_workspaces ::
  "(string \<Rightarrow> string option \<Rightarrow> alert_card option) \<Rightarrow> (string \<Rightarrow> bool) \<Rightarrow> (string \<times> string option) list
     \<Rightarrow> (string \<Rightarrow> alert_card option) \<Rightarrow> nat \<times> (string \<Rightarrow> alert_card option)" where
  "sweep_workspaces settle ok [] cards = (0, cards)"
| "sweep_workspaces settle ok ((ws, account) # rest) cards =
     (case settle ws account of
        Some raised \<Rightarrow>
          if ok ws then (case sweep_workspaces settle ok rest (cards(ws \<mapsto> raised)) of (n, c) \<Rightarrow> (Suc n, c))
          else sweep_workspaces settle ok rest cards
      | None \<Rightarrow> sweep_workspaces settle ok rest cards)"

definition settle_at ::
  "spend_env \<Rightarrow> int \<Rightarrow> usage_ledger \<Rightarrow> string list \<Rightarrow> string list \<Rightarrow> string \<Rightarrow> string option
     \<Rightarrow> alert_card option \<Rightarrow> alert_card option" where
  "settle_at env now ledger ids accounts ws account notified =
     settleWorkspace (forecastWorkspaces env ids now ledger ws)
       (Option.bind (nonempty account) (forecastAccounts env accounts now ledger)) notified"

definition distinctAccountIds :: "(string \<times> string option) list \<Rightarrow> string list" where
  "distinctAccountIds workspaces = remdups (List.map_filter (\<lambda>w. nonempty (snd w)) workspaces)"

definition sweepSpendAlerts ::
  "spend_env \<Rightarrow> int \<Rightarrow> usage_ledger \<Rightarrow> (string \<Rightarrow> bool) \<Rightarrow> (string \<times> string option) list
     \<Rightarrow> (string \<Rightarrow> alert_card option) \<Rightarrow> nat \<times> (string \<Rightarrow> alert_card option)" where
  "sweepSpendAlerts env now ledger ok workspaces cards =
     sweep_workspaces
       (\<lambda>ws account. settle_at env now ledger (map fst workspaces) (distinctAccountIds workspaces) ws account (cards ws))
       ok workspaces cards"

section \<open>Totals\<close>

lemma tier_cost_append:
  "ut_cost (totalsSince scope since (xs @ ys)) = ut_cost (totalsSince scope since xs) + ut_cost (totalsSince scope since ys)"
  by (simp add: totalsSince_def Let_def)

lemma tier_cost_nonneg: "(\<And>r. r \<in> set rows \<Longrightarrow> 0 \<le> ur_cost r) \<Longrightarrow> 0 \<le> ut_cost (totalsSince scope since rows)"
  by (auto simp: totalsSince_def Let_def intro!: sum_list_nonneg)

lemma totals_after_pruning:
  "t \<le> since \<Longrightarrow> totalsSince scope since (snd (deleteOlderThan t ledger)) = totalsSince scope since ledger"
  by (auto simp: totalsSince_def deleteOlderThan_def Let_def counted_def intro!: arg_cong [where f = sum_list]
      arg_cong2 [where f = map] filter_cong)

text \<open>The rows of a group and their volume, whatever the order of the report.\<close>

lemma sum_by_key:
  fixes f :: "'a \<Rightarrow> rat"
  shows "sum_list (map (\<lambda>k. sum_list (map f (filter (\<lambda>r. key r = k) rows))) (remdups (map key rows))) = sum_list (map f rows)"
proof -
  have "sum_list (map (\<lambda>k. sum_list (map f (filter (\<lambda>r. key r = k) rows))) ks) =
      sum_list (map f (filter (\<lambda>r. key r \<in> set ks) rows))" if "distinct ks" for ks
    using that
  proof (induction ks)
    case (Cons k ks)
    have "sum_list (map f (filter (\<lambda>r. key r = k) xs)) + sum_list (map f (filter (\<lambda>r. key r \<in> set ks) xs)) =
        sum_list (map f (filter (\<lambda>r. key r = k \<or> key r \<in> set ks) xs))" for xs
      using Cons.prems by (induction xs) auto
    with Cons show ?case by simp
  qed simp
  from this [of "remdups (map key rows)"] show ?thesis by (simp cong: filter_cong)
qed

text \<open>The report of a period adds up to the budget it is shown beside.\<close>

lemma breakdown_adds_up:
  "sum_list (map bw_cost (usageBreakdownForWorkspace ws since ledger)) =
     sum_list (map ur_cost (filter (\<lambda>r. ur_workspaceId r = ws \<and> ur_createdAt r \<ge> since) ledger))"
proof -
  have perm: "sum_list (map bw_cost (sort_key k bs)) = sum_list (map bw_cost bs)" for k :: "breakdown_row \<Rightarrow> int" and bs
    by (metis mset_map mset_sort sum_mset_sum_list)
  have "bw_cost (breakdown_of rows k) = sum_list (map ur_cost (filter (\<lambda>r. breakdown_key r = k) rows))" for rows k
    by (simp add: breakdown_of_def Let_def split: prod.splits)
  then show ?thesis unfolding usageBreakdownForWorkspace_def Let_def perm
    by (simp add: comp_def sum_by_key del: filter_filter)
qed

text \<open>
  What a job reports as metered usage is spent by its workspace, but no account and no user ever sees it.
\<close>

lemma job_usage_escapes_account_and_user:
  assumes "meterJobUsage env tok now ws runId kind job ledger = (Some Metered, ledger')" "since \<le> now"
  shows "totalsSince (OfAccount a) since ledger' = totalsSince (OfAccount a) since ledger
    \<and> totalsSince (OfUser u) since ledger' = totalsSince (OfUser u) since ledger
    \<and> ut_cost (totalsSince (InWorkspace ws) since ledger') =
        ut_cost (totalsSince (InWorkspace ws) since ledger) + call_cost env (job_call ws runId kind job (the (ju_usage job)))"
  using assms by (auto simp: meterJobUsage_def record_usage_def job_call_def totalsSince_def counted_def Let_def
      split: option.splits)

section \<open>The cards of a period\<close>

text \<open>A ledger only gains calls that cost nothing less than nothing.\<close>

definition grown :: "usage_ledger \<Rightarrow> usage_ledger \<Rightarrow> bool" where
  "grown l l' \<longleftrightarrow> (\<exists>more. l' = l @ more \<and> (\<forall>r \<in> set more. 0 \<le> ur_cost r))"

lemma metered_spend_cost:
  "meteredSpendByScope scope ids since ledger i = Some w \<Longrightarrow> sw_cost w = ut_cost (totalsSince (scope i) since ledger)"
  by (auto simp: meteredSpendByScope_def totalsSince_def Let_def split: list.splits if_splits)

lemma metered_spend_grows:
  assumes "meteredSpendByScope scope ids since ledger i = Some w" "grown ledger ledger'"
  shows "\<exists>w'. meteredSpendByScope scope ids since ledger' i = Some w' \<and> sw_cost w \<le> sw_cost w'"
proof -
  obtain more where more: "ledger' = ledger @ more" "\<And>r. r \<in> set more \<Longrightarrow> 0 \<le> ur_cost r"
    using assms(2) by (auto simp: grown_def)
  have "meteredSpendByScope scope ids since ledger' i \<noteq> None"
    using assms(1) by (auto simp: meteredSpendByScope_def more(1) split: list.splits if_splits)
  then obtain w' where w': "meteredSpendByScope scope ids since ledger' i = Some w'" by blast
  then have "sw_cost w \<le> sw_cost w'"
    using metered_spend_cost [OF assms(1)] metered_spend_cost [OF w'] tier_cost_nonneg [of more "scope i" since] more
    by (simp add: tier_cost_append)
  with w' show ?thesis by blast
qed

definition near_limit :: "rat \<Rightarrow> rat \<Rightarrow> bool" where
  "near_limit limit spent \<longleftrightarrow> 0 < limit \<and> 4 / 5 \<le> spent / limit"

lemma near_limit_mono: "near_limit limit s \<Longrightarrow> s \<le> t \<Longrightarrow> near_limit limit t"
  unfolding near_limit_def by (meson divide_right_mono less_imp_le order_trans)

lemma alert_threshold:
  "sa_threshold (sc_alert (buildForecast spent limit currency window now)) =
     (if near_limit limit spent then Some (4 / 5) else None)"
  by (simp add: buildForecast_def spendAlertState_def forecastSpend_def Let_def DEFAULT_SPEND_ALERT_THRESHOLDS_def
      greatest_def near_limit_def)

lemma four_fifths: "\<exists>y::rat. y * 5 = 4"
  by (rule exI [where x = "4 / 5"]) simp

lemma alert_period [simp]:
  "sa_periodStart (sc_alert (buildForecast spent limit currency window now)) = startOfMonthUtc now"
  by (simp add: buildForecast_def spendAlertState_def Let_def)

text \<open>The tiers a workspace is warned about, and whether one of them has crossed the threshold.\<close>

definition tiers_of ::
  "spend_env \<Rightarrow> int \<Rightarrow> usage_ledger \<Rightarrow> string list \<Rightarrow> string list \<Rightarrow> string \<times> string option \<Rightarrow> scoped_forecast list" where
  "tiers_of env now ledger ids accounts w =
     List.map_filter (\<lambda>x. x) [forecastWorkspaces env ids now ledger (fst w),
       Option.bind (nonempty (snd w)) (forecastAccounts env accounts now ledger)]"

definition crossed :: "scoped_forecast list \<Rightarrow> bool" where
  "crossed fs \<longleftrightarrow> (\<exists>f \<in> set fs. sa_threshold (sc_alert f) \<noteq> None)"

lemma tiers_of_cases:
  assumes "f \<in> set (tiers_of env now ledger ids accounts w)"
  shows "\<exists>spent limit currency window. f = buildForecast spent limit currency window now"
  using assms by (auto simp: tiers_of_def map_filter_simps forecastWorkspaces_def forecastAccounts_def Let_def
      bind_eq_Some_conv split: option.splits)

lemma tiers_of_state:
  assumes "startOfMonthUtc now = p" "f \<in> set (tiers_of env now ledger ids accounts w)"
  shows "sa_periodStart (sc_alert f) = p \<and> (sa_threshold (sc_alert f) = None \<or> sa_threshold (sc_alert f) = Some (4 / 5))"
  using tiers_of_cases [OF assms(2)] assms(1) by (auto simp: alert_threshold)

lemma crossed_iff:
  "crossed (tiers_of env now ledger ids accounts w) \<longleftrightarrow>
     (\<exists>s. meteredSpendByScope InWorkspace ids (startOfMonthUtc now) ledger (fst w) = Some s
        \<and> near_limit (sp_monthlyLimit (resolvePricing env (fst w))) (sw_cost s))
   \<or> (\<exists>a s limit. nonempty (snd w) = Some a \<and> meteredSpendByScope OfAccount accounts (startOfMonthUtc now) ledger a = Some s
        \<and> resolveAccountLimit env a = Some limit \<and> near_limit limit (sw_cost s))"
  unfolding crossed_def tiers_of_def forecastWorkspaces_def forecastAccounts_def Let_def
  by (cases "nonempty (snd w)")
    (auto simp: map_filter_simps alert_threshold four_fifths bind_eq_Some_conv split: option.splits if_splits)

lemma crossed_grows:
  assumes "crossed (tiers_of env now ledger ids accounts w)" "grown ledger ledger'" "startOfMonthUtc now' = startOfMonthUtc now"
  shows "crossed (tiers_of env now' ledger' ids accounts w)"
  using assms(1) [unfolded crossed_iff]
proof (elim disjE exE conjE)
  fix s
  assume s: "meteredSpendByScope InWorkspace ids (startOfMonthUtc now) ledger (fst w) = Some s"
    and near: "near_limit (sp_monthlyLimit (resolvePricing env (fst w))) (sw_cost s)"
  show ?thesis unfolding crossed_iff assms(3)
    using metered_spend_grows [OF s assms(2)] near_limit_mono [OF near] by blast
next
  fix a s limit
  assume "nonempty (snd w) = Some a" "resolveAccountLimit env a = Some limit" "near_limit limit (sw_cost s)"
    and s: "meteredSpendByScope OfAccount accounts (startOfMonthUtc now) ledger a = Some s"
  then show ?thesis unfolding crossed_iff assms(3)
    using metered_spend_grows [OF s assms(2)] near_limit_mono by meson
qed

text \<open>How many cards a workspace can still be sent in the period \<open>p\<close>, from the last one it was sent.\<close>

definition cards_left :: "int \<Rightarrow> bool \<Rightarrow> alert_card option \<Rightarrow> nat" where
  "cards_left p now_crossed notified = (case readNotifiedState notified of
      None \<Rightarrow> 3
    | Some s \<Rightarrow>
        if sa_periodStart s \<noteq> p then 3
        else (case sa_threshold s of
            None \<Rightarrow> if sa_projectedOverrun s then 2 else 3
          | Some v \<Rightarrow> if now_crossed \<and> 4 / 5 \<le> v then (if sa_projectedOverrun s then 0 else 1) else 3))"

lemma cards_left_le: "cards_left p c notified \<le> 3"
  by (simp add: cards_left_def split: option.splits)

lemma cards_left_crossed: "(c \<Longrightarrow> c') \<Longrightarrow> cards_left p c' notified \<le> cards_left p c notified"
  by (auto simp: cards_left_def split: option.splits)

lemma merge_signals_one_threshold:
  assumes "\<And>x. x \<in> set xs \<Longrightarrow> fst x = None \<or> fst x = Some c" "t = None \<or> t = Some c"
  shows "merge_signals t ov xs =
    (if t \<noteq> None \<or> (\<exists>x \<in> set xs. fst x \<noteq> None) then Some c else None, ov \<or> (\<exists>x \<in> set xs. snd x))"
  using assms
proof (induction xs arbitrary: t ov)
  case (Cons x xs)
  obtain a o1 where x: "x = (a, o1)" by fastforce
  have "a = None \<or> a = Some c" using Cons.prems(1) [of x] by (simp add: x)
  moreover have "merge_signals t' (ov \<or> o1) xs =
      (if t' \<noteq> None \<or> (\<exists>x \<in> set xs. fst x \<noteq> None) then Some c else None, (ov \<or> o1) \<or> (\<exists>x \<in> set xs. snd x))"
    if "t' = None \<or> t' = Some c" for t'
    by (rule Cons.IH [OF _ that]) (use Cons.prems(1) in simp)
  ultimately show ?case using Cons.prems(2) by (elim disjE) (simp_all add: x)
qed auto

lemma worst_tier_in: "fs \<noteq> [] \<Longrightarrow> worst_tier fs \<in> set fs"
  unfolding worst_tier_def by (metis hd_in_set set_sort sort_key_simps(1) set_empty)

lemma settle_uses_a_card:
  assumes settled: "settleWorkspace ws account notified = Some new"
    and tiers: "fs = List.map_filter (\<lambda>x. x) [ws, account]"
    and each: "\<And>f. f \<in> set fs \<Longrightarrow> sa_periodStart (sc_alert f) = p
      \<and> (sa_threshold (sc_alert f) = None \<or> sa_threshold (sc_alert f) = Some (4 / 5))"
  shows "cards_left p (crossed fs) (Some new) < cards_left p (crossed fs) notified"
proof -
  define firing where "firing = filter (\<lambda>f. spendAlertFiring (sc_alert f)) fs"
  define ov where "ov \<longleftrightarrow> (\<exists>f \<in> set firing. sa_projectedOverrun (sc_alert f))"
  define nxt where "nxt = \<lparr>sa_periodStart = p, sa_threshold = (if crossed fs then Some (4 / 5) else None :: rat option),
    sa_projectedOverrun = ov\<rparr>"
  have fires: "firing = firing_tiers ws account" by (simp add: firing_def firing_tiers_def tiers)
  have "firing \<noteq> []" using settled by (auto simp: settleWorkspace_def fires)
  then have period: "sa_periodStart (sc_alert (worst_tier firing)) = p"
    using worst_tier_in [of firing] each by (auto simp: firing_def)
  have "(\<exists>x \<in> set (map signals_of firing). fst x \<noteq> None) \<longleftrightarrow> crossed fs"
    by (auto simp: crossed_def firing_def signals_of_def spendAlertFiring_def)
  moreover have sig: "x \<in> set (map signals_of firing) \<Longrightarrow> fst x = None \<or> fst x = Some (4 / 5)" for x
    using each by (fastforce simp: firing_def signals_of_def)
  then have "merge_signals None False (map signals_of firing) =
      (if (\<exists>x \<in> set (map signals_of firing). fst x \<noteq> None) then Some (4 / 5) else None,
       \<exists>x \<in> set (map signals_of firing). snd x)"
    using merge_signals_one_threshold [where xs = "map signals_of firing" and t = None and ov = False and c = "4 / 5", OF sig] by simp
  ultimately have merged: "mergeSpendAlertStates p (map signals_of firing) = nxt"
    by (simp add: mergeSpendAlertStates_def nxt_def ov_def signals_of_def)
  have new: "readNotifiedState (Some new) = Some nxt" and escalated: "spendAlertEscalated (readNotifiedState notified) nxt"
    using settled by (auto simp: settleWorkspace_def Let_def fires [symmetric] period merged readNotifiedState_def split: if_splits)
  then have "ov \<or> crossed fs" by (auto simp: spendAlertEscalated_def spendAlertFiring_def nxt_def split: if_splits)
  with new escalated show ?thesis
    by (auto simp: cards_left_def nxt_def spendAlertEscalated_def or_else_def split: option.splits if_splits)
qed

text \<open>A pass uses up at least the cards it raises.\<close>

lemma sweep_uses_cards:
  assumes "distinct (map fst workspaces)"
    and "\<And>ws account new. (ws, account) \<in> set workspaces \<Longrightarrow> settle ws account = Some new \<Longrightarrow>
      left (ws, account) (Some new) < (left (ws, account) (cards ws) :: nat)"
  shows "fst (sweep_workspaces settle ok workspaces cards)
      + (\<Sum>w \<leftarrow> workspaces. left w (snd (sweep_workspaces settle ok workspaces cards) (fst w)))
      \<le> (\<Sum>w \<leftarrow> workspaces. left w (cards (fst w)))
    \<and> (\<forall>x. x \<notin> set (map fst workspaces) \<longrightarrow> snd (sweep_workspaces settle ok workspaces cards) x = cards x)"
  using assms
proof (induction workspaces arbitrary: cards)
  case (Cons w rest)
  obtain ws account where w: "w = (ws, account)" by fastforce
  have fresh: "ws \<notin> set (map fst rest)" using Cons.prems(1) by (simp add: w)
  have rest: "distinct (map fst rest)" using Cons.prems(1) by simp
  have same: "(\<Sum>v \<leftarrow> rest. left v ((cards(ws \<mapsto> c)) (fst v))) = (\<Sum>v \<leftarrow> rest. left v (cards (fst v)))" for c
    using fresh by (intro arg_cong [where f = sum_list] map_cong) auto
  have hyp: "left (x, a) (Some new) < left (x, a) ((cards(ws \<mapsto> c)) x)"
    if "(x, a) \<in> set rest" "settle x a = Some new" for x a new c
    using that Cons.prems(2) [of x a new] fresh by (force simp: w)
  have keep: "?case" if "sweep_workspaces settle ok (w # rest) cards = sweep_workspaces settle ok rest cards"
    unfolding that using Cons.IH [of cards] Cons.prems fresh by (simp add: w)
  show ?case
  proof (cases "settle ws account")
    case None
    then show ?thesis by (intro keep) (simp add: w)
  next
    case (Some new)
    show ?thesis
    proof (cases "ok ws")
      case False
      with Some show ?thesis by (intro keep) (simp add: w)
    next
      case True
      define r where "r = sweep_workspaces settle ok rest (cards(ws \<mapsto> new))"
      have r: "fst r + (\<Sum>v \<leftarrow> rest. left v (snd r (fst v))) \<le> (\<Sum>v \<leftarrow> rest. left v (cards (fst v)))"
        "\<And>x. x \<notin> set (map fst rest) \<Longrightarrow> snd r x = (cards(ws \<mapsto> new)) x"
        using Cons.IH [of "cards(ws \<mapsto> new)", OF rest hyp] unfolding r_def [symmetric] same by blast+
      have "sweep_workspaces settle ok (w # rest) cards = (Suc (fst r), snd r)"
        using Some True by (simp add: w r_def split: prod.splits)
      moreover have "left w (Some new) < left w (cards ws)" using Cons.prems(2) [of ws account new] Some by (simp add: w)
      ultimately show ?thesis using r fresh by (auto simp: w)
    qed
  qed
qed simp

text \<open>Passes of the sweep, each over the ledger of its moment.\<close>

fun sweep_passes ::
  "spend_env \<Rightarrow> (string \<times> string option) list \<Rightarrow> (int \<times> usage_ledger \<times> (string \<Rightarrow> bool)) list
     \<Rightarrow> (string \<Rightarrow> alert_card option) \<Rightarrow> nat \<times> (string \<Rightarrow> alert_card option)" where
  "sweep_passes env workspaces [] cards = (0, cards)"
| "sweep_passes env workspaces ((now, ledger, ok) # rest) cards =
     (case sweepSpendAlerts env now ledger ok workspaces cards of (n, c) \<Rightarrow>
        (case sweep_passes env workspaces rest c of (m, c') \<Rightarrow> (n + m, c')))"

abbreviation pass_crossed :: "spend_env \<Rightarrow> (string \<times> string option) list \<Rightarrow> int \<times> usage_ledger \<times> (string \<Rightarrow> bool)
    \<Rightarrow> string \<times> string option \<Rightarrow> bool" where
  "pass_crossed env workspaces x \<equiv>
     (\<lambda>w. crossed (tiers_of env (fst x) (fst (snd x)) (map fst workspaces) (distinctAccountIds workspaces) w))"

lemma pass_uses_cards:
  assumes "distinct (map fst workspaces)" "startOfMonthUtc now = p"
    and "sweepSpendAlerts env now ledger ok workspaces cards = (n, c)"
  shows "n + (\<Sum>w \<leftarrow> workspaces. cards_left p (pass_crossed env workspaces (now, ledger, ok) w) (c (fst w)))
    \<le> (\<Sum>w \<leftarrow> workspaces. cards_left p (pass_crossed env workspaces (now, ledger, ok) w) (cards (fst w)))"
proof -
  let ?left = "\<lambda>w. cards_left p (pass_crossed env workspaces (now, ledger, ok) w)"
  let ?settle = "\<lambda>ws account. settle_at env now ledger (map fst workspaces) (distinctAccountIds workspaces) ws account (cards ws)"
  have uses: "?left (ws, account) (Some new) < ?left (ws, account) (cards ws)" if "?settle ws account = Some new" for ws account new
  proof -
    have tiers: "tiers_of env now ledger (map fst workspaces) (distinctAccountIds workspaces) (ws, account) =
        List.map_filter (\<lambda>x. x) [forecastWorkspaces env (map fst workspaces) now ledger ws,
          Option.bind (nonempty account) (forecastAccounts env (distinctAccountIds workspaces) now ledger)]"
      by (simp only: tiers_of_def fst_conv snd_conv)
    show ?thesis
      using settle_uses_a_card [OF that [unfolded settle_at_def] tiers tiers_of_state [OF assms(2)]]
      by (simp only: fst_conv snd_conv)
  qed
  have "sweep_workspaces ?settle ok workspaces cards = (n, c)" using assms(3) by (simp add: sweepSpendAlerts_def)
  with sweep_uses_cards [of workspaces ?settle ?left cards ok, OF assms(1) uses] show ?thesis by simp
qed

lemma passes_use_cards:
  assumes "distinct (map fst workspaces)" "\<forall>x \<in> set passes. startOfMonthUtc (fst x) = p"
    and "sorted_wrt (\<lambda>x y. grown (fst (snd x)) (fst (snd y))) passes"
    and "\<And>x w. x \<in> set passes \<Longrightarrow> before w \<Longrightarrow> pass_crossed env workspaces x w"
  shows "fst (sweep_passes env workspaces passes cards) \<le> (\<Sum>w \<leftarrow> workspaces. cards_left p (before w) (cards (fst w)))"
  using assms
proof (induction passes arbitrary: cards before)
  case (Cons x rest)
  obtain now ledger ok where x: "x = (now, ledger, ok)" using prod_cases3 by blast
  obtain n c where pass: "sweepSpendAlerts env now ledger ok workspaces cards = (n, c)" by fastforce
  let ?here = "pass_crossed env workspaces x"
  have "fst (sweep_passes env workspaces rest c) \<le> (\<Sum>w \<leftarrow> workspaces. cards_left p (?here w) (c (fst w)))"
  proof (rule Cons.IH [OF Cons.prems(1)])
    fix y w
    assume "y \<in> set rest" "?here w"
    then show "pass_crossed env workspaces y w"
      using Cons.prems(2,3) crossed_grows [of env "fst x" "fst (snd x)" _ _ w "fst (snd y)" "fst y"] by (simp add: x)
  qed (use Cons.prems in auto)
  moreover have "n + (\<Sum>w \<leftarrow> workspaces. cards_left p (?here w) (c (fst w)))
      \<le> (\<Sum>w \<leftarrow> workspaces. cards_left p (?here w) (cards (fst w)))"
    using pass_uses_cards [OF Cons.prems(1) _ pass] Cons.prems(2) by (simp add: x)
  moreover have "(\<Sum>w \<leftarrow> workspaces. cards_left p (?here w) (cards (fst w)))
      \<le> (\<Sum>w \<leftarrow> workspaces. cards_left p (before w) (cards (fst w)))"
    using Cons.prems(4) [of x] by (intro sum_list_mono cards_left_crossed) simp
  ultimately show ?case by (cases "sweep_passes env workspaces rest c") (simp add: x pass)
qed simp

text \<open>The moment of exhaustion exists exactly when the total of the period passes the limit.\<close>

lemma exhaustion_moment:
  assumes "0 \<le> burn" "now < ending"
  shows "exhaustionAt spent (Some limit) burn now ending \<noteq> None \<longleftrightarrow>
      spent < limit \<and> limit < spent + burn * (of_int (ending - now) / of_int DAY_MS)"
    and "exhaustionAt spent (Some limit) burn now ending = Some r \<Longrightarrow> of_int now < r \<and> r < of_int ending"
proof -
  have day: "(0::rat) < of_int DAY_MS" by (simp add: DAY_MS_def)
  have "of_int now + (limit - spent) / burn * of_int DAY_MS < of_int ending \<longleftrightarrow>
      limit < spent + burn * (of_int (ending - now) / of_int DAY_MS)" if "0 < burn"
    using that day by (simp add: field_simps)
  moreover have "\<not> limit < spent" if "burn = 0" "spent < limit" using that by simp
  ultimately show "exhaustionAt spent (Some limit) burn now ending \<noteq> None \<longleftrightarrow>
      spent < limit \<and> limit < spent + burn * (of_int (ending - now) / of_int DAY_MS)"
    using assms(1) by (auto simp: exhaustionAt_def Let_def)
  show "of_int now < r \<and> r < of_int ending" if "exhaustionAt spent (Some limit) burn now ending = Some r"
    using that day by (auto simp: exhaustionAt_def Let_def split: if_splits)
qed

section \<open>Properties\<close>

text \<open>
  The gate before a step speaks for the tiers: a run is over budget exactly when the status of its
  workspace, or of an active account or user tier it was given, says the limit is reached.
\<close>

theorem budget_gate_speaks_for_its_tiers:
  "isOverBudget env now ledger ws tiers \<longleftrightarrow>
     ss_exceeded (workspaceStatus env now ledger ws)
     \<or> (\<exists>a s. nonempty (bt_accountId tiers) = Some a \<and> accountStatus env now ledger a = Some s \<and> ss_exceeded s)
     \<or> (\<exists>u s. nonempty (bt_userId tiers) = Some u \<and> userStatus env now ledger u None = Some s \<and> ss_exceeded s)"
  by (auto simp: isOverBudget_def workspaceStatus_def accountStatus_def userStatus_def status_of_def Let_def
      split: option.splits)


definition plain_spend :: spend_env where
  "plain_spend = \<lparr>se_pricing = plain_pricing, se_settings = None, se_accounts = None, se_users = None, se_dynamic = None\<rparr>"

definition metered_call :: "string \<Rightarrow> rat \<Rightarrow> int \<Rightarrow> usage_row" where
  "metered_call ws cost t = \<lparr>ur_id = ''tok'', ur_workspaceId = ws, ur_accountId = None, ur_userId = None, ur_executionId = None,
     ur_agentKind = ''coder'', ur_provider = ''p'', ur_model = ''m'', ur_inputTokens = 0, ur_outputTokens = 0,
     ur_cost = cost, ur_billing = Metered, ur_vendor = None, ur_createdAt = t\<rparr>"

lemma january: "startOfMonthUtc 0 = 0" "startOfMonthUtc 1000 = 0" "startOfNextMonthUtc 0 = 31 * DAY_MS"
  by code_simp+





text \<open>Spending that slows down and speeds up again around the threshold uses all three.\<close>

definition three_passes :: "(int \<times> usage_ledger \<times> (string \<Rightarrow> bool)) list" where
  "three_passes =
     (let l1 = [metered_call ''w'' 70 DAY_MS]; l2 = l1 @ [metered_call ''w'' 11 (DAY_MS * 23)];
          l3 = l2 @ [metered_call ''w'' 16 (DAY_MS * 29 + 43200001)]
      in [(DAY_MS * 7, l1, \<lambda>_. True), (DAY_MS * 29 + 43200000, l2, \<lambda>_. True), (DAY_MS * 30, l3, \<lambda>_. True)])"


end
