(* ===== verification/Recovery.thy ===== *)
theory Recovery
  imports GateStep
begin

text \<open>
  What the engine does when a job of a step fails (\<^verbatim>\<open>job.logic.ts\<close>,
  \<^verbatim>\<open>PollCompletionController.handleFailedPoll\<close>, \<^verbatim>\<open>PollRunningController.recoverContainerEviction\<close>):
  which failures are met with a fresh dispatch, on which budgets, and how the others are named. The
  step is the one the run's cursor points at.
\<close>

section \<open>Budgets and verdicts\<close>

datatype eviction_kind = CrashEviction | TransientEviction

datatype delegated_disposition = TerminalVerdict | RetryableVerdict

definition MAX_DELEGATED_RETRIES :: nat where
  "MAX_DELEGATED_RETRIES = 1"

definition MAX_EVICTION_RECOVERIES :: nat where
  "MAX_EVICTION_RECOVERIES = 1"

definition MAX_TRANSIENT_EVICTION_RECOVERIES :: nat where
  "MAX_TRANSIENT_EVICTION_RECOVERIES = 5"

definition MAX_BRANCH_CONTENTION_RECOVERIES :: nat where
  "MAX_BRANCH_CONTENTION_RECOVERIES = 1"

lemmas budget_defs = MAX_DELEGATED_RETRIES_def MAX_EVICTION_RECOVERIES_def
  MAX_TRANSIENT_EVICTION_RECOVERIES_def MAX_BRANCH_CONTENTION_RECOVERIES_def

record failed_poll =
  fp_error :: "string option"
  fp_evicted :: "eviction_kind option"
  fp_harnessShutdown :: bool
  fp_detail :: "string option"
  fp_failureCause :: "string option"
  fp_delegated :: "(string option \<times> delegated_disposition option) option"

record terminal_failure =
  tf_error :: string
  tf_kind :: failure_kind
  tf_detail :: string

definition HARNESS_SHUTDOWN_ERROR :: string where
  "HARNESS_SHUTDOWN_ERROR =
     ''The executor-harness shut down while this job was still running''"

definition containerShutdownFailure :: "failed_poll \<Rightarrow> terminal_failure option" where
  "containerShutdownFailure u =
     (if \<not> fp_harnessShutdown u then None
      else (let err = or_else (fp_error u) HARNESS_SHUTDOWN_ERROR
            in Some \<lparr>tf_error = err, tf_kind = HarnessShutdown, tf_detail = or_else (fp_detail u) err\<rparr>))"

definition fp_disposition :: "failed_poll \<Rightarrow> delegated_disposition option" where
  "fp_disposition u = Option.bind (fp_delegated u) snd"

definition delegatedTerminalFailure :: "failed_poll \<Rightarrow> terminal_failure option" where
  "delegatedTerminalFailure u =
     (if fp_disposition u \<noteq> Some TerminalVerdict then None
      else (let err = or_else (fp_error u) ''The external executor reported a terminal failure.''
            in Some \<lparr>tf_error = err, tf_kind = DelegatedFailed, tf_detail = or_else (fp_detail u) err\<rparr>))"

definition evictionFailureDetail :: "string option \<Rightarrow> string option \<Rightarrow> string option" where
  "evictionFailureDetail f l =
     (case nonempty f of
        None \<Rightarrow> l
      | Some a \<Rightarrow>
          if l = Some a then l
          else (case nonempty l of
              None \<Rightarrow> f
            | Some b \<Rightarrow> Some (''First eviction:'' @ [CHR 0x0A] @ a @ [CHR 0x0A, CHR 0x0A] @ ''Final eviction:'' @ [CHR 0x0A] @ b)))"

definition HARNESS_FAILURE_KINDS :: "(string \<times> failure_kind) list" where
  "HARNESS_FAILURE_KINDS =
     [(''inactivity-timeout'', Timeout), (''max-duration'', Timeout), (''no-tool-progress'', Timeout),
      (''agent'', AgentFailed), (''git'', AgentFailed), (''branch-contended'', AgentFailed), (''api'', AgentFailed),
      (''llm-upstream'', AgentFailed), (''no-usable-output'', AgentFailed), (''no-changes'', AgentFailed),
      (''deploy'', AgentFailed)]"

definition failureKindFromHarnessCause :: "string option \<Rightarrow> failure_kind option" where
  "failureKindFromHarnessCause cause = Option.bind cause (map_of HARNESS_FAILURE_KINDS)"

section \<open>A dispatch that throws\<close>

datatype thrown_dispatch =
    ThrownDomain string "string option"
  | ThrownTransport string
  | ThrownOther string

fun thrown_message :: "thrown_dispatch \<Rightarrow> string" where
  "thrown_message (ThrownDomain m r) = m"
| "thrown_message (ThrownTransport m) = m"
| "thrown_message (ThrownOther m) = m"

definition isContainerEvictionError :: "string \<Rightarrow> bool" where
  "isContainerEvictionError m \<longleftrightarrow> contains_text ''evicted or crashed'' (map lower m)"

record dispatch_context =
  cx_evictionRecoveries :: "nat option"
  cx_transientEvictionRecoveries :: "nat option"
  cx_branchContentionRecoveries :: "nat option"
  cx_startedAt :: "int option"
  cx_sliceCount :: "nat option"
  cx_now :: int

record dispatch_failure =
  df_error :: string
  df_kind :: failure_kind
  df_detail :: string
  df_reason :: "string option"

definition elapsedWorkMinutes :: "dispatch_context \<Rightarrow> nat option" where
  "elapsedWorkMinutes c = (case cx_startedAt c of
      None \<Rightarrow> None
    | Some t \<Rightarrow> (let minutes = (cx_now c - t) div 60000 in if minutes \<ge> 1 then Some (nat minutes) else None))"

definition plural :: "nat \<Rightarrow> string" where
  "plural n = (if n = 1 then '''' else ''s'')"

definition whenWorkHadBegun :: "dispatch_context \<Rightarrow> string" where
  "whenWorkHadBegun c = (case elapsedWorkMinutes c of
      Some n \<Rightarrow> ''after '' @ digits n @ '' minute'' @ plural n @ '' of work''
    | None \<Rightarrow> ''after work had begun'')"

definition evictionAfterWorkMessage :: "dispatch_context \<Rightarrow> string" where
  "evictionAfterWorkMessage c =
     (let slices = (case cx_sliceCount c of
            None \<Rightarrow> ''''
          | Some n \<Rightarrow> if n > 0 then '' ('' @ digits n @ '' slice'' @ plural n @ '' reviewed)'' else '''')
      in ''The container was evicted '' @ whenWorkHadBegun c @ slices @ '' and could not be recovered.'')"

definition contentionAfterWorkMessage :: "dispatch_context \<Rightarrow> string" where
  "contentionAfterWorkMessage c =
     ''The container failed to start when resuming this step '' @ whenWorkHadBegun c @ '', ''
     @ ''after its push to the work branch was refused. The commits it had already pushed are on the ''
     @ ''branch.''"

definition count_of :: "nat option \<Rightarrow> nat" where
  "count_of n = or_else n 0"

definition classifyDispatchFailure :: "thrown_dispatch \<Rightarrow> dispatch_context \<Rightarrow> dispatch_failure" where
  "classifyDispatchFailure e c =
     (let m = thrown_message e;
          named = (\<lambda>err kind. \<lparr>df_error = err, df_kind = kind, df_detail = m, df_reason = None\<rparr>)
      in case e of
          ThrownDomain _ reason \<Rightarrow> (named m Preflight)\<lparr>df_reason := reason\<rparr>
        | ThrownTransport _ \<Rightarrow> named m (if isContainerEvictionError m then Evicted else Dispatch)
        | ThrownOther _ \<Rightarrow>
            if isContainerEvictionError m then named m Evicted
            else if count_of (cx_evictionRecoveries c) + count_of (cx_transientEvictionRecoveries c) > 0
            then named (evictionAfterWorkMessage c) Evicted
            else if count_of (cx_branchContentionRecoveries c) > 0 then named (contentionAfterWorkMessage c) Dispatch
            else named ''The container failed to start.'' Dispatch)"

section \<open>Recoveries\<close>

definition errored_container :: "container option \<Rightarrow> container" where
  "errored_container c = (case c of None \<Rightarrow> container_errored | Some x \<Rightarrow> x\<lparr>ct_status := ContainerErrored\<rparr>)"

definition mark_errored :: "string option \<Rightarrow> string option \<Rightarrow> step \<Rightarrow> step" where
  "mark_errored err url s =
     (if inFlightDelegation s \<noteq> None
      then settleDelegation \<lparr>sm_status = DFailed, sm_outcome = nonempty err, sm_url = nonempty url, sm_note = None,
             sm_usageReported = None, sm_branch = None\<rparr> s
      else s\<lparr>st_container := Some (errored_container (st_container s))\<rparr>)"

definition markDispatchErrored :: "string option \<Rightarrow> string option \<Rightarrow> instance_rec \<Rightarrow> instance_rec act" where
  "markDispatchErrored err url i = casPersist (on_current (mark_errored err url) i)"

text \<open>The step as a fresh dispatch finds it.\<close>

definition redispatchable :: "step \<Rightarrow> step" where
  "redispatchable s = s\<lparr>st_jobId := None, st_subtasks := None, st_progress := 0\<rparr>"

definition resume_with :: "machine_deps \<Rightarrow> (step \<Rightarrow> step) \<Rightarrow> instance_rec \<Rightarrow> advance_result option act" where
  "resume_with deps f i =
     act_bind (persistAndEmit deps (on_current f i) None) (\<lambda>_. act_return (Some Continue))"

definition eviction_count :: "eviction_kind \<Rightarrow> step \<Rightarrow> nat" where
  "eviction_count kind s = (case kind of
      TransientEviction \<Rightarrow> count_of (st_transientEvictionRecoveries s)
    | CrashEviction \<Rightarrow> count_of (st_evictionRecoveries s))"

definition eviction_limit :: "eviction_kind \<Rightarrow> nat" where
  "eviction_limit kind = (case kind of
      TransientEviction \<Rightarrow> MAX_TRANSIENT_EVICTION_RECOVERIES | CrashEviction \<Rightarrow> MAX_EVICTION_RECOVERIES)"

definition charge_eviction :: "eviction_kind \<Rightarrow> string option \<Rightarrow> step \<Rightarrow> step" where
  "charge_eviction kind detail s =
     (let n = eviction_count kind s + 1;
          s1 = (case kind of
                  TransientEviction \<Rightarrow> s\<lparr>st_transientEvictionRecoveries := Some n\<rparr>
                | CrashEviction \<Rightarrow> s\<lparr>st_evictionRecoveries := Some n\<rparr>);
          s2 = (if nonempty detail \<noteq> None \<and> nonempty (st_firstEvictionDetail s) = None
                then s1\<lparr>st_firstEvictionDetail := detail\<rparr> else s1)
      in (redispatchable s2)\<lparr>st_container := Some container_starting\<rparr>)"

definition evicted_for_good :: "eviction_kind \<Rightarrow> string option \<Rightarrow> nat \<Rightarrow> string" where
  "evicted_for_good kind err n = (case kind of
      TransientEviction \<Rightarrow> or_else err ''undefined'' @ '' (still evicting after '' @ digits n
        @ '' automatic restarts through the infrastructure churn - treating as deterministic)''
    | CrashEviction \<Rightarrow> or_else err ''Container evicted'' @ '' (still evicting after '' @ digits n
        @ '' automatic container restart'' @ plural n @ '' - treating as deterministic)'')"

text \<open>\<open>before\<close> reclaims what the kind of step holds beside its container.\<close>

definition recoverContainerEviction ::
  "machine_deps \<Rightarrow> unit act \<Rightarrow> failed_poll \<Rightarrow> instance_rec \<Rightarrow> advance_result option act" where
  "recoverContainerEviction deps before u i = (case fp_evicted u of
      None \<Rightarrow> act_return None
    | Some kind \<Rightarrow>
        (let s = current_step i; n = eviction_count kind s
         in if n < eviction_limit kind
            then act_then before (resume_with deps (charge_eviction kind (fp_detail u)) i)
            else act_then (markDispatchErrored None None i)
              (act_return (Some (JobEvicted (evicted_for_good kind (fp_error u) n)
                 (nonempty (evictionFailureDetail (st_firstEvictionDetail s) (fp_detail u))))))))"

definition charge_contention :: "step \<Rightarrow> step" where
  "charge_contention s =
     (redispatchable s)\<lparr>st_branchContentionRecoveries := Some (count_of (st_branchContentionRecoveries s) + 1),
        st_container := Some container_starting\<rparr>"

definition recoverBranchContention :: "machine_deps \<Rightarrow> failed_poll \<Rightarrow> instance_rec \<Rightarrow> advance_result option act" where
  "recoverBranchContention deps u i =
     (if fp_failureCause u \<noteq> Some ''branch-contended'' then act_return None
      else if count_of (st_branchContentionRecoveries (current_step i)) \<ge> MAX_BRANCH_CONTENTION_RECOVERIES
      then act_return None
      else resume_with deps charge_contention i)"

definition fp_url :: "failed_poll \<Rightarrow> string option" where
  "fp_url u = nonempty (Option.bind (fp_delegated u) fst)"

definition charge_delegated :: "failed_poll \<Rightarrow> step \<Rightarrow> step" where
  "charge_delegated u s =
     redispatchable (settleDelegation \<lparr>sm_status = DFailed, sm_outcome = fp_error u, sm_url = fp_url u, sm_note = None,
         sm_usageReported = None, sm_branch = None\<rparr>
       (s\<lparr>st_delegatedRetries := Some (count_of (st_delegatedRetries s) + 1)\<rparr>))"

definition recoverDelegatedFailure :: "machine_deps \<Rightarrow> failed_poll \<Rightarrow> instance_rec \<Rightarrow> advance_result option act" where
  "recoverDelegatedFailure deps u i =
     (if fp_disposition u \<noteq> Some RetryableVerdict then act_return None
      else if inFlightDelegation (current_step i) = None then act_return None
      else if count_of (st_delegatedRetries (current_step i)) \<ge> MAX_DELEGATED_RETRIES then act_return None
      else resume_with deps (charge_delegated u) i)"

section \<open>A failed poll\<close>

text \<open>
  What surrounds the recoveries: the evidence a failed job leaves on its run (the backend, the reports
  of the harness, the metered usage) with the detail of a red validation, and the settling of a failed
  pass of an expedition, which answers nothing for any other step.
\<close>

record failure_env =
  fe_observe :: "failed_poll \<Rightarrow> instance_rec \<Rightarrow> (string option \<times> instance_rec) act"
  fe_fishing :: "failed_poll \<Rightarrow> instance_rec \<Rightarrow> advance_result option act"

text \<open>The first answer of a chain of handlers.\<close>

definition or_try :: "'a option act \<Rightarrow> 'a act \<Rightarrow> 'a act" where
  "or_try m n = act_bind m (\<lambda>r. case r of Some x \<Rightarrow> act_return x | None \<Rightarrow> n)"

definition fail_poll :: "failed_poll \<Rightarrow> string option \<Rightarrow> instance_rec \<Rightarrow> advance_result act" where
  "fail_poll u validationDetail i =
     (let terminal = (case delegatedTerminalFailure u of Some t \<Rightarrow> Some t | None \<Rightarrow> containerShutdownFailure u);
          err = or_else (fp_error u) ''undefined''
      in case terminal of
          Some t \<Rightarrow> act_then (markDispatchErrored (Some (tf_error t)) (fp_url u) i)
            (act_return (JobFailed (tf_error t) (Some (tf_kind t)) (Some (tf_detail t)) None))
        | None \<Rightarrow> act_bind (markDispatchErrored (fp_error u) (fp_url u) i) (\<lambda>i'.
            act_return (JobFailed err
              (Some (or_else (failureKindFromHarnessCause (fp_failureCause u))
                 (if inFlightDelegation (current_step i') \<noteq> None then DelegatedFailed else AgentFailed)))
              (Some (or_else validationDetail (or_else (fp_detail u) err)))
              (nonempty (fp_failureCause u)))))"

definition handleFailedPoll :: "machine_deps \<Rightarrow> failure_env \<Rightarrow> failed_poll \<Rightarrow> instance_rec \<Rightarrow> advance_result act" where
  "handleFailedPoll deps ev u i =
     act_bind (fe_observe ev u i) (\<lambda>(validationDetail, i1).
       or_try (recoverContainerEviction deps (act_return ()) u i1)
         (or_try (recoverBranchContention deps u i1)
           (or_try (recoverDelegatedFailure deps u i1)
             (or_try (fe_fishing ev u i1) (fail_poll u validationDetail i1)))))"

section \<open>Laws\<close>

text \<open>The recoveries a step can still be granted, over all kinds of failure.\<close>

definition recoveries_left :: "step \<Rightarrow> nat" where
  "recoveries_left s =
     (MAX_EVICTION_RECOVERIES - count_of (st_evictionRecoveries s))
     + (MAX_TRANSIENT_EVICTION_RECOVERIES - count_of (st_transientEvictionRecoveries s))
     + (MAX_BRANCH_CONTENTION_RECOVERIES - count_of (st_branchContentionRecoveries s))
     + (MAX_DELEGATED_RETRIES - count_of (st_delegatedRetries s))"

lemma count_of_Some [simp]: "count_of (Some n) = n" "count_of None = 0"
  by (simp_all add: count_of_def or_else_def)

lemma settle_counters [simp]:
  "st_evictionRecoveries (settleDelegation m s) = st_evictionRecoveries s"
  "st_transientEvictionRecoveries (settleDelegation m s) = st_transientEvictionRecoveries s"
  "st_branchContentionRecoveries (settleDelegation m s) = st_branchContentionRecoveries s"
  "st_delegatedRetries (settleDelegation m s) = st_delegatedRetries s"
  by (simp_all add: settleDelegation_def)

lemma eviction_charged:
  "eviction_count kind s < eviction_limit kind \<Longrightarrow> recoveries_left (charge_eviction kind detail s) < recoveries_left s"
  by (cases kind) (auto simp: recoveries_left_def charge_eviction_def redispatchable_def eviction_count_def
      eviction_limit_def Let_def)

lemma contention_charged:
  "count_of (st_branchContentionRecoveries s) < MAX_BRANCH_CONTENTION_RECOVERIES \<Longrightarrow>
     recoveries_left (charge_contention s) < recoveries_left s"
  by (auto simp: recoveries_left_def charge_contention_def redispatchable_def)

lemma delegated_charged:
  "count_of (st_delegatedRetries s) < MAX_DELEGATED_RETRIES \<Longrightarrow> recoveries_left (charge_delegated u s) < recoveries_left s"
  by (auto simp: recoveries_left_def charge_delegated_def redispatchable_def)

lemma charges_drop_the_job [simp]:
  "st_jobId (charge_eviction kind detail s) = None" "st_jobId (charge_contention s) = None"
  "st_jobId (charge_delegated u s) = None"
  by (simp_all add: charge_eviction_def charge_contention_def charge_delegated_def redispatchable_def Let_def)

text \<open>What a recovery leaves: the charged step in the store, without a job.\<close>

definition charged_run :: "instance_rec \<Rightarrow> world \<Rightarrow> world \<Rightarrow> bool" where
  "charged_run i w w' \<longleftrightarrow> (\<exists>k. get_run (wd_ws w) (in_id i) (wd_runs w') = Inr (Some k)
     \<and> in_currentStep k = in_currentStep i \<and> st_jobId (current_step k) = None
     \<and> recoveries_left (current_step k) < recoveries_left (current_step i))"

lemma recoveries_left_runId [simp]: "recoveries_left (s\<lparr>st_runId := r\<rparr>) = recoveries_left s"
  by (simp add: recoveries_left_def)

lemma resume_charges:
  assumes "resume_with deps f i w = (Inr r, w')" "has_step i"
    and "recoveries_left (f (current_step i)) < recoveries_left (current_step i)" "st_jobId (f (current_step i)) = None"
  shows "charged_run i w w'"
proof -
  obtain j where j: "persistAndEmit deps (on_current f i) None w = (Inr j, w')"
    using assms(1) by (auto simp: resume_with_def act_simps split: prod.splits sum.splits)
  from persistAndEmit_Inr [OF j] obtain row where row: "find_row (wd_ws w) (in_id i) (wd_runs w') = Some row"
    "rowToExecution row = Inr (normalised row (on_current f i))" by auto
  let ?k = "normalised row (on_current f i)"
  have "current_step ?k = (f (current_step i))\<lparr>st_runId := Some (in_id i)\<rparr>"
    using current_on_current [OF assms(2), of f] assms(2)
    by (simp add: current_step_def normalised_def has_step_def)
  then have "st_jobId (current_step ?k) = None" "recoveries_left (current_step ?k) < recoveries_left (current_step i)"
    using assms(3,4) by simp_all
  moreover have "in_currentStep ?k = in_currentStep i" by (simp add: normalised_def)
  ultimately show ?thesis using row by (auto simp: charged_run_def get_run_def)
qed

text \<open>A recovery either answers nothing and changes nothing, or charges, or fails.\<close>

lemma or_try_Inr:
  "or_try m n w = (Inr x, w') \<longleftrightarrow>
     m w = (Inr (Some x), w') \<or> (\<exists>w1. m w = (Inr None, w1) \<and> n w1 = (Inr x, w'))"
  by (auto simp: or_try_def act_simps split: prod.splits sum.splits option.splits)

lemma resume_answers [simp]: "resume_with deps f i w \<noteq> (Inr None, w')"
  by (auto simp: resume_with_def act_core split: prod.splits sum.splits)

lemma eviction_recovery:
  assumes "has_step i"
  shows "recoverContainerEviction deps (act_return ()) u i w = (Inr (Some Continue), w') \<Longrightarrow> charged_run i w w'"
    and "recoverContainerEviction deps (act_return ()) u i w = (Inr None, w1) \<Longrightarrow> w1 = w"
  using resume_charges [of deps "charge_eviction (the (fp_evicted u)) (fp_detail u)" i w "Some Continue" w'] assms
    eviction_charged [of "the (fp_evicted u)" "current_step i" "fp_detail u"]
  by (auto simp: recoverContainerEviction_def act_core Let_def split: option.splits if_splits prod.splits sum.splits)

lemma contention_recovery:
  assumes "has_step i"
  shows "recoverBranchContention deps u i w = (Inr (Some Continue), w') \<Longrightarrow> charged_run i w w'"
    and "recoverBranchContention deps u i w = (Inr None, w1) \<Longrightarrow> w1 = w"
  using resume_charges [of deps charge_contention i w "Some Continue" w'] assms contention_charged [of "current_step i"]
  by (auto simp: recoverBranchContention_def act_core split: if_splits)

lemma delegated_recovery:
  assumes "has_step i"
  shows "recoverDelegatedFailure deps u i w = (Inr (Some Continue), w') \<Longrightarrow> charged_run i w w'"
    and "recoverDelegatedFailure deps u i w = (Inr None, w1) \<Longrightarrow> w1 = w"
  using resume_charges [of deps "charge_delegated u" i w "Some Continue" w'] assms delegated_charged [of "current_step i" u]
  by (auto simp: recoverDelegatedFailure_def act_core split: if_splits)

lemma fail_poll_fails: "fail_poll u detail i w = (Inr r, w') \<Longrightarrow> \<exists>e k d c. r = JobFailed e k d c"
  by (auto simp: fail_poll_def act_core Let_def split: option.splits prod.splits sum.splits)

text \<open>The evidence of a failed job leaves the run where it is and grants nothing.\<close>

definition observes_only :: "failure_env \<Rightarrow> bool" where
  "observes_only ev \<longleftrightarrow> (\<forall>u i w d i' w'. fe_observe ev u i w = (Inr (d, i'), w') \<longrightarrow>
     wd_ws w' = wd_ws w \<and> in_id i' = in_id i \<and> in_currentStep i' = in_currentStep i
     \<and> length (in_steps i') = length (in_steps i)
     \<and> recoveries_left (current_step i') = recoveries_left (current_step i))"

text \<open>The step is not a pass of an expedition, whose failure settles that pass only.\<close>

definition not_fishing :: "failure_env \<Rightarrow> failed_poll \<Rightarrow> bool" where
  "not_fishing ev u \<longleftrightarrow> (\<forall>i w. fe_fishing ev u i w = (Inr None, w))"

lemma recovered_poll_is_charged:
  assumes "handleFailedPoll deps ev u i w = (Inr Continue, w')"
    and "observes_only ev" "not_fishing ev u" "has_step i"
  shows "charged_run i w w'"
proof -
  obtain d i1 w1 where obs: "fe_observe ev u i w = (Inr (d, i1), w1)"
    and rest: "or_try (recoverContainerEviction deps (act_return ()) u i1)
         (or_try (recoverBranchContention deps u i1)
           (or_try (recoverDelegatedFailure deps u i1)
             (or_try (fe_fishing ev u i1) (fail_poll u d i1)))) w1 = (Inr Continue, w')"
    using assms(1) by (auto simp: handleFailedPoll_def act_bind_Inr)
  have frame: "wd_ws w1 = wd_ws w" "in_id i1 = in_id i" "in_currentStep i1 = in_currentStep i"
    "length (in_steps i1) = length (in_steps i)" "recoveries_left (current_step i1) = recoveries_left (current_step i)"
    using assms(2) obs by (auto simp: observes_only_def)
  then have step: "has_step i1" using assms(4) by (simp add: has_step_def)
  have "charged_run i1 w1 w'"
    using rest assms(3) unfolding or_try_Inr not_fishing_def
    by (elim disjE exE conjE; simp?;
        metis eviction_recovery [OF step] contention_recovery [OF step] delegated_recovery [OF step] fail_poll_fails
          advance_result.distinct)
  then show ?thesis unfolding charged_run_def frame .
qed

text \<open>
  A step that is run again after a rework starts with the container and branch budgets its earlier
  passes have used up; only the delegated budget is refilled.
\<close>

lemma rerun_inherits_spent_budgets:
  "st_evictionRecoveries (resetStepForRerun s) = st_evictionRecoveries s
   \<and> st_transientEvictionRecoveries (resetStepForRerun s) = st_transientEvictionRecoveries s
   \<and> st_branchContentionRecoveries (resetStepForRerun s) = st_branchContentionRecoveries s
   \<and> st_delegatedRetries (resetStepForRerun s) = None"
  by (simp add: resetStepForRerun_def Let_def split: option.split)

lemma rerun_contention_is_not_recovered:
  assumes "current_step i = resetStepForRerun s" "st_branchContentionRecoveries s = Some 1"
  shows "recoverBranchContention deps u i w = (Inr None, w)"
  using assms rerun_inherits_spent_budgets [of s]
  by (simp add: recoverBranchContention_def budget_defs act_core)

section \<open>Properties\<close>


definition quiet_failures :: failure_env where
  "quiet_failures = \<lparr>fe_observe = (\<lambda>u i. act_return (None, i)), fe_fishing = (\<lambda>u i. act_return None)\<rparr>"

definition evicted_poll :: failed_poll where
  "evicted_poll = \<lparr>fp_error = Some ''gone'', fp_evicted = Some CrashEviction, fp_harnessShutdown = False,
     fp_detail = None, fp_failureCause = None, fp_delegated = None\<rparr>"

lemma evicted_poll_continues:
  "fst (handleFailedPoll example_deps quiet_failures evicted_poll example_run (example_world stored_example)) = Inr Continue"
proof -
  let ?i = "on_current (charge_eviction CrashEviction None) example_run"
  obtain row where "compareAndSwap ''w'' 9 ?i stored_example = Inr (True, ?i\<lparr>in_rev := 1\<rparr>, [row])"
    using example_swap [of ?i 9] by auto
  then have "fst (persistAndEmit example_deps ?i None (example_world stored_example)) = Inr (stamp_run_id (?i\<lparr>in_rev := 1\<rparr>))"
    by (simp add: persistAndEmit_eq casPersist_def emitInstance_eq Let_def)
  moreover have "eviction_count CrashEviction (current_step example_run) = 0"
    by (simp add: eviction_count_def current_step_def bare_step_def)
  ultimately show ?thesis
    by (simp add: handleFailedPoll_def quiet_failures_def or_try_def recoverContainerEviction_def evicted_poll_def
        act_core eviction_limit_def budget_defs resume_with_def split: prod.splits sum.splits) auto
qed


end
