(* ===== verification/InputGate.thy ===== *)
theory InputGate
  imports FormFields StepDecision
begin

text \<open>
  The check of a task's own input before the first dispatch of a run
  (\<^verbatim>\<open>kernel/src/domain/input-gate.ts\<close>, \<^verbatim>\<open>InputGateController.ts\<close>): a reduction over the fields a person
  authored, and the park, recheck and override around it. Text is read on the code points below 256, on
  which letters and digits are those of Latin-1.
\<close>

section \<open>The input\<close>

record gate_input =
  gi_description :: string
  gi_level :: block_level
  gi_taskType :: "string option"
  gi_stepsToReproduce :: "string option"
  gi_successCriteria :: "string option"
  gi_researchQuestion :: "string option"
  gi_prNumber :: "int option"
  gi_prUrl :: "string option"
  gi_custom :: "field_values option"
  gi_customFields :: "descriptor_field list option"

text \<open>What a registered task type declares: its fields, and whether a panel of its own collects them.\<close>

type_synonym task_types = "string \<Rightarrow> (descriptor_field list option \<times> bool) option"

definition declaredFieldsOf :: "task_types \<Rightarrow> string \<Rightarrow> descriptor_field list option" where
  "declaredFieldsOf types t = (case types t of
      None \<Rightarrow> None | Some (flds, formPanel) \<Rightarrow> if formPanel then None else flds)"

definition INPUT_GATE_SEVERITY :: "input_gate_code \<Rightarrow> input_gate_severity" where
  "INPUT_GATE_SEVERITY code = (case code of
      DescriptionThin \<Rightarrow> AdvisoryInput
    | SuccessCriteriaMissing \<Rightarrow> AdvisoryInput
    | _ \<Rightarrow> BlockingInput)"

definition PLACEHOLDER_DESCRIPTIONS :: "string list" where
  "PLACEHOLDER_DESCRIPTIONS =
     [''-'', ''--'', ''.'', ''..'', ''...'', ''?'', ''??'', ''n/a'', ''na'', ''none'', ''tbd'', ''tba'', ''todo'', ''to do'',
      ''fixme'', ''fix'', ''fix it'', ''fix this'', ''wip'', ''test'', ''asap'', ''see title'', ''see above'',
      ''as discussed'', ''as described'', ''same as title'', ''no description'', ''description'']"

definition PLATFORM_AUTHORED_TASK_TYPES :: "string list" where
  "PLATFORM_AUTHORED_TASK_TYPES = [''recurring'']"

definition CODEBASE_INPUT_TASK_TYPES :: "string list" where
  "CODEBASE_INPUT_TASK_TYPES = [''bug-fishing'']"

definition describesAuthoredTaskInput :: "gate_input \<Rightarrow> bool" where
  "describesAuthoredTaskInput x =
     (if gi_level x \<noteq> TaskLevel then False
      else (case nonempty (gi_taskType x) of
          None \<Rightarrow> True
        | Some t \<Rightarrow> \<not> (t \<in> set PLATFORM_AUTHORED_TASK_TYPES \<or> t \<in> set CODEBASE_INPUT_TASK_TYPES
                        \<or> taskTypeAttachesPullRequest (Some t))))"

section \<open>Reading text\<close>

definition normalize_text :: "string \<Rightarrow> string" where
  "normalize_text s = js_trim (one_space False (map lower s))"

text \<open>The classes of characters stripped at the front and at the back.\<close>

definition leading_mark :: "char \<Rightarrow> bool" where
  "leading_mark c \<longleftrightarrow> is_space c \<or> c \<in> set (''*_>#-.?!'' @ [CHR 0x60])"

definition trailing_mark :: "char \<Rightarrow> bool" where
  "trailing_mark c \<longleftrightarrow> is_space c \<or> c \<in> set (''*_-.?!:;'' @ [CHR 0x60])"

definition placeholderKey :: "string \<Rightarrow> string" where
  "placeholderKey s = js_trim (rev (dropWhile trailing_mark (rev (dropWhile leading_mark s))))"

definition word_char :: "char \<Rightarrow> bool" where
  "word_char c \<longleftrightarrow> (let n = of_char c :: nat in
     (48 \<le> n \<and> n \<le> 57) \<or> (65 \<le> n \<and> n \<le> 90) \<or> (97 \<le> n \<and> n \<le> 122)
     \<or> n \<in> {170, 178, 179, 181, 185, 186, 188, 189, 190} \<or> (192 \<le> n \<and> n \<noteq> 215 \<and> n \<noteq> 247))"

fun word_runs :: "bool \<Rightarrow> string \<Rightarrow> nat" where
  "word_runs inside [] = 0"
| "word_runs inside (c # cs) =
     (if word_char c then (if inside then 0 else 1) + word_runs True cs else word_runs False cs)"

definition wordCount :: "string \<Rightarrow> nat" where
  "wordCount s = word_runs False s"

definition THIN_DESCRIPTION_WORDS :: nat where
  "THIN_DESCRIPTION_WORDS = 5"

definition REPRODUCTION_CUES :: "string list" where
  "REPRODUCTION_CUES =
     [''reproduce'', ''reproduction'', ''repro'', ''steps to'', ''expected'', ''actual'', ''observed'', ''stack trace'',
      ''stacktrace'', ''traceback'', ''error:'', ''exception'', ''happens when'', ''occurs when'', ''when i '', ''when you '']"

definition is_digit :: "char \<Rightarrow> bool" where
  "is_digit c \<longleftrightarrow> (let n = of_char c :: nat in 48 \<le> n \<and> n \<le> 57)"

text \<open>A bullet or a number at the start of a line, followed by a blank.\<close>

definition list_item :: "string \<Rightarrow> bool" where
  "list_item line =
     (case dropWhile is_space line of
        [] \<Rightarrow> False
      | c # rest \<Rightarrow>
          if c \<in> set ''-*+'' then (case rest of [] \<Rightarrow> False | d # _ \<Rightarrow> is_space d)
          else is_digit c \<and> (case dropWhile is_digit rest of
              d # e # _ \<Rightarrow> d \<in> set ''.)'' \<and> is_space e | _ \<Rightarrow> False))"

text \<open>\<^verbatim>\<open>split(/\\r?\\n/)\<close>.\<close>

definition strip_return :: "string \<Rightarrow> string" where
  "strip_return line = (if line \<noteq> [] \<and> last line = CHR 0x0D then butlast line else line)"

definition text_lines :: "string \<Rightarrow> string list" where
  "text_lines s = (let parts = split_on (CHR 0x0A) s in map strip_return (butlast parts) @ [last parts])"

definition hasReproductionCue :: "string \<Rightarrow> bool" where
  "hasReproductionCue description =
     (if list_ex (\<lambda>cue. contains_text cue (map lower description)) REPRODUCTION_CUES then True
      else length (filter list_item (text_lines description)) \<ge> 2)"

section \<open>The findings\<close>

definition descriptionFinding :: "string \<Rightarrow> input_gate_code option" where
  "descriptionFinding description =
     (let normalized = normalize_text description; key = placeholderKey normalized
      in if normalized = [] then Some DescriptionMissing
         else if key = [] \<or> key \<in> set PLACEHOLDER_DESCRIPTIONS then Some DescriptionPlaceholder
         else if wordCount normalized < THIN_DESCRIPTION_WORDS then Some DescriptionThin
         else None)"

definition typeFindings :: "gate_input \<Rightarrow> input_gate_code list" where
  "typeFindings x =
     (if gi_taskType x = Some ''bug'' then
        (if normalize_text (or_else (gi_stepsToReproduce x) []) \<noteq> [] \<or> hasReproductionCue (gi_description x)
         then [] else [ReproductionMissing])
      else if gi_taskType x = Some ''review'' then
        (if nonempty (map_option js_trim (gi_prUrl x)) \<noteq> None
            \<or> (case gi_prNumber x of None \<Rightarrow> False | Some n \<Rightarrow> n > 0)
         then [] else [ReviewTargetMissing])
      else if gi_taskType x = Some ''spike'' then
        (if normalize_text (or_else (gi_successCriteria x) []) \<noteq> []
            \<or> normalize_text (or_else (gi_researchQuestion x) []) \<noteq> []
         then [] else [SuccessCriteriaMissing])
      else [])"

definition customFieldFindings :: "gate_input \<Rightarrow> (input_gate_code \<times> string option) list" where
  "customFieldFindings x =
     (let declared = or_else (gi_customFields x) []
      in if declared = [] then []
         else map (\<lambda>f. (RequiredFieldMissing, Some (fd_key f)))
                (unfilledRequiredDescriptorFields declared (or_else (gi_custom x) [])))"

definition pending_issues :: "gate_input \<Rightarrow> (input_gate_code \<times> string option) list" where
  "pending_issues x =
     (case descriptionFinding (gi_description x) of None \<Rightarrow> [] | Some c \<Rightarrow> [(c, None)])
     @ map (\<lambda>c. (c, None)) (typeFindings x) @ customFieldFindings x"

definition issue_of :: "input_gate_mode \<Rightarrow> input_gate_code \<times> string option \<Rightarrow> input_gate_issue" where
  "issue_of mode p = (case p of (code, field) \<Rightarrow>
     \<lparr>ii_code = code, ii_severity = (if mode = GateAdvisory then AdvisoryInput else INPUT_GATE_SEVERITY code),
      ii_field = field\<rparr>)"

definition hasBlockingInputIssues :: "input_gate_issue list \<Rightarrow> bool" where
  "hasBlockingInputIssues issues = list_ex (\<lambda>i. ii_severity i = BlockingInput) issues"

definition evaluateInputGate :: "gate_input \<Rightarrow> input_gate_mode \<Rightarrow> input_gate_status \<times> input_gate_issue list" where
  "evaluateInputGate x mode =
     (if mode = GateOff then (GateWasOff, [])
      else if \<not> describesAuthoredTaskInput x then (GateNotApplicable, [])
      else (let issues = map (issue_of mode) (pending_issues x)
            in (if hasBlockingInputIssues issues then GateBlocked else GatePassed, issues)))"

definition issue_code_text :: "input_gate_code \<Rightarrow> string" where
  "issue_code_text c = (case c of
      DescriptionMissing \<Rightarrow> ''description_missing''
    | DescriptionPlaceholder \<Rightarrow> ''description_placeholder''
    | DescriptionThin \<Rightarrow> ''description_thin''
    | ReproductionMissing \<Rightarrow> ''reproduction_missing''
    | ReviewTargetMissing \<Rightarrow> ''review_target_missing''
    | SuccessCriteriaMissing \<Rightarrow> ''success_criteria_missing''
    | RequiredFieldMissing \<Rightarrow> ''required_field_missing'')"

fun comma_separated :: "string list \<Rightarrow> string" where
  "comma_separated [] = []"
| "comma_separated [x] = x"
| "comma_separated (x # y # rest) = x @ '', '' @ comma_separated (y # rest)"

definition describeInputGateIssues :: "input_gate_issue list \<Rightarrow> string" where
  "describeInputGateIssues issues =
     (let blocking = filter (\<lambda>i. ii_severity i = BlockingInput) issues;
          shown = (if blocking \<noteq> [] then blocking else issues)
      in comma_separated (map (\<lambda>i. case ii_field i of
            Some k \<Rightarrow> issue_code_text (ii_code i) @ ''('' @ k @ '')''
          | None \<Rightarrow> issue_code_text (ii_code i)) shown))"

section \<open>The controller\<close>

text \<open>
  \<open>ic_mode\<close> is the mode in the workspace's settings, absent without settings or when they cannot be
  read; \<open>ic_input\<close> reads the fields of a block.
\<close>

record input_gate_deps =
  ic_machine :: machine_deps
  ic_mode :: "input_gate_mode option"
  ic_input :: "block \<Rightarrow> gate_input"

definition resolveMode :: "input_gate_deps \<Rightarrow> input_gate_mode" where
  "resolveMode d = or_else (ic_mode d) GateOff"

definition wouldBlock :: "input_gate_deps \<Rightarrow> gate_input \<Rightarrow> bool" where
  "wouldBlock d x \<longleftrightarrow> fst (evaluateInputGate x (resolveMode d)) = GateBlocked"

definition run_gate :: "input_gate_deps \<Rightarrow> block \<Rightarrow> int \<Rightarrow> run_input_gate" where
  "run_gate d b now = (case evaluateInputGate (ic_input d b) (resolveMode d) of (status, issues) \<Rightarrow>
     \<lparr>ig_status = status, ig_mode = resolveMode d, ig_issues = issues, ig_checkedAt = now,
      ig_overriddenBy = None, ig_overriddenAt = None\<rparr>)"

text \<open>
  The check of the preamble: nothing after the first step or when the run carries a verdict, else the
  verdict is stored and a blocked run parks. The result is the answer to the driver and the run.
\<close>

definition evaluate_gate :: "input_gate_deps \<Rightarrow> instance_rec \<Rightarrow> block \<Rightarrow> (advance_result option \<times> instance_rec) act" where
  "evaluate_gate d i b w =
     (if in_inputGate i \<noteq> None \<or> in_currentStep i \<noteq> 0 then (Inr (None, i), w)
      else
        (let gate = run_gate d b (wd_now w); i1 = i\<lparr>in_inputGate := Some gate\<rparr>
         in if ig_status gate \<noteq> GateBlocked
            then act_bind (casPersist i1) (\<lambda>i2. act_return (None, i2)) w
            else act_bind (parkStepOnDecision (ic_machine d) i1 (in_currentStep i)
                   (''The task's input is incomplete: '' @ describeInputGateIssues (ig_issues gate) @ ''.''))
                 (\<lambda>(aid, i2). act_then (raiseDecisionRequired (ic_machine d) i2)
                    (act_return (Some (AwaitingDecision aid), i2))) w))"

datatype gate_choice = RecheckInput | ProceedAnyway

definition awaits_input :: "instance_rec \<Rightarrow> bool" where
  "awaits_input i \<longleftrightarrow> map_option ig_status (in_inputGate i) = Some GateBlocked
     \<and> in_steps i \<noteq> [] \<and> map_option ap_status (st_approval (hd (in_steps i))) = Some ApprovalPending"

definition settled_gate :: "input_gate_issue list option \<Rightarrow> string option \<Rightarrow> int \<Rightarrow> run_input_gate \<Rightarrow> run_input_gate" where
  "settled_gate rechecked user now g = (case rechecked of
      Some issues \<Rightarrow>
        if hasBlockingInputIssues issues then g\<lparr>ig_issues := issues, ig_checkedAt := now\<rparr>
        else g\<lparr>ig_status := GatePassed, ig_issues := issues, ig_checkedAt := now\<rparr>
    | None \<Rightarrow> g\<lparr>ig_status := GateOverridden, ig_overriddenBy := Some user, ig_overriddenAt := Some now\<rparr>)"

definition still_blocked :: "input_gate_issue list option \<Rightarrow> bool" where
  "still_blocked rechecked = (case rechecked of None \<Rightarrow> False | Some issues \<Rightarrow> hasBlockingInputIssues issues)"

definition release_first_step :: "int \<Rightarrow> instance_rec \<Rightarrow> instance_rec" where
  "release_first_step now i =
     unblock (i\<lparr>in_steps := update_at 0 (\<lambda>s. startStep now (s\<lparr>st_approval := None\<rparr>)) (in_steps i)\<rparr>)"

text \<open>The mutation: the approval it answered and the settled verdict ride beside the run.\<close>

definition resolve_mutation ::
  "input_gate_issue list option \<Rightarrow> string option \<Rightarrow> int \<Rightarrow> instance_rec \<Rightarrow> run_error + instance_rec \<times> (string \<times> run_input_gate) option" where
  "resolve_mutation rechecked user now i =
     (if \<not> awaits_input i then Inl (DomainError ''input_gate_not_parked'')
      else (let g = settled_gate rechecked user now (the (in_inputGate i));
                i1 = i\<lparr>in_inputGate := Some g\<rparr>;
                aid = ap_id (the (st_approval (hd (in_steps i))))
            in Inr (if still_blocked rechecked then i1 else release_first_step now i1, Some (aid, g))))"

definition resolve_gate ::
  "input_gate_deps \<Rightarrow> (nat \<Rightarrow> world \<Rightarrow> world) \<Rightarrow> string \<Rightarrow> gate_choice \<Rightarrow> string option \<Rightarrow> run_input_gate decide" where
  "resolve_gate d env rid choice user w =
     (case get_run (wd_ws w) rid (wd_runs w) of
        Inl e \<Rightarrow> (Inl (MutationFailed (StoreRaised e)), w)
      | Inr None \<Rightarrow> (Inl (MutationFailed (NotFound rid)), w)
      | Inr (Some current) \<Rightarrow>
          (case in_inputGate current of
             Some g \<Rightarrow>
               if ig_status g \<noteq> GateBlocked then (Inl (MutationFailed (DomainError ''input_gate_not_parked'')), w)
               else (case block_in w (in_blockId current) of
                   None \<Rightarrow> (Inl (MutationFailed (NotFound (in_blockId current))), w)
                 | Some b \<Rightarrow>
                     (let rechecked = (if choice = RecheckInput
                            then Some (snd (evaluateInputGate (ic_input d b) (ig_mode g))) else None)
                      in act_bind (mutate_run (resolve_mutation rechecked user (wd_now w)) (\<lambda>i w. w) None env rid)
                           (\<lambda>(i, settled).
                              act_then (lift_act (emitInstance (ic_machine d) i))
                                (act_then (if still_blocked rechecked then act_return ()
                                           else signal_decision (in_id i) (fst (the settled)))
                                  (act_return (snd (the settled))))) w))
           | None \<Rightarrow> (Inl (MutationFailed (DomainError ''input_gate_not_parked'')), w)))"

section \<open>Laws\<close>

lemma blank_iff: "blank s \<longleftrightarrow> (\<forall>c \<in> set s. is_space c)"
proof -
  have "js_trim s = [] \<longleftrightarrow> (\<forall>c \<in> set (dropWhile is_space s). is_space c)"
    by (simp add: js_trim_def)
  moreover have "(\<forall>c \<in> set (dropWhile is_space s). is_space c) \<longleftrightarrow> (\<forall>c \<in> set s. is_space c)"
    by (induction s) auto
  ultimately show ?thesis by (simp add: blank_def)
qed

lemma space_lower [simp]: "is_space (lower c) \<longleftrightarrow> is_space c"
proof -
  define n where "n = (of_char c :: nat)"
  have shifted: "of_char (char_of (n + 32) :: char) = (n + 32 :: nat)" if "n \<le> 222"
    using that by (simp add: of_char_of)
  show ?thesis
  proof (cases "65 \<le> n \<and> n \<le> 90 \<or> 192 \<le> n \<and> n \<le> 222 \<and> n \<noteq> 215")
    case True
    then have "lower c = char_of (n + 32)" "n \<le> 222" by (auto simp: lower_def n_def)
    then have "is_space (lower c) \<longleftrightarrow> n + 32 \<in> {9, 10, 11, 12, 13, 32, 160}" by (simp only: is_space_def shifted)
    moreover have "n + 32 \<notin> {9, 10, 11, 12, 13, 32, 160}" "n \<notin> {9, 10, 11, 12, 13, 32, 160}" using True by auto
    ultimately show ?thesis by (simp add: is_space_def n_def)
  next
    case False
    then show ?thesis by (simp only: lower_def n_def [symmetric] Let_def if_False)
  qed
qed

lemma one_space_blank: "(\<forall>c \<in> set (one_space b s). is_space c) \<longleftrightarrow> (\<forall>c \<in> set s. is_space c)"
  by (induction b s rule: one_space.induct) (auto simp: is_space_def)

lemma normalized_blank: "normalize_text s = [] \<longleftrightarrow> blank s"
proof -
  have "normalize_text s = [] \<longleftrightarrow> blank (one_space False (map lower s))"
    by (simp add: normalize_text_def blank_def)
  then show ?thesis by (simp add: blank_iff one_space_blank)
qed

lemma description_blocks:
  "(\<exists>c. descriptionFinding t = Some c \<and> INPUT_GATE_SEVERITY c = BlockingInput) \<longleftrightarrow>
     blank t \<or> placeholderKey (normalize_text t) = [] \<or> placeholderKey (normalize_text t) \<in> set PLACEHOLDER_DESCRIPTIONS"
  by (auto simp: descriptionFinding_def Let_def INPUT_GATE_SEVERITY_def normalized_blank)

lemma type_blocks:
  "(\<exists>c \<in> set (typeFindings x). INPUT_GATE_SEVERITY c = BlockingInput) \<longleftrightarrow>
     gi_taskType x = Some ''bug'' \<and> blank (or_else (gi_stepsToReproduce x) []) \<and> \<not> hasReproductionCue (gi_description x)
   \<or> gi_taskType x = Some ''review'' \<and> nonempty (map_option js_trim (gi_prUrl x)) = None
       \<and> (case gi_prNumber x of None \<Rightarrow> True | Some n \<Rightarrow> n \<le> 0)"
  by (auto simp: typeFindings_def INPUT_GATE_SEVERITY_def normalized_blank split: option.splits)

lemma field_blocks:
  "(\<exists>p \<in> set (customFieldFindings x). INPUT_GATE_SEVERITY (fst p) = BlockingInput) \<longleftrightarrow>
     (\<exists>f \<in> set (or_else (gi_customFields x) []). fd_required f = Some True
        \<and> isDescriptorFieldVisible f (or_else (gi_custom x) [])
        \<and> \<not> isFilled (map_of (or_else (gi_custom x) []) (fd_key f)))"
  by (auto simp: customFieldFindings_def Let_def INPUT_GATE_SEVERITY_def unfilledRequiredDescriptorFields_def)

lemma gate_blocks:
  "fst (evaluateInputGate x mode) = GateBlocked \<longleftrightarrow>
     mode = GateStandard \<and> describesAuthoredTaskInput x
     \<and> (\<exists>p \<in> set (pending_issues x). INPUT_GATE_SEVERITY (fst p) = BlockingInput)"
  by (cases mode) (auto simp: evaluateInputGate_def hasBlockingInputIssues_def list_ex_iff issue_of_def Let_def
      case_prod_beta)

text \<open>A mutation that succeeds was decided on the run as it was stored at the swap.\<close>

lemma mutate_run_swap:
  assumes "mutate_run f (\<lambda>i w. w) none env rid w = (Inr (i', out), w')"
    and "\<forall>a b. f a = Inr b \<longrightarrow> in_id (fst b) = in_id a \<and> in_rev (fst b) = in_rev a"
  shows "\<exists>(v :: instance_rec) b (s0 :: world) (s1 :: world). get_run (wd_ws s0) rid (wd_runs s0) = Inr (Some v) \<and> f v = Inr b \<and> snd b = out
    \<and> stored_rev (wd_ws s1) rid (wd_runs s1) = Some (in_rev v)
    \<and> compareAndSwap (wd_ws s1) (wd_now s1) (fst b) (wd_runs s1) = Inr (True, i', wd_runs w')
    \<and> i' = (fst b)\<lparr>in_rev := Suc (in_rev v)\<rparr>"
proof -
  note frame = assms(2) [rule_format]
  have m: "mutate_attempts (read_run none) (swap_run (\<lambda>i w. w)) (\<lambda>io. f (fst io)) env (\<lambda>r. r) MAX_MUTATE_ATTEMPTS rid w
      = (Inr (i', out), w')"
    using assms(1) by (auto simp: mutate_run_def split: prod.splits sum.splits)
  from decision_cas.swapped_on_read_revision [OF m] frame obtain j s0 v b where
    v: "read_run none rid s0 = Inr (Some v)" "f (fst v) = Inr b" "swap_run (\<lambda>i w. w) b (env j s0) = Inr (True, (i', out), w')"
      "stored_rev (wd_ws (env j s0)) rid (wd_runs (env j s0)) = Some (in_rev (fst v))" by blast
  from v(3) obtain t' where swap: "compareAndSwap (wd_ws (env j s0)) (wd_now (env j s0)) (fst b) (wd_runs (env j s0))
      = Inr (True, i', t')" "snd b = out" "w' = (env j s0)\<lparr>wd_runs := t'\<rparr>"
    by (auto simp: swap_run_def Let_def split: sum.splits prod.splits)
  have "i' = (fst b)\<lparr>in_rev := Suc (in_rev (fst v))\<rparr>"
    using compareAndSwap_True [OF swap(1)] frame [OF v(2)] by auto
  moreover have "get_run (wd_ws s0) rid (wd_runs s0) = Inr (Some (fst v))"
    using v(1) by (auto simp: read_run_def split: sum.splits)
  ultimately show ?thesis using v swap
    by (intro exI [of _ "fst v"] exI [of _ b] exI [of _ s0] exI [of _ "env j s0"]) auto
qed

lemma resolve_frame:
  "resolve_mutation rechecked user now i = Inr b \<Longrightarrow> in_id (fst b) = in_id i \<and> in_rev (fst b) = in_rev i"
  by (auto simp: resolve_mutation_def Let_def release_first_step_def unblock_def split: if_splits)

text \<open>What an upsert leaves in the table.\<close>

lemma upsert_stored:
  assumes "upsert ws now i t = Inr (i2, t')"
  shows "\<exists>row. get_run ws (in_id i) t' = Inr (Some (normalised row (adoptCreatedAt i now)))
    \<and> in_inputGate i2 = in_inputGate i"
proof -
  let ?i = "adoptCreatedAt i now"
  obtain d where d: "executionToDetail ?i = Inr d" using assms by (auto simp: upsert_def Let_def split: sum.splits)
  have read: "rowToExecution row = Inr (normalised row ?i)"
    if "rr_detail row = Some d" "rr_id row = in_id i" "rr_block_id row = in_blockId i" "rr_status row = status_text (in_status i)" for row
    using that by (intro rowToExecution_written [OF d]) (simp_all add: adoptCreatedAt_def)
  have gate: "in_inputGate i2 = in_inputGate i"
  proof -
    have "in_inputGate ?i = in_inputGate i" by (simp add: adoptCreatedAt_def)
    with assms d show ?thesis by (auto simp: upsert_def Let_def bind_result_eq_Inr split: option.splits)
  qed
  show ?thesis
  proof (cases "find_row ws (in_id i) t")
    case None
    then have "find_row ws (in_id i) t' = Some (new_row ws now ?i d)"
      using assms by (auto simp: upsert_def Let_def d bind_result_eq_Inr commit_Inr find_row_append)
        (simp add: find_row_def has_key_def new_row_def adoptCreatedAt_def)
    then show ?thesis using read [of "new_row ws now ?i d"] gate
      by (auto simp: get_run_def new_row_def adoptCreatedAt_def)
  next
    case (Some r)
    then have "find_row ws (in_id i) t' = Some (write_row now ?i d r)"
      using assms find_row_Some [OF Some]
      by (auto simp: upsert_def Let_def d bind_result_eq_Inr commit_Inr find_row_update has_key_def)
    then show ?thesis using read [of "write_row now ?i d r"] gate find_row_Some [OF Some]
      by (auto simp: get_run_def write_row_def adoptCreatedAt_def)
  qed
qed

lemma cas_stored:
  assumes "casPersist i w = (Inr i2, w')"
  shows "\<exists>row. get_run (wd_ws w) (in_id i) (wd_runs w') = Inr (Some (normalised row i)) \<and> in_inputGate i2 = in_inputGate i"
proof -
  obtain t' where cas: "compareAndSwap (wd_ws w) (wd_now w) i (wd_runs w) = Inr (True, i2, t')" and w': "w' = w\<lparr>wd_runs := t'\<rparr>"
    using assms unfolding casPersist_Inr by blast
  from compareAndSwap_True [OF cas] obtain r d where d: "executionToDetail i = Inr d"
    "find_row (wd_ws w) (in_id i) (wd_runs w) = Some r" "find_row (wd_ws w) (in_id i) t' = Some (write_row (wd_now w) i d r)"
    "i2 = i\<lparr>in_rev := Suc (in_rev i)\<rparr>" by blast
  have "rowToExecution (write_row (wd_now w) i d r) = Inr (normalised (write_row (wd_now w) i d r) i)"
    using find_row_Some [OF d(2)] by (intro rowToExecution_written [OF d(1)]) simp_all
  with d show ?thesis by (auto simp: w' get_run_def)
qed

lemma park_stored:
  assumes "parkStepOnDecision deps i k p w = (Inr (aid, i2), w1)"
  shows "\<exists>row. get_run (wd_ws w) (in_id i) (wd_runs w1) = Inr (Some (normalised row (adoptCreatedAt (parked_run deps i k p w) (wd_now w))))
    \<and> in_inputGate i2 = in_inputGate i"
proof -
  obtain i3 where up: "upsert (wd_ws w) (wd_now w) (parked_run deps i k p w) (wd_runs w) = Inr (i3, wd_runs w1)"
    and i2: "i2 = stamp_run_id i3"
    using assms by (auto simp: parkStepOnDecision_def openDecisionPark_def updateBlockProgress_def upsertRun_def emitInstance_eq
        act_simps Let_def parked_run_def [symmetric] split: sum.splits prod.splits)
  from upsert_stored [OF up] show ?thesis by (auto simp: i2 stamp_run_id_def parked_run_def)
qed

lemma decision_card_keeps_runs: "raiseDecisionRequired deps i w = (Inr x, w') \<Longrightarrow> wd_runs w' = wd_runs w"
  by (auto simp: raiseDecisionRequired_def raise_card_def Let_def split: option.splits if_splits)

section \<open>Properties\<close>

text \<open>
  C21. The input of a run is checked once: the check stores its verdict with the run before it answers, it
  parks exactly on a blocked verdict, and any later check of that run, of whatever the task says by
  then, finds the verdict and does nothing.
\<close>

theorem input_is_checked_once:
  assumes "evaluate_gate d i b w = (Inr (r, i'), w')" "in_inputGate i = None" "in_currentStep i = 0"
  shows "(\<exists>k. get_run (wd_ws w) (in_id i) (wd_runs w') = Inr (Some k) \<and> in_inputGate k = Some (run_gate d b (wd_now w)))
    \<and> (r \<noteq> None \<longleftrightarrow> fst (evaluateInputGate (ic_input d b) (resolveMode d)) = GateBlocked)
    \<and> evaluate_gate d2 i' b2 w2 = (Inr (None, i'), w2)"
proof -
  let ?i = "i\<lparr>in_inputGate := Some (run_gate d b (wd_now w))\<rparr>"
  have status: "ig_status (run_gate d b (wd_now w)) = fst (evaluateInputGate (ic_input d b) (resolveMode d))"
    by (simp add: run_gate_def split: prod.split)
  have "(\<exists>k. get_run (wd_ws w) (in_id i) (wd_runs w') = Inr (Some k) \<and> in_inputGate k = Some (run_gate d b (wd_now w)))
    \<and> (r \<noteq> None \<longleftrightarrow> fst (evaluateInputGate (ic_input d b) (resolveMode d)) = GateBlocked)
    \<and> in_inputGate i' = Some (run_gate d b (wd_now w))"
  proof (cases "ig_status (run_gate d b (wd_now w)) = GateBlocked")
    case False
    with assms obtain i2 where "casPersist ?i w = (Inr i2, w')" "r = None" "i' = i2"
      by (auto simp: evaluate_gate_def Let_def act_bind_Inr act_return_def)
    then show ?thesis using cas_stored [of ?i w i2 w'] False by (auto simp: normalised_def status)
  next
    case True
    with assms obtain p aid i2 w1 where park: "parkStepOnDecision (ic_machine d) ?i 0 p w = (Inr (aid, i2), w1)"
      and "raiseDecisionRequired (ic_machine d) i2 w1 = (Inr (), w')" "r = Some (AwaitingDecision aid)" "i' = i2"
      by (auto simp: evaluate_gate_def Let_def act_bind_Inr act_then_def act_return_def)
    then show ?thesis using park_stored [OF park] decision_card_keeps_runs [of "ic_machine d" i2 w1 "()" w'] True
      by (auto simp: normalised_def adoptCreatedAt_def parked_run_def status)
  qed
  then show ?thesis by (auto simp: evaluate_gate_def)
qed

definition blank_input :: "block \<Rightarrow> gate_input" where
  "blank_input b = \<lparr>gi_description = bl_description b, gi_level = bl_level b, gi_taskType = None, gi_stepsToReproduce = None,
     gi_successCriteria = None, gi_researchQuestion = None, gi_prNumber = None, gi_prUrl = None, gi_custom = None,
     gi_customFields = None\<rparr>"

definition standard_gate :: input_gate_deps where
  "standard_gate = \<lparr>ic_machine = example_deps, ic_mode = Some GateStandard, ic_input = blank_input\<rparr>"

definition unclear_world :: world where
  "unclear_world = (example_world stored_example)\<lparr>wd_blocks := [(bare_block ''b1'' TaskLevel None)\<lparr>bl_description := ''**TBD.**''\<rparr>]\<rparr>"

definition parked_on_input :: "(machine_error + advance_result option \<times> instance_rec) \<times> world" where
  "parked_on_input = evaluate_gate standard_gate example_run (hd (wd_blocks unclear_world)) unclear_world"

theorem input_is_checked_once_witness:
  "\<exists>r i'. fst parked_on_input = Inr (r, i') \<and> r \<noteq> None
     \<and> evaluate_gate standard_gate i' (bare_block ''b1'' TaskLevel None) unclear_world = (Inr (None, i'), unclear_world)"
proof -
  have "case fst parked_on_input of Inr (r, i') \<Rightarrow> r \<noteq> None | Inl _ \<Rightarrow> False" by code_simp
  then obtain r i' where fst: "fst parked_on_input = Inr (r, i')" "r \<noteq> None" by (auto split: sum.splits prod.splits)
  then have parked: "evaluate_gate standard_gate example_run (hd (wd_blocks unclear_world)) unclear_world
      = (Inr (r, i'), snd parked_on_input)" by (simp add: prod_eq_iff parked_on_input_def)
  have "evaluate_gate standard_gate i' (bare_block ''b1'' TaskLevel None) unclear_world = (Inr (None, i'), unclear_world)"
    using input_is_checked_once [OF parked, where ?d2.0 = standard_gate and ?b2.0 = "bare_block ''b1'' TaskLevel None"
        and ?w2.0 = unclear_world] by (simp add: example_run_def bare_run_def)
  with fst show ?thesis by blast
qed

text \<open>
  C24. What parks a run before its first dispatch is an absence, never a judgement: the check blocks
  exactly in its standard mode, on a task whose brief a person wrote, when the description is blank or
  says nothing, a bug has neither steps nor a cue to reproduce it, a review has no pull request, or a
  field the task's type requires and shows is not filled.
\<close>

theorem input_check_blocks_exactly:
  "fst (evaluateInputGate x mode) = GateBlocked \<longleftrightarrow>
     mode = GateStandard \<and> describesAuthoredTaskInput x
     \<and> (blank (gi_description x)
        \<or> placeholderKey (normalize_text (gi_description x)) = []
        \<or> placeholderKey (normalize_text (gi_description x)) \<in> set PLACEHOLDER_DESCRIPTIONS
        \<or> gi_taskType x = Some ''bug'' \<and> blank (or_else (gi_stepsToReproduce x) []) \<and> \<not> hasReproductionCue (gi_description x)
        \<or> gi_taskType x = Some ''review'' \<and> nonempty (map_option js_trim (gi_prUrl x)) = None
            \<and> (case gi_prNumber x of None \<Rightarrow> True | Some n \<Rightarrow> n \<le> 0)
        \<or> (\<exists>f \<in> set (or_else (gi_customFields x) []). fd_required f = Some True
            \<and> isDescriptorFieldVisible f (or_else (gi_custom x) [])
            \<and> \<not> isFilled (map_of (or_else (gi_custom x) []) (fd_key f))))"
proof -
  have "(\<exists>p \<in> set (pending_issues x). INPUT_GATE_SEVERITY (fst p) = BlockingInput) \<longleftrightarrow>
      (\<exists>c. descriptionFinding (gi_description x) = Some c \<and> INPUT_GATE_SEVERITY c = BlockingInput)
      \<or> (\<exists>c \<in> set (typeFindings x). INPUT_GATE_SEVERITY c = BlockingInput)
      \<or> (\<exists>p \<in> set (customFieldFindings x). INPUT_GATE_SEVERITY (fst p) = BlockingInput)"
    by (cases "descriptionFinding (gi_description x)") (simp_all add: pending_issues_def bex_Un)
  then show ?thesis unfolding gate_blocks description_blocks type_blocks field_blocks by blast
qed

text \<open>
  C22. A run parked on its input is released on purpose: answering the park decides on the run as it is
  stored at the swap and finds it still parked; the run stays parked exactly when the task, read again,
  still has a blocking gap, an override is recorded as one, and a released run has its first step
  working with no approval left open.
\<close>

theorem input_park_is_released_on_purpose:
  assumes "resolve_gate d env rid choice user w = (Inr g, w')"
  shows "\<exists>current b (v :: instance_rec) i' (s0 :: world) (s1 :: world) t'.
      get_run (wd_ws w) rid (wd_runs w) = Inr (Some current) \<and> block_in w (in_blockId current) = Some b
    \<and> get_run (wd_ws s0) rid (wd_runs s0) = Inr (Some v) \<and> awaits_input v
    \<and> stored_rev (wd_ws s1) rid (wd_runs s1) = Some (in_rev v)
    \<and> compareAndSwap (wd_ws s1) (wd_now s1) (i'\<lparr>in_rev := in_rev v\<rparr>) (wd_runs s1) = Inr (True, i', t')
    \<and> in_inputGate i' = Some g
    \<and> (ig_status g = GateBlocked \<longleftrightarrow> choice = RecheckInput
         \<and> hasBlockingInputIssues (snd (evaluateInputGate (ic_input d b) (ig_mode (the (in_inputGate current))))))
    \<and> (ig_status g = GateOverridden \<longleftrightarrow> choice = ProceedAnyway)
    \<and> (if ig_status g = GateBlocked then in_steps i' = in_steps v \<and> in_status i' = in_status v
       else st_approval (hd (in_steps i')) = None \<and> st_state (hd (in_steps i')) = Working \<and> in_status i' \<noteq> Blocked)"
proof -
  obtain current g0 b where cur: "get_run (wd_ws w) rid (wd_runs w) = Inr (Some current)" "in_inputGate current = Some g0"
    "block_in w (in_blockId current) = Some b"
    using assms by (auto simp: resolve_gate_def split: sum.splits option.splits if_splits)
  define rechecked where "rechecked = (if choice = RecheckInput
      then Some (snd (evaluateInputGate (ic_input d b) (ig_mode g0))) else None)"
  obtain i' out w1 where m: "mutate_run (resolve_mutation rechecked user (wd_now w)) (\<lambda>i w. w) None env rid w = (Inr (i', out), w1)"
    and g: "g = snd (the out)"
    using assms cur by (auto simp: resolve_gate_def rechecked_def [symmetric] Let_def act_bind_Inr act_core split: if_splits prod.splits sum.splits)
  obtain v :: instance_rec and nxt and s0 s1 :: world where
    v: "get_run (wd_ws s0) rid (wd_runs s0) = Inr (Some v)" "resolve_mutation rechecked user (wd_now w) v = Inr nxt" "snd nxt = out"
      "stored_rev (wd_ws s1) rid (wd_runs s1) = Some (in_rev v)"
      "compareAndSwap (wd_ws s1) (wd_now s1) (fst nxt) (wd_runs s1) = Inr (True, i', wd_runs w1)"
      "i' = (fst nxt)\<lparr>in_rev := Suc (in_rev v)\<rparr>"
    using mutate_run_swap [OF m] resolve_frame by meson
  have parked: "awaits_input v" and gate: "g = settled_gate rechecked user (wd_now w) (the (in_inputGate v))"
    and run: "in_inputGate i' = Some g" "in_steps i' = (if still_blocked rechecked then in_steps v
        else update_at 0 (\<lambda>s. startStep (wd_now w) (s\<lparr>st_approval := None\<rparr>)) (in_steps v))"
      "in_status i' = (if \<not> still_blocked rechecked \<and> in_status v = Blocked then Running else in_status v)"
    using v(2,3,6) g by (auto simp: resolve_mutation_def Let_def release_first_step_def unblock_def split: if_splits)
  have status: "ig_status g = (case rechecked of None \<Rightarrow> GateOverridden
      | Some issues \<Rightarrow> if hasBlockingInputIssues issues then GateBlocked else GatePassed)"
    using parked by (auto simp: gate settled_gate_def awaits_input_def split: option.splits)
  have "i'\<lparr>in_rev := in_rev v\<rparr> = fst nxt" using v(6) resolve_frame [OF v(2)] by simp
  then have "compareAndSwap (wd_ws s1) (wd_now s1) (i'\<lparr>in_rev := in_rev v\<rparr>) (wd_runs s1) = Inr (True, i', wd_runs w1)"
    using v(5) by simp
  moreover have "st_approval (hd (in_steps i')) = None" "st_state (hd (in_steps i')) = Working" if "\<not> still_blocked rechecked"
    using parked that run(2)
    by (cases "in_steps v"; auto simp: awaits_input_def update_at_def startStep_def Let_def)+
  moreover have "still_blocked rechecked \<longleftrightarrow> ig_status g = GateBlocked"
    by (simp add: status still_blocked_def split: option.split)
  moreover have "(ig_status g = GateBlocked \<longleftrightarrow> choice = RecheckInput
         \<and> hasBlockingInputIssues (snd (evaluateInputGate (ic_input d b) (ig_mode (the (in_inputGate current))))))
    \<and> (ig_status g = GateOverridden \<longleftrightarrow> choice = ProceedAnyway)"
    using cur(2) by (cases choice) (simp_all add: status rechecked_def)
  moreover have "in_status i' \<noteq> Blocked" if "\<not> still_blocked rechecked" using run(3) that by simp
  ultimately show ?thesis using cur v(1,4) parked run
    by - (rule exI [of _ current], rule exI [of _ b], rule exI [of _ v], rule exI [of _ i'],
        rule exI [of _ s0], rule exI [of _ s1], rule exI [of _ "wd_runs w1"], simp)
qed

theorem input_park_is_released_on_purpose_witness:
  "\<exists>g w'. resolve_gate standard_gate (\<lambda>n w. w) ''r1'' ProceedAnyway (Some ''usr_1'') (snd parked_on_input) = (Inr g, w')
     \<and> ig_status g = GateOverridden"
proof -
  let ?r = "resolve_gate standard_gate (\<lambda>n w. w) ''r1'' ProceedAnyway (Some ''usr_1'') (snd parked_on_input)"
  have "case fst ?r of Inr g \<Rightarrow> True | Inl _ \<Rightarrow> False" by code_simp
  then obtain g where "fst ?r = Inr g" by (auto split: sum.splits)
  then have r: "?r = (Inr g, snd ?r)" by (simp add: prod_eq_iff)
  from input_park_is_released_on_purpose [OF r] have "ig_status g = GateOverridden" by blast
  with r show ?thesis by blast
qed

end
