(* ===== verification/Spec2Isabelle.thy ===== *)
theory Spec2Isabelle
  imports Prelude Verdicts Ralph FormFields AgentKinds RunModel GateApproval PipelineShape PipelineApprovals StepGraph Retry RunStore Delegation BlockModel Board RunMachine Lifecycle RunRefinement Drive GateStep RunSteps EnvLifecycle StepDecision Initiative InitiativeLoop BoardService ChangeClass MergePolicy MergeRecord MergeStep SpendPricing Spend Recovery InputGate
begin

text \<open>
  A verification library for the delivery engine of cat-factory. The program runs software tasks of a
  board through pipelines of agent steps: a run holds the steps of its pipeline, a durable driver
  advances it one transition at a time, gates poll external state between steps, and an initiative
  spawns the tasks of a plan and follows them. The library models the TypeScript of
  \<^verbatim>\<open>src/backend/packages/{kernel,contracts,agents,orchestration,server,spend}\<close> and the D1 repositories of
  \<^verbatim>\<open>src/backend/runtimes/cloudflare\<close>; the names of the definitions are those of the code.

  \<^bold>\<open>Parts and theories.\<close>
  \<^item> \<open>Prelude\<close>: named collections of simplification rules, lists, text and JavaScript's falsy strings,
    and the \<open>action\<close> monad in which a handler reads and writes a state or throws.
  \<^item> \<open>Verdicts\<close> (\<^verbatim>\<open>gate-logic.ts\<close>, \<^verbatim>\<open>judge-logic.ts\<close>, \<^verbatim>\<open>companion-logic.ts\<close>), \<open>Ralph\<close>
    (\<^verbatim>\<open>ralph.logic.ts\<close>): the pure rules that decide what a verdict does to a run.
  \<^item> \<open>RunModel\<close> (\<^verbatim>\<open>contracts/execution.ts\<close>), \<open>StepGraph\<close>, \<open>Retry\<close>: the run, the mutators of its steps,
    and the planning of retries and restarts.
  \<^item> \<open>RunStore\<close> (\<^verbatim>\<open>mappers.ts\<close>, \<^verbatim>\<open>D1ExecutionRepository.ts\<close>, \<^verbatim>\<open>RunStateMachine.mutateInstance\<close>): rows,
    their text form, swaps guarded by a revision, and the optimistic mutation over them.
    \<open>Lifecycle\<close> interleaves all writers of that table as a step relation, and \<open>RunRefinement\<close> shows
    that it implements an abstract ledger of who holds which block.
  \<^item> \<open>Delegation\<close> (\<^verbatim>\<open>step-fold.logic.ts\<close>, \<^verbatim>\<open>awaitingJob.logic.ts\<close>, \<^verbatim>\<open>job.logic.ts\<close>), \<open>RunMachine\<close>
    (\<^verbatim>\<open>RunStateMachine.ts\<close>), \<open>GateStep\<close> (\<^verbatim>\<open>GateStepController.ts\<close> and the dispatch of a step), \<open>Drive\<close>
    (\<^verbatim>\<open>drive.ts\<close>): jobs and delegations, the transitions of a run over store, board, cards and
    reclaims, the polling gates, and the driver's loop.
  \<^item> \<open>FormFields\<close> (\<^verbatim>\<open>form-fields.ts\<close>, \<^verbatim>\<open>gate-config.ts\<close>), \<open>AgentKinds\<close> (\<^verbatim>\<open>agents/kinds/registry.ts\<close> and its
    neighbours), \<open>GateApproval\<close> (\<^verbatim>\<open>gate-approval.ts\<close>, \<^verbatim>\<open>pipeline-approvals.ts\<close>), \<open>PipelineShape\<close>,
    \<open>PipelineApprovals\<close> (the files of these names under \<^verbatim>\<open>modules/pipelines\<close>), \<open>EnvLifecycle\<close>
    (\<^verbatim>\<open>pipeline-environment-lifecycle.ts\<close>): the parameters of a gate, the kinds of agents, who may
    approve, and what a pipeline must satisfy to be saved.
  \<^item> \<open>RunSteps\<close> (\<^verbatim>\<open>RunLifecycleController.ts\<close>, \<^verbatim>\<open>stepPreamble.ts\<close>, \<^verbatim>\<open>stepGating.logic.ts\<close>): the steps a
    launch builds from a pipeline and what a run skips; \<open>StepDecision\<close>
    (\<^verbatim>\<open>StepDecisionController.ts\<close>, \<^verbatim>\<open>step-park.logic.ts\<close>): the endpoints by which people decide on a step.
  \<^item> \<open>InputGate\<close> (\<^verbatim>\<open>kernel/input-gate.ts\<close>, \<^verbatim>\<open>InputGateController.ts\<close>): the check of a task's own input
    before the first dispatch; \<open>Recovery\<close> (\<^verbatim>\<open>job.logic.ts\<close>, \<^verbatim>\<open>PollCompletionController.ts\<close>,
    \<^verbatim>\<open>PollRunningController.ts\<close>): what a failed job is answered with.
  \<^item> \<open>BlockModel\<close>, \<open>Board\<close> (\<^verbatim>\<open>board.logic.ts\<close>, \<^verbatim>\<open>block-tree.ts\<close>), \<open>BoardService\<close>
    (\<^verbatim>\<open>BoardService.ts\<close>, \<^verbatim>\<open>reparentWrite.ts\<close>, \<^verbatim>\<open>blockRemoval.ts\<close>): blocks, the pure computations on a
    board, and the writes over the boards of several workspaces.
  \<^item> \<open>ChangeClass\<close> (\<^verbatim>\<open>change-class.ts\<close>), \<open>MergePolicy\<close> (\<^verbatim>\<open>merge.ts\<close>, \<^verbatim>\<open>mergePrecedence.ts\<close>,
    \<^verbatim>\<open>riskPolicyResolution.ts\<close>, \<^verbatim>\<open>risk-policy-selection.ts\<close>, \<^verbatim>\<open>WorkspaceRiskPolicyLibrary.ts\<close>),
    \<open>MergeRecord\<close> (\<^verbatim>\<open>MergeTrackRecordService.ts\<close>), \<open>MergeStep\<close> (\<^verbatim>\<open>MergeResolver.ts\<close>,
    \<^verbatim>\<open>ExecutionService.finalizeMerge\<close>, \<^verbatim>\<open>StepDecisionController.mergePr\<close>): what kind of change a pull
    request is, which policy governs it, what is remembered of its merge, and the merge itself.
  \<^item> \<open>SpendPricing\<close> (\<^verbatim>\<open>spend/pricing.ts\<close>), \<open>Spend\<close> (\<^verbatim>\<open>spend/SpendService.ts\<close>, \<^verbatim>\<open>forecast.logic.ts\<close>,
    \<^verbatim>\<open>D1TokenUsageRepository.ts\<close>, \<^verbatim>\<open>spendAlerts.ts\<close>): what a call costs, the calendar months it is billed
    in, the ledger, the tiers of a budget, the forecast and the cards that warn of it.
  \<^item> \<open>Initiative\<close> (\<^verbatim>\<open>initiative.logic.ts\<close>), \<open>InitiativeLoop\<close> (\<^verbatim>\<open>InitiativeService.ts\<close>,
    \<^verbatim>\<open>InitiativeLoopService.ts\<close>): plans, interviews and the loop that spawns the tasks of a plan.

  \<^bold>\<open>State and errors.\<close> A stateful component is a record of what it can see (rows, boards, cards, effects
  in order) passed explicitly; a throw is \<open>Inl\<close> of a datatype of the component's errors with the state
  at the throw. Messages of errors are constructors; dashes outside ASCII in texts are hyphens.

  \<^bold>\<open>What is shown.\<close> The lemmas of a component give its operations on every branch; on them rest the
  properties: no two live runs of a block and no lost update under any interleaving, by refinement too;
  human checkpoints of an accepted pipeline are reached, gates open at their quorum and their
  resolutions are final; nothing merges without every consent, a merge lands in one order and its record
  is final; a used-up budget stays used up, forecast and warning agree and warnings are few; environments stand when they are used; what is announced is stored; claims precede starts;
  the input of a run is checked once and its park is left on purpose; budgets bound helpers, polls, reworks and the
  recoveries of a failing step; the driver and the loops return; plans that validate do not deadlock; boards stay legal trees and, write by write, acyclic
  graphs; and the places where the code departs from its own comments, as closed counterexamples.

  \<^bold>\<open>Bounds and fuel.\<close> \<open>mutateInstance\<close> and the mutation of an initiative take the attempts of the code.
  \<open>driveExecution\<close> takes fuel: a property gives the fuel at which it returns. Searches over
  dependencies and children recurse on a decreasing measure; the walk up a tree is a partial function
  and is shown to return on legal trees.

  \<^bold>\<open>Parameters.\<close> What lies outside is an argument: the interference of other requests (\<open>env\<close>), probes of
  providers (\<open>ge_probe\<close>), executors (\<open>start\<close>), starting a run (\<open>ld_start\<close>), notifications, clocks and
  generated ids, the answers of a host to a merge. The store's laws are the locale of \<open>RunStore\<close>, interpreted on the modelled table (and, for
  the decisions on a step, on the world they write); the contract of a simulation is the locale of \<open>RunRefinement\<close>.

  \<^bold>\<open>Not modelled.\<close> Prompt texts, positions and layout, the assembly of an agent's context, HTTP
  transport, the clients of external services, the user interface and generated code: they hold no
  state of the engine or are views of it. The step controllers other than gates, decisions and the input
  check (review, tester, deployer, human test), admission of a run, and workspaces are left for later.
\<close>

end
